(* ===== verification/Rdma_Prelude.thy ===== *)
theory Rdma_Prelude
  imports "HOL-Library.Word"
begin

text \<open>
  Shared vocabulary of the development: the machine types of the C++ code, the outcome type
  for undefined behaviour, the bit-level toolkit for packed words, and the interface locale
  \<open>index_pool\<close> that every free-list of the program (RPC slots, buffers, connection ids,
  value slots of the key-value store) implements.
\<close>

unbundle bit_operations_syntax

section \<open>Machine types\<close>

type_synonym u8 = "8 word"
type_synonym u16 = "16 word"
type_synonym u32 = "32 word"
type_synonym u64 = "64 word"

text \<open>\<open>size_t\<close>, \<open>uintptr_t\<close> and pointers are 64 bits wide on the targets of the framework.\<close>

type_synonym size_t = u64
type_synonym ptr = u64

abbreviation nullptr :: ptr where
  "nullptr \<equiv> 0"

section \<open>Undefined behaviour as a value\<close>

text \<open>
  An access that C++ leaves undefined is a branch of the model: \<open>Inl\<close> of the kind of
  violation. \<open>Inr\<close> carries the result of a defined execution.
\<close>

datatype ub = Out_Of_Bounds | Null_Call | Null_Deref | Div_By_Zero | Uninit_Read | Signed_Overflow | Bad_Shift

type_synonym 'a chk = "ub + 'a"

fun bind_chk :: "'a chk \<Rightarrow> ('a \<Rightarrow> 'b chk) \<Rightarrow> 'b chk" where
  "bind_chk (Inl e) f = Inl e"
| "bind_chk (Inr x) f = f x"

lemma bind_chk_eq_Inr_conv:
  "bind_chk m f = Inr y \<longleftrightarrow> (\<exists>x. m = Inr x \<and> f x = Inr y)"
  by (cases m) auto

lemma bind_chk_eq_Inl_conv:
  "bind_chk m f = Inl u \<longleftrightarrow> m = Inl u \<or> (\<exists>x. m = Inr x \<and> f x = Inl u)"
  by (cases m) auto

lemma bind_chk_assoc: "bind_chk (bind_chk m f) g = bind_chk m (\<lambda>x. bind_chk (f x) g)"
  by (cases m) auto

section \<open>Collections of rewrite rules\<close>

named_theorems mask_folds \<open>hexadecimal masks of the source as \<open>mask n\<close>\<close>
named_theorems invar_simps \<open>component invariants unfolded\<close>

section \<open>Packed words\<close>

lemma mask8_u8 [mask_folds]: "(0xFF :: u8) = mask 8"
  by (simp add: mask_eq_exp_minus_1)

lemma mask8_u16 [mask_folds]: "(0xFF :: u16) = mask 8"
  by (simp add: mask_eq_exp_minus_1)

lemma mask8_u32 [mask_folds]: "(0xFF :: u32) = mask 8"
  by (simp add: mask_eq_exp_minus_1)

lemma mask8_u64 [mask_folds]: "(0xFF :: u64) = mask 8"
  by (simp add: mask_eq_exp_minus_1)

lemma mask12_u32 [mask_folds]: "(0xFFF :: u32) = mask 12"
  by (simp add: mask_eq_exp_minus_1)

lemma mask16_u32 [mask_folds]: "(0xFFFF :: u32) = mask 16"
  by (simp add: mask_eq_exp_minus_1)

lemma mask20_u32 [mask_folds]: "(0xFFFFF :: u32) = mask 20"
  by (simp add: mask_eq_exp_minus_1)

lemma mask24_u32 [mask_folds]: "(0xFFFFFF :: u32) = mask 24"
  by (simp add: mask_eq_exp_minus_1)

lemma mask32_u64 [mask_folds]: "(0xFFFFFFFF :: u64) = mask 32"
  by (simp add: mask_eq_exp_minus_1)

text \<open>A word no wider than \<open>n\<close> bits has no bit at or above \<open>n\<close>.\<close>

lemma bit_u8_le: "bit (x :: u8) n \<Longrightarrow> n < 8"
  by (drule bit_imp_le_length) simp

lemma bit_u16_le: "bit (x :: u16) n \<Longrightarrow> n < 16"
  by (drule bit_imp_le_length) simp

lemma bit_u32_le: "bit (x :: u32) n \<Longrightarrow> n < 32"
  by (drule bit_imp_le_length) simp

lemma bit_u64_le: "bit (x :: u64) n \<Longrightarrow> n < 64"
  by (drule bit_imp_le_length) simp

lemmas bit_width_dests = bit_u8_le bit_u16_le bit_u32_le bit_u64_le

lemma unat_u8_lt: "unat (x :: u8) < 256"
  using unsigned_less [of x, where ?'a = nat] by simp

lemma unat_u16_lt: "unat (x :: u16) < 65536"
  using unsigned_less [of x, where ?'a = nat] by simp

lemma unat_u32_lt: "unat (x :: u32) < 4294967296"
  using unsigned_less [of x, where ?'a = nat] by simp

lemma unat_u64_lt: "unat (x :: u64) < 18446744073709551616"
  using unsigned_less [of x, where ?'a = nat] by simp

lemmas unat_bounds = unat_u8_lt unat_u16_lt unat_u32_lt unat_u64_lt

lemma bit_imp_le_unat: "bit x n \<Longrightarrow> 2 ^ n \<le> unat x" for x :: "'a::len word"
proof (rule ccontr)
  assume "bit x n" and "\<not> 2 ^ n \<le> unat x"
  then have "unat x div 2 ^ n = 0" by simp
  moreover have "bit (unat x) n" using \<open>bit x n\<close> by (simp add: bit_unsigned_iff bit_imp_le_length)
  ultimately show False by (simp add: bit_iff_odd)
qed

lemma unat_ucast_mod: "unat (ucast w :: 'b::len word) = unat w mod 2 ^ LENGTH('b)"
  by (simp add: unsigned_ucast_eq take_bit_eq_mod)

lemma unat_eq_mod_mask: "unat (x AND mask n) = unat x mod 2 ^ n" for x :: "'a::len word"
  by (metis take_bit_eq_mask take_bit_eq_mod unsigned_take_bit_eq)

lemma and_mask_lt: "n < LENGTH('a) \<Longrightarrow> unat (x AND mask n) < 2 ^ n" for x :: "'a::len word"
  by (simp add: unat_eq_mod_mask)

lemma add_mod_neq:
  fixes a k n :: nat
  assumes "0 < k" and "k < n"
  shows "(a + k) mod n \<noteq> a mod n"
proof
  assume "(a + k) mod n = a mod n"
  then have "n dvd a + k - a" by (subst (asm) mod_eq_dvd_iff_nat) simp_all
  with assms show False by (auto dest: dvd_imp_le)
qed

lemma add_mod_inject:
  fixes a k l n :: nat
  assumes "k < n" and "l < n"
  shows "(a + k) mod n = (a + l) mod n \<longleftrightarrow> k = l"
proof -
  have "(a + k) mod n \<noteq> (a + l) mod n" if "k < l" "l < n" for k l
    using add_mod_neq [of "l - k" n "a + k"] that less_imp_diff_less [of l n k] by simp
  then show ?thesis using assms by (metis linorder_neqE_nat)
qed

lemma sum_lessThan_add: "sum f {..<m + n} = sum f {..<m} + (\<Sum>i<n. f (m + i))"
  for m n :: nat and f :: "nat \<Rightarrow> nat"
  by (induction n) (simp_all add: ac_simps)

lemma unat_of_nat_less: "n < 2 ^ LENGTH('a) \<Longrightarrow> unat (of_nat n :: 'a::len word) = n"
  by (simp add: unat_of_nat)

section \<open>Byte order\<close>

text \<open>
  \<open>htonl\<close> and \<open>ntohl\<close> of \<open>arpa/inet.h\<close> on a little-endian host: the four bytes in the
  opposite order.
\<close>

definition bswap32 :: "u32 \<Rightarrow> u32" where
  "bswap32 x = push_bit 24 (x AND 0xFF) OR push_bit 8 (x AND 0xFF00)
     OR (drop_bit 8 x AND 0xFF00) OR (drop_bit 24 x AND 0xFF)"

abbreviation htonl :: "u32 \<Rightarrow> u32" where
  "htonl \<equiv> bswap32"

abbreviation ntohl :: "u32 \<Rightarrow> u32" where
  "ntohl \<equiv> bswap32"

lemma mask_ff00_u32: "(0xFF00 :: u32) = push_bit 8 (mask 8)"
  by (simp add: mask_eq_exp_minus_1 push_bit_eq_mult)

lemma bit_bswap32:
  "bit (bswap32 x) n \<longleftrightarrow>
     (if n < 8 then bit x (n + 24)
      else if n < 16 then bit x (n + 8)
      else if n < 24 then bit x (n - 8)
      else n < 32 \<and> bit x (n - 24))"
  unfolding bswap32_def mask_ff00_u32 mask8_u32
  by (simp add: bit_simps add.commute) (auto dest: bit_u32_le)

lemma bswap32_involutive [simp]: "bswap32 (bswap32 x) = x"
  by (rule bit_word_eqI) (auto simp: bit_bswap32)

section \<open>Bytes of a word in memory\<close>

text \<open>The object representation of an integer on the little-endian targets of the framework, lowest byte first.\<close>

definition le_bytes :: "nat \<Rightarrow> 'a::len word \<Rightarrow> u8 list" where
  "le_bytes n w = map (\<lambda>i. ucast (drop_bit (8 * i) w)) [0..<n]"

fun le_word :: "u8 list \<Rightarrow> 'a::len word" where
  "le_word [] = 0"
| "le_word (b # bs) = ucast b OR push_bit 8 (le_word bs)"

lemma length_le_bytes [simp]: "length (le_bytes n w) = n"
  by (simp add: le_bytes_def)

lemma le_bytes_Suc: "le_bytes (Suc n) w = ucast w # le_bytes n (drop_bit 8 w)"
  by (simp add: le_bytes_def upt_conv_Cons map_Suc_upt [symmetric] del: upt_Suc) (simp add: add.commute)

lemma bit_le_word_bytes: "bit (le_word (le_bytes n w) :: 'a::len word) k \<longleftrightarrow> k < 8 * n \<and> bit w k" for w :: "'a::len word"
proof (induction n arbitrary: w k)
  case 0
  then show ?case by (simp add: le_bytes_def)
next
  case (Suc n)
  show ?case
  proof (cases "k < 8")
    case True
    then show ?thesis by (auto simp: le_bytes_Suc bit_simps dest: bit_imp_le_length)
  next
    case False
    then have "bit (ucast (ucast w :: u8) :: 'a word) k = False" by (auto simp: bit_simps dest: bit_u8_le)
    with False Suc.IH [of "drop_bit 8 w" "k - 8"] show ?thesis
      by (auto simp: le_bytes_Suc bit_simps dest: bit_imp_le_length)
  qed
qed

lemma le_word_le_bytes: "LENGTH('a) \<le> 8 * n \<Longrightarrow> le_word (le_bytes n w) = w" for w :: "'a::len word"
  by (rule bit_word_eqI) (simp add: bit_le_word_bytes)

section \<open>Codecs\<close>

text \<open>
  The contract of a wire or word format: decoding an encoded value gives it back. A decoder
  that cannot fail is a decoder that always returns \<open>Some\<close>. The clients of the formats
  (completion matching, handshake, key-value protocol) use that distinct values have distinct
  encodings.
\<close>

locale codec =
  fixes enc :: "'a \<Rightarrow> 'w"
    and dec :: "'w \<Rightarrow> 'a option"
    and valid :: "'a \<Rightarrow> bool"
  assumes dec_enc: "valid x \<Longrightarrow> dec (enc x) = Some x"
begin

lemma enc_inject: "valid x \<Longrightarrow> valid y \<Longrightarrow> enc x = enc y \<longleftrightarrow> x = y"
  by (metis dec_enc option.inject)

lemma enc_inj_on: "inj_on enc (Collect valid)"
  by (auto simp: inj_on_def enc_inject)

end

section \<open>Index pools\<close>

text \<open>
  The contract of a free list: \<open>alloc\<close> hands out an available index or reports with \<open>Inr None\<close> that
  there is none, \<open>release\<close> takes a handed-out index back. \<open>avail\<close> is the set of indices the pool can
  still hand out and \<open>univ\<close> the set it manages. The source calls \<open>release\<close> only on indices it
  was given; both return \<open>Inl\<close> where the code would leave its array.
\<close>

datatype 'i pool_op = Pool_Alloc | Pool_Release 'i

text \<open>A client history: the pool's state and the list of indices the client holds.\<close>

fun pool_step ::
  "('s \<Rightarrow> ('i \<times> 's) option chk) \<Rightarrow> ('i \<Rightarrow> 's \<Rightarrow> 's chk) \<Rightarrow> 'i pool_op \<Rightarrow> 's \<times> 'i list \<Rightarrow> ('s \<times> 'i list) chk"
where
  "pool_step alloc release Pool_Alloc (s, held) =
     bind_chk (alloc s) (\<lambda>r. Inr (case r of None \<Rightarrow> (s, held) | Some (i, s') \<Rightarrow> (s', i # held)))"
| "pool_step alloc release (Pool_Release i) (s, held) =
     (if i \<in> set held
      then bind_chk (release i s) (\<lambda>s'. Inr (s', remove1 i held))
      else Inr (s, held))"

fun pool_run ::
  "('s \<Rightarrow> ('i \<times> 's) option chk) \<Rightarrow> ('i \<Rightarrow> 's \<Rightarrow> 's chk) \<Rightarrow> 'i pool_op list \<Rightarrow> 's \<times> 'i list \<Rightarrow> ('s \<times> 'i list) chk"
where
  "pool_run alloc release [] c = Inr c"
| "pool_run alloc release (x # xs) c =
     bind_chk (pool_step alloc release x c) (pool_run alloc release xs)"

definition holds_exactly :: "'i set \<Rightarrow> 'i set \<Rightarrow> 'i list \<Rightarrow> bool" where
  "holds_exactly U A held \<longleftrightarrow> distinct held \<and> set held \<inter> A = {} \<and> set held \<union> A = U"

locale index_pool =
  fixes alloc :: "'s \<Rightarrow> ('i \<times> 's) option chk"
    and release :: "'i \<Rightarrow> 's \<Rightarrow> 's chk"
    and avail :: "'s \<Rightarrow> 'i set"
    and univ :: "'s \<Rightarrow> 'i set"
    and invar :: "'s \<Rightarrow> bool"
  assumes alloc_returns: "invar s \<Longrightarrow> \<exists>r. alloc s = Inr r"
    and alloc_None: "invar s \<Longrightarrow> alloc s = Inr None \<longleftrightarrow> avail s = {}"
    and alloc_Some: "invar s \<Longrightarrow> alloc s = Inr (Some (i, s')) \<Longrightarrow>
          i \<in> avail s \<and> avail s' = avail s - {i} \<and> univ s' = univ s \<and> invar s'"
    and release_ok: "invar s \<Longrightarrow> i \<in> univ s \<Longrightarrow> i \<notin> avail s \<Longrightarrow>
          \<exists>s'. release i s = Inr s' \<and> avail s' = insert i (avail s) \<and> univ s' = univ s \<and> invar s'"
begin

lemma pool_step_ok:
  assumes "invar s" and "holds_exactly (univ s) (avail s) held"
  shows "\<exists>s' held'. pool_step alloc release x (s, held) = Inr (s', held') \<and> invar s' \<and>
           univ s' = univ s \<and> holds_exactly (univ s') (avail s') held'"
proof (cases x)
  case Pool_Alloc
  obtain r where r: "alloc s = Inr r" using alloc_returns [OF assms(1)] by blast
  show ?thesis
  proof (cases r)
    case None
    with assms Pool_Alloc r show ?thesis by auto
  next
    case (Some p)
    obtain i s' where p: "p = (i, s')" by (cases p)
    from alloc_Some [OF assms(1)] Some p r
    have *: "i \<in> avail s" "avail s' = avail s - {i}" "univ s' = univ s" "invar s'" by auto
    with assms(2) have "holds_exactly (univ s') (avail s') (i # held)"
      by (auto simp: holds_exactly_def)
    with * Some p r Pool_Alloc show ?thesis by auto
  qed
next
  case (Pool_Release i)
  show ?thesis
  proof (cases "i \<in> set held")
    case True
    with assms(2) have "i \<in> univ s" "i \<notin> avail s" by (auto simp: holds_exactly_def)
    from release_ok [OF assms(1) this] obtain s'
      where *: "release i s = Inr s'" "avail s' = insert i (avail s)" "univ s' = univ s" "invar s'"
      by auto
    with assms(2) True have "holds_exactly (univ s') (avail s') (remove1 i held)"
      by (auto simp: holds_exactly_def)
    with * True Pool_Release show ?thesis by auto
  next
    case False
    with assms Pool_Release show ?thesis by auto
  qed
qed

lemma pool_run_ok:
  assumes "invar s" and "holds_exactly (univ s) (avail s) held"
  shows "\<exists>s' held'. pool_run alloc release xs (s, held) = Inr (s', held') \<and> invar s' \<and>
           univ s' = univ s \<and> holds_exactly (univ s') (avail s') held'"
  using assms
proof (induction xs arbitrary: s held)
  case Nil
  then show ?case by auto
next
  case (Cons x xs)
  from pool_step_ok [OF Cons.prems] obtain s1 held1
    where 1: "pool_step alloc release x (s, held) = Inr (s1, held1)" "invar s1"
      "univ s1 = univ s" "holds_exactly (univ s1) (avail s1) held1"
    by blast
  from Cons.IH [OF 1(2,4)] 1(1,3) show ?case by auto
qed

end

section \<open>Free lists kept in a vector\<close>

text \<open>
  \<open>push_back\<close>, \<open>back\<close> and \<open>pop_back\<close> on a vector of indices: the free list that the connection
  manager and the key-value store share.
\<close>

definition stack_init :: "nat \<Rightarrow> 'a::len word list" where
  "stack_init n = map (\<lambda>i. of_nat (n - 1 - i)) [0..<n]"

lemma stack_init_props:
  assumes "n \<le> 2 ^ LENGTH('a::len)"
  shows "distinct (stack_init n :: 'a word list)" and "unat ` set (stack_init n :: 'a word list) = {..<n}"
    and "length (stack_init n :: 'a word list) = n"
proof -
  have u: "unat (of_nat (n - 1 - i) :: 'a word) = n - 1 - i" if "i < n" for i
    using assms that by (intro unat_of_nat_less) linarith
  then have "inj_on (\<lambda>i. of_nat (n - 1 - i) :: 'a word) {..<n}"
    by (auto simp: inj_on_def word_unat_eq_iff)
  then show "distinct (stack_init n :: 'a word list)" by (simp add: stack_init_def distinct_map atLeast_upt)
  have "unat ` set (stack_init n :: 'a word list) = (\<lambda>i. n - 1 - i) ` {..<n}"
    using u by (auto simp: stack_init_def image_image atLeast_upt)
  also have "\<dots> = {..<n}"
  proof -
    have "i \<in> (\<lambda>i. n - 1 - i) ` {..<n}" if "i < n" for i
      using that by (intro image_eqI [of _ _ "n - 1 - i"]) auto
    then show ?thesis by auto
  qed
  finally show "unat ` set (stack_init n :: 'a word list) = {..<n}" .
qed (simp add: stack_init_def)

lemma stack_pop: "xs \<noteq> [] \<Longrightarrow> distinct xs \<Longrightarrow> set (butlast xs) = set xs - {last xs} \<and> distinct (butlast xs)"
  by (cases xs rule: rev_cases) auto

section \<open>Runs of a step relation\<close>

text \<open>
  The components that live on (connections, the manager, the link, the reactor, the endpoint, the
  server) are step relations. An invariant that every step keeps holds in every reachable state; when
  the steps carry labels, an abstraction that every step moves as its label says is, at the end of a
  run, the fold of the labels.
\<close>

locale kept_invariant =
  fixes step :: "'s \<Rightarrow> 's \<Rightarrow> bool" and inv :: "'s \<Rightarrow> bool"
  assumes step_keeps: "step s t \<Longrightarrow> inv s \<Longrightarrow> inv t"
begin

lemma run_keeps: "step\<^sup>*\<^sup>* s t \<Longrightarrow> inv s \<Longrightarrow> inv t"
  by (induction rule: rtranclp_induct) (auto intro: step_keeps)

end

inductive labelled_run :: "('s \<Rightarrow> 'l \<Rightarrow> 's \<Rightarrow> bool) \<Rightarrow> 's \<Rightarrow> 'l list \<Rightarrow> 's \<Rightarrow> bool" for step where
  run_nil: "labelled_run step s [] s"
| run_snoc: "labelled_run step s ls t \<Longrightarrow> step t l u \<Longrightarrow> labelled_run step s (ls @ [l]) u"

locale traced_machine =
  fixes lstep :: "'s \<Rightarrow> 'l \<Rightarrow> 's \<Rightarrow> bool" and inv :: "'s \<Rightarrow> bool" and view :: "'s \<Rightarrow> 'a" and effect :: "'l \<Rightarrow> 'a \<Rightarrow> 'a"
  assumes lstep_keeps: "lstep s l t \<Longrightarrow> inv s \<Longrightarrow> inv t"
    and lstep_effect: "lstep s l t \<Longrightarrow> inv s \<Longrightarrow> view t = effect l (view s)"
begin

lemma trace_refines: "labelled_run lstep s ls t \<Longrightarrow> inv s \<Longrightarrow> inv t \<and> view t = fold effect ls (view s)"
  by (induction rule: labelled_run.induct) (auto intro: lstep_keeps simp: lstep_effect)

end

sublocale traced_machine \<subseteq> unlabelled: kept_invariant "\<lambda>s t. \<exists>l. lstep s l t" inv
  by unfold_locales (auto intro: lstep_keeps)

section \<open>Implementations of an abstract machine\<close>

text \<open>
  A component whose operations may fail with undefined behaviour implements an abstract machine when
  every admissible operation returns, keeps the invariant and gives the abstract result and state.
\<close>

fun run_ops :: "('op \<Rightarrow> 's \<Rightarrow> ('r \<times> 's) chk) \<Rightarrow> 'op list \<Rightarrow> 's \<Rightarrow> ('r list \<times> 's) chk" where
  "run_ops step [] s = Inr ([], s)"
| "run_ops step (x # xs) s = bind_chk (step x s) (\<lambda>(r, s1). bind_chk (run_ops step xs s1) (\<lambda>(rs, s2). Inr (r # rs, s2)))"

fun run_spec :: "('op \<Rightarrow> 'a \<Rightarrow> 'r \<times> 'a) \<Rightarrow> 'op list \<Rightarrow> 'a \<Rightarrow> 'r list \<times> 'a" where
  "run_spec spec [] a = ([], a)"
| "run_spec spec (x # xs) a = (let (r, a1) = spec x a; (rs, a2) = run_spec spec xs a1 in (r # rs, a2))"

lemma run_spec_keeps: "(\<And>x a. f (snd (spec x a)) = f a) \<Longrightarrow> f (snd (run_spec spec xs a)) = f a"
proof (induction xs arbitrary: a)
  case (Cons x xs)
  from Cons.IH [OF Cons.prems, of "snd (spec x a)"] Cons.prems show ?case by (simp add: Let_def split_def)
qed simp

locale refined_machine =
  fixes step :: "'op \<Rightarrow> 's \<Rightarrow> ('r \<times> 's) chk"
    and spec :: "'op \<Rightarrow> 'a \<Rightarrow> 'r \<times> 'a"
    and abs :: "'s \<Rightarrow> 'a"
    and invar :: "'s \<Rightarrow> bool"
    and admissible :: "'op \<Rightarrow> bool"
  assumes step_refines: "invar s \<Longrightarrow> admissible x \<Longrightarrow>
    \<exists>r s'. step x s = Inr (r, s') \<and> invar s' \<and> (r, abs s') = spec x (abs s)"
begin

lemma run_refines:
  assumes "invar s" and "list_all admissible xs"
  shows "\<exists>rs s'. run_ops step xs s = Inr (rs, s') \<and> invar s' \<and> (rs, abs s') = run_spec spec xs (abs s)"
  using assms
proof (induction xs arbitrary: s)
  case (Cons x xs)
  then obtain r s1 where 1: "step x s = Inr (r, s1)" "invar s1" "(r, abs s1) = spec x (abs s)"
    using step_refines by fastforce
  with Cons obtain rs s2 where "run_ops step xs s1 = Inr (rs, s2)" "invar s2" "(rs, abs s2) = run_spec spec xs (abs s1)"
    by fastforce
  with 1 show ?case by (auto simp flip: 1(3) split: prod.splits)
qed simp

end

end
