(* ===== verification/Rdma_Types.thy ===== *)
theory Rdma_Types
  imports Rdma_Prelude
begin

text \<open>
  \<open>include/rdma/common/types.h\<close>: the enumerations, plain structs and constants every layer uses. An
  enum with a fixed underlying type holds any value of that type; a conversion from the underlying
  type is an option, \<open>None\<close> for a value that no enumerator names.
\<close>

section \<open>Enumerations\<close>

datatype RpcOpcode =
    REQUEST_SEND
  | REQUEST_WRITE
  | REQUEST_READ
  | RESPONSE_SEND
  | RECV
  | CREDIT_UPDATE
  | KEEPALIVE

fun RpcOpcode_code :: "RpcOpcode \<Rightarrow> u8" where
  "RpcOpcode_code REQUEST_SEND = 0"
| "RpcOpcode_code REQUEST_WRITE = 1"
| "RpcOpcode_code REQUEST_READ = 2"
| "RpcOpcode_code RESPONSE_SEND = 3"
| "RpcOpcode_code RECV = 4"
| "RpcOpcode_code CREDIT_UPDATE = 5"
| "RpcOpcode_code KEEPALIVE = 6"

definition RpcOpcode_of :: "u8 \<Rightarrow> RpcOpcode option" where
  "RpcOpcode_of b =
     (if b = 0 then Some REQUEST_SEND
      else if b = 1 then Some REQUEST_WRITE
      else if b = 2 then Some REQUEST_READ
      else if b = 3 then Some RESPONSE_SEND
      else if b = 4 then Some RECV
      else if b = 5 then Some CREDIT_UPDATE
      else if b = 6 then Some KEEPALIVE
      else None)"

lemma RpcOpcode_of_code [simp]: "RpcOpcode_of (RpcOpcode_code p) = Some p"
  by (cases p) (simp_all add: RpcOpcode_of_def)

lemma RpcOpcode_of_Some: "RpcOpcode_of b = Some p \<longleftrightarrow> b = RpcOpcode_code p"
  by (cases p) (auto simp: RpcOpcode_of_def)

datatype ConnectionState = DISCONNECTED | CONNECTING | CONNECTED | CONN_ERROR | CLOSING

datatype QpState = QP_RESET | QP_INIT | QP_RTR | QP_RTS | QP_ERROR

datatype BufferAllocationPolicy = LIFO | FIFO | SLAB

datatype BatchMode = LATENCY | THROUGHPUT | ADAPTIVE

section \<open>Plain structs\<close>

record MemoryAccess =
  local_write :: bool
  remote_write :: bool
  remote_read :: bool
  relaxed_ordering :: bool

definition MemoryAccess_default :: MemoryAccess where
  "MemoryAccess_default =
     \<lparr>local_write = True, remote_write = False, remote_read = False, relaxed_ordering = False\<rparr>"

record RemoteMemoryInfo =
  rmi_addr :: u64
  rmi_rkey :: u32
  rmi_length :: u32

text \<open>\<open>gid\<close> is an array of sixteen bytes.\<close>

record QpConnParams =
  lid :: u16
  qp_num :: u32
  psn :: u32
  gid :: "u8 list"
  port_num :: u16
  gid_index :: u8
  mtu :: u32

definition QpConnParams_zero :: QpConnParams where
  "QpConnParams_zero =
     \<lparr>lid = 0, qp_num = 0, psn = 0, gid = replicate 16 0, port_num = 0, gid_index = 0, mtu = 0\<rparr>"

text \<open>A null \<open>nic_name\<close> is \<open>None\<close>.\<close>

record NumaConfig =
  nc_cpu_core :: int
  nc_numa_node :: int
  nc_nic_name :: "string option"

definition NumaConfig_default :: NumaConfig where
  "NumaConfig_default = \<lparr>nc_cpu_core = -1, nc_numa_node = -1, nc_nic_name = None\<rparr>"

section \<open>Constants\<close>

definition kCacheLineSize :: size_t where
  "kCacheLineSize = 64"

definition kPageSize :: size_t where
  "kPageSize = 4096"

definition kHugePageSize :: size_t where
  "kHugePageSize = 2 * 1024 * 1024"

end
