(* ===== verification/Wr_Id.thy ===== *)
theory Wr_Id
  imports Rdma_Types
begin

text \<open>
  \<open>include/rdma/common/wr_id.h\<close>: the 64-bit work-request identifier
  \<open>[conn_id 16 | opcode 8 | generation 8 | slot_index 32]\<close> that carries a request's identity
  through the completion queue, and the 32-bit immediate-data codec
  \<open>[conn_id 16 | opcode 8 | slot_hint 8]\<close>.
\<close>

section \<open>The work-request identifier\<close>

definition WrId_Encode :: "u16 \<Rightarrow> RpcOpcode \<Rightarrow> u8 \<Rightarrow> u32 \<Rightarrow> u64" where
  "WrId_Encode conn_id opcode generation slot_index =
     push_bit 48 (ucast conn_id) OR
     push_bit 40 (ucast (RpcOpcode_code opcode)) OR
     push_bit 32 (ucast generation) OR ucast slot_index"

definition WrId_GetConnId :: "u64 \<Rightarrow> u16" where
  "WrId_GetConnId wr_id = ucast (drop_bit 48 wr_id)"

definition WrId_GetOpcode :: "u64 \<Rightarrow> RpcOpcode option" where
  "WrId_GetOpcode wr_id = RpcOpcode_of (ucast (drop_bit 40 wr_id AND 0xFF))"

definition WrId_GetGeneration :: "u64 \<Rightarrow> u8" where
  "WrId_GetGeneration wr_id = ucast (drop_bit 32 wr_id AND 0xFF)"

definition WrId_GetSlotIndex :: "u64 \<Rightarrow> u32" where
  "WrId_GetSlotIndex wr_id = ucast (wr_id AND 0xFFFFFFFF)"

lemmas WrId_defs =
  WrId_Encode_def WrId_GetConnId_def WrId_GetOpcode_def WrId_GetGeneration_def
  WrId_GetSlotIndex_def

section \<open>The immediate-data codec\<close>

definition ImmData_Encode :: "u16 \<Rightarrow> u8 \<Rightarrow> u8 \<Rightarrow> u32" where
  "ImmData_Encode conn_id opcode slot_hint =
     push_bit 16 (ucast conn_id) OR push_bit 8 (ucast opcode) OR ucast slot_hint"

definition ImmData_GetConnId :: "u32 \<Rightarrow> u16" where
  "ImmData_GetConnId imm_data = ucast (drop_bit 16 imm_data)"

definition ImmData_GetOpcode :: "u32 \<Rightarrow> u8" where
  "ImmData_GetOpcode imm_data = ucast (drop_bit 8 imm_data AND 0xFF)"

definition ImmData_GetSlotHint :: "u32 \<Rightarrow> u8" where
  "ImmData_GetSlotHint imm_data = ucast (imm_data AND 0xFF)"

lemmas ImmData_defs =
  ImmData_Encode_def ImmData_GetConnId_def ImmData_GetOpcode_def ImmData_GetSlotHint_def

section \<open>The accessors invert the encoders\<close>

lemma WrId_GetConnId_Encode [simp]: "WrId_GetConnId (WrId_Encode c p g s) = c"
  unfolding WrId_defs by (rule bit_word_eqI) (auto simp: bit_simps dest: bit_width_dests)

lemma WrId_opcode_byte:
  "ucast (drop_bit 40 (WrId_Encode c p g s) AND 0xFF) = RpcOpcode_code p"
  unfolding WrId_Encode_def mask_folds
  by (rule bit_word_eqI) (auto simp: bit_simps dest: bit_width_dests)

lemma WrId_GetOpcode_Encode [simp]: "WrId_GetOpcode (WrId_Encode c p g s) = Some p"
  by (simp add: WrId_GetOpcode_def WrId_opcode_byte)

lemma WrId_GetGeneration_Encode [simp]: "WrId_GetGeneration (WrId_Encode c p g s) = g"
  unfolding WrId_defs mask_folds
  by (rule bit_word_eqI) (auto simp: bit_simps dest: bit_width_dests)

lemma WrId_GetSlotIndex_Encode [simp]: "WrId_GetSlotIndex (WrId_Encode c p g s) = s"
  unfolding WrId_defs mask_folds
  by (rule bit_word_eqI) (auto simp: bit_simps dest: bit_width_dests)

lemma ImmData_GetConnId_Encode [simp]: "ImmData_GetConnId (ImmData_Encode c p h) = c"
  unfolding ImmData_defs by (rule bit_word_eqI) (auto simp: bit_simps dest: bit_width_dests)

lemma ImmData_GetOpcode_Encode [simp]: "ImmData_GetOpcode (ImmData_Encode c p h) = p"
  unfolding ImmData_defs mask_folds
  by (rule bit_word_eqI) (auto simp: bit_simps dest: bit_width_dests)

lemma ImmData_GetSlotHint_Encode [simp]: "ImmData_GetSlotHint (ImmData_Encode c p h) = h"
  unfolding ImmData_defs mask_folds
  by (rule bit_word_eqI) (auto simp: bit_simps dest: bit_width_dests)

section \<open>Both formats are codecs\<close>

definition WrId_pack :: "u16 \<times> RpcOpcode \<times> u8 \<times> u32 \<Rightarrow> u64" where
  "WrId_pack = (\<lambda>(c, p, g, s). WrId_Encode c p g s)"

definition WrId_unpack :: "u64 \<Rightarrow> (u16 \<times> RpcOpcode \<times> u8 \<times> u32) option" where
  "WrId_unpack w = map_option
     (\<lambda>p. (WrId_GetConnId w, p, WrId_GetGeneration w, WrId_GetSlotIndex w)) (WrId_GetOpcode w)"

interpretation wr_id_codec: codec WrId_pack WrId_unpack "\<lambda>_. True"
  by unfold_locales (auto simp: WrId_pack_def WrId_unpack_def split: prod.splits)

definition ImmData_pack :: "u16 \<times> u8 \<times> u8 \<Rightarrow> u32" where
  "ImmData_pack = (\<lambda>(c, p, h). ImmData_Encode c p h)"

definition ImmData_unpack :: "u32 \<Rightarrow> (u16 \<times> u8 \<times> u8) option" where
  "ImmData_unpack w = Some (ImmData_GetConnId w, ImmData_GetOpcode w, ImmData_GetSlotHint w)"

interpretation imm_data_codec: codec ImmData_pack ImmData_unpack "\<lambda>_. True"
  by unfold_locales (auto simp: ImmData_pack_def ImmData_unpack_def split: prod.splits)

lemma WrId_Encode_inject [simp]:
  "WrId_Encode c p g s = WrId_Encode c' p' g' s' \<longleftrightarrow> c = c' \<and> p = p' \<and> g = g' \<and> s = s'"
  using wr_id_codec.enc_inject [of "(c, p, g, s)" "(c', p', g', s')"]
  by (simp add: WrId_pack_def)

lemma WrId_reencode_bits:
  "push_bit 48 (ucast (ucast (drop_bit 48 w) :: u16)) OR
   push_bit 40 (ucast (ucast (drop_bit 40 w AND 0xFF) :: u8)) OR
   push_bit 32 (ucast (ucast (drop_bit 32 w AND 0xFF) :: u8)) OR
   ucast (ucast (w AND 0xFFFFFFFF) :: u32) = (w :: u64)" (is "?lhs = w")
proof (rule bit_word_eqI)
  fix n :: nat
  assume "n < LENGTH(64)"
  then consider "n < 32" | "32 \<le> n \<and> n < 40" | "40 \<le> n \<and> n < 48" | "48 \<le> n \<and> n < 64"
    by (simp, linarith)
  then show "bit ?lhs n = bit w n"
    unfolding mask_folds by cases (auto simp: bit_simps)
qed

text \<open>
  C24. Packing a connection id, opcode, generation and slot index into a work-request
  identifier and reading it back gives exactly the four fields, for all of their values; and
  an identifier whose opcode byte is one of the enumerators is rebuilt bit for bit from the
  four fields read out of it, so the accessors lose nothing.
\<close>

theorem WrId_roundtrip:
  "WrId_GetConnId (WrId_Encode c p g s) = c \<and>
   WrId_GetOpcode (WrId_Encode c p g s) = Some p \<and>
   WrId_GetGeneration (WrId_Encode c p g s) = g \<and>
   WrId_GetSlotIndex (WrId_Encode c p g s) = s \<and>
   (case WrId_GetOpcode w of
      None \<Rightarrow> \<forall>q. ucast (drop_bit 40 w AND 0xFF) \<noteq> RpcOpcode_code q
    | Some q \<Rightarrow>
        WrId_Encode (WrId_GetConnId w) q (WrId_GetGeneration w) (WrId_GetSlotIndex w) = w)"
proof -
  have "WrId_Encode (WrId_GetConnId w) q (WrId_GetGeneration w) (WrId_GetSlotIndex w) = w"
    if "WrId_GetOpcode w = Some q" for q
    using that WrId_reencode_bits [of w] by (simp add: WrId_defs RpcOpcode_of_Some)
  moreover have "\<forall>q. ucast (drop_bit 40 w AND 0xFF) \<noteq> RpcOpcode_code q"
    if "WrId_GetOpcode w = None"
    using that by (auto simp: WrId_GetOpcode_def)
  ultimately show ?thesis by (simp split: option.split)
qed

end
