(* ===== verification/Rpc_Slot.thy ===== *)
theory Rpc_Slot
  imports Rdma_Types
begin

text \<open>
  \<open>include/rdma/rpc/rpc_slot.h\<close> and \<open>src/rpc/rpc_slot.cpp\<close>: the packed hot record of an RPC
  slot, its flag and generation accessors, and the slot pool with its fixed free stack. The
  arrays of \<open>kMaxSlots\<close> elements are functions from indices; every access of the source
  is guarded here by the array's bound and yields \<open>Out_Of_Bounds\<close> outside it. Padding bytes are
  left out.
\<close>

section \<open>The hot record\<close>

record RpcSlotHot =
  slot_gen_packed :: u32
  flags :: u8
  hot_conn_id :: u16
  total_wr_count :: u8
  completed_wr_count :: u8
  error_code :: u8
  timeout_tick :: u32

definition kStateMask :: u8 where "kStateMask = 0xC0"
definition kStateShift :: nat where "kStateShift = 6"
definition kWrTypeMask :: u8 where "kWrTypeMask = 0x38"
definition kWrTypeShift :: nat where "kWrTypeShift = 3"
definition kSignaledBit :: u8 where "kSignaledBit = 0x04"
definition kStateFree :: u8 where "kStateFree = 0"
definition kStateInUse :: u8 where "kStateInUse = 1"
definition kStateCompleting :: u8 where "kStateCompleting = 2"
definition kSlotIndexMask :: u32 where "kSlotIndexMask = 0x000FFFFF"
definition kGenerationShift :: nat where "kGenerationShift = 20"
definition kGenerationMask :: u32 where "kGenerationMask = 0xFFF"

definition Hot_GetState :: "RpcSlotHot \<Rightarrow> u8" where
  "Hot_GetState h = drop_bit kStateShift (flags h AND kStateMask)"

definition Hot_SetState :: "u8 \<Rightarrow> RpcSlotHot \<Rightarrow> RpcSlotHot" where
  "Hot_SetState state h =
     h\<lparr>flags := (flags h AND NOT kStateMask) OR (push_bit kStateShift state AND kStateMask)\<rparr>"

definition Hot_GetWrType :: "RpcSlotHot \<Rightarrow> u8" where
  "Hot_GetWrType h = drop_bit kWrTypeShift (flags h AND kWrTypeMask)"

definition Hot_SetWrType :: "u8 \<Rightarrow> RpcSlotHot \<Rightarrow> RpcSlotHot" where
  "Hot_SetWrType wr_type h =
     h\<lparr>flags := (flags h AND NOT kWrTypeMask) OR (push_bit kWrTypeShift wr_type AND kWrTypeMask)\<rparr>"

definition Hot_IsSignaled :: "RpcSlotHot \<Rightarrow> bool" where
  "Hot_IsSignaled h \<longleftrightarrow> flags h AND kSignaledBit \<noteq> 0"

definition Hot_SetSignaled :: "bool \<Rightarrow> RpcSlotHot \<Rightarrow> RpcSlotHot" where
  "Hot_SetSignaled signaled h =
     (if signaled then h\<lparr>flags := flags h OR kSignaledBit\<rparr>
      else h\<lparr>flags := flags h AND NOT kSignaledBit\<rparr>)"

definition Hot_GetSlotIndex :: "RpcSlotHot \<Rightarrow> u32" where
  "Hot_GetSlotIndex h = slot_gen_packed h AND kSlotIndexMask"

definition Hot_GetGeneration :: "RpcSlotHot \<Rightarrow> u16" where
  "Hot_GetGeneration h = ucast (drop_bit kGenerationShift (slot_gen_packed h) AND kGenerationMask)"

definition Hot_SetSlotIndex :: "u32 \<Rightarrow> RpcSlotHot \<Rightarrow> RpcSlotHot" where
  "Hot_SetSlotIndex idx h =
     h\<lparr>slot_gen_packed := (slot_gen_packed h AND NOT kSlotIndexMask) OR (idx AND kSlotIndexMask)\<rparr>"

definition Hot_IncrementGeneration :: "RpcSlotHot \<Rightarrow> RpcSlotHot" where
  "Hot_IncrementGeneration h =
     (let gen = drop_bit kGenerationShift (slot_gen_packed h) + 1
      in h\<lparr>slot_gen_packed := (slot_gen_packed h AND kSlotIndexMask)
             OR push_bit kGenerationShift (gen AND kGenerationMask)\<rparr>)"

definition Hot_IsCompleted :: "RpcSlotHot \<Rightarrow> bool" where
  "Hot_IsCompleted h \<longleftrightarrow> completed_wr_count h \<ge> total_wr_count h"

definition Hot_IsFree :: "RpcSlotHot \<Rightarrow> bool" where
  "Hot_IsFree h \<longleftrightarrow> Hot_GetState h = kStateFree"

definition Hot_MarkCompleted :: "RpcSlotHot \<Rightarrow> RpcSlotHot" where
  "Hot_MarkCompleted h = h\<lparr>completed_wr_count := completed_wr_count h + 1\<rparr>"

definition Hot_ValidateGeneration :: "u16 \<Rightarrow> RpcSlotHot \<Rightarrow> bool" where
  "Hot_ValidateGeneration expected_gen h \<longleftrightarrow> Hot_GetGeneration h = expected_gen"

section \<open>The pool\<close>

text \<open>Callbacks are code of the user: a function pointer and its context are addresses.\<close>

record RpcSlotContext =
  callback_fn :: ptr
  callback_ctx :: ptr
  recv_buffer :: ptr
  recv_length :: u32
  extended_info_index :: u32

text \<open>The last field of the details is one of six bits.\<close>

record WrDetail =
  wd_posted :: bool
  wd_completed :: bool
  wd_status :: "6 word"

record ExtendedSlotInfo =
  rpc_id :: u64
  start_tsc :: u64
  user_data :: ptr
  request_size :: u32
  response_size :: u32
  wr_details :: "WrDetail list"

definition kMaxSlots :: nat where
  "kMaxSlots = 65536"

record RpcSlotPool =
  slots_hot :: "nat \<Rightarrow> RpcSlotHot"
  slots_context :: "nat \<Rightarrow> RpcSlotContext"
  extended_info :: "nat \<Rightarrow> ExtendedSlotInfo"
  free_stack :: "nat \<Rightarrow> u32"
  stack_top :: nat

text \<open>
  The constructor clears the arrays with \<open>memset\<close> and then runs one loop over all indices
  that writes element \<open>i\<close> of each array independently of the others. It does not test its four
  allocations; the model is the constructor when they succeed.
\<close>

definition RpcSlotPool_new :: RpcSlotPool where
  "RpcSlotPool_new =
     \<lparr>slots_hot = (\<lambda>i. \<lparr>slot_gen_packed = of_nat i, flags = 0, hot_conn_id = 0, total_wr_count = 0,
        completed_wr_count = 0, error_code = 0, timeout_tick = 0\<rparr>),
      slots_context = (\<lambda>i. \<lparr>callback_fn = nullptr, callback_ctx = nullptr, recv_buffer = nullptr,
        recv_length = 0, extended_info_index = of_nat i\<rparr>),
      extended_info = (\<lambda>i. \<lparr>rpc_id = 0, start_tsc = 0, user_data = nullptr, request_size = 0,
        response_size = 0, wr_details = replicate 4 \<lparr>wd_posted = False, wd_completed = False, wd_status = 0\<rparr>\<rparr>),
      free_stack = (\<lambda>i. of_nat (kMaxSlots - 1 - i)),
      stack_top = kMaxSlots\<rparr>"

text \<open>The details of a slot, when the index is one of the array.\<close>

definition RpcSlotPool_GetExtendedInfo :: "u32 \<Rightarrow> RpcSlotPool \<Rightarrow> ExtendedSlotInfo chk" where
  "RpcSlotPool_GetExtendedInfo slot_index p =
     (if unat slot_index < kMaxSlots then Inr (extended_info p (unat slot_index)) else Inl Out_Of_Bounds)"

definition kNoSlot :: u32 where
  "kNoSlot = 0xFFFFFFFF"

definition RpcSlotPool_Allocate :: "RpcSlotPool \<Rightarrow> (u32 \<times> u8) \<times> RpcSlotPool" where
  "RpcSlotPool_Allocate p =
     (if stack_top p = 0 then ((kNoSlot, 0), p)
      else
        let top = stack_top p - 1;
            index = free_stack p top;
            hot = (Hot_SetState kStateInUse (slots_hot p (unat index)))
                    \<lparr>completed_wr_count := 0, error_code := 0\<rparr>
        in ((index, ucast (Hot_GetGeneration hot)),
            p\<lparr>stack_top := top, slots_hot := (slots_hot p)(unat index := hot)\<rparr>))"

definition RpcSlotPool_Free :: "u32 \<Rightarrow> RpcSlotPool \<Rightarrow> RpcSlotPool chk" where
  "RpcSlotPool_Free slot_index p =
     (if unat slot_index \<ge> kMaxSlots \<or> stack_top p \<ge> kMaxSlots then Inl Out_Of_Bounds
      else
        let hot = Hot_IncrementGeneration
                    (Hot_SetState kStateFree (slots_hot p (unat slot_index)))
        in Inr (p\<lparr>slots_hot := (slots_hot p)(unat slot_index := hot),
                  free_stack := (free_stack p)(stack_top p := slot_index),
                  stack_top := stack_top p + 1\<rparr>))"

definition RpcSlotPool_GetHot :: "u32 \<Rightarrow> RpcSlotPool \<Rightarrow> RpcSlotHot chk" where
  "RpcSlotPool_GetHot slot_index p =
     (if unat slot_index \<ge> kMaxSlots then Inl Out_Of_Bounds
      else Inr (slots_hot p (unat slot_index)))"

text \<open>\<open>None\<close> is the null pointer the source returns for a generation mismatch.\<close>

definition RpcSlotPool_GetHotChecked :: "u32 \<Rightarrow> u8 \<Rightarrow> RpcSlotPool \<Rightarrow> RpcSlotHot option chk" where
  "RpcSlotPool_GetHotChecked slot_index expected_gen p =
     (if unat slot_index \<ge> kMaxSlots then Inl Out_Of_Bounds
      else
        let hot = slots_hot p (unat slot_index)
        in if \<not> Hot_ValidateGeneration (ucast expected_gen) hot then Inr None
           else Inr (Some hot))"

definition RpcSlotPool_GetContext :: "u32 \<Rightarrow> RpcSlotPool \<Rightarrow> RpcSlotContext chk" where
  "RpcSlotPool_GetContext slot_index p =
     (if unat slot_index \<ge> kMaxSlots then Inl Out_Of_Bounds
      else Inr (slots_context p (unat slot_index)))"

definition RpcSlotPool_AvailableCount :: "RpcSlotPool \<Rightarrow> nat" where
  "RpcSlotPool_AvailableCount p = stack_top p"

text \<open>A write through the pointers that \<open>GetHot\<close> and \<open>GetContext\<close> return.\<close>

definition RpcSlotPool_set_hot :: "u32 \<Rightarrow> RpcSlotHot \<Rightarrow> RpcSlotPool \<Rightarrow> RpcSlotPool" where
  "RpcSlotPool_set_hot slot_index hot p =
     p\<lparr>slots_hot := (slots_hot p)(unat slot_index := hot)\<rparr>"

definition RpcSlotPool_set_context :: "u32 \<Rightarrow> RpcSlotContext \<Rightarrow> RpcSlotPool \<Rightarrow> RpcSlotPool" where
  "RpcSlotPool_set_context slot_index ctx p =
     p\<lparr>slots_context := (slots_context p)(unat slot_index := ctx)\<rparr>"

section \<open>Flags and packed generation\<close>

lemma kStateMask_bits: "kStateMask = push_bit 6 (mask 2)"
  by (simp add: kStateMask_def mask_eq_exp_minus_1 push_bit_eq_mult)

lemma kWrTypeMask_bits: "kWrTypeMask = push_bit 3 (mask 3)"
  by (simp add: kWrTypeMask_def mask_eq_exp_minus_1 push_bit_eq_mult)

lemma kSignaledBit_bits: "kSignaledBit = push_bit 2 (mask 1)"
  by (simp add: kSignaledBit_def mask_eq_exp_minus_1 push_bit_eq_mult)

lemma kSlotIndexMask_bits: "kSlotIndexMask = mask 20"
  by (simp add: kSlotIndexMask_def mask_eq_exp_minus_1)

lemma kGenerationMask_bits: "kGenerationMask = mask 12"
  by (simp add: kGenerationMask_def mask_eq_exp_minus_1)

lemmas hot_bits =
  kStateMask_bits kWrTypeMask_bits kSignaledBit_bits kSlotIndexMask_bits kGenerationMask_bits
  kStateShift_def kWrTypeShift_def kGenerationShift_def

lemma Hot_GetState_SetState:
  "Hot_GetState (Hot_SetState st h) = st AND mask 2"
  unfolding Hot_GetState_def Hot_SetState_def hot_bits
  by (rule bit_word_eqI) (auto simp: bit_simps)

lemma Hot_GetWrType_SetState [simp]: "Hot_GetWrType (Hot_SetState st h) = Hot_GetWrType h"
  unfolding Hot_GetWrType_def Hot_SetState_def hot_bits
  by (rule bit_word_eqI) (auto simp: bit_simps)

lemma Hot_GetWrType_SetWrType:
  "Hot_GetWrType (Hot_SetWrType ty h) = ty AND mask 3"
  unfolding Hot_GetWrType_def Hot_SetWrType_def hot_bits
  by (rule bit_word_eqI) (auto simp: bit_simps)

lemma Hot_GetState_SetWrType [simp]: "Hot_GetState (Hot_SetWrType ty h) = Hot_GetState h"
  unfolding Hot_GetState_def Hot_SetWrType_def hot_bits
  by (rule bit_word_eqI) (auto simp: bit_simps)

lemma bit_kSignaledBit: "bit kSignaledBit n \<longleftrightarrow> n = 2"
  using bit_exp_iff [where 'a = "8 word", of 2 n] by (auto simp: kSignaledBit_def)

lemma Hot_IsSignaled_bit: "Hot_IsSignaled h \<longleftrightarrow> bit (flags h) 2"
proof -
  have "flags h AND kSignaledBit = (if bit (flags h) 2 then kSignaledBit else 0)"
    by (rule bit_word_eqI) (auto simp: bit_simps bit_kSignaledBit)
  moreover have "kSignaledBit \<noteq> 0" by (simp add: kSignaledBit_def)
  ultimately show ?thesis by (simp add: Hot_IsSignaled_def)
qed

lemma Hot_IsSignaled_SetSignaled [simp]: "Hot_IsSignaled (Hot_SetSignaled b h) = b"
  by (simp add: Hot_IsSignaled_bit Hot_SetSignaled_def bit_simps bit_kSignaledBit)

lemma Hot_GetState_SetSignaled [simp]: "Hot_GetState (Hot_SetSignaled b h) = Hot_GetState h"
  unfolding Hot_GetState_def Hot_SetSignaled_def kStateMask_bits kStateShift_def
  by (rule bit_word_eqI) (auto simp: bit_simps bit_kSignaledBit)

text \<open>The generation is the number formed by the twelve high bits.\<close>

lemma drop20_lt: "unat (drop_bit 20 (x :: u32)) < 4096"
proof -
  have "unat (drop_bit 20 x) = unat x div 1048576"
    by (simp add: unat_drop_bit_eq) (simp add: drop_bit_eq_div)
  with unat_u32_lt [of x] show ?thesis by (simp add: less_mult_imp_div_less)
qed

lemma unat_Hot_GetGeneration: "unat (Hot_GetGeneration h) = unat (drop_bit 20 (slot_gen_packed h))"
proof -
  have "drop_bit 20 (slot_gen_packed h) AND mask 12 = drop_bit 20 (slot_gen_packed h)"
    by (rule bit_word_eqI) (auto simp: bit_simps dest: bit_width_dests)
  then show ?thesis
    using drop20_lt [of "slot_gen_packed h"]
    by (simp add: Hot_GetGeneration_def hot_bits unat_ucast_mod)
qed

lemma Hot_GetGeneration_lt: "unat (Hot_GetGeneration h) < 4096"
  by (simp add: unat_Hot_GetGeneration drop20_lt)

lemma drop20_IncrementGeneration:
  "drop_bit 20 (slot_gen_packed (Hot_IncrementGeneration h)) =
     (drop_bit 20 (slot_gen_packed h) + 1) AND mask 12"
  unfolding Hot_IncrementGeneration_def Let_def hot_bits
  by (simp, rule bit_word_eqI) (auto simp: bit_simps)

lemma Hot_GetGeneration_IncrementGeneration:
  "unat (Hot_GetGeneration (Hot_IncrementGeneration h)) = (unat (Hot_GetGeneration h) + 1) mod 4096"
proof -
  have "unat (drop_bit 20 (slot_gen_packed h) + 1) = unat (drop_bit 20 (slot_gen_packed h)) + 1"
    using drop20_lt [of "slot_gen_packed h"] by (simp add: unat_word_ariths)
  then show ?thesis
    by (simp add: unat_Hot_GetGeneration drop20_IncrementGeneration unat_eq_mod_mask)
qed

lemma Hot_GetSlotIndex_IncrementGeneration [simp]:
  "Hot_GetSlotIndex (Hot_IncrementGeneration h) = Hot_GetSlotIndex h"
  unfolding Hot_GetSlotIndex_def Hot_IncrementGeneration_def Let_def hot_bits
  by (simp, rule bit_word_eqI) (auto simp: bit_simps)

lemma Hot_GetSlotIndex_SetSlotIndex:
  "Hot_GetSlotIndex (Hot_SetSlotIndex idx h) = idx AND mask 20"
  unfolding Hot_GetSlotIndex_def Hot_SetSlotIndex_def hot_bits
  by (simp, rule bit_word_eqI) (auto simp: bit_simps)

lemma Hot_GetGeneration_SetSlotIndex [simp]:
  "Hot_GetGeneration (Hot_SetSlotIndex idx h) = Hot_GetGeneration h"
  unfolding Hot_GetGeneration_def Hot_SetSlotIndex_def hot_bits
  by (simp, rule bit_word_eqI) (auto simp: bit_simps)

lemma Hot_SetState_frame [simp]:
  "slot_gen_packed (Hot_SetState st h) = slot_gen_packed h"
  "Hot_GetGeneration (Hot_SetState st h) = Hot_GetGeneration h"
  "Hot_GetSlotIndex (Hot_SetState st h) = Hot_GetSlotIndex h"
  by (simp_all add: Hot_SetState_def Hot_GetGeneration_def Hot_GetSlotIndex_def)

lemma Hot_GetState_IncrementGeneration [simp]:
  "Hot_GetState (Hot_IncrementGeneration h) = Hot_GetState h"
  by (simp add: Hot_GetState_def Hot_IncrementGeneration_def Let_def)

lemma Hot_GetState_counts [simp]:
  "Hot_GetState (h\<lparr>completed_wr_count := c, error_code := e\<rparr>) = Hot_GetState h"
  "Hot_GetGeneration (h\<lparr>completed_wr_count := c, error_code := e\<rparr>) = Hot_GetGeneration h"
  "Hot_GetSlotIndex (h\<lparr>completed_wr_count := c, error_code := e\<rparr>) = Hot_GetSlotIndex h"
  by (simp_all add: Hot_GetState_def Hot_GetGeneration_def Hot_GetSlotIndex_def)

lemma Hot_IsFree_counts:
  "Hot_IsFree (h\<lparr>completed_wr_count := c, error_code := e\<rparr>) = Hot_IsFree h"
  by (simp add: Hot_IsFree_def)

lemma Hot_IsFree_SetState [simp]:
  "Hot_IsFree (Hot_SetState kStateFree h)" "\<not> Hot_IsFree (Hot_SetState kStateInUse h)"
  by (simp_all add: Hot_IsFree_def Hot_GetState_SetState kStateFree_def kStateInUse_def mask_eq_exp_minus_1)

section \<open>The pool invariant\<close>

definition slot_avail :: "RpcSlotPool \<Rightarrow> u32 set" where
  "slot_avail p = free_stack p ` {..<stack_top p}"

definition slot_univ :: "RpcSlotPool \<Rightarrow> u32 set" where
  "slot_univ p = {i. unat i < kMaxSlots}"

text \<open>
  The free stack holds pairwise different valid indices, a slot's hot record names the slot, and
  its state field says \<open>free\<close> exactly when the slot is on the stack.
\<close>

definition slot_invar :: "RpcSlotPool \<Rightarrow> bool" where
  "slot_invar p \<longleftrightarrow>
     stack_top p \<le> kMaxSlots \<and>
     inj_on (free_stack p) {..<stack_top p} \<and>
     slot_avail p \<subseteq> slot_univ p \<and>
     (\<forall>i<kMaxSlots. Hot_GetSlotIndex (slots_hot p i) = of_nat i \<and>
        (Hot_IsFree (slots_hot p i) \<longleftrightarrow> of_nat i \<in> slot_avail p))"

text \<open>The source recognises an empty pool by the index \<open>UINT32_MAX\<close>.\<close>

definition slot_alloc :: "RpcSlotPool \<Rightarrow> (u32 \<times> RpcSlotPool) option" where
  "slot_alloc p = (case RpcSlotPool_Allocate p of ((i, g), p') \<Rightarrow>
     if i = kNoSlot then None else Some (i, p'))"

lemma of_nat_u32_inject:
  "a < kMaxSlots \<Longrightarrow> b < kMaxSlots \<Longrightarrow> (of_nat a :: u32) = of_nat b \<longleftrightarrow> a = b"
  by (simp add: kMaxSlots_def word_of_nat_eq_iff take_bit_nat_eq_self)

lemma unat_of_nat_slot [simp]: "a < kMaxSlots \<Longrightarrow> unat (of_nat a :: u32) = a"
  by (simp add: kMaxSlots_def unat_of_nat)

lemma of_nat_unat_slot [simp]: "of_nat (unat i) = (i :: u32)"
  by simp

lemma slot_avail_new: "slot_avail RpcSlotPool_new = {i. unat i < kMaxSlots}"
proof (rule set_eqI)
  fix i :: u32
  have "i \<in> slot_avail RpcSlotPool_new" if lt: "unat i < kMaxSlots"
  proof -
    let ?k = "kMaxSlots - 1 - unat i"
    from lt have "kMaxSlots - 1 - ?k = unat i" by simp
    then have "free_stack RpcSlotPool_new ?k = i"
      by (simp add: RpcSlotPool_new_def del: of_nat_diff)
    moreover have "?k < stack_top RpcSlotPool_new"
      using lt by (simp add: RpcSlotPool_new_def)
    ultimately show ?thesis by (metis imageI lessThan_iff slot_avail_def)
  qed
  moreover have "unat i < kMaxSlots" if "i \<in> slot_avail RpcSlotPool_new"
    using that by (auto simp: slot_avail_def RpcSlotPool_new_def simp del: of_nat_diff)
  ultimately show "i \<in> slot_avail RpcSlotPool_new \<longleftrightarrow> i \<in> {i. unat i < kMaxSlots}"
    by auto
qed

lemma slot_invar_new: "slot_invar RpcSlotPool_new"
proof -
  have "inj_on (free_stack RpcSlotPool_new) {..<kMaxSlots}"
    by (auto simp: inj_on_def RpcSlotPool_new_def of_nat_u32_inject)
  moreover have "Hot_GetSlotIndex (slots_hot RpcSlotPool_new i) = of_nat i" if "i < kMaxSlots" for i
  proof -
    have "of_nat i AND mask 20 = (of_nat i :: u32)"
      using that by (simp add: word_unat_eq_iff unat_eq_mod_mask) (simp add: kMaxSlots_def)
    then show ?thesis by (simp add: Hot_GetSlotIndex_def RpcSlotPool_new_def hot_bits)
  qed
  moreover have "Hot_IsFree (slots_hot RpcSlotPool_new i)" for i
    by (simp add: Hot_IsFree_def Hot_GetState_def RpcSlotPool_new_def kStateFree_def)
  moreover have "stack_top RpcSlotPool_new = kMaxSlots" by (simp add: RpcSlotPool_new_def)
  ultimately show ?thesis
    by (simp add: slot_invar_def slot_avail_new slot_univ_def)
qed

text \<open>\<open>Allocate\<close> on every branch.\<close>

lemma Allocate_empty: "stack_top p = 0 \<Longrightarrow> RpcSlotPool_Allocate p = ((kNoSlot, 0), p)"
  by (simp add: RpcSlotPool_Allocate_def)

lemma Allocate_index:
  assumes "slot_invar p" and "stack_top p > 0" and "RpcSlotPool_Allocate p = ((i, g), p')"
  shows "i = free_stack p (stack_top p - 1)" and "unat i < kMaxSlots" and "i \<noteq> kNoSlot"
    and "i \<in> slot_avail p" and "g = ucast (Hot_GetGeneration (slots_hot p (unat i)))"
    and "Hot_GetGeneration (slots_hot p' (unat i)) = Hot_GetGeneration (slots_hot p (unat i))"
    and "slot_avail p' = slot_avail p - {i}" and "slot_invar p'"
proof -
  let ?t = "stack_top p - 1"
  from assms(2,3) show i: "i = free_stack p ?t"
    by (simp add: RpcSlotPool_Allocate_def Let_def)
  with assms(2) show av: "i \<in> slot_avail p" by (auto simp: slot_avail_def)
  with assms(1) show lt: "unat i < kMaxSlots" by (auto simp: slot_invar_def slot_univ_def)
  then show "i \<noteq> kNoSlot" by (auto simp: kNoSlot_def kMaxSlots_def)
  from assms(2,3) i show "g = ucast (Hot_GetGeneration (slots_hot p (unat i)))"
    by (auto simp: RpcSlotPool_Allocate_def Let_def)
  from assms(2,3) i have p': "p' = p\<lparr>stack_top := ?t, slots_hot := (slots_hot p)(unat i :=
      (Hot_SetState kStateInUse (slots_hot p (unat i)))\<lparr>completed_wr_count := 0, error_code := 0\<rparr>)\<rparr>"
    by (simp add: RpcSlotPool_Allocate_def Let_def)
  then show "Hot_GetGeneration (slots_hot p' (unat i)) = Hot_GetGeneration (slots_hot p (unat i))"
    by simp
  have split: "{..<stack_top p} = insert ?t {..<?t}" using assms(2) by auto
  from assms(1) have inj: "inj_on (free_stack p) {..<stack_top p}" by (simp add: slot_invar_def)
  then have "i \<notin> free_stack p ` {..<?t}"
    unfolding i split by (auto simp: inj_on_def)
  then show av': "slot_avail p' = slot_avail p - {i}"
    unfolding slot_avail_def split p' using i by auto
  have "inj_on (free_stack p) {..<?t}" using inj by (rule inj_on_subset) auto
  moreover have "Hot_IsFree (slots_hot p' j) \<longleftrightarrow> of_nat j \<in> slot_avail p'" if "j < kMaxSlots" for j
  proof (cases "j = unat i")
    case True
    then show ?thesis unfolding av' by (simp add: p' Hot_IsFree_counts)
  next
    case False
    with that have "of_nat j \<noteq> i" by auto
    with False assms(1) that show ?thesis unfolding av' by (simp add: slot_invar_def p')
  qed
  moreover have "Hot_GetSlotIndex (slots_hot p' j) = of_nat j" if "j < kMaxSlots" for j
    using assms(1) that by (auto simp: slot_invar_def p')
  moreover have "slot_avail p' \<subseteq> slot_univ p'"
    using assms(1) unfolding av' by (auto simp: slot_invar_def slot_univ_def)
  moreover have "stack_top p' \<le> kMaxSlots" and "free_stack p' = free_stack p"
    using assms(1) by (auto simp: slot_invar_def p')
  ultimately show "slot_invar p'"
    by (simp add: slot_invar_def) (simp add: p')
qed

lemma Free_ok:
  assumes "slot_invar p" and "unat i < kMaxSlots" and "i \<notin> slot_avail p"
  shows "\<exists>p'. RpcSlotPool_Free i p = Inr p' \<and> slot_avail p' = insert i (slot_avail p) \<and> slot_invar p'"
proof -
  let ?h = "Hot_IncrementGeneration (Hot_SetState kStateFree (slots_hot p (unat i)))"
  let ?p = "p\<lparr>slots_hot := (slots_hot p)(unat i := ?h),
              free_stack := (free_stack p)(stack_top p := i), stack_top := stack_top p + 1\<rparr>"
  have "card (slot_avail p) = stack_top p"
    using assms(1) by (simp add: slot_invar_def slot_avail_def card_image)
  moreover have "slot_avail p \<subset> {i. unat i < kMaxSlots}"
    using assms by (auto simp: slot_invar_def slot_univ_def)
  moreover have "{i :: u32. unat i < kMaxSlots} = of_nat ` {..<kMaxSlots}"
  proof -
    have "x \<in> of_nat ` {..<kMaxSlots}" if "unat x < kMaxSlots" for x :: u32
      using that by (intro image_eqI [of _ _ "unat x"]) auto
    then show ?thesis by auto
  qed
  then have "card {i :: u32. unat i < kMaxSlots} = kMaxSlots"
    by (simp add: card_image inj_on_def of_nat_u32_inject)
  ultimately have top: "stack_top p < kMaxSlots"
    by (metis (lifting) finite psubset_card_mono)
  with assms(2) have free: "RpcSlotPool_Free i p = Inr ?p"
    by (simp add: RpcSlotPool_Free_def Let_def)
  have av: "slot_avail ?p = insert i (slot_avail p)"
    by (auto simp: slot_avail_def lessThan_Suc image_iff)
  have "inj_on (free_stack ?p) {..<Suc (stack_top p)}"
    using assms(1,3) by (auto simp: slot_invar_def slot_avail_def inj_on_def less_Suc_eq)
  moreover have "Hot_IsFree (slots_hot ?p j) \<longleftrightarrow> of_nat j \<in> slot_avail ?p" if "j < kMaxSlots" for j
  proof (cases "j = unat i")
    case True
    then show ?thesis unfolding av by (simp add: Hot_IsFree_def Hot_GetState_SetState)
        (simp add: kStateFree_def)
  next
    case False
    with that have "of_nat j \<noteq> i" by auto
    with False assms(1) that show ?thesis unfolding av by (simp add: slot_invar_def)
  qed
  moreover have "Hot_GetSlotIndex (slots_hot ?p j) = of_nat j" if "j < kMaxSlots" for j
    using assms(1) that by (auto simp: slot_invar_def)
  moreover have "slot_avail ?p \<subseteq> slot_univ ?p"
    using assms(1,2) unfolding av by (auto simp: slot_invar_def slot_univ_def)
  ultimately have "slot_invar ?p"
    using top by (simp add: slot_invar_def)
  with free av show ?thesis by blast
qed

lemma slot_alloc_None: "slot_invar p \<Longrightarrow> slot_alloc p = None \<longleftrightarrow> slot_avail p = {}"
proof (cases "stack_top p = 0")
  case True
  then show ?thesis by (simp add: slot_alloc_def Allocate_empty slot_avail_def)
next
  case False
  assume inv: "slot_invar p"
  obtain i g p' where a: "RpcSlotPool_Allocate p = ((i, g), p')" by (metis prod.exhaust)
  from False Allocate_index [OF inv _ a] have "i \<noteq> kNoSlot" "i \<in> slot_avail p" by simp_all
  with a show ?thesis by (auto simp: slot_alloc_def)
qed

lemma slot_alloc_SomeE:
  assumes "slot_invar p" and "slot_alloc p = Some (i, p')"
  obtains g where "RpcSlotPool_Allocate p = ((i, g), p')" and "stack_top p > 0"
  using assms by (auto simp: slot_alloc_def Allocate_empty split: prod.splits if_splits)
    (metis Allocate_empty Pair_inject neq0_conv)

interpretation rpc_slots: index_pool "\<lambda>p. Inr (slot_alloc p)" RpcSlotPool_Free slot_avail slot_univ slot_invar
proof unfold_locales
  fix p p' i
  assume inv: "slot_invar p"
  show "(Inr (slot_alloc p) :: (u32 \<times> RpcSlotPool) option chk) = Inr None \<longleftrightarrow> slot_avail p = {}" using slot_alloc_None [OF inv] by simp
  show "i \<in> slot_avail p \<and> slot_avail p' = slot_avail p - {i} \<and> slot_univ p' = slot_univ p \<and> slot_invar p'"
    if a: "(Inr (slot_alloc p) :: (u32 \<times> RpcSlotPool) option chk) = Inr (Some (i, p'))"
  proof -
    from a have "slot_alloc p = Some (i, p')" by simp
    with inv obtain g where "RpcSlotPool_Allocate p = ((i, g), p')" and "stack_top p > 0"
      by (rule slot_alloc_SomeE)
    from Allocate_index [OF inv this(2,1)] show ?thesis by (simp add: slot_univ_def)
  qed
  show "\<exists>p'. RpcSlotPool_Free i p = Inr p' \<and> slot_avail p' = insert i (slot_avail p) \<and>
      slot_univ p' = slot_univ p \<and> slot_invar p'"
    if "i \<in> slot_univ p" "i \<notin> slot_avail p"
    using Free_ok [OF inv, of i] that by (auto simp: slot_univ_def)
qed simp

section \<open>Slots are never shared\<close>

lemma slot_holds_new: "holds_exactly (slot_univ RpcSlotPool_new) (slot_avail RpcSlotPool_new) []"
  by (simp add: holds_exactly_def slot_avail_new slot_univ_def)

text \<open>
  C7. Whatever history of allocations and releases a client runs on a fresh slot pool, as long
  as it releases only slots it holds: no access leaves the arrays, the slots it holds are
  pairwise different, and together with the slots on the free stack they are exactly the
  65536 slots, each in one place.
\<close>

theorem slot_pool_no_sharing:
  "\<exists>p held. pool_run (\<lambda>p. Inr (slot_alloc p)) RpcSlotPool_Free ops (RpcSlotPool_new, []) = Inr (p, held) \<and>
     slot_invar p \<and> distinct held \<and> set held \<inter> slot_avail p = {} \<and>
     set held \<union> slot_avail p = {i. unat i < kMaxSlots}"
  using rpc_slots.pool_run_ok [OF slot_invar_new slot_holds_new, of ops]
  by (auto simp: holds_exactly_def slot_univ_def)

section \<open>Generations\<close>

definition slot_gen :: "RpcSlotPool \<Rightarrow> u32 \<Rightarrow> nat" where
  "slot_gen p i = unat (Hot_GetGeneration (slots_hot p (unat i)))"

fun slot_run :: "u32 pool_op list \<Rightarrow> RpcSlotPool \<Rightarrow> RpcSlotPool chk" where
  "slot_run [] p = Inr p"
| "slot_run (Pool_Alloc # xs) p = slot_run xs (snd (RpcSlotPool_Allocate p))"
| "slot_run (Pool_Release i # xs) p = bind_chk (RpcSlotPool_Free i p) (slot_run xs)"

lemma slot_run_append: "slot_run (xs @ ys) p = bind_chk (slot_run xs p) (slot_run ys)"
proof (induction xs p rule: slot_run.induct)
  case (3 i xs p)
  then show ?case by (cases "RpcSlotPool_Free i p") simp_all
qed simp_all

lemma slot_gen_lt: "slot_gen p i < 4096"
  by (simp add: slot_gen_def Hot_GetGeneration_lt)

lemma slot_gen_Allocate [simp]: "slot_gen (snd (RpcSlotPool_Allocate p)) i = slot_gen p i"
  by (simp add: slot_gen_def RpcSlotPool_Allocate_def Let_def)

lemma slot_gen_Free:
  "RpcSlotPool_Free j p = Inr p' \<Longrightarrow>
     slot_gen p' i = (if i = j then (slot_gen p i + 1) mod 4096 else slot_gen p i)"
  by (auto simp: RpcSlotPool_Free_def Let_def slot_gen_def Hot_GetGeneration_IncrementGeneration
      word_unat_eq_iff split: if_splits)

text \<open>The generation of a slot counts its releases modulo 4096.\<close>

lemma slot_gen_run:
  "slot_run xs p = Inr p' \<Longrightarrow> slot_gen p' i = (slot_gen p i + count_list xs (Pool_Release i)) mod 4096"
proof (induction xs p rule: slot_run.induct)
  case (1 p)
  then show ?case by (simp add: slot_gen_lt)
next
  case (2 xs p)
  then show ?case by simp
next
  case (3 j xs p)
  then obtain p1 where p1: "RpcSlotPool_Free j p = Inr p1" "slot_run xs p1 = Inr p'"
    by (auto simp: bind_chk_eq_Inr_conv)
  with 3 have "slot_gen p' i = (slot_gen p1 i + count_list xs (Pool_Release i)) mod 4096" by simp
  with slot_gen_Free [OF p1(1), of i] show ?case by (auto simp: mod_simps)
qed

lemma GetHotChecked_gen:
  "unat i < kMaxSlots \<Longrightarrow> RpcSlotPool_GetHotChecked i g p =
     Inr (if slot_gen p i = unat g then Some (slots_hot p (unat i)) else None)"
proof -
  have "Hot_GetGeneration h = ucast g \<longleftrightarrow> unat (Hot_GetGeneration h) = unat g" for h
  proof -
    have "unat (ucast g :: u16) = unat g"
      using unat_u8_lt [of g] by (simp add: unat_ucast_mod)
    then show ?thesis by (metis word_unat_eq_iff)
  qed
  then show "unat i < kMaxSlots \<Longrightarrow> ?thesis"
    by (simp add: RpcSlotPool_GetHotChecked_def Let_def Hot_ValidateGeneration_def slot_gen_def)
qed

lemma Allocate_some:
  assumes "slot_invar p" and "RpcSlotPool_Allocate p = ((i, g), p1)" and "i \<noteq> kNoSlot"
  shows "unat i < kMaxSlots" and "slot_gen p1 i = slot_gen p i" and "unat g = slot_gen p i mod 256"
proof -
  have "stack_top p > 0" using assms(2,3) Allocate_empty by fastforce
  note * = Allocate_index [OF assms(1) this assms(2)]
  from * show "unat i < kMaxSlots" by simp
  from *(6) show "slot_gen p1 i = slot_gen p i" by (simp add: slot_gen_def)
  from *(5) show "unat g = slot_gen p i mod 256"
    by (simp add: slot_gen_def unat_ucast_mod)
qed

text \<open>
  C19. A completion is never mistaken for one of a later request on the same slot: if a slot was
  allocated with generation \<open>g\<close> and, after any further pool operations, has been released at
  least once and fewer than 256 times since, the generation check of that slot with \<open>g\<close>
  returns the null pointer, so the late completion or timeout is discarded.
\<close>

theorem stale_completion_rejected:
  assumes "slot_invar p" and "RpcSlotPool_Allocate p = ((i, g), p1)" and "i \<noteq> kNoSlot"
    and "slot_run ops p1 = Inr p2"
    and "1 \<le> count_list ops (Pool_Release i)" and "count_list ops (Pool_Release i) < 256"
  shows "RpcSlotPool_GetHotChecked i g p2 = Inr None"
proof -
  let ?k = "count_list ops (Pool_Release i)"
  note a = Allocate_some [OF assms(1-3)]
  have "slot_gen p2 i mod 256 = (slot_gen p i + ?k) mod 256"
    using slot_gen_run [OF assms(4), of i] a(2) by (simp add: mod_mod_cancel)
  moreover have "(slot_gen p i + ?k) mod 256 \<noteq> slot_gen p i mod 256"
    using assms(5,6) by (intro add_mod_neq) simp_all
  ultimately have "slot_gen p2 i \<noteq> unat g" using a(3) by (metis mod_mod_trivial)
  with a(1) show ?thesis by (simp add: GetHotChecked_gen)
qed

theorem stale_completion_rejected_witness:
  "RpcSlotPool_GetHotChecked 0 0
     (projr (slot_run [Pool_Release 0] (snd (RpcSlotPool_Allocate RpcSlotPool_new)))) = Inr None"
proof -
  let ?p1 = "snd (RpcSlotPool_Allocate RpcSlotPool_new)"
  have a: "RpcSlotPool_Allocate RpcSlotPool_new = ((0, 0), ?p1)"
    by (simp add: RpcSlotPool_Allocate_def RpcSlotPool_new_def kMaxSlots_def Let_def
        Hot_GetGeneration_def hot_bits)
  have r: "slot_run [Pool_Release 0] ?p1 = Inr (projr (slot_run [Pool_Release 0] ?p1))"
    by (simp add: RpcSlotPool_Free_def RpcSlotPool_Allocate_def RpcSlotPool_new_def kMaxSlots_def
        Let_def)
  show ?thesis
    by (rule stale_completion_rejected [OF slot_invar_new a _ r]) (simp_all add: kNoSlot_def)
qed

text \<open>
  The slot's generation has twelve bits, the copy handed to the caller eight: the check of
  a live slot with its own generation succeeds exactly while the slot has been released fewer
  than 256 times (modulo 4096). After 256 uses of a slot the completion of its next request is
  discarded as stale, and the request is never completed.
\<close>

theorem own_generation_accepted_iff:
  assumes "slot_invar p" and "RpcSlotPool_Allocate p = ((i, g), p1)" and "i \<noteq> kNoSlot"
  shows "RpcSlotPool_GetHotChecked i g p1 =
           Inr (if slot_gen p i < 256 then Some (slots_hot p1 (unat i)) else None)"
proof -
  have "slot_gen p i = slot_gen p i mod 256 \<longleftrightarrow> slot_gen p i < 256"
    by (metis mod_less mod_less_divisor zero_less_numeral)
  with Allocate_some [OF assms] show ?thesis by (simp add: GetHotChecked_gen)
qed

theorem own_generation_accepted_iff_witness:
  "RpcSlotPool_GetHotChecked 0 0 (snd (RpcSlotPool_Allocate RpcSlotPool_new)) =
     Inr (Some (slots_hot (snd (RpcSlotPool_Allocate RpcSlotPool_new)) 0))"
proof -
  have a: "RpcSlotPool_Allocate RpcSlotPool_new = ((0, 0), snd (RpcSlotPool_Allocate RpcSlotPool_new))"
    by (simp add: RpcSlotPool_Allocate_def RpcSlotPool_new_def kMaxSlots_def Let_def
        Hot_GetGeneration_def hot_bits)
  have "slot_gen RpcSlotPool_new 0 < 256"
    by (simp add: slot_gen_def RpcSlotPool_new_def Hot_GetGeneration_def)
  with own_generation_accepted_iff [OF slot_invar_new a] show ?thesis by (simp add: kNoSlot_def)
qed

section \<open>A slot that stops completing\<close>

definition slot_cycles :: "nat \<Rightarrow> u32 pool_op list" where
  "slot_cycles n = concat (replicate n [Pool_Alloc, Pool_Release 0])"

lemma slot_cycles_Suc: "slot_cycles (Suc n) = slot_cycles n @ [Pool_Alloc, Pool_Release 0]"
  by (simp add: slot_cycles_def replicate_append_same [symmetric] del: replicate_append_same)

lemma count_slot_cycles: "count_list (slot_cycles n) (Pool_Release 0) = n"
  by (induction n) (simp_all add: slot_cycles_Suc, simp add: slot_cycles_def)

text \<open>A client that always has one request in flight uses the same slot for each of them.\<close>

lemma slot_cycles_run:
  "\<exists>p. slot_run (slot_cycles n) RpcSlotPool_new = Inr p \<and> slot_invar p \<and>
     stack_top p = kMaxSlots \<and> free_stack p (kMaxSlots - 1) = 0"
proof (induction n)
  case 0
  show ?case by (simp add: slot_cycles_def slot_invar_new) (simp add: RpcSlotPool_new_def)
next
  case (Suc n)
  then obtain p where p: "slot_run (slot_cycles n) RpcSlotPool_new = Inr p" "slot_invar p"
    "stack_top p = kMaxSlots" "free_stack p (kMaxSlots - 1) = 0" by blast
  obtain i g p1 where a: "RpcSlotPool_Allocate p = ((i, g), p1)" by (metis prod.exhaust)
  have pos: "stack_top p > 0" using p(3) by (simp add: kMaxSlots_def)
  note ai = Allocate_index [OF p(2) pos a]
  from ai(1) p(3,4) have i: "i = 0" by simp
  have top1: "stack_top p1 = kMaxSlots - 1"
    using a pos p(3) by (auto simp: RpcSlotPool_Allocate_def Let_def)
  have "unat (0 :: u32) < kMaxSlots" "0 \<notin> slot_avail p1" using ai(2,7) i by auto
  from Free_ok [OF ai(8) this] obtain p2 where p2: "RpcSlotPool_Free 0 p1 = Inr p2" "slot_invar p2"
    by blast
  moreover from p2(1) have "stack_top p2 = kMaxSlots" "free_stack p2 (kMaxSlots - 1) = 0"
    using top1 by (auto simp: RpcSlotPool_Free_def Let_def kMaxSlots_def split: if_splits)
  ultimately show ?case
    using p(1) a by (simp add: slot_cycles_Suc slot_run_append)
qed

text \<open>
  A concrete run into that state: after one slot has been allocated and released 256 times
  on a fresh pool, the next allocation returns slot 0 with generation 0, and looking the slot
  up with exactly that pair returns the null pointer.
\<close>

theorem slot_reuse_loses_completion:
  "\<exists>p p1. slot_run (slot_cycles 256) RpcSlotPool_new = Inr p \<and>
     RpcSlotPool_Allocate p = ((0, 0), p1) \<and> RpcSlotPool_GetHotChecked 0 0 p1 = Inr None"
proof -
  obtain p where p: "slot_run (slot_cycles 256) RpcSlotPool_new = Inr p" "slot_invar p"
    "stack_top p = kMaxSlots" "free_stack p (kMaxSlots - 1) = 0"
    using slot_cycles_run by blast
  obtain i g p1 where a: "RpcSlotPool_Allocate p = ((i, g), p1)" by (metis prod.exhaust)
  have "stack_top p > 0" using p(3) by (simp add: kMaxSlots_def)
  note ai = Allocate_index [OF p(2) this a]
  from ai(1) p(3,4) have i: "i = 0" by simp
  have "slot_gen RpcSlotPool_new 0 = 0"
    by (simp add: slot_gen_def RpcSlotPool_new_def Hot_GetGeneration_def)
  with slot_gen_run [OF p(1), of 0] have gen: "slot_gen p 0 = 256"
    by (simp add: count_slot_cycles)
  note as = Allocate_some [OF p(2) a ai(3)]
  from as(3) gen i have g: "g = 0" by (simp add: word_unat_eq_iff)
  with as gen i have "RpcSlotPool_GetHotChecked 0 0 p1 = Inr None" by (simp add: GetHotChecked_gen)
  with p(1) a i g show ?thesis by blast
qed

end
