(* ===== verification/Timing_Wheel.thy ===== *)
theory Timing_Wheel
  imports Rdma_Types
begin

text \<open>
  \<open>include/rdma/common/timing_wheel.h\<close>: the timeout entries, the intrusive singly linked
  buckets, the single-level \<open>TimingWheel\<close> the reactor owns and the two-level
  \<open>HierarchicalTimingWheel\<close>. The entry pool is a heap from entry numbers to entries with explicit
  \<open>next\<close> pointers (\<open>None\<close> is null), shared by the buckets and the free list, so that a list that
  is cut or tied into a cycle is a possible state. The loop over a bucket is a
  \<open>partial_function\<close>: \<open>None\<close> is a loop that does not end. The memory of a new pool is not
  initialised by the source; its content is a parameter of the constructors.
\<close>

section \<open>Entries and buckets\<close>

record TimeoutEntry =
  te_slot_index :: u32
  te_generation :: u8
  te_next :: "nat option"

type_synonym entry_heap = "nat \<Rightarrow> TimeoutEntry"

record TimingWheelBucket =
  bkt_head :: "nat option"
  bkt_count :: nat

definition Bucket_empty :: TimingWheelBucket where
  "Bucket_empty = \<lparr>bkt_head = None, bkt_count = 0\<rparr>"

definition Bucket_Push ::
  "nat \<Rightarrow> TimingWheelBucket \<Rightarrow> entry_heap \<Rightarrow> TimingWheelBucket \<times> entry_heap" where
  "Bucket_Push e b h =
     (\<lparr>bkt_head = Some e, bkt_count = bkt_count b + 1\<rparr>, h(e := (h e)\<lparr>te_next := bkt_head b\<rparr>))"

definition Bucket_PopAll :: "TimingWheelBucket \<Rightarrow> nat option \<times> TimingWheelBucket" where
  "Bucket_PopAll b = (bkt_head b, Bucket_empty)"

definition AllocEntry :: "nat option \<Rightarrow> entry_heap \<Rightarrow> (nat \<times> nat option) option" where
  "AllocEntry free_list h =
     (case free_list of None \<Rightarrow> None | Some e \<Rightarrow> Some (e, te_next (h e)))"

definition FreeEntry :: "nat \<Rightarrow> nat option \<Rightarrow> entry_heap \<Rightarrow> nat option \<times> entry_heap" where
  "FreeEntry e free_list h = (Some e, h(e := (h e)\<lparr>te_next := free_list\<rparr>))"

text \<open>The payload a fired entry reports.\<close>

definition te_payload :: "TimeoutEntry \<Rightarrow> u32 \<times> u8" where
  "te_payload e = (te_slot_index e, te_generation e)"

text \<open>The loop that empties a popped bucket into \<open>expired\<close> and onto the free list.\<close>

partial_function (option) expire_loop ::
  "nat option \<Rightarrow> entry_heap \<Rightarrow> nat option \<Rightarrow> (u32 \<times> u8) list
     \<Rightarrow> (entry_heap \<times> nat option \<times> (u32 \<times> u8) list) option"
where
  "expire_loop entry h free_list expired =
     (case entry of
        None \<Rightarrow> Some (h, free_list, expired)
      | Some e \<Rightarrow>
          let expired' = expired @ [(te_slot_index (h e), te_generation (h e))];
              next_entry = te_next (h e);
              (free_list', h') = FreeEntry e free_list h
          in expire_loop next_entry h' free_list' expired')"

section \<open>The single-level wheel\<close>

definition kWheelSize :: nat where
  "kWheelSize = 1024"

definition kMaxEntries :: nat where
  "kMaxEntries = 65536"

record TimingWheel =
  tw_buckets :: "nat \<Rightarrow> TimingWheelBucket"
  tw_current :: u32
  tw_pool :: entry_heap
  tw_free :: "nat option"

definition TimingWheel_new :: "entry_heap \<Rightarrow> TimingWheel" where
  "TimingWheel_new mem =
     \<lparr>tw_buckets = (\<lambda>_. Bucket_empty), tw_current = 0,
      tw_pool = (\<lambda>i. (mem i)\<lparr>te_next := if i < kMaxEntries - 1 then Some (i + 1) else None\<rparr>),
      tw_free = Some 0\<rparr>"

definition TimingWheel_Schedule ::
  "u32 \<Rightarrow> u8 \<Rightarrow> u32 \<Rightarrow> TimingWheel \<Rightarrow> bool \<times> TimingWheel" where
  "TimingWheel_Schedule slot_index generation timeout_ticks w =
     (case AllocEntry (tw_free w) (tw_pool w) of
        None \<Rightarrow> (False, w)
      | Some (e, free_list) \<Rightarrow>
          let h = (tw_pool w)(e := (tw_pool w e)\<lparr>te_slot_index := slot_index, te_generation := generation\<rparr>);
              target = unat (tw_current w + timeout_ticks) mod kWheelSize;
              (b, h') = Bucket_Push e (tw_buckets w target) h
          in (True, w\<lparr>tw_free := free_list, tw_pool := h', tw_buckets := (tw_buckets w)(target := b)\<rparr>))"

definition TimingWheel_Tick :: "TimingWheel \<Rightarrow> ((u32 \<times> u8) list \<times> TimingWheel) option" where
  "TimingWheel_Tick w =
     (let c = unat (tw_current w);
          (entry, b) = Bucket_PopAll (tw_buckets w c)
      in case expire_loop entry (tw_pool w) (tw_free w) [] of
           None \<Rightarrow> None
         | Some (h, free_list, expired) \<Rightarrow>
             Some (expired, w\<lparr>tw_buckets := (tw_buckets w)(c := b), tw_pool := h, tw_free := free_list,
                              tw_current := of_nat (unat (tw_current w + 1) mod kWheelSize)\<rparr>))"

section \<open>The two-level wheel\<close>

definition kLevel1Size :: nat where
  "kLevel1Size = 256"

definition kLevel2Size :: nat where
  "kLevel2Size = 256"

definition kLevel1TickMs :: nat where
  "kLevel1TickMs = 1"

definition kLevel2TickMs :: nat where
  "kLevel2TickMs = 256"

definition kHierMaxEntries :: nat where
  "kHierMaxEntries = 1048576"

text \<open>\<open>hw_base\<close> is the address of the entry pool; an entry takes sixteen bytes.\<close>

record HierarchicalTimingWheel =
  hw_level1 :: "nat \<Rightarrow> TimingWheelBucket"
  hw_level2 :: "nat \<Rightarrow> TimingWheelBucket"
  hw_level1_current :: u32
  hw_level2_current :: u32
  hw_pool :: entry_heap
  hw_base :: ptr
  hw_free :: "nat option"

definition HierarchicalTimingWheel_new :: "entry_heap \<Rightarrow> ptr \<Rightarrow> HierarchicalTimingWheel" where
  "HierarchicalTimingWheel_new mem base =
     \<lparr>hw_level1 = (\<lambda>_. Bucket_empty), hw_level2 = (\<lambda>_. Bucket_empty),
      hw_level1_current = 0, hw_level2_current = 0,
      hw_pool = (\<lambda>i. (mem i)\<lparr>te_next := if i < kHierMaxEntries - 1 then Some (i + 1) else None\<rparr>),
      hw_base = base, hw_free = Some 0\<rparr>"

definition Hier_Schedule ::
  "u32 \<Rightarrow> u8 \<Rightarrow> u32 \<Rightarrow> HierarchicalTimingWheel \<Rightarrow> bool \<times> HierarchicalTimingWheel" where
  "Hier_Schedule slot_index generation timeout_ms w =
     (case AllocEntry (hw_free w) (hw_pool w) of
        None \<Rightarrow> (False, w)
      | Some (e, free_list) \<Rightarrow>
          let h = (hw_pool w)(e := (hw_pool w e)\<lparr>te_slot_index := slot_index, te_generation := generation\<rparr>)
          in if unat timeout_ms < kLevel1Size * kLevel1TickMs
             then let target = unat (hw_level1_current w + timeout_ms) mod kLevel1Size;
                      (b, h') = Bucket_Push e (hw_level1 w target) h
                  in (True, w\<lparr>hw_free := free_list, hw_pool := h',
                              hw_level1 := (hw_level1 w)(target := b)\<rparr>)
             else let level2_ticks = of_nat (unat timeout_ms div kLevel2TickMs) :: u32;
                      target = unat (hw_level2_current w + level2_ticks) mod kLevel2Size;
                      (b, h') = Bucket_Push e (hw_level2 w target) h
                  in (True, w\<lparr>hw_free := free_list, hw_pool := h',
                              hw_level2 := (hw_level2 w)(target := b)\<rparr>))"

definition entry_addr :: "ptr \<Rightarrow> nat \<Rightarrow> ptr" where
  "entry_addr base e = base + 16 * of_nat e"

definition demote_target :: "ptr \<Rightarrow> nat \<Rightarrow> nat" where
  "demote_target base e = unat (drop_bit 6 (entry_addr base e)) mod kLevel1Size"

partial_function (option) demote_loop ::
  "ptr \<Rightarrow> nat option \<Rightarrow> (nat \<Rightarrow> TimingWheelBucket) \<Rightarrow> entry_heap
     \<Rightarrow> ((nat \<Rightarrow> TimingWheelBucket) \<times> entry_heap) option"
where
  "demote_loop base entry level1 h =
     (case entry of
        None \<Rightarrow> Some (level1, h)
      | Some e \<Rightarrow>
          let next_entry = te_next (h e);
              target = demote_target base e;
              (b, h') = Bucket_Push e (level1 target) h
          in demote_loop base next_entry (level1(target := b)) h')"

definition Hier_Tick ::
  "HierarchicalTimingWheel \<Rightarrow> ((u32 \<times> u8) list \<times> HierarchicalTimingWheel) option" where
  "Hier_Tick w =
     (let c = unat (hw_level1_current w);
          (entry, b) = Bucket_PopAll (hw_level1 w c)
      in case expire_loop entry (hw_pool w) (hw_free w) [] of
           None \<Rightarrow> None
         | Some (h, free_list, expired) \<Rightarrow>
             let c1 = of_nat (unat (hw_level1_current w + 1) mod kLevel1Size) :: u32;
                 w1 = w\<lparr>hw_level1 := (hw_level1 w)(c := b), hw_pool := h, hw_free := free_list,
                        hw_level1_current := c1\<rparr>
             in if c1 = 0
                then let c2 = unat (hw_level2_current w1);
                         (entry2, b2) = Bucket_PopAll (hw_level2 w1 c2)
                     in case demote_loop (hw_base w1) entry2 (hw_level1 w1) (hw_pool w1) of
                          None \<Rightarrow> None
                        | Some (l1, h2) \<Rightarrow>
                            Some (expired, w1\<lparr>hw_level2 := (hw_level2 w1)(c2 := b2), hw_level1 := l1,
                              hw_pool := h2,
                              hw_level2_current :=
                                of_nat (unat (hw_level2_current w1 + 1) mod kLevel2Size)\<rparr>)
                else Some (expired, w1))"

partial_function (option) free_count_loop :: "nat option \<Rightarrow> entry_heap \<Rightarrow> nat \<Rightarrow> nat option" where
  "free_count_loop entry h count =
     (case entry of None \<Rightarrow> Some count | Some e \<Rightarrow> free_count_loop (te_next (h e)) h (count + 1))"

definition Hier_GetFreeCount :: "HierarchicalTimingWheel \<Rightarrow> nat option" where
  "Hier_GetFreeCount w = free_count_loop (hw_free w) (hw_pool w) 0"

section \<open>Chains in the entry heap\<close>

primrec chain :: "entry_heap \<Rightarrow> nat option \<Rightarrow> nat list \<Rightarrow> bool" where
  "chain h p [] \<longleftrightarrow> p = None"
| "chain h p (e # es) \<longleftrightarrow> p = Some e \<and> chain h (te_next (h e)) es"

lemma chain_unique: "chain h p xs \<Longrightarrow> chain h p ys \<Longrightarrow> xs = ys"
proof (induction xs arbitrary: p ys)
  case Nil
  then show ?case by (cases ys) auto
next
  case (Cons x xs)
  then show ?case by (cases ys) auto
qed

lemma chain_cong:
  "(\<And>e. e \<in> set xs \<Longrightarrow> te_next (h' e) = te_next (h e)) \<Longrightarrow> chain h' p xs = chain h p xs"
  by (induction xs arbitrary: p) simp_all

lemma chain_upd [simp]: "e \<notin> set xs \<Longrightarrow> chain (h(e := v)) p xs = chain h p xs"
  by (rule chain_cong) auto

text \<open>Reading a chain with a bound on its length: the list abstraction as a function.\<close>

fun follow :: "entry_heap \<Rightarrow> nat option \<Rightarrow> nat \<Rightarrow> nat list" where
  "follow h p 0 = []"
| "follow h None (Suc n) = []"
| "follow h (Some e) (Suc n) = e # follow h (te_next (h e)) n"

lemma follow_chain: "chain h p xs \<Longrightarrow> length xs \<le> n \<Longrightarrow> follow h p n = xs"
proof (induction xs arbitrary: p n)
  case Nil
  then show ?case by (cases n) simp_all
next
  case (Cons x xs)
  then show ?case by (cases n) auto
qed

text \<open>
  Emptying a chain: the loop ends, reports the payloads in chain order, and puts every entry of
  the chain on the free list.
\<close>

lemma expire_loop_chain:
  assumes "chain h p xs" and "chain h fl fs" and "distinct xs" and "set xs \<inter> set fs = {}"
  shows "\<exists>h' fl'. expire_loop p h fl ex = Some (h', fl', ex @ map (te_payload \<circ> h) xs) \<and>
           chain h' fl' (rev xs @ fs) \<and> (\<forall>e. e \<notin> set xs \<longrightarrow> h' e = h e) \<and>
           te_payload \<circ> h' = te_payload \<circ> h"
  using assms
proof (induction xs arbitrary: h p fl fs ex)
  case Nil
  then show ?case by (simp add: expire_loop.simps)
next
  case (Cons x xs)
  let ?h = "h(x := (h x)\<lparr>te_next := fl\<rparr>)"
  have pay: "te_payload \<circ> ?h = te_payload \<circ> h" by (auto simp: te_payload_def fun_eq_iff)
  from Cons.prems have "chain ?h (te_next (h x)) xs" "chain ?h (Some x) (x # fs)"
    "distinct xs" "set xs \<inter> set (x # fs) = {}" by auto
  from Cons.IH [OF this, of "ex @ [te_payload (h x)]"] obtain h' fl' where
    *: "expire_loop (te_next (h x)) ?h (Some x) (ex @ [te_payload (h x)]) =
          Some (h', fl', (ex @ [te_payload (h x)]) @ map (te_payload \<circ> ?h) xs)"
       "chain h' fl' (rev xs @ x # fs)" "\<forall>e. e \<notin> set xs \<longrightarrow> h' e = ?h e"
       "te_payload \<circ> h' = te_payload \<circ> ?h"
    by blast
  from Cons.prems(1) have p: "p = Some x" by simp
  have "expire_loop p h fl ex =
      expire_loop (te_next (h x)) ?h (Some x) (ex @ [te_payload (h x)])"
    by (subst expire_loop.simps) (simp add: p FreeEntry_def te_payload_def)
  with *(1) have "expire_loop p h fl ex = Some (h', fl', ex @ map (te_payload \<circ> h) (x # xs))"
    unfolding pay by simp
  moreover have "chain h' fl' (rev (x # xs) @ fs)" using *(2) by simp
  moreover have "\<forall>e. e \<notin> set (x # xs) \<longrightarrow> h' e = h e" using *(3) by simp
  moreover have "te_payload \<circ> h' = te_payload \<circ> h" using *(4) pay by (rule trans)
  ultimately show ?case by blast
qed

lemma free_count_loop_chain: "chain h p xs \<Longrightarrow> free_count_loop p h n = Some (n + length xs)"
  by (induction xs arbitrary: p n) (simp_all add: free_count_loop.simps)

section \<open>Free list and buckets partition the pool\<close>

definition shape ::
  "entry_heap \<Rightarrow> nat option \<Rightarrow> (nat \<Rightarrow> TimingWheelBucket) \<Rightarrow> nat \<Rightarrow> nat \<Rightarrow> nat list
     \<Rightarrow> (nat \<Rightarrow> nat list) \<Rightarrow> bool" where
  "shape h fl bks nb M F B \<longleftrightarrow>
     chain h fl F \<and>
     (\<forall>b<nb. chain h (bkt_head (bks b)) (B b) \<and> bkt_count (bks b) = length (B b)) \<and>
     distinct F \<and>
     (\<forall>b<nb. distinct (B b) \<and> set F \<inter> set (B b) = {}) \<and>
     (\<forall>b<nb. \<forall>c<nb. b \<noteq> c \<longrightarrow> set (B b) \<inter> set (B c) = {}) \<and>
     set F \<union> (\<Union>b<nb. set (B b)) = {..<M}"

lemma shape_disjoint:
  "shape h fl bks nb M F B \<Longrightarrow> c < nb \<Longrightarrow> d < nb \<Longrightarrow> c \<noteq> d \<Longrightarrow> set (B c) \<inter> set (B d) = {}"
  "shape h fl bks nb M F B \<Longrightarrow> c < nb \<Longrightarrow> set F \<inter> set (B c) = {}"
  by (simp_all add: shape_def)

lemma shape_chain:
  "shape h fl bks nb M F B \<Longrightarrow> b < nb \<Longrightarrow> chain h (bkt_head (bks b)) (B b)"
  "shape h fl bks nb M F B \<Longrightarrow> b < nb \<Longrightarrow> distinct (B b)"
  by (simp_all add: shape_def)

lemma chain_upt:
  "(\<And>i. a \<le> i \<Longrightarrow> i < M \<Longrightarrow> te_next (h i) = (if i < M - 1 then Some (i + 1) else None)) \<Longrightarrow>
     a < M \<Longrightarrow> chain h (Some a) [a..<M]"
proof (induction "M - a" arbitrary: a)
  case (Suc n)
  show ?case
  proof (cases "Suc a < M")
    case True
    from Suc.hyps(1) [of "Suc a"] Suc.hyps(2) Suc.prems True have "chain h (Some (Suc a)) [Suc a..<M]"
      by auto
    moreover have "te_next (h a) = Some (Suc a)" using Suc.prems True by auto
    ultimately show ?thesis using Suc.prems(2) by (simp add: upt_conv_Cons)
  next
    case False
    with Suc.prems have "M = Suc a" by simp
    moreover have "te_next (h a) = None" using Suc.prems \<open>M = Suc a\<close> by auto
    ultimately show ?thesis by simp
  qed
qed simp

lemma shape_new:
  assumes "M > 0"
  shows "shape (\<lambda>i. (mem i)\<lparr>te_next := if i < M - 1 then Some (i + 1) else None\<rparr>) (Some 0)
           (\<lambda>_. Bucket_empty) nb M [0..<M] (\<lambda>_. [])"
  using assms chain_upt [of 0 M] by (auto simp: shape_def Bucket_empty_def)

lemma shape_push:
  assumes "shape h (Some e) bks nb M (e # F) B" and "b < nb"
  shows "shape (h(e := (h e)\<lparr>te_slot_index := s, te_generation := g, te_next := bkt_head (bks b)\<rparr>))
           (te_next (h e)) (bks(b := \<lparr>bkt_head = Some e, bkt_count = bkt_count (bks b) + 1\<rparr>))
           nb M F (B(b := e # B b))"
proof -
  from assms(1) have notin: "e \<notin> set F" "\<And>c. c < nb \<Longrightarrow> e \<notin> set (B c)"
    by (auto simp: shape_def)
  note disj = shape_disjoint [OF assms(1)]
  have "set F \<union> (\<Union>c<nb. set ((B(b := e # B b)) c)) = set (e # F) \<union> (\<Union>c<nb. set (B c))"
    using assms(2) by (auto split: if_splits)
  moreover have "\<forall>c<nb. \<forall>d<nb. c \<noteq> d \<longrightarrow> set ((B(b := e # B b)) c) \<inter> set ((B(b := e # B b)) d) = {}"
    using assms(2) notin(2) disj(1) by simp
  moreover have "\<forall>c<nb. distinct ((B(b := e # B b)) c) \<and> set F \<inter> set ((B(b := e # B b)) c) = {}"
    using assms notin unfolding shape_def by auto
  ultimately show ?thesis
    using assms notin unfolding shape_def by simp
qed

lemma shape_pop:
  assumes "shape h fl bks nb M F B" and "b < nb"
  shows "\<exists>h' fl'. expire_loop (bkt_head (bks b)) h fl [] = Some (h', fl', map (te_payload \<circ> h) (B b)) \<and>
           shape h' fl' (bks(b := Bucket_empty)) nb M (rev (B b) @ F) (B(b := [])) \<and>
           te_payload \<circ> h' = te_payload \<circ> h"
proof -
  from assms have pre: "chain h (bkt_head (bks b)) (B b)" "chain h fl F" "distinct (B b)"
    "set (B b) \<inter> set F = {}" by (auto simp: shape_def)
  from expire_loop_chain [OF this, of "[]"] obtain h' fl' where
    *: "expire_loop (bkt_head (bks b)) h fl [] = Some (h', fl', map (te_payload \<circ> h) (B b))"
       "chain h' fl' (rev (B b) @ F)" "\<forall>e. e \<notin> set (B b) \<longrightarrow> h' e = h e"
       "te_payload \<circ> h' = te_payload \<circ> h"
    by auto
  have "chain h' (bkt_head (bks c)) (B c)" if "c < nb" "c \<noteq> b" for c
  proof -
    have "set (B c) \<inter> set (B b) = {}" using shape_disjoint(1) [OF assms(1)] that assms(2) by simp
    then have "chain h' (bkt_head (bks c)) (B c) = chain h (bkt_head (bks c)) (B c)"
      using *(3) by (intro chain_cong) auto
    with assms that show ?thesis by (auto simp: shape_def)
  qed
  moreover have "set (rev (B b) @ F) \<union> (\<Union>c<nb. set ((B(b := [])) c)) = set F \<union> (\<Union>c<nb. set (B c))"
    using assms(2) by (auto split: if_splits)
  moreover have "\<forall>c<nb. set (rev (B b) @ F) \<inter> set ((B(b := [])) c) = {}"
    using shape_disjoint [OF assms(1)] assms(2) by (simp add: Int_Un_distrib2)
  ultimately have "shape h' fl' (bks(b := Bucket_empty)) nb M (rev (B b) @ F) (B(b := []))"
    using assms(1) pre *(2) unfolding shape_def by (simp add: Bucket_empty_def)
  with * show ?thesis by blast
qed

lemma shape_sizes: "shape h fl bks nb M F B \<Longrightarrow> length F + (\<Sum>b<nb. length (B b)) = M"
proof -
  assume sh: "shape h fl bks nb M F B"
  then have "card (\<Union>b<nb. set (B b)) = (\<Sum>b<nb. card (set (B b)))"
    by (intro card_UN_disjoint) (auto simp: shape_def)
  also have "\<dots> = (\<Sum>b<nb. length (B b))"
    using sh by (intro sum.cong) (auto simp: shape_def distinct_card)
  finally have "card (set F \<union> (\<Union>b<nb. set (B b))) = length F + (\<Sum>b<nb. length (B b))"
    using sh by (subst card_Un_disjoint) (auto simp: shape_def distinct_card)
  with sh show ?thesis by (simp add: shape_def)
qed

lemma shape_bucket_length: "shape h fl bks nb M F B \<Longrightarrow> b < nb \<Longrightarrow> length (B b) \<le> M"
proof -
  assume sh: "shape h fl bks nb M F B" and b: "b < nb"
  have "length (B b) \<le> (\<Sum>b<nb. length (B b))" using b by (intro member_le_sum) auto
  with shape_sizes [OF sh] show ?thesis by linarith
qed

section \<open>The single-level wheel against its specification\<close>

definition tw_invar :: "TimingWheel \<Rightarrow> bool" where
  "tw_invar w \<longleftrightarrow> unat (tw_current w) < kWheelSize \<and>
     (\<exists>F B. shape (tw_pool w) (tw_free w) (tw_buckets w) kWheelSize kMaxEntries F B)"

text \<open>
  The abstract view: \<open>tw_pend w r\<close> lists what will be reported by the tick after \<open>r\<close> more ticks,
  \<open>tw_room w\<close> is the number of entries that can still be scheduled.
\<close>

definition tw_pend :: "TimingWheel \<Rightarrow> nat \<Rightarrow> (u32 \<times> u8) list" where
  "tw_pend w r = map (te_payload \<circ> tw_pool w)
     (follow (tw_pool w) (bkt_head (tw_buckets w ((unat (tw_current w) + r) mod kWheelSize))) kMaxEntries)"

definition tw_room :: "TimingWheel \<Rightarrow> nat" where
  "tw_room w = length (follow (tw_pool w) (tw_free w) kMaxEntries)"

lemma tw_pend_shape:
  assumes "shape (tw_pool w) (tw_free w) (tw_buckets w) kWheelSize kMaxEntries F B"
  shows "tw_pend w r = map (te_payload \<circ> tw_pool w) (B ((unat (tw_current w) + r) mod kWheelSize))"
    and "tw_room w = length F"
proof -
  have lt: "(unat (tw_current w) + r) mod kWheelSize < kWheelSize" by (simp add: kWheelSize_def)
  with assms shape_bucket_length [OF assms lt] show
    "tw_pend w r = map (te_payload \<circ> tw_pool w) (B ((unat (tw_current w) + r) mod kWheelSize))"
    unfolding tw_pend_def by (subst follow_chain) (auto simp: shape_def)
  from shape_sizes [OF assms] have "length F \<le> kMaxEntries" by linarith
  with assms show "tw_room w = length F"
    unfolding tw_room_def by (subst follow_chain) (auto simp: shape_def)
qed

lemma tw_invar_new: "tw_invar (TimingWheel_new mem)"
  using shape_new [of kMaxEntries mem kWheelSize]
  by (auto simp: tw_invar_def TimingWheel_new_def kWheelSize_def kMaxEntries_def)

lemma tw_new_abs: "r < kWheelSize \<Longrightarrow> tw_pend (TimingWheel_new mem) r = []"
  "tw_room (TimingWheel_new mem) = kMaxEntries"
proof -
  have "shape (tw_pool (TimingWheel_new mem)) (tw_free (TimingWheel_new mem))
      (tw_buckets (TimingWheel_new mem)) kWheelSize kMaxEntries [0..<kMaxEntries] (\<lambda>_. [])"
    using shape_new [of kMaxEntries mem kWheelSize]
    by (simp add: TimingWheel_new_def kMaxEntries_def)
  from tw_pend_shape [OF this] show "r < kWheelSize \<Longrightarrow> tw_pend (TimingWheel_new mem) r = []"
    "tw_room (TimingWheel_new mem) = kMaxEntries" by simp_all
qed

lemma unat_mod_kWheelSize: "unat (a + b) mod kWheelSize = (unat a + unat b) mod kWheelSize" for a b :: u32
  by (simp add: unat_word_ariths kWheelSize_def mod_mod_cancel)


lemma mod_kWheelSize_lt [simp]: "n mod kWheelSize < kWheelSize"
  by (simp add: kWheelSize_def)

lemma unat_u32_mod_wheel: "unat (of_nat (n mod kWheelSize) :: u32) = n mod kWheelSize"
proof -
  have "n mod kWheelSize < 1024" using mod_kWheelSize_lt [of n] by (simp only: kWheelSize_def)
  then show ?thesis by (intro unat_of_nat_less) simp
qed

lemma Schedule_laws:
  assumes "tw_invar w"
  shows "tw_room w = 0 \<Longrightarrow> TimingWheel_Schedule sl g t w = (False, w)"
    and "tw_room w > 0 \<Longrightarrow> \<exists>w'. TimingWheel_Schedule sl g t w = (True, w') \<and> tw_invar w' \<and>
           tw_room w = Suc (tw_room w') \<and>
           (\<forall>r<kWheelSize. tw_pend w' r =
              (if r = unat t mod kWheelSize then (sl, g) # tw_pend w r else tw_pend w r))"
proof -
  from assms obtain F B where cur: "unat (tw_current w) < kWheelSize"
    and sh: "shape (tw_pool w) (tw_free w) (tw_buckets w) kWheelSize kMaxEntries F B"
    by (auto simp: tw_invar_def)
  note abs = tw_pend_shape [OF sh]
  from sh have fl: "chain (tw_pool w) (tw_free w) F" by (simp add: shape_def)
  show "tw_room w = 0 \<Longrightarrow> TimingWheel_Schedule sl g t w = (False, w)"
    using fl by (simp add: abs TimingWheel_Schedule_def AllocEntry_def)
  assume "tw_room w > 0"
  with abs obtain e F' where F: "F = e # F'" by (cases F) auto
  with fl have fle: "tw_free w = Some e" by simp
  define b where "b = unat (tw_current w + t) mod kWheelSize"
  define w' where "w' = w\<lparr>tw_free := te_next (tw_pool w e),
    tw_pool := (tw_pool w)(e := (tw_pool w e)\<lparr>te_slot_index := sl, te_generation := g,
      te_next := bkt_head (tw_buckets w b)\<rparr>),
    tw_buckets := (tw_buckets w)(b := \<lparr>bkt_head = Some e, bkt_count = bkt_count (tw_buckets w b) + 1\<rparr>)\<rparr>"
  have eq: "TimingWheel_Schedule sl g t w = (True, w')"
    by (simp add: TimingWheel_Schedule_def AllocEntry_def fle Bucket_Push_def Let_def w'_def b_def)
  have b: "b < kWheelSize" by (simp add: b_def)
  have sh': "shape (tw_pool w') (tw_free w') (tw_buckets w') kWheelSize kMaxEntries F' (B(b := e # B b))"
    using shape_push [OF sh [unfolded F fle] b] by (simp add: w'_def)
  note abs' = tw_pend_shape [OF sh']
  have e_fresh: "e \<notin> set (B c)" if "c < kWheelSize" for c
    using shape_disjoint(2) [OF sh that] F by auto
  have pend: "tw_pend w' r = (if r = unat t mod kWheelSize then (sl, g) # tw_pend w r else tw_pend w r)"
    if "r < kWheelSize" for r
  proof -
    let ?c = "(unat (tw_current w) + r) mod kWheelSize"
    have keep: "map (te_payload \<circ> tw_pool w') (B ?c) = map (te_payload \<circ> tw_pool w) (B ?c)"
      using e_fresh [of ?c] by (auto simp: w'_def)
    have hit: "te_payload (tw_pool w' e) = (sl, g)" by (simp add: w'_def te_payload_def)
    have "?c = b \<longleftrightarrow> r = unat t mod kWheelSize"
      using add_mod_inject [OF that mod_kWheelSize_lt] unfolding b_def unat_mod_kWheelSize
      by (simp add: mod_add_right_eq)
    moreover have "tw_current w' = tw_current w" by (simp add: w'_def)
    ultimately show ?thesis
      using keep hit unfolding abs abs'(1) by (cases "?c = b") (simp_all del: map_eq_conv map_map)
  qed
  have "tw_invar w'" using sh' cur by (auto simp: tw_invar_def w'_def)
  moreover have "tw_room w = Suc (tw_room w')" by (simp add: abs abs' F)
  ultimately show "\<exists>w'. TimingWheel_Schedule sl g t w = (True, w') \<and> tw_invar w' \<and>
      tw_room w = Suc (tw_room w') \<and> (\<forall>r<kWheelSize. tw_pend w' r =
        (if r = unat t mod kWheelSize then (sl, g) # tw_pend w r else tw_pend w r))"
    using eq pend by blast
qed

lemma Tick_laws:
  assumes "tw_invar w"
  shows "\<exists>w'. TimingWheel_Tick w = Some (tw_pend w 0, w') \<and> tw_invar w' \<and>
           tw_room w' = tw_room w + length (tw_pend w 0) \<and>
           (\<forall>r<kWheelSize. tw_pend w' r = (if r = kWheelSize - 1 then [] else tw_pend w (Suc r)))"
proof -
  from assms obtain F B where cur: "unat (tw_current w) < kWheelSize"
    and sh: "shape (tw_pool w) (tw_free w) (tw_buckets w) kWheelSize kMaxEntries F B"
    by (auto simp: tw_invar_def)
  note abs = tw_pend_shape [OF sh]
  let ?c = "unat (tw_current w)"
  from shape_pop [OF sh cur] obtain h' fl' where
    pop: "expire_loop (bkt_head (tw_buckets w ?c)) (tw_pool w) (tw_free w) [] =
            Some (h', fl', map (te_payload \<circ> tw_pool w) (B ?c))"
      "shape h' fl' ((tw_buckets w)(?c := Bucket_empty)) kWheelSize kMaxEntries (rev (B ?c) @ F) (B(?c := []))"
      "te_payload \<circ> h' = te_payload \<circ> tw_pool w"
    by blast
  define w' where "w' = w\<lparr>tw_buckets := (tw_buckets w)(?c := Bucket_empty), tw_pool := h',
    tw_free := fl', tw_current := of_nat (unat (tw_current w + 1) mod kWheelSize)\<rparr>"
  have now: "tw_pend w 0 = map (te_payload \<circ> tw_pool w) (B ?c)" using abs(1) [of 0] cur by simp
  have eq: "TimingWheel_Tick w = Some (tw_pend w 0, w')"
    by (simp add: TimingWheel_Tick_def Bucket_PopAll_def pop(1) now w'_def Let_def)
  have sh': "shape (tw_pool w') (tw_free w') (tw_buckets w') kWheelSize kMaxEntries
      (rev (B ?c) @ F) (B(?c := []))" using pop(2) by (simp add: w'_def)
  have cur': "unat (tw_current w') = (?c + 1) mod kWheelSize"
    by (simp add: w'_def unat_u32_mod_wheel unat_mod_kWheelSize)
  have pend: "tw_pend w' r = (if r = kWheelSize - 1 then [] else tw_pend w (Suc r))"
    if r: "r < kWheelSize" for r
  proof -
    have idx: "(unat (tw_current w') + r) mod kWheelSize = (?c + Suc r) mod kWheelSize"
      unfolding cur' by (simp add: mod_add_left_eq)
    have "(?c + Suc r) mod kWheelSize = ?c \<longleftrightarrow> r = kWheelSize - 1"
    proof
      show "r = kWheelSize - 1 \<Longrightarrow> (?c + Suc r) mod kWheelSize = ?c" using cur r by simp
      show "(?c + Suc r) mod kWheelSize = ?c \<Longrightarrow> r = kWheelSize - 1"
        using add_mod_neq [of "Suc r" kWheelSize ?c] cur r by (cases "Suc r < kWheelSize") auto
    qed
    moreover have "tw_pool w' = h'" by (simp add: w'_def)
    ultimately show ?thesis
      unfolding tw_pend_shape(1) [OF sh'] abs(1) idx by (simp add: pop(3))
  qed
  have "tw_invar w'" using sh' by (auto simp: tw_invar_def cur')
  moreover have "tw_room w' = tw_room w + length (tw_pend w 0)"
    by (simp add: tw_pend_shape(2) [OF sh'] abs(2) now)
  ultimately show ?thesis using eq pend by blast
qed

section \<open>The timer contract\<close>

text \<open>
  What the clients of a wheel rely on: a schedule of \<open>t\<close> ticks puts the payload where the tick
  after \<open>t mod period\<close> further ticks reports it, a tick reports exactly what is due and moves
  everything else one tick closer, and reported entries become room for new ones.
\<close>

datatype 'p timer_op = Op_Schedule 'p u32 | Op_Tick

fun timer_run ::
  "('p \<Rightarrow> u32 \<Rightarrow> 's \<Rightarrow> bool \<times> 's) \<Rightarrow> ('s \<Rightarrow> ('p list \<times> 's) option) \<Rightarrow> 'p timer_op list \<Rightarrow> 's
     \<Rightarrow> ('p list list \<times> 's) option"
where
  "timer_run sched tick [] s = Some ([], s)"
| "timer_run sched tick (Op_Schedule p t # ops) s = timer_run sched tick ops (snd (sched p t s))"
| "timer_run sched tick (Op_Tick # ops) s =
     (case tick s of
        None \<Rightarrow> None
      | Some (fired, s') \<Rightarrow>
          (case timer_run sched tick ops s' of
             None \<Rightarrow> None
           | Some (rs, s'') \<Rightarrow> Some (fired # rs, s'')))"

fun schedules :: "'p \<Rightarrow> 'p timer_op \<Rightarrow> bool" where
  "schedules p (Op_Schedule q t) \<longleftrightarrow> q = p"
| "schedules p Op_Tick \<longleftrightarrow> False"

locale timer =
  fixes sched :: "'p \<Rightarrow> u32 \<Rightarrow> 's \<Rightarrow> bool \<times> 's"
    and tick :: "'s \<Rightarrow> ('p list \<times> 's) option"
    and pend :: "'s \<Rightarrow> nat \<Rightarrow> 'p list"
    and room :: "'s \<Rightarrow> nat"
    and period :: nat
    and invar :: "'s \<Rightarrow> bool"
  assumes period_pos: "0 < period"
    and sched_full: "invar s \<Longrightarrow> room s = 0 \<Longrightarrow> sched p t s = (False, s)"
    and sched_room: "invar s \<Longrightarrow> room s > 0 \<Longrightarrow>
          \<exists>s'. sched p t s = (True, s') \<and> invar s' \<and> room s = Suc (room s') \<and>
            (\<forall>r<period. pend s' r = (if r = unat t mod period then p # pend s r else pend s r))"
    and tick_reports: "invar s \<Longrightarrow>
          \<exists>s'. tick s = Some (pend s 0, s') \<and> invar s' \<and> room s' = room s + length (pend s 0) \<and>
            (\<forall>r<period. pend s' r = (if r = period - 1 then [] else pend s (Suc r)))"
begin

text \<open>Whatever the client does, every tick terminates and the invariant is kept.\<close>

lemma timer_run_total: "invar s \<Longrightarrow> \<exists>rs s'. timer_run sched tick ops s = Some (rs, s') \<and> invar s'"
proof (induction ops arbitrary: s)
  case (Cons x ops)
  show ?case
  proof (cases x)
    case (Op_Schedule p t)
    have "invar (snd (sched p t s))"
      using sched_full [OF Cons.prems] sched_room [OF Cons.prems, of p t] Cons.prems
      by (cases "room s = 0") auto
    from Cons.IH [OF this] Op_Schedule show ?thesis by simp
  next
    case Op_Tick
    from tick_reports [OF Cons.prems] obtain s' where "tick s = Some (pend s 0, s')" "invar s'" by blast
    with Cons.IH [of s'] Op_Tick show ?thesis by auto
  qed
qed simp

text \<open>A payload pending only \<open>d\<close> ticks ahead is reported by tick number \<open>d\<close>, once, and by no other.\<close>

lemma timer_run_fires:
  assumes "invar s" and "d < period" and "count_list (pend s d) p = n"
    and "\<And>r. r < period \<Longrightarrow> r \<noteq> d \<Longrightarrow> p \<notin> set (pend s r)"
    and "list_all (\<lambda>x. \<not> schedules p x) ops"
    and "timer_run sched tick ops s = Some (rs, s')" and "k < length rs"
  shows "count_list (rs ! k) p = (if k = d then n else 0)"
  using assms
proof (induction ops arbitrary: s d n k rs)
  case (Cons x ops)
  show ?case
  proof (cases x)
    case (Op_Schedule q t)
    with Cons.prems(5) have q: "q \<noteq> p" by simp
    show ?thesis
    proof (cases "room s = 0")
      case True
      with Cons.IH [OF Cons.prems(1-4), of rs k] Cons.prems(5-7) Op_Schedule sched_full [OF Cons.prems(1)]
      show ?thesis by simp
    next
      case False
      with sched_room [OF Cons.prems(1), of q t] obtain s1 where
        s1: "sched q t s = (True, s1)" "invar s1"
          "\<forall>r<period. pend s1 r = (if r = unat t mod period then q # pend s r else pend s r)"
        by auto
      have "count_list (pend s1 d) p = n" using s1(3) Cons.prems(2,3) q by auto
      moreover have "p \<notin> set (pend s1 r)" if "r < period" "r \<noteq> d" for r
        using s1(3) Cons.prems(4) [OF that] that q by auto
      ultimately show ?thesis
        using Cons.IH [OF s1(2) Cons.prems(2), of n rs k] Cons.prems(5-7) Op_Schedule s1(1) by simp
    qed
  next
    case Op_Tick
    from tick_reports [OF Cons.prems(1)] obtain s1 where
      s1: "tick s = Some (pend s 0, s1)" "invar s1"
        "\<forall>r<period. pend s1 r = (if r = period - 1 then [] else pend s (Suc r))"
      by blast
    with Op_Tick Cons.prems(6) obtain rs1 where
      rs: "rs = pend s 0 # rs1" "timer_run sched tick ops s1 = Some (rs1, s')"
      by (auto split: option.splits)
    note IH = Cons.IH [OF s1(2) _ _ _ _ rs(2)]
    have ops: "list_all (\<lambda>x. \<not> schedules p x) ops" using Cons.prems(5) by simp
    show ?thesis
    proof (cases k)
      case 0
      with rs Cons.prems(3) Cons.prems(4) [of 0] Cons.prems(2) show ?thesis
        by (cases d) (auto simp: count_list_0_iff)
    next
      case (Suc j)
      with rs Cons.prems(7) have j: "j < length rs1" by simp
      show ?thesis
      proof (cases d)
        case 0
        have "count_list (pend s1 (period - 1)) p = 0" "p \<notin> set (pend s1 r)" if "r < period" for r
          using s1(3) period_pos Cons.prems(4) [of "Suc r"] that 0 by auto
        with IH [of "period - 1" 0 j] ops j period_pos have "count_list (rs1 ! j) p = 0"
          by (simp split: if_splits)
        with Suc 0 rs show ?thesis by simp
      next
        case (Suc d')
        have "count_list (pend s1 d') p = n" using s1(3) Cons.prems(2,3) Suc by auto
        moreover have "p \<notin> set (pend s1 r)" if "r < period" "r \<noteq> d'" for r
          using s1(3) Cons.prems(4) [of "Suc r"] that Suc by auto
        ultimately have "count_list (rs1 ! j) p = (if j = d' then n else 0)"
          using IH [of d' n j] ops j Cons.prems(2) Suc by simp
        with \<open>k = Suc j\<close> Suc rs show ?thesis by simp
      qed
    qed
  qed
qed simp

lemma schedule_fires_once:
  assumes "invar s" and "room s > 0" and "\<And>r. r < period \<Longrightarrow> p \<notin> set (pend s r)"
    and "list_all (\<lambda>x. \<not> schedules p x) ops"
  shows "\<exists>rs s'. timer_run sched tick (Op_Schedule p t # ops) s = Some (rs, s') \<and>
           (\<forall>k<length rs. count_list (rs ! k) p = (if k = unat t mod period then 1 else 0))"
proof -
  from sched_room [OF assms(1,2), of p t] obtain s1 where
    s1: "sched p t s = (True, s1)" "invar s1"
      "\<forall>r<period. pend s1 r = (if r = unat t mod period then p # pend s r else pend s r)"
    by blast
  from timer_run_total [OF s1(2)] obtain rs s' where run: "timer_run sched tick ops s1 = Some (rs, s')"
    by blast
  have d: "unat t mod period < period" using period_pos by simp
  have "count_list (pend s1 (unat t mod period)) p = 1"
    using s1(3) d assms(3) [OF d] by (simp add: count_list_0_iff)
  moreover have "p \<notin> set (pend s1 r)" if "r < period" "r \<noteq> unat t mod period" for r
    using s1(3) assms(3) that by simp
  ultimately have "count_list (rs ! k) p = (if k = unat t mod period then 1 else 0)" if "k < length rs" for k
    using timer_run_fires [OF s1(2) d _ _ assms(4) run that, of 1] by simp
  with run s1(1) show ?thesis by auto
qed

end

definition tw_sched :: "u32 \<times> u8 \<Rightarrow> u32 \<Rightarrow> TimingWheel \<Rightarrow> bool \<times> TimingWheel" where
  "tw_sched p t w = TimingWheel_Schedule (fst p) (snd p) t w"

interpretation wheel_timer: timer tw_sched TimingWheel_Tick tw_pend tw_room kWheelSize tw_invar
proof
  fix s :: TimingWheel and p :: "u32 \<times> u8" and t :: u32
  assume inv: "tw_invar s"
  show "tw_room s = 0 \<Longrightarrow> tw_sched p t s = (False, s)"
    by (simp add: tw_sched_def Schedule_laws(1) [OF inv])
  show "tw_room s > 0 \<Longrightarrow> \<exists>s'. tw_sched p t s = (True, s') \<and> tw_invar s' \<and>
      tw_room s = Suc (tw_room s') \<and> (\<forall>r<kWheelSize. tw_pend s' r =
        (if r = unat t mod kWheelSize then p # tw_pend s r else tw_pend s r))"
    using Schedule_laws(2) [OF inv, of "fst p" "snd p" t] unfolding tw_sched_def by (metis prod.collapse)
  show "\<exists>s'. TimingWheel_Tick s = Some (tw_pend s 0, s') \<and> tw_invar s' \<and>
      tw_room s' = tw_room s + length (tw_pend s 0) \<and>
      (\<forall>r<kWheelSize. tw_pend s' r = (if r = kWheelSize - 1 then [] else tw_pend s (Suc r)))"
    by (rule Tick_laws [OF inv])
qed (simp add: kWheelSize_def)

abbreviation wheel_run ::
  "(u32 \<times> u8) timer_op list \<Rightarrow> TimingWheel \<Rightarrow> ((u32 \<times> u8) list list \<times> TimingWheel) option" where
  "wheel_run \<equiv> timer_run tw_sched TimingWheel_Tick"

text \<open>
  C20. A timeout scheduled while the entry pool has room is reported by the tick number
  \<open>timeout mod 1024\<close> that follows, exactly once, and by no other tick, whatever else is scheduled
  and however ticks and schedules are interleaved; every tick of the run terminates.
\<close>

theorem wheel_timeout_fires_once:
  assumes "tw_invar w" and "tw_room w > 0" and "\<And>r. r < kWheelSize \<Longrightarrow> p \<notin> set (tw_pend w r)"
    and "list_all (\<lambda>x. \<not> schedules p x) ops"
  shows "\<exists>rs w'. wheel_run (Op_Schedule p t # ops) w = Some (rs, w') \<and>
           (\<forall>k<length rs. count_list (rs ! k) p = (if k = unat t mod kWheelSize then 1 else 0))"
  using assms by (rule wheel_timer.schedule_fires_once)

theorem wheel_timeout_fires_once_witness:
  "\<exists>rs w'. wheel_run [Op_Schedule (7, 1) 2, Op_Tick, Op_Schedule (8, 1) 0, Op_Tick, Op_Tick]
       (TimingWheel_new (\<lambda>_. \<lparr>te_slot_index = 0, te_generation = 0, te_next = None\<rparr>)) = Some (rs, w') \<and>
     (\<forall>k<length rs. count_list (rs ! k) (7, 1) = (if k = unat (2 :: u32) mod kWheelSize then 1 else 0))"
  by (rule wheel_timeout_fires_once [OF tw_invar_new])
    (simp_all only: tw_new_abs, simp_all add: kMaxEntries_def)

text \<open>
  A timeout longer than the wheel is not longer: scheduling \<open>t\<close> ticks or \<open>t + 1024 k\<close>
  ticks gives the same state, so that a timeout of 30000 ticks is due after 304.
\<close>

theorem wheel_long_timeout_wraps:
  assumes "unat t mod kWheelSize = unat t' mod kWheelSize"
  shows "TimingWheel_Schedule sl g t w = TimingWheel_Schedule sl g t' w"
proof -
  have "unat (tw_current w + t) mod kWheelSize = unat (tw_current w + t') mod kWheelSize"
    unfolding unat_mod_kWheelSize using assms by (metis mod_add_right_eq)
  then show ?thesis by (simp only: TimingWheel_Schedule_def)
qed

theorem wheel_long_timeout_wraps_witness:
  "TimingWheel_Schedule 5 1 30000 (TimingWheel_new (\<lambda>_. \<lparr>te_slot_index = 0, te_generation = 0, te_next = None\<rparr>)) =
   TimingWheel_Schedule 5 1 304 (TimingWheel_new (\<lambda>_. \<lparr>te_slot_index = 0, te_generation = 0, te_next = None\<rparr>))"
  by (rule wheel_long_timeout_wraps) (simp add: kWheelSize_def)

text \<open>
  The entries are neither lost nor duplicated: the free ones and the pending ones always make up
  the whole pool.
\<close>

lemma tw_conservation:
  assumes "tw_invar w"
  shows "tw_room w + (\<Sum>r<kWheelSize. length (tw_pend w r)) = kMaxEntries"
proof -
  from assms obtain F B where
    sh: "shape (tw_pool w) (tw_free w) (tw_buckets w) kWheelSize kMaxEntries F B"
    by (auto simp: tw_invar_def)
  let ?f = "\<lambda>r. (unat (tw_current w) + r) mod kWheelSize"
  have inj: "inj_on ?f {..<kWheelSize}" by (auto simp: inj_on_def add_mod_inject)
  then have "?f ` {..<kWheelSize} = {..<kWheelSize}" by (intro endo_inj_surj) auto
  with inj have "(\<Sum>r<kWheelSize. length (B (?f r))) = (\<Sum>r<kWheelSize. length (B r))"
    by (intro sum.reindex_bij_betw) (simp add: bij_betw_def)
  with shape_sizes [OF sh] show ?thesis by (simp add: tw_pend_shape [OF sh])
qed

text \<open>
  On a wheel reached by any sequence of schedules and ticks, \<open>Schedule\<close> refuses a timeout
  exactly when 65536 timeouts are pending: no entry of the pool is ever lost or handed out twice.
\<close>

theorem wheel_refuses_iff_full:
  "\<exists>rs w. wheel_run ops (TimingWheel_new mem) = Some (rs, w) \<and>
     (\<forall>sl g t. \<not> fst (TimingWheel_Schedule sl g t w) \<longleftrightarrow>
        (\<Sum>r<kWheelSize. length (tw_pend w r)) = kMaxEntries)"
proof -
  from wheel_timer.timer_run_total [OF tw_invar_new] obtain rs w where
    run: "wheel_run ops (TimingWheel_new mem) = Some (rs, w)" and inv: "tw_invar w" by blast
  have "\<not> fst (TimingWheel_Schedule sl g t w) \<longleftrightarrow> tw_room w = 0" for sl g t
    using Schedule_laws [OF inv, of sl g t] by (cases "tw_room w = 0") auto
  moreover have "tw_room w = 0 \<longleftrightarrow> (\<Sum>r<kWheelSize. length (tw_pend w r)) = kMaxEntries"
    using tw_conservation [OF inv] by linarith
  ultimately show ?thesis using run by simp
qed

section \<open>The two-level wheel\<close>

text \<open>The 512 buckets of both levels as one family.\<close>

definition level_buckets ::
  "(nat \<Rightarrow> TimingWheelBucket) \<Rightarrow> (nat \<Rightarrow> TimingWheelBucket) \<Rightarrow> nat \<Rightarrow> TimingWheelBucket" where
  "level_buckets l1 l2 b = (if b < kLevel1Size then l1 b else l2 (b - kLevel1Size))"

abbreviation hw_shape :: "HierarchicalTimingWheel \<Rightarrow> nat list \<Rightarrow> (nat \<Rightarrow> nat list) \<Rightarrow> bool" where
  "hw_shape w F B \<equiv> shape (hw_pool w) (hw_free w) (level_buckets (hw_level1 w) (hw_level2 w))
     (kLevel1Size + kLevel2Size) kHierMaxEntries F B"

definition hw_invar :: "HierarchicalTimingWheel \<Rightarrow> bool" where
  "hw_invar w \<longleftrightarrow> unat (hw_level1_current w) < kLevel1Size \<and> unat (hw_level2_current w) < kLevel2Size \<and>
     (\<exists>F B. hw_shape w F B)"

lemma hw_invar_new: "hw_invar (HierarchicalTimingWheel_new mem base)"
proof -
  have "level_buckets (\<lambda>_. Bucket_empty) (\<lambda>_. Bucket_empty) = (\<lambda>_. Bucket_empty)"
    by (simp add: level_buckets_def fun_eq_iff)
  then show ?thesis
    using shape_new [of kHierMaxEntries mem "kLevel1Size + kLevel2Size"]
    by (auto simp: hw_invar_def HierarchicalTimingWheel_new_def kLevel1Size_def kLevel2Size_def kHierMaxEntries_def)
qed

text \<open>What one bucket operation does to the family.\<close>

lemma level_buckets_upd1:
  "b < kLevel1Size \<Longrightarrow> level_buckets (l1(b := v)) l2 = (level_buckets l1 l2)(b := v)"
  by (auto simp: level_buckets_def fun_eq_iff)

lemma level_buckets_upd2: "level_buckets l1 (l2(b := v)) = (level_buckets l1 l2)(kLevel1Size + b := v)"
  by (auto simp: level_buckets_def fun_eq_iff)

lemma level_mods [simp]:
  "n mod kLevel1Size < kLevel1Size" "n mod kLevel2Size < kLevel2Size"
  "unat (of_nat (n mod kLevel1Size) :: u32) = n mod kLevel1Size"
  "unat (of_nat (n mod kLevel2Size) :: u32) = n mod kLevel2Size"
proof -
  show "n mod kLevel1Size < kLevel1Size" "n mod kLevel2Size < kLevel2Size"
    by (simp_all add: kLevel1Size_def kLevel2Size_def)
  have "n mod 256 < 256" by simp
  then have "n mod 256 < 2 ^ LENGTH(32)" by simp
  then show "unat (of_nat (n mod kLevel1Size) :: u32) = n mod kLevel1Size"
    "unat (of_nat (n mod kLevel2Size) :: u32) = n mod kLevel2Size"
    unfolding kLevel1Size_def kLevel2Size_def by (rule unat_of_nat_less)+
qed

lemma Hier_Schedule_invar:
  assumes "hw_invar w"
  shows "hw_invar (snd (Hier_Schedule sl g t w))"
proof -
  from assms obtain F B where cur: "unat (hw_level1_current w) < kLevel1Size" "unat (hw_level2_current w) < kLevel2Size"
    and sh: "hw_shape w F B"
    by (auto simp: hw_invar_def)
  show ?thesis
  proof (cases F)
    case Nil
    with sh have "hw_free w = None" by (simp add: shape_def)
    with assms show ?thesis by (simp add: Hier_Schedule_def AllocEntry_def)
  next
    case (Cons e F')
    with sh have fle: "hw_free w = Some e" by (simp add: shape_def)
    note push = shape_push [OF sh [unfolded Cons fle]]
    show ?thesis
    proof (cases "unat t < kLevel1Size * kLevel1TickMs")
      case True
      define b where "b = unat (hw_level1_current w + t) mod kLevel1Size"
      have b: "b < kLevel1Size" "b < kLevel1Size + kLevel2Size" by (simp_all add: b_def trans_less_add1)
      from push [OF b(2), where s = sl and g = g] b(1) cur True show ?thesis
        by (auto simp: Hier_Schedule_def AllocEntry_def fle Bucket_Push_def Let_def hw_invar_def
            level_buckets_upd1 b_def [symmetric] level_buckets_def [of _ _ b])
    next
      case False
      define b where "b = unat (hw_level2_current w + of_nat (unat t div kLevel2TickMs)) mod kLevel2Size"
      have b: "kLevel1Size + b < kLevel1Size + kLevel2Size" by (simp add: b_def)
      from push [OF b, where s = sl and g = g] cur False show ?thesis
        by (auto simp: Hier_Schedule_def AllocEntry_def fle Bucket_Push_def Let_def hw_invar_def
            level_buckets_upd2 b_def [symmetric] level_buckets_def [of _ _ "kLevel1Size + b"])
    qed
  qed
qed

text \<open>One step of the demotion: the head of bucket \<open>q\<close> moves to the front of bucket \<open>t\<close>.\<close>

lemma shape_move:
  assumes sh: "shape h fl bks nb M F B" and q: "q < nb" "B q = x # xs" and t: "t < nb" "t \<noteq> q"
  shows "shape (h(x := (h x)\<lparr>te_next := bkt_head (bks t)\<rparr>)) fl
           (bks(q := \<lparr>bkt_head = te_next (h x), bkt_count = length xs\<rparr>,
                t := \<lparr>bkt_head = Some x, bkt_count = bkt_count (bks t) + 1\<rparr>))
           nb M F (B(q := xs, t := x # B t))"
proof -
  let ?B = "B(q := xs, t := x # B t)"
  note disj = shape_disjoint [OF sh]
  have x_q: "x \<in> set (B q)" using q by simp
  have notin: "x \<notin> set F" "x \<notin> set xs" using disj(2) [OF q(1)] sh q by (auto simp: shape_def)
  have notinB: "x \<notin> set (B c)" if "c < nb" "c \<noteq> q" for c
    using disj(1) [OF that(1) q(1) that(2)] x_q by auto
  have sub: "set xs \<subseteq> set (B q)" using q by auto
  have "set F \<union> (\<Union>c<nb. set (?B c)) = set F \<union> (\<Union>c<nb. set (B c))"
  proof -
    have "(\<Union>c<nb. set (?B c)) = (\<Union>c<nb. set (B c))"
    proof (rule equalityI; rule subsetI)
      fix y assume "y \<in> (\<Union>c<nb. set (?B c))"
      then obtain c where "c < nb" "y \<in> set (?B c)" by auto
      moreover from this have "y \<in> set (B c) \<or> y \<in> set (B q)"
        using q(2) by (auto simp: fun_upd_apply split: if_splits)
      ultimately show "y \<in> (\<Union>c<nb. set (B c))" using q(1) by blast
    next
      fix y assume "y \<in> (\<Union>c<nb. set (B c))"
      then obtain c where c: "c < nb" "y \<in> set (B c)" by auto
      show "y \<in> (\<Union>c<nb. set (?B c))"
      proof (cases "y = x")
        case True
        then show ?thesis using t by (intro UN_I [of t]) auto
      next
        case False
        with c q t show ?thesis by (intro UN_I [of c]) auto
      qed
    qed
    then show ?thesis by simp
  qed
  moreover have "\<forall>c<nb. \<forall>d<nb. c \<noteq> d \<longrightarrow> set (?B c) \<inter> set (?B d) = {}"
  proof (intro allI impI)
    have owner: "y = x \<and> c = t \<or> y \<noteq> x \<and> y \<in> set (B c)" if "c < nb" "y \<in> set (?B c)" for c y
      using that notin(2) notinB [OF that(1)] q(2) by (auto simp: fun_upd_apply split: if_splits)
    fix c d assume "c < nb" "d < nb" "c \<noteq> d"
    with owner disj(1) show "set (?B c) \<inter> set (?B d) = {}" by blast
  qed
  moreover have "\<forall>c<nb. distinct (?B c) \<and> set F \<inter> set (?B c) = {}"
  proof (intro allI impI)
    fix c assume c: "c < nb"
    have "distinct (B c)" "distinct (B q)" "distinct (B t)" using shape_chain(2) [OF sh] c q(1) t by simp_all
    moreover have "set F \<inter> set (B t) = {}" "set F \<inter> set (B c) = {}" "set F \<inter> set (B q) = {}"
      by (rule disj(2), fact)+
    ultimately show "distinct (?B c) \<and> set F \<inter> set (?B c) = {}"
      using notin notinB [OF t] q(2) by (simp add: fun_upd_apply)
  qed
  moreover have "chain (h(x := (h x)\<lparr>te_next := bkt_head (bks t)\<rparr>)) fl F" "distinct F"
    using sh notin by (simp_all add: shape_def)
  moreover have "chain h (te_next (h x)) xs" using sh q by (simp add: shape_def) (metis chain.simps(2))
  then have "\<forall>c<nb. chain (h(x := (h x)\<lparr>te_next := bkt_head (bks t)\<rparr>))
      (bkt_head ((bks(q := \<lparr>bkt_head = te_next (h x), bkt_count = length xs\<rparr>,
                t := \<lparr>bkt_head = Some x, bkt_count = bkt_count (bks t) + 1\<rparr>)) c)) (?B c) \<and>
      bkt_count ((bks(q := \<lparr>bkt_head = te_next (h x), bkt_count = length xs\<rparr>,
                t := \<lparr>bkt_head = Some x, bkt_count = bkt_count (bks t) + 1\<rparr>)) c) = length (?B c)"
    using sh notin notinB t by (simp add: shape_def fun_upd_apply)
  ultimately show ?thesis using sh by (simp only: shape_def)
qed

lemma demote_target_lt: "demote_target base e < kLevel1Size"
  by (simp add: demote_target_def)

lemma demote_loop_shape:
  assumes "shape h fl (level_buckets l1 (l2(c := \<lparr>bkt_head = p, bkt_count = length xs\<rparr>)))
             (kLevel1Size + kLevel2Size) M F B"
    and "c < kLevel2Size" and "B (kLevel1Size + c) = xs"
  shows "\<exists>l1' h' B'. demote_loop base p l1 h = Some (l1', h') \<and>
           shape h' fl (level_buckets l1' (l2(c := Bucket_empty))) (kLevel1Size + kLevel2Size) M F B'"
  using assms
proof (induction xs arbitrary: h p l1 B)
  case Nil
  from shape_chain(1) [OF Nil(1), of "kLevel1Size + c"] Nil(2,3) have "p = None"
    by (simp add: level_buckets_def)
  with Nil show ?case by (auto simp: demote_loop.simps Bucket_empty_def)
next
  case (Cons x xs)
  let ?q = "kLevel1Size + c" and ?t = "demote_target base x"
  let ?l2 = "l2(c := \<lparr>bkt_head = p, bkt_count = length (x # xs)\<rparr>)"
  let ?h = "h(x := (h x)\<lparr>te_next := bkt_head (l1 ?t)\<rparr>)"
  let ?l1 = "l1(?t := \<lparr>bkt_head = Some x, bkt_count = bkt_count (l1 ?t) + 1\<rparr>)"
  have q: "?q < kLevel1Size + kLevel2Size" using Cons.prems(2) by simp
  have t: "?t < kLevel1Size + kLevel2Size" "?t \<noteq> ?q" "?t < kLevel1Size"
    using demote_target_lt [of base x] by simp_all
  from shape_chain(1) [OF Cons.prems(1) q] have p: "p = Some x" by (simp add: Cons.prems(3) level_buckets_def)
  have fam: "level_buckets ?l1 (l2(c := \<lparr>bkt_head = te_next (h x), bkt_count = length xs\<rparr>)) =
      (level_buckets l1 ?l2)(?q := \<lparr>bkt_head = te_next (h x), bkt_count = length xs\<rparr>,
        ?t := \<lparr>bkt_head = Some x, bkt_count = bkt_count (l1 ?t) + 1\<rparr>)"
    using t(3) by (auto simp: level_buckets_def fun_eq_iff)
  have "shape ?h fl (level_buckets ?l1 (l2(c := \<lparr>bkt_head = te_next (h x), bkt_count = length xs\<rparr>)))
      (kLevel1Size + kLevel2Size) M F (B(?q := xs, ?t := x # B ?t))"
    using shape_move [OF Cons.prems(1) q Cons.prems(3) t(1,2)] t(3)
    unfolding fam by (simp add: level_buckets_def [of _ _ ?t] del: fun_upd_apply)
  moreover have "(B(?q := xs, ?t := x # B ?t)) ?q = xs" using t(2) by simp
  ultimately obtain l1' h' B' where
    "demote_loop base (te_next (h x)) ?l1 ?h = Some (l1', h')"
    "shape h' fl (level_buckets l1' (l2(c := Bucket_empty))) (kLevel1Size + kLevel2Size) M F B'"
    using Cons.IH [OF _ Cons.prems(2)] by blast
  moreover have "demote_loop base p l1 h = demote_loop base (te_next (h x)) ?l1 ?h"
    by (subst demote_loop.simps) (simp add: p Bucket_Push_def Let_def)
  ultimately show ?case by metis
qed

lemma Hier_Tick_invar:
  assumes "hw_invar w"
  shows "\<exists>expired w'. Hier_Tick w = Some (expired, w') \<and> hw_invar w'"
proof -
  let ?nb = "kLevel1Size + kLevel2Size"
  from assms obtain F B where cur: "unat (hw_level1_current w) < kLevel1Size"
      "unat (hw_level2_current w) < kLevel2Size"
    and sh: "hw_shape w F B" by (auto simp: hw_invar_def)
  let ?c = "unat (hw_level1_current w)" and ?c2 = "unat (hw_level2_current w)"
  let ?l1 = "(hw_level1 w)(?c := Bucket_empty)"
  have "?c < ?nb" using cur(1) by simp
  from shape_pop [OF sh this] obtain h' fl' ex where
    pop: "expire_loop (bkt_head (hw_level1 w ?c)) (hw_pool w) (hw_free w) [] = Some (h', fl', ex)"
    and sh1: "shape h' fl' (level_buckets ?l1 (hw_level2 w)) ?nb kHierMaxEntries (rev (B ?c) @ F) (B(?c := []))"
    using cur(1) unfolding level_buckets_upd1 [OF cur(1)] level_buckets_def [of _ _ ?c] by auto
  let ?q = "kLevel1Size + ?c2"
  have q: "?q < ?nb" using cur(2) by simp
  have "level_buckets ?l1 (hw_level2 w) = level_buckets ?l1 ((hw_level2 w)(?c2 :=
      \<lparr>bkt_head = bkt_head (hw_level2 w ?c2), bkt_count = length (B ?q)\<rparr>))"
  proof -
    have "bkt_count (level_buckets (hw_level1 w) (hw_level2 w) ?q) = length (B ?q)"
      using sh q by (simp add: shape_def)
    then have "bkt_count (hw_level2 w ?c2) = length (B ?q)" by (simp add: level_buckets_def)
    then show ?thesis by (metis fun_upd_triv TimingWheelBucket.surjective old.unit.exhaust)
  qed
  with sh1 have sh2: "shape h' fl' (level_buckets ?l1 ((hw_level2 w)(?c2 :=
      \<lparr>bkt_head = bkt_head (hw_level2 w ?c2), bkt_count = length (B ?q)\<rparr>))) ?nb kHierMaxEntries
      (rev (B ?c) @ F) (B(?c := []))" by simp
  have "(B(?c := [])) ?q = B ?q" using cur(1) by simp
  from demote_loop_shape [OF sh2 cur(2) this, of "hw_base w"] obtain l1' h2 B2 where
    dem: "demote_loop (hw_base w) (bkt_head (hw_level2 w ?c2)) ?l1 h' = Some (l1', h2)"
      "shape h2 fl' (level_buckets l1' ((hw_level2 w)(?c2 := Bucket_empty))) ?nb kHierMaxEntries (rev (B ?c) @ F) B2"
    by blast
  show ?thesis
    using pop dem sh1 cur by (auto simp: Hier_Tick_def Bucket_PopAll_def Let_def hw_invar_def)
qed

definition hw_sched ::
  "u32 \<times> u8 \<Rightarrow> u32 \<Rightarrow> HierarchicalTimingWheel \<Rightarrow> bool \<times> HierarchicalTimingWheel" where
  "hw_sched p t w = Hier_Schedule (fst p) (snd p) t w"

abbreviation hier_run ::
  "(u32 \<times> u8) timer_op list \<Rightarrow> HierarchicalTimingWheel
     \<Rightarrow> ((u32 \<times> u8) list list \<times> HierarchicalTimingWheel) option" where
  "hier_run \<equiv> timer_run hw_sched Hier_Tick"

lemma hier_run_invar: "hw_invar w \<Longrightarrow> \<exists>rs w'. hier_run ops w = Some (rs, w') \<and> hw_invar w'"
proof (induction ops arbitrary: w)
  case (Cons x ops)
  show ?case
  proof (cases x)
    case (Op_Schedule p t)
    with Cons.IH [OF Hier_Schedule_invar [OF Cons.prems]] show ?thesis by (simp add: hw_sched_def)
  next
    case Op_Tick
    from Hier_Tick_invar [OF Cons.prems] obtain ex w1 where "Hier_Tick w = Some (ex, w1)" "hw_invar w1" by blast
    with Cons.IH [of w1] Op_Tick show ?thesis by auto
  qed
qed simp

text \<open>
  C28. The two-level wheel terminates on every sequence of schedules and ticks and loses no entry:
  the count \<open>GetFreeCount\<close> returns and the counters of its 512 buckets add up to the 1048576
  entries of the pool.
\<close>

theorem hier_wheel_conserves_entries:
  "\<exists>rs w n. hier_run ops (HierarchicalTimingWheel_new mem base) = Some (rs, w) \<and>
     Hier_GetFreeCount w = Some n \<and>
     n + (\<Sum>b<kLevel1Size. bkt_count (hw_level1 w b)) + (\<Sum>b<kLevel2Size. bkt_count (hw_level2 w b)) =
       kHierMaxEntries"
proof -
  from hier_run_invar [OF hw_invar_new] obtain rs w where
    run: "hier_run ops (HierarchicalTimingWheel_new mem base) = Some (rs, w)" and "hw_invar w" by blast
  then obtain F B where sh: "hw_shape w F B" by (auto simp: hw_invar_def)
  let ?k = "\<lambda>b. bkt_count (level_buckets (hw_level1 w) (hw_level2 w) b)"
  have "(\<Sum>b<kLevel1Size + kLevel2Size. length (B b)) = sum ?k {..<kLevel1Size + kLevel2Size}"
    using sh by (intro sum.cong) (auto simp: shape_def)
  also have "\<dots> = sum ?k {..<kLevel1Size} + (\<Sum>b<kLevel2Size. ?k (kLevel1Size + b))"
    by (rule sum_lessThan_add)
  also have "\<dots> = (\<Sum>b<kLevel1Size. bkt_count (hw_level1 w b)) + (\<Sum>b<kLevel2Size. bkt_count (hw_level2 w b))"
    by (simp add: level_buckets_def)
  finally have "length F + (\<Sum>b<kLevel1Size. bkt_count (hw_level1 w b)) +
      (\<Sum>b<kLevel2Size. bkt_count (hw_level2 w b)) = kHierMaxEntries"
    using shape_sizes [OF sh] by linarith
  moreover have "Hier_GetFreeCount w = Some (length F)"
    using sh free_count_loop_chain [of "hw_pool w" "hw_free w" F 0]
    by (simp add: Hier_GetFreeCount_def shape_def)
  ultimately show ?thesis using run by blast
qed

text \<open>
  The precision of a long timeout is lost for good: two timeouts of at least 256 ms in the
  same 256 ms window give the same state, because nothing of the remainder is stored in the entry.
\<close>

theorem hier_wheel_forgets_remainder:
  assumes "unat t \<ge> kLevel1Size" and "unat t' \<ge> kLevel1Size"
    and "unat t div kLevel2TickMs = unat t' div kLevel2TickMs"
  shows "Hier_Schedule sl g t w = Hier_Schedule sl g t' w"
proof -
  have "\<not> unat t < kLevel1Size * kLevel1TickMs" "\<not> unat t' < kLevel1Size * kLevel1TickMs"
    using assms by (simp_all add: kLevel1TickMs_def)
  with assms(3) show ?thesis by (simp only: Hier_Schedule_def if_False)
qed

theorem hier_wheel_forgets_remainder_witness:
  "Hier_Schedule 5 1 256 (HierarchicalTimingWheel_new (\<lambda>_. \<lparr>te_slot_index = 0, te_generation = 0, te_next = None\<rparr>) 4096) =
   Hier_Schedule 5 1 511 (HierarchicalTimingWheel_new (\<lambda>_. \<lparr>te_slot_index = 0, te_generation = 0, te_next = None\<rparr>) 4096)"
  by (rule hier_wheel_forgets_remainder) (simp_all add: kLevel1Size_def kLevel2TickMs_def)

end
