(* ===== verification/Raii.thy ===== *)
theory Raii
  imports Rdma_Prelude
begin

text \<open>
  Ownership of verbs handles. The wrappers of \<open>include/rdma/core\<close> are non-copyable objects whose
  destructor gives their handles back and whose move operations pass them on. The ledger records
  which handles the library has handed out and not yet got back; giving back a handle that is not
  in it (a double free, or the free of a handle never obtained) is recorded in \<open>lg_bad\<close>. The
  locale \<open>raii\<close> states what each wrapper's destructor, move constructor and move assignment
  promise, and proves that no program over such objects leaks or frees twice.
\<close>

section \<open>The ledger\<close>

datatype res = R_Ctx ptr | R_DevList ptr | R_PD ptr | R_CQ ptr | R_Chan ptr | R_MR ptr | R_QP ptr | R_Mem ptr | R_Fd int

record ledger =
  lg_live :: "res set"
  lg_bad :: bool

definition ledger_empty :: ledger where
  "ledger_empty = \<lparr>lg_live = {}, lg_bad = False\<rparr>"

definition acquire :: "res \<Rightarrow> ledger \<Rightarrow> ledger" where
  "acquire r L = L\<lparr>lg_live := insert r (lg_live L)\<rparr>"

definition give_back :: "res \<Rightarrow> ledger \<Rightarrow> ledger" where
  "give_back r L = (if r \<in> lg_live L then L\<lparr>lg_live := lg_live L - {r}\<rparr> else L\<lparr>lg_bad := True\<rparr>)"

lemma give_back_live [simp]: "r \<in> lg_live L \<Longrightarrow> give_back r L = L\<lparr>lg_live := lg_live L - {r}\<rparr>"
  by (simp add: give_back_def)

lemma lg_live_acquire [simp]: "lg_live (acquire r L) = insert r (lg_live L)"
  by (simp add: acquire_def)

lemma lg_bad_acquire [simp]: "lg_bad (acquire r L) = lg_bad L"
  by (simp add: acquire_def)

lemma lg_ledger_empty [simp]: "lg_live ledger_empty = {}" "lg_bad ledger_empty = False"
  by (simp_all add: ledger_empty_def)

lemma acquire_undo [simp]: "(acquire r L)\<lparr>lg_live := lg_live L\<rparr> = L"
  by (simp add: acquire_def)

lemma give_back_acquire [simp]: "r \<notin> lg_live L \<Longrightarrow> give_back r (acquire r L) = L"
  by (simp add: acquire_def)

section \<open>Programs over owning objects\<close>

text \<open>
  An object variable holds an object or is out of its lifetime. \<open>Obj_Make\<close> starts a lifetime with
  an object a factory returned, \<open>Obj_Move i j\<close> move-constructs variable \<open>i\<close> from \<open>j\<close>,
  \<open>Obj_Assign i j\<close> is \<open>i = std::move(j)\<close>, with the self-assignment test of the source, and
  \<open>Obj_Destroy\<close> ends a lifetime. A step on variables that are not in the required state leaves
  everything unchanged.
\<close>

datatype 'o obj_op = Obj_Make nat 'o | Obj_Move nat nat | Obj_Assign nat nat | Obj_Destroy nat

fun obj_step ::
  "('o \<Rightarrow> res list) \<Rightarrow> ('o \<Rightarrow> ledger \<Rightarrow> ledger) \<Rightarrow> ('o \<Rightarrow> 'o \<times> 'o) \<Rightarrow> ('o \<Rightarrow> 'o \<Rightarrow> ledger \<Rightarrow> 'o \<times> 'o \<times> ledger)
     \<Rightarrow> 'o obj_op \<Rightarrow> (nat \<Rightarrow> 'o option) \<times> ledger \<Rightarrow> (nat \<Rightarrow> 'o option) \<times> ledger"
where
  "obj_step owns dtor mctor massign (Obj_Make i x) (vars, L) =
     (if vars i = None \<and> distinct (owns x) \<and> set (owns x) \<inter> lg_live L = {}
      then (vars(i := Some x), L\<lparr>lg_live := lg_live L \<union> set (owns x)\<rparr>)
      else (vars, L))"
| "obj_step owns dtor mctor massign (Obj_Move i j) (vars, L) =
     (case (vars i, vars j) of
        (None, Some x) \<Rightarrow> let (a, b) = mctor x in (vars(i := Some a, j := Some b), L)
      | _ \<Rightarrow> (vars, L))"
| "obj_step owns dtor mctor massign (Obj_Assign i j) (vars, L) =
     (if i = j then (vars, L)
      else case (vars i, vars j) of
        (Some x, Some y) \<Rightarrow> let (a, b, L') = massign x y L in (vars(i := Some a, j := Some b), L')
      | _ \<Rightarrow> (vars, L))"
| "obj_step owns dtor mctor massign (Obj_Destroy i) (vars, L) =
     (case vars i of Some x \<Rightarrow> (vars(i := None), dtor x L) | None \<Rightarrow> (vars, L))"

definition obj_run where
  "obj_run owns dtor mctor massign ops s = fold (obj_step owns dtor mctor massign) ops s"

definition owned :: "('o \<Rightarrow> res list) \<Rightarrow> 'o option \<Rightarrow> res set" where
  "owned owns v = (case v of None \<Rightarrow> {} | Some x \<Rightarrow> set (owns x))"

lemma owned_simps [simp]: "owned owns None = {}" "owned owns (Some x) = set (owns x)"
  by (simp_all add: owned_def)

lemma UN_split_at: "(\<Union>k. f k) = f i \<union> (\<Union>k\<in>- {i}. f k)"
  by auto

text \<open>Every live handle has exactly one owner, and nothing was freed twice.\<close>

definition owned_once :: "('o \<Rightarrow> res list) \<Rightarrow> (nat \<Rightarrow> 'o option) \<times> ledger \<Rightarrow> bool" where
  "owned_once owns s \<longleftrightarrow>
     \<not> lg_bad (snd s) \<and>
     (\<forall>i x. fst s i = Some x \<longrightarrow> distinct (owns x)) \<and>
     (\<forall>i j. i \<noteq> j \<longrightarrow> owned owns (fst s i) \<inter> owned owns (fst s j) = {}) \<and>
     lg_live (snd s) = (\<Union>i. owned owns (fst s i))"

text \<open>
  What a factory promises: on an error the ledger is as before, and on success exactly the handles
  of the new object were added, each of them fresh (what \<open>Obj_Make\<close> asks of the object).
\<close>

definition creates :: "('o \<Rightarrow> res list) \<Rightarrow> ledger \<Rightarrow> ('e + 'o) \<times> ledger \<Rightarrow> bool" where
  "creates owns L out \<longleftrightarrow>
     (case out of
        (Inl s, L') \<Rightarrow> L' = L
      | (Inr x, L') \<Rightarrow> distinct (owns x) \<and> set (owns x) \<inter> lg_live L = {} \<and>
                       L' = L\<lparr>lg_live := lg_live L \<union> set (owns x)\<rparr>)"

locale raii =
  fixes owns :: "'o \<Rightarrow> res list"
    and dtor :: "'o \<Rightarrow> ledger \<Rightarrow> ledger"
    and mctor :: "'o \<Rightarrow> 'o \<times> 'o"
    and massign :: "'o \<Rightarrow> 'o \<Rightarrow> ledger \<Rightarrow> 'o \<times> 'o \<times> ledger"
  assumes dtor_gives_back: "distinct (owns x) \<Longrightarrow> set (owns x) \<subseteq> lg_live L \<Longrightarrow>
        dtor x L = L\<lparr>lg_live := lg_live L - set (owns x)\<rparr>"
    and mctor_passes_on: "owns (fst (mctor x)) = owns x \<and> owns (snd (mctor x)) = []"
    and massign_passes_on: "distinct (owns x) \<Longrightarrow> set (owns x) \<subseteq> lg_live L \<Longrightarrow>
        \<exists>a b. massign x y L = (a, b, L\<lparr>lg_live := lg_live L - set (owns x)\<rparr>) \<and> owns a = owns y \<and> owns b = []"
begin

lemma creates_dtor: "creates owns L (r, L') \<Longrightarrow> (case r of Inl e \<Rightarrow> L' = L | Inr x \<Rightarrow> dtor x L' = L)"
proof (cases r)
  case (Inr x)
  assume "creates owns L (r, L')"
  with Inr have L': "distinct (owns x)" "set (owns x) \<inter> lg_live L = {}" "L' = L\<lparr>lg_live := lg_live L \<union> set (owns x)\<rparr>"
    by (simp_all add: creates_def)
  then have "dtor x L' = L\<lparr>lg_live := lg_live L \<union> set (owns x) - set (owns x)\<rparr>" by (simp add: dtor_gives_back)
  moreover have "lg_live L \<union> set (owns x) - set (owns x) = lg_live L" using L'(2) by blast
  ultimately show ?thesis using Inr by simp
qed (simp add: creates_def)

lemma obj_step_owned_once:
  assumes "owned_once owns s"
  shows "owned_once owns (obj_step owns dtor mctor massign p s)"
proof -
  obtain vars L where s: "s = (vars, L)" by (cases s)
  from assms s have inv: "\<not> lg_bad L" "\<And>i x. vars i = Some x \<Longrightarrow> distinct (owns x)"
    "\<And>i j. i \<noteq> j \<Longrightarrow> owned owns (vars i) \<inter> owned owns (vars j) = {}"
    "lg_live L = (\<Union>i. owned owns (vars i))"
    by (simp_all add: owned_once_def)
  have live: "set (owns x) \<subseteq> lg_live L" if "vars i = Some x" for i x
    unfolding inv(4) using that by (metis UN_upper UNIV_I owned_simps(2))
  show ?thesis
  proof (cases p)
    case (Obj_Make i x)
    show ?thesis
    proof (cases "vars i = None \<and> distinct (owns x) \<and> set (owns x) \<inter> lg_live L = {}")
      case True
      have "owned owns (vars j) \<inter> set (owns x) = {}" for j using True inv(4) by blast
      moreover have "(\<Union>k. owned owns ((vars(i := Some x)) k)) = lg_live L \<union> set (owns x)"
        unfolding inv(4) UN_split_at [of _ i] using True by auto
      ultimately show ?thesis
        using True inv(1,2) inv(3) by (auto simp: Obj_Make s owned_once_def)
    qed (use assms s Obj_Make in auto)
  next
    case (Obj_Move i j)
    show ?thesis
    proof (cases "vars i = None \<and> vars j \<noteq> None")
      case True
      then obtain y where y: "vars i = None" "vars j = Some y" "i \<noteq> j"
        by (metis not_None_eq)
      define vars' where "vars' = vars(i := Some (fst (mctor y)), j := Some (snd (mctor y)))"
      have own: "owned owns (vars' k) = (if k = i then owned owns (vars j) else if k = j then {} else owned owns (vars k))" for k
        using y mctor_passes_on [of y] by (simp add: vars'_def)
      have "(\<Union>k. owned owns (vars' k)) = (\<Union>k. owned owns (vars k))"
      proof (rule equalityI; rule UN_least)
        fix k
        show "owned owns (vars' k) \<subseteq> (\<Union>k. owned owns (vars k))" unfolding own by auto
        have "owned owns (vars k) \<subseteq> owned owns (vars' (if k = j then i else k))"
          using y by (simp add: own)
        then show "owned owns (vars k) \<subseteq> (\<Union>k. owned owns (vars' k))" by blast
      qed
      moreover have "owned owns (vars' k) \<inter> owned owns (vars' l) = {}" if "k \<noteq> l" for k l
        using inv(3) that by (auto simp: own)
      moreover have "distinct (owns x)" if "vars' k = Some x" for k x
        using that mctor_passes_on [of y] inv(2) y by (auto simp: vars'_def split: if_splits)
      ultimately show ?thesis
        using y inv(1,4) by (simp add: Obj_Move s owned_once_def split_beta vars'_def [symmetric])
    next
      case False
      with assms s Obj_Move show ?thesis by (cases "vars i"; cases "vars j") auto
    qed
  next
    case (Obj_Assign i j)
    show ?thesis
    proof (cases "i \<noteq> j \<and> vars i \<noteq> None \<and> vars j \<noteq> None")
      case True
      then obtain x y where xy: "vars i = Some x" "vars j = Some y" "i \<noteq> j" by auto
      from massign_passes_on [OF inv(2) [OF xy(1)] live [OF xy(1)], of y] obtain a b where
        ab: "massign x y L = (a, b, L\<lparr>lg_live := lg_live L - set (owns x)\<rparr>)" "owns a = owns y" "owns b = []"
        by blast
      define vars' where "vars' = vars(i := Some a, j := Some b)"
      have own: "owned owns (vars' k) = (if k = i then owned owns (vars j) else if k = j then {} else owned owns (vars k))" for k
        using xy ab by (simp add: vars'_def)
      have "(\<Union>k. owned owns (vars' k)) = (\<Union>k. owned owns (vars k)) - set (owns x)"
      proof (rule equalityI)
        have "owned owns (vars' k) \<subseteq> (\<Union>k. owned owns (vars k)) - set (owns x)" for k
        proof -
          have "owned owns (vars' k) \<subseteq> (\<Union>k. owned owns (vars k))" unfolding own by auto
          moreover have "owned owns (vars' k) \<inter> set (owns x) = {}"
            using inv(3) [of j i] inv(3) [of k i] xy by (simp add: own)
          ultimately show ?thesis by blast
        qed
        then show "(\<Union>k. owned owns (vars' k)) \<subseteq> (\<Union>k. owned owns (vars k)) - set (owns x)" by blast
        have "owned owns (vars k) - set (owns x) \<subseteq> owned owns (vars' (if k = j then i else k))" for k
          using xy by (auto simp: own)
        then show "(\<Union>k. owned owns (vars k)) - set (owns x) \<subseteq> (\<Union>k. owned owns (vars' k))" by blast
      qed
      moreover have "owned owns (vars' k) \<inter> owned owns (vars' l) = {}" if "k \<noteq> l" for k l
        using inv(3) that by (auto simp: own)
      moreover have "distinct (owns z)" if "vars' k = Some z" for k z
        using that ab inv(2) xy by (auto simp: vars'_def split: if_splits)
      ultimately show ?thesis
        using xy ab(1) inv(1,4) by (simp add: Obj_Assign s owned_once_def vars'_def [symmetric])
    next
      case False
      with assms s Obj_Assign show ?thesis by (cases "vars i"; cases "vars j") auto
    qed
  next
    case (Obj_Destroy i)
    show ?thesis
    proof (cases "vars i")
      case (Some x)
      have "(\<Union>k. owned owns ((vars(i := None)) k)) = (\<Union>k. owned owns (vars k)) - set (owns x)"
      proof -
        have "owned owns (vars k) \<inter> set (owns x) = {}" if "k \<in> - {i}" for k
          using inv(3) [of k i] that Some by simp
        then have "(\<Union>k\<in>- {i}. owned owns (vars k)) \<inter> set (owns x) = {}" by blast
        moreover have "(\<Union>k. owned owns ((vars(i := None)) k)) = (\<Union>k\<in>- {i}. owned owns (vars k))"
          unfolding UN_split_at [of _ i] by simp
        moreover have "(\<Union>k. owned owns (vars k)) = set (owns x) \<union> (\<Union>k\<in>- {i}. owned owns (vars k))"
          unfolding UN_split_at [of _ i] using Some by simp
        ultimately show ?thesis by (simp add: Un_Diff Diff_triv)
      qed
      then show ?thesis
        using Some inv dtor_gives_back [OF inv(2) [OF Some] live [OF Some]]
        by (auto simp: Obj_Destroy s owned_once_def)
    qed (use assms s Obj_Destroy in simp)
  qed
qed

lemma obj_run_owned_once:
  "owned_once owns s \<Longrightarrow> owned_once owns (obj_run owns dtor mctor massign ops s)"
  unfolding obj_run_def by (induction ops arbitrary: s) (simp_all add: obj_step_owned_once)

text \<open>When every lifetime has ended, every handle is back.\<close>

lemma no_leak:
  "case obj_run owns dtor mctor massign ops ((\<lambda>_. None), ledger_empty) of
     (vars, L) \<Rightarrow> \<not> lg_bad L \<and> lg_live L = (\<Union>i. owned owns (vars i))"
proof -
  have "owned_once owns ((\<lambda>_. None), ledger_empty)" by (simp add: owned_once_def ledger_empty_def)
  from obj_run_owned_once [OF this, of ops] show ?thesis by (auto simp: owned_once_def)
qed

end

end
