(* ===== verification/Status.thy ===== *)
theory Status
  imports Rdma_Types
begin

text \<open>
  \<open>include/rdma/common/status.h\<close>: error codes, the \<open>Status\<close> class with its factories and its
  printer, and \<open>Result\<close>. A \<open>Result<T>\<close> is the sum \<open>Status + 'a\<close>: \<open>Inl\<close> for the constructor
  from a status, \<open>Inr\<close> for the constructor from a value.
\<close>

datatype ErrorCode =
    EC_OK
  | INVALID_ARGUMENT
  | NOT_FOUND
  | ALREADY_EXISTS
  | PERMISSION_DENIED
  | RESOURCE_EXHAUSTED
  | FAILED_PRECONDITION
  | ABORTED
  | OUT_OF_RANGE
  | UNIMPLEMENTED
  | INTERNAL
  | UNAVAILABLE
  | DATA_LOSS
  | IO_ERROR
  | TIMEOUT
  | CANCELLED
  | CONNECTION_REFUSED
  | CONNECTION_RESET

record Status =
  status_code :: ErrorCode
  status_errno :: int
  status_msg :: "string option"

definition Status_new :: "ErrorCode \<Rightarrow> string option \<Rightarrow> int \<Rightarrow> Status" where
  "Status_new code message errno_val =
     \<lparr>status_code = code, status_errno = errno_val, status_msg = message\<rparr>"

definition Status_OK :: Status where
  "Status_OK = \<lparr>status_code = EC_OK, status_errno = 0, status_msg = None\<rparr>"

text \<open>
  The default constructor, the copies and the accessors. The message is owned by its status, so a copy
  is a string of its own; \<open>same\<close> says whether an assignment is one of an object to itself.
\<close>

definition Status_default :: Status where
  "Status_default = \<lparr>status_code = EC_OK, status_errno = 0, status_msg = None\<rparr>"

definition Status_copy :: "Status \<Rightarrow> Status" where
  "Status_copy other =
     \<lparr>status_code = status_code other, status_errno = status_errno other,
      status_msg = (case status_msg other of None \<Rightarrow> None | Some m \<Rightarrow> Some m)\<rparr>"

definition Status_assign :: "bool \<Rightarrow> Status \<Rightarrow> Status \<Rightarrow> Status" where
  "Status_assign same s other =
     (if same then s
      else s\<lparr>status_code := status_code other, status_errno := status_errno other,
             status_msg := (case status_msg other of Some m \<Rightarrow> Some m | None \<Rightarrow> None)\<rparr>)"

definition Status_InvalidArgument :: "string \<Rightarrow> Status" where
  "Status_InvalidArgument msg = Status_new INVALID_ARGUMENT (Some msg) 0"

definition Status_NotFound :: "string \<Rightarrow> Status" where
  "Status_NotFound msg = Status_new NOT_FOUND (Some msg) 0"

definition Status_ResourceExhausted :: "string \<Rightarrow> Status" where
  "Status_ResourceExhausted msg = Status_new RESOURCE_EXHAUSTED (Some msg) 0"

definition Status_IOError :: "string \<Rightarrow> int \<Rightarrow> Status" where
  "Status_IOError msg errno_val = Status_new IO_ERROR (Some msg) errno_val"

definition Status_Timeout :: "string \<Rightarrow> Status" where
  "Status_Timeout msg = Status_new TIMEOUT (Some msg) 0"

definition Status_Internal :: "string \<Rightarrow> Status" where
  "Status_Internal msg = Status_new INTERNAL (Some msg) 0"

definition Status_Unavailable :: "string \<Rightarrow> Status" where
  "Status_Unavailable msg = Status_new UNAVAILABLE (Some msg) 0"

definition Status_ConnectionRefused :: "string \<Rightarrow> Status" where
  "Status_ConnectionRefused msg = Status_new CONNECTION_REFUSED (Some msg) 0"

definition Status_ConnectionReset :: "string \<Rightarrow> Status" where
  "Status_ConnectionReset msg = Status_new CONNECTION_RESET (Some msg) 0"

definition Status_Cancelled :: "string \<Rightarrow> Status" where
  "Status_Cancelled msg = Status_new CANCELLED (Some msg) 0"

definition Status_ok :: "Status \<Rightarrow> bool" where
  "Status_ok s \<longleftrightarrow> status_code s = EC_OK"

definition Status_message :: "Status \<Rightarrow> string" where
  "Status_message s = (case status_msg s of Some m \<Rightarrow> m | None \<Rightarrow> '''')"

fun CodeToString :: "ErrorCode \<Rightarrow> string" where
  "CodeToString EC_OK = ''OK''"
| "CodeToString INVALID_ARGUMENT = ''Invalid argument''"
| "CodeToString NOT_FOUND = ''Not found''"
| "CodeToString ALREADY_EXISTS = ''Already exists''"
| "CodeToString PERMISSION_DENIED = ''Permission denied''"
| "CodeToString RESOURCE_EXHAUSTED = ''Resource exhausted''"
| "CodeToString FAILED_PRECONDITION = ''Failed precondition''"
| "CodeToString ABORTED = ''Aborted''"
| "CodeToString OUT_OF_RANGE = ''Out of range''"
| "CodeToString UNIMPLEMENTED = ''Unimplemented''"
| "CodeToString INTERNAL = ''Internal error''"
| "CodeToString UNAVAILABLE = ''Unavailable''"
| "CodeToString DATA_LOSS = ''Data loss''"
| "CodeToString IO_ERROR = ''I/O error''"
| "CodeToString TIMEOUT = ''Timeout''"
| "CodeToString CANCELLED = ''Cancelled''"
| "CodeToString CONNECTION_REFUSED = ''Connection refused''"
| "CodeToString CONNECTION_RESET = ''Connection reset''"

text \<open>\<open>std::to_string\<close> on an \<open>int\<close>; \<open>strerror\<close> of the C library is a parameter.\<close>

fun nat_to_string :: "nat \<Rightarrow> string" where
  "nat_to_string n =
     (if n < 10 then [char_of (48 + n)]
      else nat_to_string (n div 10) @ [char_of (48 + n mod 10)])"

definition int_to_string :: "int \<Rightarrow> string" where
  "int_to_string i = (if i < 0 then CHR ''-'' # nat_to_string (nat (- i)) else nat_to_string (nat i))"

definition Status_ToString :: "(int \<Rightarrow> string) \<Rightarrow> Status \<Rightarrow> string" where
  "Status_ToString strerror s =
     (if Status_ok s then ''OK''
      else CodeToString (status_code s)
        @ (case status_msg s of Some m \<Rightarrow> '': '' @ m | None \<Rightarrow> '''')
        @ (if status_errno s \<noteq> 0
           then '' (errno='' @ int_to_string (status_errno s) @ '': '' @ strerror (status_errno s) @ '')''
           else ''''))"

type_synonym 'a Result = "Status + 'a"

definition Result_status :: "'a Result \<Rightarrow> Status" where
  "Result_status r = (case r of Inl s \<Rightarrow> s | Inr v \<Rightarrow> Status_OK)"

definition Result_ok :: "'a Result \<Rightarrow> bool" where
  "Result_ok r \<longleftrightarrow> Status_ok (Result_status r)"

text \<open>
  The accessors test nothing: the value of a result made from a status is the default value of its
  type, and a result that holds a pointer dereferences null.
\<close>

definition Result_value :: "'a \<Rightarrow> 'a Result \<Rightarrow> 'a" where
  "Result_value init r = (case r of Inl s \<Rightarrow> init | Inr v \<Rightarrow> v)"

definition Result_deref :: "'a Result \<Rightarrow> 'a chk" where
  "Result_deref r = (case r of Inl s \<Rightarrow> Inl Null_Deref | Inr v \<Rightarrow> Inr v)"

lemmas Status_factory_defs =
  Status_InvalidArgument_def Status_NotFound_def Status_ResourceExhausted_def
  Status_IOError_def Status_Timeout_def Status_Internal_def Status_Unavailable_def
  Status_ConnectionRefused_def Status_ConnectionReset_def Status_Cancelled_def

section \<open>Only \<open>OK\<close> is ok\<close>

lemma Status_ok_OK [simp]: "Status_ok Status_OK"
  by (simp add: Status_ok_def Status_OK_def)

lemma Status_factories_not_ok [simp]:
  "\<not> Status_ok (Status_InvalidArgument m)" "\<not> Status_ok (Status_NotFound m)"
  "\<not> Status_ok (Status_ResourceExhausted m)" "\<not> Status_ok (Status_IOError m e)"
  "\<not> Status_ok (Status_Timeout m)" "\<not> Status_ok (Status_Internal m)"
  "\<not> Status_ok (Status_Unavailable m)" "\<not> Status_ok (Status_ConnectionRefused m)"
  "\<not> Status_ok (Status_ConnectionReset m)" "\<not> Status_ok (Status_Cancelled m)"
  by (simp_all add: Status_ok_def Status_factory_defs Status_new_def)

lemma Status_OK_neq_error [simp]:
  "Status_OK \<noteq> Status_InvalidArgument m" "Status_OK \<noteq> Status_ResourceExhausted m"
  "Status_OK \<noteq> Status_IOError m e" "Status_OK \<noteq> Status_ConnectionReset m"
  by (metis Status_ok_OK Status_factories_not_ok)+

lemma Result_ok_simps [simp]: "Result_ok (Inr v)" "Result_ok (Inl s) = Status_ok s"
  by (simp_all add: Result_ok_def Result_status_def)

lemma Status_copies [simp]: "Status_copy s = s" "Status_assign same s s = s" "Status_assign False s t = t"
  by (simp_all add: Status_copy_def Status_assign_def split: option.splits)

text \<open>Testing \<open>ok\<close> first is enough to dereference the result of a factory, and needed.\<close>

lemma Result_deref_factory:
  assumes "\<And>st. r = Inl st \<Longrightarrow> \<not> Status_ok st"
  shows "(\<exists>v. Result_deref r = Inr v) \<longleftrightarrow> Result_ok r"
  using assms by (cases r) (auto simp: Result_deref_def)

text \<open>A printed status reads \<open>OK\<close> only for the status that is ok.\<close>

lemma Status_ToString_OK_iff: "Status_ToString strerror s = ''OK'' \<longleftrightarrow> Status_ok s"
proof (cases "Status_ok s")
  case False
  then have "status_code s \<noteq> EC_OK" by (simp add: Status_ok_def)
  then have "CodeToString (status_code s) @ xs \<noteq> ''OK''" for xs
    by (cases "status_code s") simp_all
  with False show ?thesis by (simp add: Status_ToString_def)
qed (simp add: Status_ToString_def)

end
