(* ===== verification/Buffer_View.thy ===== *)
theory Buffer_View
  imports Status
begin

text \<open>
  \<open>include/rdma/memory/buffer.h\<close>: the \<open>Buffer\<close> view of registered memory, the unrolled
  scatter-gather filler and the alignment checker. Sizes and addresses are 64-bit words, so the
  sums the code forms wrap as they do there. The arrays \<open>iov\<close> and \<open>sge_array\<close> are lists, and a
  read or write beyond one is \<open>Inl Out_Of_Bounds\<close>.
\<close>

section \<open>Buffers\<close>

record Buffer =
  buf_addr :: ptr
  buf_length :: size_t
  buf_lkey :: u32

record iovec =
  iov_base :: ptr
  iov_len :: size_t

record ibv_sge =
  sge_addr :: u64
  sge_length :: u32
  sge_lkey :: u32

definition Buffer_null :: Buffer where
  "Buffer_null = \<lparr>buf_addr = nullptr, buf_length = 0, buf_lkey = 0\<rparr>"

definition Buffer_new :: "ptr \<Rightarrow> size_t \<Rightarrow> u32 \<Rightarrow> Buffer" where
  "Buffer_new addr len lkey = \<lparr>buf_addr = addr, buf_length = len, buf_lkey = lkey\<rparr>"

definition Buffer_IsValid :: "Buffer \<Rightarrow> bool" where
  "Buffer_IsValid b \<longleftrightarrow> buf_addr b \<noteq> nullptr \<and> buf_length b > 0"

definition Buffer_ToIovec :: "Buffer \<Rightarrow> iovec" where
  "Buffer_ToIovec b = \<lparr>iov_base = buf_addr b, iov_len = buf_length b\<rparr>"

definition Buffer_Slice :: "size_t \<Rightarrow> size_t \<Rightarrow> Buffer \<Rightarrow> Buffer" where
  "Buffer_Slice offset len b =
     (if offset \<ge> buf_length b \<or> offset + len > buf_length b
      then Buffer_null
      else Buffer_new (buf_addr b + offset) len (buf_lkey b))"

definition Buffer_ToRemoteInfo :: "u32 \<Rightarrow> Buffer \<Rightarrow> RemoteMemoryInfo" where
  "Buffer_ToRemoteInfo rkey b =
     \<lparr>rmi_addr = buf_addr b, rmi_rkey = rkey, rmi_length = ucast (buf_length b)\<rparr>"

text \<open>
  The bytes a view of \<open>len\<close> bytes at \<open>a\<close> covers, as unbounded numbers, and containment of one
  view in another.
\<close>

definition byte_range :: "ptr \<Rightarrow> size_t \<Rightarrow> nat set" where
  "byte_range a len = {unat a ..< unat a + unat len}"

abbreviation buf_bytes :: "Buffer \<Rightarrow> nat set" where
  "buf_bytes b \<equiv> byte_range (buf_addr b) (buf_length b)"

text \<open>A view that does not run past the end of the address space.\<close>

definition fits_address_space :: "ptr \<Rightarrow> size_t \<Rightarrow> bool" where
  "fits_address_space a len \<longleftrightarrow> unat a + unat len \<le> 2 ^ 64"

section \<open>Scatter-gather entries\<close>

definition sge_of :: "u32 \<Rightarrow> iovec \<Rightarrow> ibv_sge" where
  "sge_of lkey v = \<lparr>sge_addr = iov_base v, sge_length = ucast (iov_len v), sge_lkey = lkey\<rparr>"

text \<open>The three assignments to \<open>sge_array[i]\<close>.\<close>

definition fill_one :: "nat \<Rightarrow> iovec list \<Rightarrow> u32 \<Rightarrow> ibv_sge list \<Rightarrow> ibv_sge list chk" where
  "fill_one i iov lkey sge_array =
     (if i < length iov \<and> i < length sge_array
      then Inr (sge_array[i := sge_of lkey (iov ! i)])
      else Inl Out_Of_Bounds)"

definition MAX_SGE :: nat where
  "MAX_SGE = 16"

text \<open>\<open>off\<close> is how far the pointers \<open>sge_array\<close> and \<open>iov\<close> have been advanced.\<close>

fun FillUnrolled :: "nat \<Rightarrow> nat \<Rightarrow> iovec list \<Rightarrow> u32 \<Rightarrow> ibv_sge list \<Rightarrow> ibv_sge list chk" where
  "FillUnrolled N off iov lkey s0 =
     bind_chk (if N \<ge> 1 then fill_one off iov lkey s0 else Inr s0) (\<lambda>s1.
     bind_chk (if N \<ge> 2 then fill_one (off + 1) iov lkey s1 else Inr s1) (\<lambda>s2.
     if N > 2 then FillUnrolled (N - 2) (off + 2) iov lkey s2 else Inr s2))"

declare FillUnrolled.simps [simp del]

primrec fill_loop :: "nat \<Rightarrow> nat \<Rightarrow> iovec list \<Rightarrow> u32 \<Rightarrow> ibv_sge list \<Rightarrow> ibv_sge list chk" where
  "fill_loop 0 i iov lkey s = Inr s"
| "fill_loop (Suc n) i iov lkey s =
     bind_chk (fill_one i iov lkey s) (fill_loop n (i + 1) iov lkey)"

definition SgeFiller_Fill :: "ibv_sge list \<Rightarrow> iovec list \<Rightarrow> nat \<Rightarrow> u32 \<Rightarrow> ibv_sge list chk" where
  "SgeFiller_Fill sge_array iov iov_count lkey =
     (if iov_count \<in> {1, 2, 3, 4, 5, 6, 7, 8}
      then FillUnrolled iov_count 0 iov lkey sge_array
      else fill_loop iov_count 0 iov lkey sge_array)"

section \<open>Alignment report\<close>

text \<open>The counters never exceed the length of the array; the byte total wraps.\<close>

record AlignmentReport =
  total_sge :: nat
  page_aligned_count :: nat
  cache_aligned_count :: nat
  unaligned_count :: nat
  total_unaligned_bytes :: size_t

definition AlignmentReport_zero :: AlignmentReport where
  "AlignmentReport_zero =
     \<lparr>total_sge = 0, page_aligned_count = 0, cache_aligned_count = 0, unaligned_count = 0,
      total_unaligned_bytes = 0\<rparr>"

definition check_one :: "iovec \<Rightarrow> AlignmentReport \<Rightarrow> AlignmentReport" where
  "check_one v r =
     (let addr = iov_base v
      in if addr AND (kPageSize - 1) = 0
         then r\<lparr>page_aligned_count := page_aligned_count r + 1,
                cache_aligned_count := cache_aligned_count r + 1\<rparr>
         else if addr AND (kCacheLineSize - 1) = 0
         then r\<lparr>cache_aligned_count := cache_aligned_count r + 1,
                unaligned_count := unaligned_count r + 1\<rparr>
         else r\<lparr>unaligned_count := unaligned_count r + 1,
                total_unaligned_bytes := total_unaligned_bytes r + iov_len v\<rparr>)"

definition Alignment_Check :: "iovec list \<Rightarrow> AlignmentReport" where
  "Alignment_Check iov = fold check_one iov (AlignmentReport_zero\<lparr>total_sge := length iov\<rparr>)"

definition IsOptimal :: "AlignmentReport \<Rightarrow> bool" where
  "IsOptimal r \<longleftrightarrow> unaligned_count r = 0"

fun AllPageAligned :: "iovec list \<Rightarrow> bool" where
  "AllPageAligned [] = True"
| "AllPageAligned (v # vs) = (if iov_base v AND (kPageSize - 1) \<noteq> 0 then False else AllPageAligned vs)"

section \<open>The unrolled filler is the loop\<close>

lemma fill_loop_ok:
  "i + n \<le> length iov \<Longrightarrow> i + n \<le> length s \<Longrightarrow>
     fill_loop n i iov lkey s =
       Inr (take i s @ map (sge_of lkey) (take n (drop i iov)) @ drop (i + n) s)"
proof (induction n arbitrary: i s)
  case (Suc n)
  let ?s = "s[i := sge_of lkey (iov ! i)]"
  have "fill_loop (Suc n) i iov lkey s = fill_loop n (i + 1) iov lkey ?s"
    using Suc.prems by (simp add: fill_one_def)
  also have "\<dots> = Inr (take (i + 1) ?s @ map (sge_of lkey) (take n (drop (i + 1) iov)) @ drop (i + 1 + n) ?s)"
    using Suc.prems by (intro Suc.IH) simp_all
  also have "take (i + 1) ?s = take i s @ [sge_of lkey (iov ! i)]"
    using Suc.prems by (simp add: take_Suc_conv_app_nth)
  also have "drop (i + 1 + n) ?s = drop (i + Suc n) s" by simp
  finally have step: "fill_loop (Suc n) i iov lkey s = Inr ((take i s @ [sge_of lkey (iov ! i)]) @
      map (sge_of lkey) (take n (drop (i + 1) iov)) @ drop (i + Suc n) s)" .
  have "map (sge_of lkey) (take (Suc n) (drop i iov)) =
      sge_of lkey (iov ! i) # map (sge_of lkey) (take n (drop (i + 1) iov))"
    using Suc.prems by (simp add: Cons_nth_drop_Suc [symmetric])
  with step show ?case by simp
qed simp

lemma FillUnrolled_eq_loop: "FillUnrolled N off iov lkey s = fill_loop N off iov lkey s"
proof (induction N off iov lkey s rule: FillUnrolled.induct)
  case (1 N off iov lkey s0)
  consider "N = 0" | "N = 1" | M where "N = Suc (Suc M)"
    by (metis One_nat_def old.nat.exhaust)
  then show ?case
  proof cases
    case (3 M)
    have IH: "0 < M \<Longrightarrow> FillUnrolled M (off + 2) iov lkey s2 = fill_loop M (off + 2) iov lkey s2" for s2
      using 1 3 by (cases "fill_one off iov lkey s0") auto
    show ?thesis
    proof (cases "fill_one off iov lkey s0")
      case (Inl e)
      then show ?thesis by (simp add: FillUnrolled.simps 3)
    next
      case (Inr s1)
      then show ?thesis
        using IH by (cases "fill_one (Suc off) iov lkey s1"; cases "0 < M")
          (simp_all add: FillUnrolled.simps [of "Suc (Suc _)"] 3)
    qed
  next
    case 2
    then show ?thesis by (cases "fill_one off iov lkey s0") (simp_all add: FillUnrolled.simps)
  qed (simp add: FillUnrolled.simps)
qed

text \<open>
  C27. \<open>SgeFiller::Fill\<close> fills exactly the first \<open>iov_count\<close> entries of the work request, entry
  by entry from the vector, for every count: the eight unrolled copies and the loop agree.
\<close>

theorem SgeFiller_Fill_correct:
  assumes "iov_count \<le> length iov" and "iov_count \<le> length sge_array"
  shows "SgeFiller_Fill sge_array iov iov_count lkey =
           Inr (map (sge_of lkey) (take iov_count iov) @ drop iov_count sge_array)"
  using assms fill_loop_ok [of 0 iov_count iov sge_array lkey]
  by (simp add: SgeFiller_Fill_def FillUnrolled_eq_loop)

theorem SgeFiller_Fill_correct_witness:
  "SgeFiller_Fill [sge_of 0 \<lparr>iov_base = 0, iov_len = 0\<rparr>, sge_of 9 \<lparr>iov_base = 1, iov_len = 1\<rparr>]
     [\<lparr>iov_base = 4096, iov_len = 64\<rparr>] 1 5 =
   Inr [sge_of 5 \<lparr>iov_base = 4096, iov_len = 64\<rparr>, sge_of 9 \<lparr>iov_base = 1, iov_len = 1\<rparr>]"
  using SgeFiller_Fill_correct [of 1 "[\<lparr>iov_base = 4096, iov_len = 64\<rparr>]"
    "[sge_of 0 \<lparr>iov_base = 0, iov_len = 0\<rparr>, sge_of 9 \<lparr>iov_base = 1, iov_len = 1\<rparr>]" 5] by simp

section \<open>The alignment report\<close>

lemma check_fold:
  "let r' = fold check_one iov r
   in total_sge r' = total_sge r \<and>
      page_aligned_count r' + unaligned_count r' = page_aligned_count r + unaligned_count r + length iov \<and>
      page_aligned_count r' \<le> page_aligned_count r + (cache_aligned_count r' - cache_aligned_count r) \<and>
      cache_aligned_count r \<le> cache_aligned_count r' \<and>
      (unaligned_count r' = unaligned_count r \<longleftrightarrow> AllPageAligned iov) \<and> unaligned_count r \<le> unaligned_count r'"
proof (induction iov arbitrary: r)
  case (Cons v vs)
  from Cons.IH [of "check_one v r"] show ?case
    by (auto simp: check_one_def Let_def)
qed simp

text \<open>
  The report of \<open>SgeAlignmentChecker::Check\<close> accounts for every entry of the vector, a page
  aligned entry is counted as cache aligned too, and \<open>IsOptimal\<close> agrees with \<open>AllPageAligned\<close>.
\<close>

theorem Alignment_Check_accounts:
  "total_sge (Alignment_Check iov) = length iov \<and>
   page_aligned_count (Alignment_Check iov) + unaligned_count (Alignment_Check iov) = length iov \<and>
   page_aligned_count (Alignment_Check iov) \<le> cache_aligned_count (Alignment_Check iov) \<and>
   (IsOptimal (Alignment_Check iov) \<longleftrightarrow> AllPageAligned iov)"
  using check_fold [of iov "AlignmentReport_zero\<lparr>total_sge := length iov\<rparr>"]
  by (simp add: Alignment_Check_def IsOptimal_def Let_def AlignmentReport_zero_def)

section \<open>Slices\<close>

text \<open>Sums of words that stay below \<open>2^64\<close> are sums of numbers.\<close>

lemma unat_add_no_wrap: "unat a + unat b < 2 ^ 64 \<Longrightarrow> unat (a + b) = unat a + unat b" for a b :: u64
  by (simp add: unat_word_ariths)

lemma unat_add_wrap: "unat a + unat b \<ge> 2 ^ 64 \<Longrightarrow> unat (a + b) = unat a + unat b - 2 ^ 64" for a b :: u64
  using unat_u64_lt [of a] unat_u64_lt [of b]
  by (simp add: unat_word_ariths mod_if)

text \<open>
  A slice is inside its buffer whenever the sum \<open>offset + length\<close> the test forms does not
  wrap: either the invalid buffer comes back, or exactly the requested bytes, with the parent's
  key, and the request was inside the buffer.
\<close>

theorem Buffer_Slice_inside:
  assumes "fits_address_space (buf_addr b) (buf_length b)" and "unat off + unat len < 2 ^ 64"
  shows "if unat off < unat (buf_length b) \<and> unat off + unat len \<le> unat (buf_length b)
         then buf_bytes (Buffer_Slice off len b) =
                {unat (buf_addr b) + unat off ..< unat (buf_addr b) + unat off + unat len} \<and>
              buf_bytes (Buffer_Slice off len b) \<subseteq> buf_bytes b \<and>
              buf_lkey (Buffer_Slice off len b) = buf_lkey b
         else Buffer_Slice off len b = Buffer_null"
proof (cases "unat off < unat (buf_length b) \<and> unat off + unat len \<le> unat (buf_length b)")
  case True
  then have "unat (buf_addr b) + unat off < 2 ^ 64"
    using assms(1) by (simp add: fits_address_space_def)
  then have "unat (buf_addr b + off) = unat (buf_addr b) + unat off" by (rule unat_add_no_wrap)
  moreover have "\<not> (off \<ge> buf_length b \<or> off + len > buf_length b)"
    using True unat_add_no_wrap [OF assms(2)] by (simp add: word_le_nat_alt word_less_nat_alt)
  ultimately show ?thesis using True
    by (auto simp: Buffer_Slice_def Buffer_new_def byte_range_def)
next
  case False
  then have "off \<ge> buf_length b \<or> off + len > buf_length b"
    using unat_add_no_wrap [OF assms(2)] by (auto simp: word_le_nat_alt word_less_nat_alt)
  then have "Buffer_Slice off len b = Buffer_null" by (simp add: Buffer_Slice_def)
  with False show ?thesis by (simp only: if_False)
qed

theorem Buffer_Slice_inside_witness:
  "buf_bytes (Buffer_Slice 8 16 (Buffer_new 4096 64 7)) = {4104 ..< 4120}"
  using Buffer_Slice_inside [of "Buffer_new 4096 64 7" 8 16]
  by (simp add: fits_address_space_def Buffer_new_def)

text \<open>
  Where the sum wraps, the test is passed by requests far longer than the buffer: from every
  buffer of two to \<open>2^64 - 2\<close> bytes, a slice of \<open>2^64 - 1\<close> bytes at offset one is returned.
\<close>

theorem Buffer_Slice_wraps:
  assumes "2 \<le> unat (buf_length b)" and "unat (buf_length b) < 2 ^ 64 - 1"
  shows "Buffer_Slice 1 (- 1) b = Buffer_new (buf_addr b + 1) (- 1) (buf_lkey b) \<and>
         \<not> buf_bytes (Buffer_Slice 1 (- 1) b) \<subseteq> buf_bytes b"
proof -
  have "\<not> (1 \<ge> buf_length b)" using assms(1) by (simp add: word_le_nat_alt)
  then have eq: "Buffer_Slice 1 (- 1) b = Buffer_new (buf_addr b + 1) (- 1) (buf_lkey b)"
    by (simp add: Buffer_Slice_def)
  have "card (buf_bytes (Buffer_Slice 1 (- 1) b)) = 2 ^ 64 - 1"
    by (simp add: eq Buffer_new_def byte_range_def unsigned_minus_1_eq_mask mask_eq_exp_minus_1)
  moreover have "card (buf_bytes b) = unat (buf_length b)" "finite (buf_bytes b)"
    by (simp_all add: byte_range_def)
  ultimately have "\<not> buf_bytes (Buffer_Slice 1 (- 1) b) \<subseteq> buf_bytes b"
    using assms(2) by (metis card_mono linorder_not_less)
  with eq show ?thesis by simp
qed

theorem Buffer_Slice_wraps_witness:
  "Buffer_Slice 1 (- 1) (Buffer_new 4096 64 7) = Buffer_new 4097 (- 1) 7"
  using Buffer_Slice_wraps [of "Buffer_new 4096 64 7"] by (simp add: Buffer_new_def)

end
