(* ===== verification/Core_Objects.thy ===== *)
theory Core_Objects
  imports Raii Buffer_View
begin

text \<open>
  The owning wrappers of \<open>include/rdma/core\<close> and \<open>src/core\<close>: \<open>RdmaDevice\<close>,
  \<open>ProtectionDomain\<close>, \<open>CompletionQueue\<close> and \<open>MemoryRegion\<close>, with the allocators of
  \<open>src/memory/hugepage_allocator.cpp\<close>. The verbs library and the kernel are the parameter record
  \<open>dev_verbs\<close>: a call that can fail returns \<open>Inl\<close> of the \<open>errno\<close> it leaves. Every function that
  obtains or gives back a handle threads the ledger of \<open>Raii\<close>. A null raw handle is \<open>0\<close>.
\<close>

section \<open>The verbs library as a parameter\<close>

record ibv_device_attr =
  da_vendor_id :: u32
  da_vendor_part_id :: u32
  da_phys_port_cnt :: u8
  da_max_qp :: u32
  da_max_cq :: u32
  da_max_mr :: u32
  da_max_qp_wr :: u32
  da_max_sge :: u32
  da_max_cqe :: u32

record ibv_mr =
  mr_handle :: ptr
  mr_lkey :: u32
  mr_rkey :: u32

record dev_verbs =
  v_get_device_list :: "ledger \<Rightarrow> (ptr \<times> ptr list) option"
  v_get_device_name :: "ptr \<Rightarrow> string"
  v_get_device_guid :: "ptr \<Rightarrow> u64"
  v_open_device :: "ledger \<Rightarrow> ptr \<Rightarrow> int + ptr"
  v_query_device :: "ptr \<Rightarrow> int + ibv_device_attr"
  v_read_int_file :: "string \<Rightarrow> int option"
  v_alloc_pd :: "ledger \<Rightarrow> ptr \<Rightarrow> int + ptr"
  v_create_comp_channel :: "ledger \<Rightarrow> ptr \<Rightarrow> int + ptr"
  v_create_cq :: "ledger \<Rightarrow> ptr \<Rightarrow> u32 \<Rightarrow> ptr \<Rightarrow> int \<Rightarrow> int + ptr"
  v_reg_mr :: "ledger \<Rightarrow> ptr \<Rightarrow> ptr \<Rightarrow> size_t \<Rightarrow> nat \<Rightarrow> int + ibv_mr"

section \<open>Devices\<close>

record RdmaDevice =
  dev_context :: ptr
  dev_attr :: "ibv_device_attr option"
  dev_name :: string
  dev_numa_node :: int

record DeviceInfo =
  info_name :: string
  info_guid :: u64
  info_vendor_id :: u32
  info_vendor_part_id :: u32
  info_numa_node :: int
  info_num_ports :: int

definition GetDeviceNumaNode :: "'x dev_verbs_scheme \<Rightarrow> string \<Rightarrow> int" where
  "GetDeviceNumaNode V device_name =
     (case v_read_int_file V (''/sys/class/infiniband/'' @ device_name @ ''/device/numa_node'') of
        Some n \<Rightarrow> n
      | None \<Rightarrow> -1)"

definition ValidateNicNuma :: "'x dev_verbs_scheme \<Rightarrow> string \<Rightarrow> int \<Rightarrow> bool" where
  "ValidateNicNuma V nic_name expected_numa \<longleftrightarrow> GetDeviceNumaNode V nic_name = expected_numa"

text \<open>The loop that stops at the first device of the list that satisfies the test.\<close>

fun first_device :: "(ptr \<Rightarrow> bool) \<Rightarrow> ptr list \<Rightarrow> ptr option" where
  "first_device P [] = None"
| "first_device P (d # ds) = (if P d then Some d else first_device P ds)"

definition Device_Open :: "'x dev_verbs_scheme \<Rightarrow> string option \<Rightarrow> ledger \<Rightarrow> RdmaDevice Result \<times> ledger" where
  "Device_Open V device_name L =
     (case v_get_device_list V L of
        None \<Rightarrow> (Inl (Status_NotFound ''No RDMA devices found''), L)
      | Some (device_list, devs) \<Rightarrow>
          let L1 = acquire (R_DevList device_list) L
          in if devs = []
             then (Inl (Status_NotFound ''No RDMA devices found''), give_back (R_DevList device_list) L1)
             else case (case device_name of
                          Some n \<Rightarrow> first_device (\<lambda>d. v_get_device_name V d = n) devs
                        | None \<Rightarrow> Some (hd devs)) of
               None \<Rightarrow> (Inl (Status_NotFound ''RDMA device not found''), give_back (R_DevList device_list) L1)
             | Some target \<Rightarrow>
                 (case v_open_device V L1 target of
                    Inl e \<Rightarrow> (Inl (Status_IOError ''Failed to open RDMA device'' e),
                              give_back (R_DevList device_list) L1)
                  | Inr context \<Rightarrow>
                      let L2 = acquire (R_Ctx context) L1;
                          nm = v_get_device_name V target;
                          numa = GetDeviceNumaNode V nm
                      in case v_query_device V context of
                           Inl e \<Rightarrow> (Inl (Status_IOError ''Failed to query device attributes'' e),
                                     give_back (R_Ctx context) (give_back (R_DevList device_list) L2))
                         | Inr attr \<Rightarrow>
                             (Inr \<lparr>dev_context = context, dev_attr = Some attr, dev_name = nm, dev_numa_node = numa\<rparr>,
                              give_back (R_DevList device_list) L2)))"

definition Device_OpenByNuma :: "'x dev_verbs_scheme \<Rightarrow> int \<Rightarrow> ledger \<Rightarrow> RdmaDevice Result \<times> ledger" where
  "Device_OpenByNuma V numa_node L =
     (case v_get_device_list V L of
        None \<Rightarrow> (Inl (Status_NotFound ''No RDMA devices found''), L)
      | Some (device_list, devs) \<Rightarrow>
          let L1 = acquire (R_DevList device_list) L
          in if devs = []
             then (Inl (Status_NotFound ''No RDMA devices found''), give_back (R_DevList device_list) L1)
             else case first_device (\<lambda>d. GetDeviceNumaNode V (v_get_device_name V d) = numa_node) devs of
               None \<Rightarrow> (Inl (Status_NotFound ''No RDMA device found on specified NUMA node''),
                        give_back (R_DevList device_list) L1)
             | Some target \<Rightarrow>
                 (case v_open_device V L1 target of
                    Inl e \<Rightarrow> (Inl (Status_IOError ''Failed to open RDMA device'' e),
                              give_back (R_DevList device_list) L1)
                  | Inr context \<Rightarrow>
                      let L2 = acquire (R_Ctx context) L1
                      in case v_query_device V context of
                           Inl e \<Rightarrow> (Inl (Status_IOError ''Failed to query device attributes'' e),
                                     give_back (R_Ctx context) (give_back (R_DevList device_list) L2))
                         | Inr attr \<Rightarrow>
                             (Inr \<lparr>dev_context = context, dev_attr = Some attr,
                                   dev_name = v_get_device_name V target, dev_numa_node = numa_node\<rparr>,
                              give_back (R_DevList device_list) L2)))"

text \<open>
  One iteration of \<open>GetAvailableDevices\<close>. \<open>junk\<close> is the indeterminate content of the local
  \<open>DeviceInfo info\<close>, three fields of which are only assigned when the device can be opened and
  queried.
\<close>

definition device_info :: "'x dev_verbs_scheme \<Rightarrow> DeviceInfo \<Rightarrow> ptr \<Rightarrow> ledger \<Rightarrow> DeviceInfo \<times> ledger" where
  "device_info V junk d L =
     (let info = junk\<lparr>info_name := v_get_device_name V d, info_guid := v_get_device_guid V d,
                      info_numa_node := GetDeviceNumaNode V (v_get_device_name V d)\<rparr>
      in case v_open_device V L d of
           Inl e \<Rightarrow> (info, L)
         | Inr ctx \<Rightarrow>
             (case v_query_device V ctx of
                Inl e \<Rightarrow> info
              | Inr attr \<Rightarrow> info\<lparr>info_vendor_id := da_vendor_id attr,
                               info_vendor_part_id := da_vendor_part_id attr,
                               info_num_ports := int (unat (da_phys_port_cnt attr))\<rparr>,
              give_back (R_Ctx ctx) (acquire (R_Ctx ctx) L)))"

primrec device_infos ::
  "'x dev_verbs_scheme \<Rightarrow> (nat \<Rightarrow> DeviceInfo) \<Rightarrow> nat \<Rightarrow> ptr list \<Rightarrow> ledger \<Rightarrow> DeviceInfo list \<times> ledger" where
  "device_infos V junk i [] L = ([], L)"
| "device_infos V junk i (d # ds) L =
     (let (info, L1) = device_info V (junk i) d L; (infos, L2) = device_infos V junk (Suc i) ds L1 in (info # infos, L2))"

definition GetAvailableDevices ::
  "'x dev_verbs_scheme \<Rightarrow> (nat \<Rightarrow> DeviceInfo) \<Rightarrow> ledger \<Rightarrow> DeviceInfo list \<times> ledger" where
  "GetAvailableDevices V junk L =
     (case v_get_device_list V L of
        None \<Rightarrow> ([], L)
      | Some (device_list, devs) \<Rightarrow>
          let (infos, L1) = device_infos V junk 0 devs (acquire (R_DevList device_list) L)
          in (infos, give_back (R_DevList device_list) L1))"

definition Device_QueryPort :: "(ptr \<Rightarrow> u8 \<Rightarrow> int + 'p) \<Rightarrow> u8 \<Rightarrow> RdmaDevice \<Rightarrow> 'p Result" where
  "Device_QueryPort query_port port d =
     (case query_port (dev_context d) port of
        Inl e \<Rightarrow> Inl (Status_IOError ''Failed to query port'' e)
      | Inr attr \<Rightarrow> Inr attr)"

definition Device_QueryGid :: "(ptr \<Rightarrow> u8 \<Rightarrow> int \<Rightarrow> int + 'g) \<Rightarrow> u8 \<Rightarrow> int \<Rightarrow> RdmaDevice \<Rightarrow> 'g Result" where
  "Device_QueryGid query_gid port idx d =
     (case query_gid (dev_context d) port idx of
        Inl e \<Rightarrow> Inl (Status_IOError ''Failed to query GID'' e)
      | Inr g \<Rightarrow> Inr g)"

definition Device_dtor :: "RdmaDevice \<Rightarrow> ledger \<Rightarrow> ledger" where
  "Device_dtor d L = (if dev_context d \<noteq> 0 then give_back (R_Ctx (dev_context d)) L else L)"

text \<open>\<open>std::move\<close> of a \<open>std::string\<close> leaves it in an unspecified state, here empty.\<close>

definition Device_mctor :: "RdmaDevice \<Rightarrow> RdmaDevice \<times> RdmaDevice" where
  "Device_mctor other = (other, other\<lparr>dev_context := 0, dev_name := ''''\<rparr>)"

definition Device_massign :: "RdmaDevice \<Rightarrow> RdmaDevice \<Rightarrow> ledger \<Rightarrow> RdmaDevice \<times> RdmaDevice \<times> ledger" where
  "Device_massign this other L =
     (other, other\<lparr>dev_context := 0, dev_name := ''''\<rparr>,
      if dev_context this \<noteq> 0 then give_back (R_Ctx (dev_context this)) L else L)"

definition Device_owns :: "RdmaDevice \<Rightarrow> res list" where
  "Device_owns d = (if dev_context d \<noteq> 0 then [R_Ctx (dev_context d)] else [])"

section \<open>Protection domains\<close>

text \<open>Pointers to other wrappers are options: \<open>None\<close> is a null pointer.\<close>

record ProtectionDomain =
  pd_raw :: ptr
  pd_device :: "RdmaDevice option"

definition PD_Create ::
  "'x dev_verbs_scheme \<Rightarrow> RdmaDevice option \<Rightarrow> ledger \<Rightarrow> ProtectionDomain Result \<times> ledger" where
  "PD_Create V device L =
     (case device of
        None \<Rightarrow> (Inl (Status_InvalidArgument ''Invalid device''), L)
      | Some d \<Rightarrow>
          if dev_context d = 0 then (Inl (Status_InvalidArgument ''Invalid device''), L)
          else case v_alloc_pd V L (dev_context d) of
            Inl e \<Rightarrow> (Inl (Status_IOError ''Failed to allocate protection domain'' e), L)
          | Inr pd \<Rightarrow> (Inr \<lparr>pd_raw = pd, pd_device = Some d\<rparr>, acquire (R_PD pd) L))"

definition PD_dtor :: "ProtectionDomain \<Rightarrow> ledger \<Rightarrow> ledger" where
  "PD_dtor p L = (if pd_raw p \<noteq> 0 then give_back (R_PD (pd_raw p)) L else L)"

definition PD_mctor :: "ProtectionDomain \<Rightarrow> ProtectionDomain \<times> ProtectionDomain" where
  "PD_mctor other = (other, \<lparr>pd_raw = 0, pd_device = None\<rparr>)"

definition PD_massign ::
  "ProtectionDomain \<Rightarrow> ProtectionDomain \<Rightarrow> ledger \<Rightarrow> ProtectionDomain \<times> ProtectionDomain \<times> ledger" where
  "PD_massign this other L =
     (other, \<lparr>pd_raw = 0, pd_device = None\<rparr>,
      if pd_raw this \<noteq> 0 then give_back (R_PD (pd_raw this)) L else L)"

definition PD_owns :: "ProtectionDomain \<Rightarrow> res list" where
  "PD_owns p = (if pd_raw p \<noteq> 0 then [R_PD (pd_raw p)] else [])"

section \<open>Completion queues\<close>

record CompletionQueueConfig =
  cqc_cq_depth :: u32
  cqc_comp_vector :: int
  cqc_use_channel :: bool

definition CompletionQueueConfig_default :: CompletionQueueConfig where
  "CompletionQueueConfig_default = \<lparr>cqc_cq_depth = 65536, cqc_comp_vector = 0, cqc_use_channel = False\<rparr>"

record CompletionQueue =
  cq_raw :: ptr
  cq_channel :: ptr
  cq_device :: "RdmaDevice option"
  cq_depth :: u32
  cq_outstanding :: int

definition CQ_Create ::
  "'x dev_verbs_scheme \<Rightarrow> RdmaDevice option \<Rightarrow> CompletionQueueConfig \<Rightarrow> ledger \<Rightarrow> CompletionQueue Result \<times> ledger" where
  "CQ_Create V device config L =
     (case device of
        None \<Rightarrow> (Inl (Status_InvalidArgument ''Invalid device''), L)
      | Some d \<Rightarrow>
          if dev_context d = 0 then (Inl (Status_InvalidArgument ''Invalid device''), L)
          else case (if cqc_use_channel config
                     then (case v_create_comp_channel V L (dev_context d) of
                             Inl e \<Rightarrow> Inl e
                           | Inr channel \<Rightarrow> Inr (channel, acquire (R_Chan channel) L))
                     else Inr (0, L)) of
            Inl e \<Rightarrow> (Inl (Status_IOError ''Failed to create completion channel'' e), L)
          | Inr (channel, L1) \<Rightarrow>
              (case v_create_cq V L1 (dev_context d) (cqc_cq_depth config) channel (cqc_comp_vector config) of
                 Inl e \<Rightarrow> (Inl (Status_IOError ''Failed to create completion queue'' e),
                           if channel \<noteq> 0 then give_back (R_Chan channel) L1 else L1)
               | Inr cq \<Rightarrow>
                   (Inr \<lparr>cq_raw = cq, cq_channel = channel, cq_device = Some d,
                         cq_depth = cqc_cq_depth config, cq_outstanding = 0\<rparr>,
                    acquire (R_CQ cq) L1)))"

definition CQ_RequestNotification :: "(ptr \<Rightarrow> nat \<Rightarrow> int + unit) \<Rightarrow> bool \<Rightarrow> CompletionQueue \<Rightarrow> Status" where
  "CQ_RequestNotification req_notify_cq solicited_only q =
     (case req_notify_cq (cq_raw q) (if solicited_only then 1 else 0) of
        Inl e \<Rightarrow> Status_IOError ''Failed to request CQ notification'' e
      | Inr _ \<Rightarrow> Status_OK)"

text \<open>\<open>ack\<close> is \<open>ibv_ack_cq_events\<close> on the state of the device; it cannot fail.\<close>

definition CQ_AckEvents :: "(ptr \<Rightarrow> nat \<Rightarrow> 'n \<Rightarrow> 'n) \<Rightarrow> nat \<Rightarrow> CompletionQueue \<Rightarrow> 'n \<Rightarrow> Status \<times> 'n" where
  "CQ_AckEvents ack nevents q n = (Status_OK, ack (cq_raw q) nevents n)"

definition CQ_dtor :: "CompletionQueue \<Rightarrow> ledger \<Rightarrow> ledger" where
  "CQ_dtor q L =
     (let L1 = (if cq_raw q \<noteq> 0 then give_back (R_CQ (cq_raw q)) L else L)
      in if cq_channel q \<noteq> 0 then give_back (R_Chan (cq_channel q)) L1 else L1)"

definition CQ_mctor :: "CompletionQueue \<Rightarrow> CompletionQueue \<times> CompletionQueue" where
  "CQ_mctor other = (other, other\<lparr>cq_raw := 0, cq_channel := 0, cq_device := None\<rparr>)"

definition CQ_massign ::
  "CompletionQueue \<Rightarrow> CompletionQueue \<Rightarrow> ledger \<Rightarrow> CompletionQueue \<times> CompletionQueue \<times> ledger" where
  "CQ_massign this other L =
     (let L1 = (if cq_raw this \<noteq> 0 then give_back (R_CQ (cq_raw this)) L else L);
          L2 = (if cq_channel this \<noteq> 0 then give_back (R_Chan (cq_channel this)) L1 else L1)
      in (other, other\<lparr>cq_raw := 0, cq_channel := 0, cq_device := None\<rparr>, L2))"

definition CQ_owns :: "CompletionQueue \<Rightarrow> res list" where
  "CQ_owns q = (if cq_raw q \<noteq> 0 then [R_CQ (cq_raw q)] else []) @
     (if cq_channel q \<noteq> 0 then [R_Chan (cq_channel q)] else [])"

section \<open>Memory regions\<close>

record MemoryRegionConfig =
  mrc_enable_local_write :: bool
  mrc_enable_remote_write :: bool
  mrc_enable_remote_read :: bool
  mrc_enable_relaxed_ordering :: bool

definition MemoryRegionConfig_default :: MemoryRegionConfig where
  "MemoryRegionConfig_default =
     \<lparr>mrc_enable_local_write = True, mrc_enable_remote_write = True, mrc_enable_remote_read = True,
      mrc_enable_relaxed_ordering = False\<rparr>"

text \<open>
  The access flags of \<open>infiniband/verbs.h\<close>: \<open>IBV_ACCESS_LOCAL_WRITE\<close> 1,
  \<open>IBV_ACCESS_REMOTE_WRITE\<close> 2, \<open>IBV_ACCESS_REMOTE_READ\<close> 4, \<open>IBV_ACCESS_RELAXED_ORDERING\<close>
  \<open>2^20\<close>. The last is an enumerator and not a macro there; \<open>ro_macro\<close> says whether the
  preprocessor sees a macro of that name.
\<close>

definition GetAccessFlags :: "bool \<Rightarrow> MemoryRegionConfig \<Rightarrow> nat" where
  "GetAccessFlags ro_macro c =
     (let flags = 0;
          flags = (if mrc_enable_local_write c then flags OR 1 else flags);
          flags = (if mrc_enable_remote_write c then flags OR 2 else flags);
          flags = (if mrc_enable_remote_read c then flags OR 4 else flags);
          flags = (if ro_macro \<and> mrc_enable_relaxed_ordering c then flags OR 2 ^ 20 else flags)
      in flags)"

record MemoryRegion =
  mr_raw :: "ibv_mr option"
  mr_addr :: ptr
  mr_size :: size_t

definition MR_GetLkey :: "MemoryRegion \<Rightarrow> u32" where
  "MR_GetLkey m = (case mr_raw m of Some r \<Rightarrow> mr_lkey r | None \<Rightarrow> 0)"

definition MR_GetRkey :: "MemoryRegion \<Rightarrow> u32" where
  "MR_GetRkey m = (case mr_raw m of Some r \<Rightarrow> mr_rkey r | None \<Rightarrow> 0)"

definition MR_Register ::
  "'x dev_verbs_scheme \<Rightarrow> bool \<Rightarrow> ProtectionDomain option \<Rightarrow> ptr \<Rightarrow> size_t \<Rightarrow> MemoryRegionConfig \<Rightarrow> ledger
     \<Rightarrow> MemoryRegion Result \<times> ledger" where
  "MR_Register V ro_macro pd addr sz config L =
     (if (case pd of None \<Rightarrow> True | Some p \<Rightarrow> pd_raw p = 0)
      then (Inl (Status_InvalidArgument ''Invalid protection domain''), L)
      else if addr = nullptr \<or> sz = 0
      then (Inl (Status_InvalidArgument ''Invalid memory region parameters''), L)
      else case v_reg_mr V L (pd_raw (the pd)) addr sz (GetAccessFlags ro_macro config) of
        Inl e \<Rightarrow> (Inl (Status_IOError ''Failed to register memory region'' e), L)
      | Inr r \<Rightarrow> (Inr \<lparr>mr_raw = Some r, mr_addr = addr, mr_size = sz\<rparr>, acquire (R_MR (mr_handle r)) L))"

definition MR_GetBuffer :: "size_t \<Rightarrow> size_t \<Rightarrow> MemoryRegion \<Rightarrow> Buffer" where
  "MR_GetBuffer offset len m =
     (if offset + len > mr_size m then Buffer_null
      else Buffer_new (mr_addr m + offset) len (MR_GetLkey m))"

definition MR_GetBufferPtr :: "size_t \<Rightarrow> MemoryRegion \<Rightarrow> ptr" where
  "MR_GetBufferPtr offset m = mr_addr m + offset"

definition MR_GetRemoteInfo :: "MemoryRegion \<Rightarrow> RemoteMemoryInfo" where
  "MR_GetRemoteInfo m = \<lparr>rmi_addr = mr_addr m, rmi_rkey = MR_GetRkey m, rmi_length = ucast (mr_size m)\<rparr>"

definition MR_GetRemoteInfo_at :: "size_t \<Rightarrow> size_t \<Rightarrow> MemoryRegion \<Rightarrow> RemoteMemoryInfo" where
  "MR_GetRemoteInfo_at offset len m =
     \<lparr>rmi_addr = mr_addr m + offset, rmi_rkey = MR_GetRkey m, rmi_length = ucast len\<rparr>"

definition MR_dtor :: "MemoryRegion \<Rightarrow> ledger \<Rightarrow> ledger" where
  "MR_dtor m L = (case mr_raw m of Some r \<Rightarrow> give_back (R_MR (mr_handle r)) L | None \<Rightarrow> L)"

definition MR_mctor :: "MemoryRegion \<Rightarrow> MemoryRegion \<times> MemoryRegion" where
  "MR_mctor other = (other, \<lparr>mr_raw = None, mr_addr = nullptr, mr_size = 0\<rparr>)"

definition MR_massign ::
  "MemoryRegion \<Rightarrow> MemoryRegion \<Rightarrow> ledger \<Rightarrow> MemoryRegion \<times> MemoryRegion \<times> ledger" where
  "MR_massign this other L =
     (other, \<lparr>mr_raw = None, mr_addr = nullptr, mr_size = 0\<rparr>,
      case mr_raw this of Some r \<Rightarrow> give_back (R_MR (mr_handle r)) L | None \<Rightarrow> L)"

definition MR_owns :: "MemoryRegion \<Rightarrow> res list" where
  "MR_owns m = (case mr_raw m of Some r \<Rightarrow> [R_MR (mr_handle r)] | None \<Rightarrow> [])"

section \<open>Ownership\<close>

interpretation device_raii: raii Device_owns Device_dtor Device_mctor Device_massign
  by unfold_locales (auto simp: Device_owns_def Device_dtor_def Device_mctor_def Device_massign_def)

interpretation pd_raii: raii PD_owns PD_dtor PD_mctor PD_massign
  by unfold_locales (auto simp: PD_owns_def PD_dtor_def PD_mctor_def PD_massign_def)

interpretation cq_raii: raii CQ_owns CQ_dtor CQ_mctor CQ_massign
  by unfold_locales
    (auto simp: CQ_owns_def CQ_dtor_def CQ_mctor_def CQ_massign_def Let_def Diff_insert2 [symmetric]
      insert_commute)

interpretation mr_raii: raii MR_owns MR_dtor MR_mctor MR_massign
  by unfold_locales (auto simp: MR_owns_def MR_dtor_def MR_mctor_def MR_massign_def split: option.splits)

text \<open>
  C25. No program over devices, protection domains, completion queues or memory regions, whatever
  it creates, moves, move-assigns and destroys, gives a handle back twice, and the handles the
  library has not got back are exactly those of the objects still alive.
\<close>

theorem wrappers_never_leak:
  "(case obj_run Device_owns Device_dtor Device_mctor Device_massign ops1 ((\<lambda>_. None), ledger_empty) of
      (vars, L) \<Rightarrow> \<not> lg_bad L \<and> lg_live L = (\<Union>i. owned Device_owns (vars i))) \<and>
   (case obj_run PD_owns PD_dtor PD_mctor PD_massign ops2 ((\<lambda>_. None), ledger_empty) of
      (vars, L) \<Rightarrow> \<not> lg_bad L \<and> lg_live L = (\<Union>i. owned PD_owns (vars i))) \<and>
   (case obj_run CQ_owns CQ_dtor CQ_mctor CQ_massign ops3 ((\<lambda>_. None), ledger_empty) of
      (vars, L) \<Rightarrow> \<not> lg_bad L \<and> lg_live L = (\<Union>i. owned CQ_owns (vars i))) \<and>
   (case obj_run MR_owns MR_dtor MR_mctor MR_massign ops4 ((\<lambda>_. None), ledger_empty) of
      (vars, L) \<Rightarrow> \<not> lg_bad L \<and> lg_live L = (\<Union>i. owned MR_owns (vars i)))"
  by (intro conjI device_raii.no_leak pd_raii.no_leak cq_raii.no_leak mr_raii.no_leak)

section \<open>Factories\<close>

text \<open>
  What the factories rely on: a handle the library returns is not null and is not one that is
  still in use, whatever is in use.
\<close>

definition fresh_handle :: "(ptr \<Rightarrow> res) \<Rightarrow> ledger \<Rightarrow> int + ptr \<Rightarrow> bool" where
  "fresh_handle R L r \<longleftrightarrow> (case r of Inl e \<Rightarrow> True | Inr h \<Rightarrow> h \<noteq> 0 \<and> R h \<notin> lg_live L)"

definition verbs_fresh :: "'x dev_verbs_scheme \<Rightarrow> bool" where
  "verbs_fresh V \<longleftrightarrow> (\<forall>L.
     (case v_get_device_list V L of None \<Rightarrow> True | Some (dl, devs) \<Rightarrow> R_DevList dl \<notin> lg_live L) \<and>
     (\<forall>d. fresh_handle R_Ctx L (v_open_device V L d)) \<and>
     (\<forall>c. fresh_handle R_PD L (v_alloc_pd V L c)) \<and>
     (\<forall>c. fresh_handle R_Chan L (v_create_comp_channel V L c)) \<and>
     (\<forall>c d ch v. fresh_handle R_CQ L (v_create_cq V L c d ch v)) \<and>
     (\<forall>p a s f. case v_reg_mr V L p a s f of Inl e \<Rightarrow> True | Inr r \<Rightarrow> R_MR (mr_handle r) \<notin> lg_live L))"

lemma verbs_freshD:
  assumes "verbs_fresh V"
  shows "v_get_device_list V L = Some (dl, devs) \<Longrightarrow> R_DevList dl \<notin> lg_live L" "fresh_handle R_Ctx L (v_open_device V L d)"
    "fresh_handle R_PD L (v_alloc_pd V L d)" "fresh_handle R_Chan L (v_create_comp_channel V L d)"
    "fresh_handle R_CQ L (v_create_cq V L d depth ch vec)" "v_reg_mr V L p a s f = Inr r \<Longrightarrow> R_MR (mr_handle r) \<notin> lg_live L"
  using assms unfolding verbs_fresh_def by (metis (mono_tags, lifting) case_prodD option.case(2) sum.case(2))+

lemma ledger_insert_eq: "acquire r L = L\<lparr>lg_live := lg_live L \<union> {r}\<rparr>"
  by (simp add: acquire_def)

lemma give_back_inner [simp]:
  "r \<noteq> q \<Longrightarrow> r \<notin> lg_live L \<Longrightarrow> give_back r (acquire q (acquire r L)) = acquire q L"
  by (simp add: acquire_def insert_Diff_if)

lemma creates_simps [simp]:
  "creates owns L (Inl s, L') \<longleftrightarrow> L' = L"
  "creates owns L (Inr x, L') \<longleftrightarrow> distinct (owns x) \<and> set (owns x) \<inter> lg_live L = {} \<and>
     L' = L\<lparr>lg_live := lg_live L \<union> set (owns x)\<rparr>"
  by (simp_all add: creates_def)

text \<open>The tail the two ways to open a device share.\<close>

lemma open_target_creates:
  assumes "R_DevList dl \<notin> lg_live L" and "fresh_handle R_Ctx (acquire (R_DevList dl) L) (v_open_device V (acquire (R_DevList dl) L) t)"
  shows "creates Device_owns L
     (case v_open_device V (acquire (R_DevList dl) L) t of
        Inl e \<Rightarrow> (Inl (s1 e), give_back (R_DevList dl) (acquire (R_DevList dl) L))
      | Inr context \<Rightarrow>
          (case v_query_device V context of
             Inl e \<Rightarrow> (Inl (s2 e), give_back (R_Ctx context) (give_back (R_DevList dl)
                         (acquire (R_Ctx context) (acquire (R_DevList dl) L))))
           | Inr attr \<Rightarrow> (Inr \<lparr>dev_context = context, dev_attr = Some attr, dev_name = nm, dev_numa_node = k\<rparr>,
                          give_back (R_DevList dl) (acquire (R_Ctx context) (acquire (R_DevList dl) L)))))"
  using assms by (auto simp: fresh_handle_def Device_owns_def ledger_insert_eq insert_Diff_if
      split: sum.splits)

lemma Device_Open_creates:
  assumes "verbs_fresh V"
  shows "creates Device_owns L (Device_Open V n L)" "creates Device_owns L (Device_OpenByNuma V k L)"
proof -
  have ctx: "fresh_handle R_Ctx L (v_open_device V L d)" for L d using assms by (rule verbs_freshD)
  have dl: "R_DevList dl \<notin> lg_live L" if "v_get_device_list V L = Some (dl, devs)" for dl devs
    using assms that by (rule verbs_freshD)
  show "creates Device_owns L (Device_Open V n L)"
  proof (cases "v_get_device_list V L")
    case (Some p)
    obtain a b where p: "p = (a, b)" by (cases p)
    with Some dl show ?thesis
      unfolding Device_Open_def Let_def
      by (auto simp del: creates_simps(2) simp: open_target_creates [OF _ ctx] split: option.splits)
  qed (simp add: Device_Open_def)
  show "creates Device_owns L (Device_OpenByNuma V k L)"
  proof (cases "v_get_device_list V L")
    case (Some p)
    obtain a b where p: "p = (a, b)" by (cases p)
    with Some dl show ?thesis
      unfolding Device_OpenByNuma_def Let_def
      by (auto simp del: creates_simps(2) simp: open_target_creates [OF _ ctx] split: option.splits)
  qed (simp add: Device_OpenByNuma_def)
qed

lemma PD_Create_creates: "verbs_fresh V \<Longrightarrow> creates PD_owns L (PD_Create V d L)"
  using verbs_freshD(3) [of V L] by (fastforce simp: PD_Create_def fresh_handle_def PD_owns_def ledger_insert_eq
      split: option.splits sum.splits)

lemma MR_Register_creates: "verbs_fresh V \<Longrightarrow> creates MR_owns L (MR_Register V ro pd a sz c L)"
  using verbs_freshD(6) [of V L] by (auto simp: MR_Register_def MR_owns_def ledger_insert_eq split: option.splits sum.splits)

lemma CQ_Create_creates:
  assumes "verbs_fresh V"
  shows "creates CQ_owns L (CQ_Create V d c L)"
proof -
  have ch: "fresh_handle R_Chan L (v_create_comp_channel V L x)" for L x using assms by (rule verbs_freshD)
  have cq: "fresh_handle R_CQ L (v_create_cq V L x dp h v)" for L x dp h v using assms by (rule verbs_freshD)
  show ?thesis
  proof (cases "d = None \<or> dev_context (the d) = 0")
    case False
    then obtain y where d: "d = Some y" "dev_context y \<noteq> 0" by auto
    let ?cq = "\<lambda>L h. v_create_cq V L (dev_context y) (cqc_cq_depth c) h (cqc_comp_vector c)"
    show ?thesis
    proof (cases "cqc_use_channel c")
      case True
      with d ch [of L "dev_context y"] cq show ?thesis
      proof (cases "v_create_comp_channel V L (dev_context y)")
        case (Inr h)
        with True d ch [of L "dev_context y"] cq [of "acquire (R_Chan h) L" "dev_context y" "cqc_cq_depth c" h "cqc_comp_vector c"]
        show ?thesis by (cases "?cq (acquire (R_Chan h) L) h") (auto simp: CQ_Create_def fresh_handle_def CQ_owns_def ledger_insert_eq)
      qed (simp add: CQ_Create_def)
    next
      case False
      with d cq [of L "dev_context y" "cqc_cq_depth c" 0 "cqc_comp_vector c"] show ?thesis
        by (cases "?cq L 0") (auto simp: CQ_Create_def fresh_handle_def CQ_owns_def ledger_insert_eq)
    qed
  qed (auto simp: CQ_Create_def split: option.splits)
qed

lemma GetAvailableDevices_ledger:
  assumes "verbs_fresh V"
  shows "snd (GetAvailableDevices V junk L) = L"
proof -
  have "snd (device_info V j d L) = L" for j d L
    using verbs_freshD(2) [OF assms, of L d] by (auto simp: device_info_def Let_def fresh_handle_def split: sum.splits)
  then have "snd (device_infos V junk i ds L) = L" for i ds L
    by (induction ds arbitrary: i) (simp_all add: split_beta Let_def)
  then show ?thesis using verbs_freshD(1) [OF assms, of L] by (auto simp: GetAvailableDevices_def split_beta Let_def split: option.splits)
qed

text \<open>
  C26. No factory leaks: whatever call of the library fails, the handles obtained before it are
  given back, and a factory that succeeds has obtained exactly the handles of its new object; listing the
  devices opens and closes each of them.
\<close>

theorem factories_never_leak:
  assumes "verbs_fresh V"
  shows "creates Device_owns L (Device_Open V device_name L) \<and>
         creates Device_owns L (Device_OpenByNuma V numa_node L) \<and>
         creates PD_owns L (PD_Create V device L) \<and>
         creates CQ_owns L (CQ_Create V device config L) \<and>
         creates MR_owns L (MR_Register V ro_macro pd addr sz mr_config L) \<and>
         snd (GetAvailableDevices V junk L) = L"
  using assms by (simp add: Device_Open_creates PD_Create_creates CQ_Create_creates MR_Register_creates GetAvailableDevices_ledger)

text \<open>The first handle of a list that is not in use, the error \<open>ENOMEM\<close> when all are.\<close>

primrec pick :: "(ptr \<Rightarrow> res) \<Rightarrow> ptr list \<Rightarrow> ledger \<Rightarrow> int + ptr" where
  "pick R [] L = Inl 12"
| "pick R (h # hs) L = (if R h \<in> lg_live L then pick R hs L else Inr h)"

definition sample_verbs :: dev_verbs where
  "sample_verbs =
     \<lparr>v_get_device_list = (\<lambda>L. if R_DevList 1 \<in> lg_live L then None else Some (1, [10, 20])), v_get_device_name = (\<lambda>d. if d = 10 then ''mlx5_0'' else ''mlx5_1''),
      v_get_device_guid = (\<lambda>d. d), v_open_device = (\<lambda>L _. pick R_Ctx [11] L), v_query_device = (\<lambda>c. Inl 5),
      v_read_int_file = (\<lambda>_. Some 0), v_alloc_pd = (\<lambda>L _. pick R_PD [3] L), v_create_comp_channel = (\<lambda>L _. pick R_Chan [4] L),
      v_create_cq = (\<lambda>_ _ _ _ _. Inl 12),
      v_reg_mr = (\<lambda>L _ _ _ _. map_sum id (\<lambda>h. \<lparr>mr_handle = h, mr_lkey = 7, mr_rkey = 8\<rparr>) (pick R_MR [6] L))\<rparr>"

lemma sample_verbs_fresh: "verbs_fresh sample_verbs" "verbs_fresh (sample_verbs\<lparr>v_query_device := q, v_create_cq := (\<lambda>L _ _ _ _. pick R_CQ [12, 13] L)\<rparr>)"
  by (auto simp: verbs_fresh_def sample_verbs_def fresh_handle_def)

theorem factories_never_leak_witness:
  "snd (Device_Open sample_verbs (Some ''mlx5_1'') ledger_empty) = ledger_empty \<and>
   creates CQ_owns ledger_empty
     (CQ_Create sample_verbs
       (Some \<lparr>dev_context = 11, dev_attr = None, dev_name = ''mlx5_0'', dev_numa_node = 0\<rparr>)
       \<lparr>cqc_cq_depth = 16, cqc_comp_vector = 0, cqc_use_channel = True\<rparr> ledger_empty)"
proof -
  from factories_never_leak [OF sample_verbs_fresh(1), of ledger_empty "Some ''mlx5_1''" 0
      "Some \<lparr>dev_context = 11, dev_attr = None, dev_name = ''mlx5_0'', dev_numa_node = 0\<rparr>"
      "\<lparr>cqc_cq_depth = 16, cqc_comp_vector = 0, cqc_use_channel = True\<rparr>"]
  show ?thesis by (simp add: Device_Open_def sample_verbs_def ledger_empty_def)
qed

section \<open>Which device is opened\<close>

lemma first_device_Some:
  "first_device P ds = Some d \<longleftrightarrow> (\<exists>xs ys. ds = xs @ d # ys \<and> P d \<and> (\<forall>x\<in>set xs. \<not> P x))"
proof (induction ds)
  case (Cons x ds)
  show ?case
  proof (cases "P x")
    case True
    then show ?thesis by (auto simp: Cons_eq_append_conv)
  next
    case False
    then have "first_device P (x # ds) = Some d \<longleftrightarrow> (\<exists>xs ys. ds = xs @ d # ys \<and> P d \<and> (\<forall>x\<in>set xs. \<not> P x))"
      using Cons.IH by simp
    also have "\<dots> \<longleftrightarrow> (\<exists>xs ys. x # ds = xs @ d # ys \<and> P d \<and> (\<forall>x\<in>set xs. \<not> P x))"
      using False by (auto simp: Cons_eq_append_conv) (metis append_Cons set_ConsD)
    finally show ?thesis .
  qed
qed simp

lemma first_device_None: "first_device P ds = None \<longleftrightarrow> (\<forall>d\<in>set ds. \<not> P d)"
  by (induction ds) auto

text \<open>
  A device opened by name carries that name and comes from the first device of the library's
  list that has it; \<open>NotFound\<close> is returned when the list is missing, empty or has no such device.
\<close>

theorem Device_Open_by_name:
  assumes "fst (Device_Open V (Some n) L) = r"
  shows "case r of
           Inr d \<Rightarrow> dev_name d = n \<and> dev_numa_node d = GetDeviceNumaNode V n \<and>
             (\<exists>dl xs t ys. v_get_device_list V L = Some (dl, xs @ t # ys) \<and> v_get_device_name V t = n \<and>
                v_open_device V (acquire (R_DevList dl) L) t = Inr (dev_context d) \<and> (\<forall>x\<in>set xs. v_get_device_name V x \<noteq> n))
         | Inl s \<Rightarrow> status_code s = NOT_FOUND \<longleftrightarrow>
             (case v_get_device_list V L of None \<Rightarrow> True | Some (dl, devs) \<Rightarrow> \<forall>x\<in>set devs. v_get_device_name V x \<noteq> n)"
proof (cases "v_get_device_list V L")
  case None
  with assms show ?thesis by (auto simp: Device_Open_def Status_NotFound_def Status_new_def)
next
  case (Some p)
  obtain dl devs where p: "p = (dl, devs)" by (cases p)
  note open_defs = assms [symmetric] Device_Open_def Some p Let_def
  show ?thesis
  proof (cases "first_device (\<lambda>d. v_get_device_name V d = n) devs")
    case None
    then have "\<exists>msg. r = Inl (Status_NotFound msg)" by (auto simp: open_defs)
    with None Some p show ?thesis
      by (auto simp: Status_NotFound_def Status_new_def first_device_None)
  next
    case t: (Some t)
    then obtain xs ys where devs: "devs = xs @ t # ys" "v_get_device_name V t = n"
      "\<forall>x\<in>set xs. v_get_device_name V x \<noteq> n" by (auto simp: first_device_Some)
    have ne: "devs \<noteq> []" using devs by simp
    show ?thesis
    proof (cases "\<exists>c attr. v_open_device V (acquire (R_DevList dl) L) t = Inr c \<and> v_query_device V c = Inr attr")
      case True
      then obtain c attr where c: "v_open_device V (acquire (R_DevList dl) L) t = Inr c" "v_query_device V c = Inr attr" by blast
      with t ne devs(2) have "r = Inr \<lparr>dev_context = c, dev_attr = Some attr, dev_name = n,
          dev_numa_node = GetDeviceNumaNode V n\<rparr>" by (simp add: open_defs)
      with Some p devs c show ?thesis by auto
    next
      case False
      with t ne have "\<exists>msg e. r = Inl (Status_IOError msg e)"
        by (cases "v_open_device V (acquire (R_DevList dl) L) t";
            cases "v_query_device V (projr (v_open_device V (acquire (R_DevList dl) L) t))")
          (auto simp: open_defs)
      with Some p devs show ?thesis by (auto simp: Status_IOError_def Status_new_def)
    qed
  qed
qed

theorem Device_Open_by_name_witness:
  "status_code (projl (fst (Device_Open sample_verbs (Some ''mlx4'') ledger_empty))) = NOT_FOUND"
  using Device_Open_by_name [of sample_verbs "''mlx4''" ledger_empty, OF refl]
  by (simp add: Device_Open_def sample_verbs_def Status_NotFound_def Status_new_def Let_def)

section \<open>Views of a memory region\<close>

text \<open>
  The view \<open>GetBuffer\<close> returns is inside the region whenever \<open>offset + length\<close> does not wrap;
  when it does wrap and the wrapped sum is small, a view that is not inside is returned.
\<close>

theorem MR_GetBuffer_inside_iff:
  assumes "fits_address_space (mr_addr m) (mr_size m)" and "unat off < unat (mr_size m)" and "len \<noteq> 0"
    and "MR_GetBuffer off len m \<noteq> Buffer_null"
  shows "buf_bytes (MR_GetBuffer off len m) \<subseteq> byte_range (mr_addr m) (mr_size m) \<longleftrightarrow>
           unat off + unat len < 2 ^ 64"
proof -
  have le: "off + len \<le> mr_size m"
    and eq: "MR_GetBuffer off len m = Buffer_new (mr_addr m + off) len (MR_GetLkey m)"
    using assms(4) by (auto simp: MR_GetBuffer_def split: if_splits)
  have a: "unat (mr_addr m + off) = unat (mr_addr m) + unat off"
    using assms(1,2) by (intro unat_add_no_wrap) (simp add: fits_address_space_def)
  have l: "0 < unat len" using assms(3) by (simp add: unat_gt_0)
  have sub: "buf_bytes (MR_GetBuffer off len m) \<subseteq> byte_range (mr_addr m) (mr_size m) \<longleftrightarrow>
      unat off + unat len \<le> unat (mr_size m)"
    using l by (simp add: eq Buffer_new_def byte_range_def a atLeastLessThan_subset_iff)
  show ?thesis
  proof (cases "unat off + unat len < 2 ^ 64")
    case True
    with le sub unat_add_no_wrap [OF True] show ?thesis by (simp add: word_le_nat_alt)
  next
    case False
    with sub unat_u64_lt [of "mr_size m"] show ?thesis by simp
  qed
qed

theorem MR_GetBuffer_inside_iff_witness:
  "\<not> buf_bytes (MR_GetBuffer 8 (- 4) \<lparr>mr_raw = None, mr_addr = 4096, mr_size = 64\<rparr>) \<subseteq> byte_range 4096 64 \<and>
   buf_bytes (MR_GetBuffer 8 16 \<lparr>mr_raw = None, mr_addr = 4096, mr_size = 64\<rparr>) \<subseteq> byte_range 4096 64"
  using MR_GetBuffer_inside_iff [of "\<lparr>mr_raw = None, mr_addr = 4096, mr_size = 64\<rparr>" 8 "- 4"]
    MR_GetBuffer_inside_iff [of "\<lparr>mr_raw = None, mr_addr = 4096, mr_size = 64\<rparr>" 8 16]
  by (simp add: fits_address_space_def MR_GetBuffer_def Buffer_null_def Buffer_new_def)

text \<open>The flags the default configuration registers memory with, and what each flag stands for.\<close>

lemma GetAccessFlags_bits:
  "bit (GetAccessFlags ro c) 0 \<longleftrightarrow> mrc_enable_local_write c"
  "bit (GetAccessFlags ro c) 1 \<longleftrightarrow> mrc_enable_remote_write c"
  "bit (GetAccessFlags ro c) 2 \<longleftrightarrow> mrc_enable_remote_read c"
  "bit (GetAccessFlags ro c) 20 \<longleftrightarrow> ro \<and> mrc_enable_relaxed_ordering c"
  by (simp_all add: GetAccessFlags_def Let_def bit_simps)

end
