(* ===== verification/Buffer_Pool.thy ===== *)
theory Buffer_Pool
  imports Core_Objects
begin

text \<open>
  \<open>include/rdma/memory/buffer_pool.h\<close>, \<open>src/memory/buffer_pool.cpp\<close> and the allocators of
  \<open>src/memory/hugepage_allocator.cpp\<close>. The offset ring is the list of its \<open>buffer_count\<close>
  entries; an access beyond it is \<open>Inl Out_Of_Bounds\<close>. All sizes, offsets and ring positions are
  64-bit words.
\<close>

section \<open>Allocators\<close>

text \<open>
  \<open>mmap size hugetlb\<close> is the kernel's answer (\<open>None\<close> for \<open>MAP_FAILED\<close>), \<open>aligned_alloc\<close> the C
  library's (\<open>0\<close> for null). The NUMA binding, in builds that have it, does not change the returned
  pointer; \<open>HugepageAllocator_bind\<close> is the mask it passes to \<open>mbind\<close>, if it calls it.
\<close>

record HugepageAllocator =
  ha_numa_node :: int
  ha_use_1gb_pages :: bool

definition HugepageAllocator_new :: "int \<Rightarrow> HugepageAllocator" where
  "HugepageAllocator_new numa_node = \<lparr>ha_numa_node = numa_node, ha_use_1gb_pages = False\<rparr>"

definition HugepageAllocator_bind :: "int \<Rightarrow> HugepageAllocator \<Rightarrow> u64 option chk" where
  "HugepageAllocator_bind numa_available h =
     (if ha_numa_node h \<ge> 0 \<and> numa_available \<ge> 0
      then if ha_numa_node h < 64 then Inr (Some (push_bit (nat (ha_numa_node h)) 1)) else Inl Bad_Shift
      else Inr None)"

text \<open>The pool makes its allocator without a node or with the one of its configuration.\<close>

lemma HugepageAllocator_bind_cases:
  "HugepageAllocator_bind available (HugepageAllocator_new (-1)) = Inr None"
  "0 \<le> available \<Longrightarrow> 0 \<le> node \<Longrightarrow> node < 64 \<Longrightarrow>
     \<exists>m. HugepageAllocator_bind available (HugepageAllocator_new node) = Inr (Some m) \<and> (\<forall>i. bit m i \<longleftrightarrow> i = nat node)"
  "0 \<le> available \<Longrightarrow> 64 \<le> node \<Longrightarrow> HugepageAllocator_bind available (HugepageAllocator_new node) = Inl Bad_Shift"
  by (auto simp: HugepageAllocator_bind_def HugepageAllocator_new_def bit_simps)

record mem_env =
  me_mmap :: "ledger \<Rightarrow> size_t \<Rightarrow> bool \<Rightarrow> ptr option"
  me_aligned_alloc :: "ledger \<Rightarrow> size_t \<Rightarrow> size_t \<Rightarrow> ptr"

definition DefaultAllocator_Allocate :: "mem_env \<Rightarrow> ledger \<Rightarrow> size_t \<Rightarrow> size_t \<Rightarrow> ptr" where
  "DefaultAllocator_Allocate E L sz alignment = me_aligned_alloc E L alignment sz"

definition HugepageAllocator_Allocate :: "mem_env \<Rightarrow> ledger \<Rightarrow> size_t \<Rightarrow> size_t \<Rightarrow> ptr" where
  "HugepageAllocator_Allocate E L sz alignment =
     (case me_mmap E L sz True of
        Some p \<Rightarrow> p
      | None \<Rightarrow> (case me_mmap E L sz False of None \<Rightarrow> nullptr | Some p \<Rightarrow> p))"

definition HugepageAllocator_Free :: "ptr \<Rightarrow> ledger \<Rightarrow> ledger" where
  "HugepageAllocator_Free p L = (if p \<noteq> nullptr then give_back (R_Mem p) L else L)"

text \<open>\<open>free\<close> of a null pointer does nothing.\<close>

definition DefaultAllocator_Free :: "ptr \<Rightarrow> ledger \<Rightarrow> ledger" where
  "DefaultAllocator_Free p L = (if p \<noteq> nullptr then give_back (R_Mem p) L else L)"

section \<open>The pool\<close>

record BufferPoolConfig =
  bpc_buffer_size :: size_t
  bpc_buffer_count :: size_t
  bpc_max_buffer_count :: size_t
  bpc_numa_node :: int
  bpc_use_hugepage :: bool
  bpc_policy :: BufferAllocationPolicy

definition BufferPoolConfig_default :: BufferPoolConfig where
  "BufferPoolConfig_default =
     \<lparr>bpc_buffer_size = 4096, bpc_buffer_count = 1024, bpc_max_buffer_count = 65536,
      bpc_numa_node = -1, bpc_use_hugepage = True, bpc_policy = FIFO\<rparr>"

record LocalBufferPool =
  bp_mr :: MemoryRegion
  bp_hugepage :: bool
  bp_base_addr :: ptr
  bp_total_size :: size_t
  bp_ring_ptr :: ptr
  bp_offset_ring :: "size_t list"
  bp_head :: size_t
  bp_tail :: size_t
  bp_count :: size_t
  bp_buffer_size :: size_t
  bp_buffer_count :: size_t
  bp_policy :: BufferAllocationPolicy
  bp_lkey :: u32
  bp_rkey :: u32

definition pool_allocator_free :: "bool \<Rightarrow> ptr \<Rightarrow> ledger \<Rightarrow> ledger" where
  "pool_allocator_free hugepage p L =
     (if hugepage then HugepageAllocator_Free p L else DefaultAllocator_Free p L)"

text \<open>The destructor's body, then the destructor of the member \<open>mr_\<close>.\<close>

definition Pool_dtor :: "LocalBufferPool \<Rightarrow> ledger \<Rightarrow> ledger" where
  "Pool_dtor p L =
     (let L1 = (if bp_ring_ptr p \<noteq> nullptr then give_back (R_Mem (bp_ring_ptr p)) L else L);
          L2 = (if bp_base_addr p \<noteq> nullptr then pool_allocator_free (bp_hugepage p) (bp_base_addr p) L1 else L1)
      in MR_dtor (bp_mr p) L2)"

text \<open>
  The ring is filled as it is in the code, one entry per buffer: for \<open>2^61\<close> buffers and more the product
  that sizes its memory wraps and the entries lie outside it, so the lemmas on a created pool assume fewer.
\<close>

definition Pool_Create ::
  "'x dev_verbs_scheme \<Rightarrow> bool \<Rightarrow> mem_env \<Rightarrow> ProtectionDomain option \<Rightarrow> BufferPoolConfig \<Rightarrow> ledger
     \<Rightarrow> LocalBufferPool Result \<times> ledger" where
  "Pool_Create V ro_macro E pd config L =
     (if pd = None then (Inl (Status_InvalidArgument ''Invalid protection domain''), L)
      else if bpc_buffer_count config > bpc_max_buffer_count config
      then (Inl (Status_InvalidArgument ''buffer_count exceeds max''), L)
      else if bpc_buffer_size config = 0 \<or> bpc_buffer_count config = 0
      then (Inl (Status_InvalidArgument ''Invalid buffer configuration''), L)
      else
        let total_size = bpc_buffer_size config * bpc_buffer_count config;
            memory = (if bpc_use_hugepage config then HugepageAllocator_Allocate E L total_size kPageSize
                      else DefaultAllocator_Allocate E L total_size kPageSize)
        in if memory = nullptr
           then (Inl (Status_ResourceExhausted ''Failed to allocate buffer pool memory''), L)
           else case MR_Register V ro_macro pd memory total_size MemoryRegionConfig_default (acquire (R_Mem memory) L) of
             (Inl s, L1) \<Rightarrow> (Inl s, pool_allocator_free (bpc_use_hugepage config) memory L1)
           | (Inr mr, L1) \<Rightarrow>
               let ring = me_aligned_alloc E L1 64 (bpc_buffer_count config * 8);
                   pool = \<lparr>bp_mr = mr, bp_hugepage = bpc_use_hugepage config, bp_base_addr = memory,
                           bp_total_size = total_size, bp_ring_ptr = ring, bp_offset_ring = [], bp_head = 0,
                           bp_tail = 0, bp_count = 0, bp_buffer_size = bpc_buffer_size config,
                           bp_buffer_count = bpc_buffer_count config, bp_policy = bpc_policy config,
                           bp_lkey = MR_GetLkey mr, bp_rkey = MR_GetRkey mr\<rparr>
               in if ring = nullptr
                  then (Inl (Status_ResourceExhausted ''Failed to allocate offset ring''), Pool_dtor pool L1)
                  else (Inr (pool\<lparr>bp_offset_ring :=
                                map (\<lambda>i. of_nat i * bpc_buffer_size config) [0..<unat (bpc_buffer_count config)],
                              bp_head := 0, bp_tail := bpc_buffer_count config,
                              bp_count := bpc_buffer_count config\<rparr>),
                        acquire (R_Mem ring) L1))"

definition Pool_GetBufferPtr :: "size_t \<Rightarrow> LocalBufferPool \<Rightarrow> ptr" where
  "Pool_GetBufferPtr offset p = bp_base_addr p + offset"

definition ring_read :: "size_t \<Rightarrow> LocalBufferPool \<Rightarrow> size_t chk" where
  "ring_read i p =
     (if unat i < length (bp_offset_ring p) then Inr (bp_offset_ring p ! unat i) else Inl Out_Of_Bounds)"

definition ring_write :: "size_t \<Rightarrow> size_t \<Rightarrow> LocalBufferPool \<Rightarrow> LocalBufferPool chk" where
  "ring_write i v p =
     (if unat i < length (bp_offset_ring p)
      then Inr (p\<lparr>bp_offset_ring := (bp_offset_ring p)[unat i := v]\<rparr>)
      else Inl Out_Of_Bounds)"

definition Pool_Allocate :: "LocalBufferPool \<Rightarrow> (Buffer \<times> LocalBufferPool) chk" where
  "Pool_Allocate p =
     (if bp_count p = 0 then Inr (Buffer_null, p)
      else bind_chk
        (if bp_policy p = FIFO
         then bind_chk (ring_read (bp_head p) p) (\<lambda>offset.
                Inr (offset, p\<lparr>bp_head := (bp_head p + 1) mod bp_buffer_count p\<rparr>))
         else let tail = (bp_tail p - 1 + bp_buffer_count p) mod bp_buffer_count p
              in bind_chk (ring_read tail p) (\<lambda>offset. Inr (offset, p\<lparr>bp_tail := tail\<rparr>)))
        (\<lambda>(offset, p1).
           let p2 = p1\<lparr>bp_count := bp_count p1 - 1\<rparr>
           in Inr (Buffer_new (Pool_GetBufferPtr offset p2) (bp_buffer_size p2) (bp_lkey p2), p2)))"

definition Pool_Free :: "Buffer \<Rightarrow> LocalBufferPool \<Rightarrow> LocalBufferPool chk" where
  "Pool_Free buf p =
     bind_chk (ring_write (bp_tail p) (buf_addr buf - bp_base_addr p) p) (\<lambda>p1.
       Inr (p1\<lparr>bp_tail := (bp_tail p1 + 1) mod bp_buffer_count p1, bp_count := bp_count p1 + 1\<rparr>))"

definition Pool_AvailableCount :: "LocalBufferPool \<Rightarrow> size_t" where
  "Pool_AvailableCount p = bp_count p"

definition Pool_GetRemoteInfo :: "Buffer \<Rightarrow> LocalBufferPool \<Rightarrow> RemoteMemoryInfo" where
  "Pool_GetRemoteInfo buf p = Buffer_ToRemoteInfo (bp_rkey p) buf"

section \<open>A pool that is not FIFO is an index pool\<close>

text \<open>The buffer at a ring entry, and all buffers of the pool.\<close>

definition pool_buffer :: "LocalBufferPool \<Rightarrow> nat \<Rightarrow> Buffer" where
  "pool_buffer p i = Buffer_new (bp_base_addr p + of_nat i * bp_buffer_size p) (bp_buffer_size p) (bp_lkey p)"

definition pool_univ :: "LocalBufferPool \<Rightarrow> Buffer set" where
  "pool_univ p = pool_buffer p ` {..<unat (bp_buffer_count p)}"

definition offset_buffer :: "LocalBufferPool \<Rightarrow> size_t \<Rightarrow> Buffer" where
  "offset_buffer p off = Buffer_new (bp_base_addr p + off) (bp_buffer_size p) (bp_lkey p)"

definition pool_avail :: "LocalBufferPool \<Rightarrow> Buffer set" where
  "pool_avail p = offset_buffer p ` set (take (unat (bp_count p)) (bp_offset_ring p))"

text \<open>
  The block lies inside the address space, the ring has \<open>buffer_count\<close> entries (each of eight
  bytes, so there are fewer than \<open>2^61\<close>), its first \<open>count\<close> entries are distinct offsets of
  buffers, and \<open>tail\<close> is \<open>count\<close> modulo \<open>buffer_count\<close>.
\<close>

definition lifo_invar :: "LocalBufferPool \<Rightarrow> bool" where
  "lifo_invar p \<longleftrightarrow>
     bp_policy p \<noteq> FIFO \<and> bp_base_addr p \<noteq> nullptr \<and> bp_buffer_size p \<noteq> 0 \<and> bp_buffer_count p \<noteq> 0 \<and>
     unat (bp_buffer_count p) < 2 ^ 61 \<and>
     unat (bp_base_addr p) + unat (bp_buffer_count p) * unat (bp_buffer_size p) \<le> 2 ^ 64 \<and>
     length (bp_offset_ring p) = unat (bp_buffer_count p) \<and>
     unat (bp_count p) \<le> unat (bp_buffer_count p) \<and>
     unat (bp_tail p) \<le> unat (bp_buffer_count p) \<and>
     unat (bp_tail p) mod unat (bp_buffer_count p) = unat (bp_count p) mod unat (bp_buffer_count p) \<and>
     (bp_tail p = bp_buffer_count p \<longrightarrow> bp_count p = bp_buffer_count p) \<and>
     distinct (take (unat (bp_count p)) (bp_offset_ring p)) \<and>
     set (take (unat (bp_count p)) (bp_offset_ring p)) \<subseteq>
       (\<lambda>i. of_nat i * bp_buffer_size p) ` {..<unat (bp_buffer_count p)}"

definition pool_alloc :: "LocalBufferPool \<Rightarrow> (Buffer \<times> LocalBufferPool) option chk" where
  "pool_alloc p =
     bind_chk (Pool_Allocate p) (\<lambda>(b, p'). Inr (if Buffer_IsValid b then Some (b, p') else None))"

text \<open>Ring positions: the tail before a removal is one below the count, before an insertion equal to it.\<close>

lemma lifo_tail:
  assumes "lifo_invar p"
  shows "bp_count p \<noteq> 0 \<Longrightarrow>
           unat ((bp_tail p - 1 + bp_buffer_count p) mod bp_buffer_count p) = unat (bp_count p) - 1"
    and "unat (bp_count p) < unat (bp_buffer_count p) \<Longrightarrow> unat (bp_tail p) = unat (bp_count p)"
proof -
  let ?t = "unat (bp_tail p)" and ?c = "unat (bp_count p)" and ?n = "unat (bp_buffer_count p)"
  have inv: "?c \<le> ?n" "?t \<le> ?n" "?t mod ?n = ?c mod ?n" "?n < 2 ^ 61" "0 < ?n"
    using assms by (simp_all add: lifo_invar_def unat_gt_0)
  have full: "?c = ?n" if "?t = ?n"
  proof -
    from that have "bp_tail p = bp_buffer_count p" by (simp only: word_unat_eq_iff)
    with assms show ?thesis by (simp add: lifo_invar_def)
  qed
  have t_c: "?t = ?c" if "0 < ?t \<or> ?c < ?n"
  proof (cases "?t = ?n")
    case False
    with inv(2) have "?t < ?n" by simp
    with inv(1,3,5) that show ?thesis by (cases "?c = ?n") auto
  qed (use full in simp)
  then show "?c < ?n \<Longrightarrow> ?t = ?c" by simp
  assume "bp_count p \<noteq> 0"
  then have c: "0 < ?c" by (simp add: unat_gt_0)
  have "unat (bp_tail p - 1 + bp_buffer_count p) mod ?n = ?c - 1"
  proof (cases "?t = 0")
    case True
    then have "bp_tail p = 0" by (simp add: unat_eq_0)
    moreover have "?c = ?n" using True inv(1,3) c by (cases "?c = ?n") auto
    moreover have "unat (bp_buffer_count p - 1) = ?n - 1"
      using inv(5) by (simp add: unat_minus_one unat_gt_0)
    ultimately show ?thesis using inv(5) by simp
  next
    case False
    then have "bp_tail p \<noteq> 0" by auto
    then have "unat (bp_tail p - 1) = ?t - 1" by (rule unat_minus_one)
    then have "unat (bp_tail p - 1 + bp_buffer_count p) = ?t - 1 + ?n"
      using inv(2,4) by (subst unat_add_no_wrap) simp_all
    moreover have "?t = ?c" using False t_c by simp
    moreover have "(?c - 1 + ?n) mod ?n = (?c - 1) mod ?n" by (rule mod_add_self2)
    moreover have "(?c - 1) mod ?n = ?c - 1" using c inv(1) by (intro mod_less) linarith
    ultimately show ?thesis by argo
  qed
  then show "unat ((bp_tail p - 1 + bp_buffer_count p) mod bp_buffer_count p) = ?c - 1"
    by (simp add: unat_mod_distrib)
qed

lemma offset_buffer_inject [simp]: "offset_buffer p a = offset_buffer p b \<longleftrightarrow> a = b"
  by (simp add: offset_buffer_def Buffer_new_def)

lemma pool_buffer_offset: "pool_buffer p i = offset_buffer p (of_nat i * bp_buffer_size p)"
  by (simp add: pool_buffer_def offset_buffer_def)

text \<open>The offsets of the buffers are distinct, and no buffer starts at the null address.\<close>

lemma lifo_offsets:
  assumes "lifo_invar p" and "i < unat (bp_buffer_count p)"
  shows "unat (of_nat i * bp_buffer_size p) = i * unat (bp_buffer_size p)"
    and "Buffer_IsValid (pool_buffer p i)"
proof -
  let ?n = "unat (bp_buffer_count p)" and ?s = "unat (bp_buffer_size p)"
  from assms(1) have inv: "unat (bp_base_addr p) + ?n * ?s \<le> 2 ^ 64" "bp_base_addr p \<noteq> 0" "bp_buffer_size p \<noteq> 0"
    "?n < 2 ^ 61" by (simp_all add: lifo_invar_def)
  then have s: "0 < ?s" "0 < unat (bp_base_addr p)" by (simp_all add: unat_gt_0)
  have lt: "i * ?s < ?n * ?s" using assms(2) s by simp
  then have off: "i * ?s < 2 ^ 64" "unat (bp_base_addr p) + i * ?s < 2 ^ 64" using inv(1) by linarith+
  have "unat (of_nat i :: u64) = i" using assms(2) inv(4) by (intro unat_of_nat_less) simp
  then show eq: "unat (of_nat i * bp_buffer_size p) = i * ?s"
    using off(1) by (simp add: unat_word_ariths)
  have "unat (bp_base_addr p + of_nat i * bp_buffer_size p) = unat (bp_base_addr p) + i * ?s"
    using off(2) eq by (subst unat_add_no_wrap) simp_all
  with s have "unat (bp_base_addr p + of_nat i * bp_buffer_size p) \<noteq> 0" by simp
  then have "bp_base_addr p + of_nat i * bp_buffer_size p \<noteq> 0" by (metis unat_0)
  with inv(3) show "Buffer_IsValid (pool_buffer p i)"
    by (simp add: Buffer_IsValid_def pool_buffer_def Buffer_new_def word_neq_0_conv)
qed

lemma lifo_avail_univ: "lifo_invar p \<Longrightarrow> pool_avail p \<subseteq> pool_univ p"
  by (fastforce simp: lifo_invar_def pool_avail_def pool_univ_def pool_buffer_offset)

lemma lifo_avail_card: "lifo_invar p \<Longrightarrow> card (pool_avail p) = unat (bp_count p)"
  unfolding pool_avail_def
  by (subst card_image) (auto simp: inj_on_def lifo_invar_def distinct_card)

lemma pool_univ_card: "card (pool_univ p) \<le> unat (bp_buffer_count p)"
  unfolding pool_univ_def by (metis card_image_le card_lessThan finite_lessThan)

text \<open>A removal and an insertion, computed.\<close>

lemma lifo_Allocate:
  assumes "lifo_invar p" and "bp_count p \<noteq> 0"
  shows "\<exists>p'. Pool_Allocate p = Inr (offset_buffer p (bp_offset_ring p ! (unat (bp_count p) - 1)), p') \<and>
           lifo_invar p' \<and> pool_univ p' = pool_univ p \<and>
           pool_avail p' = pool_avail p - {offset_buffer p (bp_offset_ring p ! (unat (bp_count p) - 1))}"
proof -
  let ?c = "unat (bp_count p)" and ?n = "unat (bp_buffer_count p)" and ?r = "bp_offset_ring p"
  define tail where "tail = (bp_tail p - 1 + bp_buffer_count p) mod bp_buffer_count p"
  from assms have inv: "bp_policy p \<noteq> FIFO" "?c \<le> ?n" "length ?r = ?n" "distinct (take ?c ?r)"
    by (simp_all add: lifo_invar_def)
  have c: "0 < ?c" using assms(2) by (simp add: unat_gt_0)
  have t: "unat tail = ?c - 1" unfolding tail_def by (rule lifo_tail(1) [OF assms])
  define p' where "p' = p\<lparr>bp_tail := tail, bp_count := bp_count p - 1\<rparr>"
  have cnt: "unat (bp_count p - 1) = ?c - 1" using assms(2) by (rule unat_minus_one)
  have take: "take ?c ?r = take (?c - 1) ?r @ [?r ! (?c - 1)]"
    using c inv(2,3) take_Suc_conv_app_nth [of "?c - 1" ?r] by simp
  have "Pool_Allocate p = Inr (offset_buffer p (?r ! (?c - 1)), p')"
    using assms(2) inv c t
    by (simp add: Pool_Allocate_def ring_read_def Let_def tail_def [symmetric] offset_buffer_def
        Pool_GetBufferPtr_def p'_def)
  moreover have "lifo_invar p'"
    using assms(1) c t cnt inv(2) unfolding lifo_invar_def
    by (auto simp: p'_def take word_unat_eq_iff)
  moreover have "pool_univ p' = pool_univ p" by (simp add: pool_univ_def p'_def pool_buffer_def)
  moreover have "pool_avail p' = pool_avail p - {offset_buffer p (?r ! (?c - 1))}"
    using inv(4) by (auto simp: pool_avail_def p'_def cnt take offset_buffer_def Buffer_new_def)
  ultimately show ?thesis by blast
qed

lemma lifo_Free:
  assumes "lifo_invar p" and "b \<in> pool_univ p" and "b \<notin> pool_avail p"
  shows "\<exists>p'. Pool_Free b p = Inr p' \<and> lifo_invar p' \<and> pool_univ p' = pool_univ p \<and>
           pool_avail p' = insert b (pool_avail p)"
proof -
  let ?c = "unat (bp_count p)" and ?n = "unat (bp_buffer_count p)" and ?r = "bp_offset_ring p"
  from assms have inv: "length ?r = ?n" "distinct (take ?c ?r)" "?n < 2 ^ 61" by (simp_all add: lifo_invar_def)
  from assms(2) obtain i where i: "i < ?n" "b = offset_buffer p (of_nat i * bp_buffer_size p)"
    by (auto simp: pool_univ_def pool_buffer_offset)
  define off where "off = of_nat i * bp_buffer_size p"
  have b: "b = offset_buffer p off" "buf_addr b - bp_base_addr p = off"
    using i by (simp_all add: off_def offset_buffer_def Buffer_new_def)
  have "card (pool_avail p) < card (pool_univ p)"
    using assms lifo_avail_univ [OF assms(1)] by (intro psubset_card_mono) (auto simp: pool_univ_def)
  then have c: "?c < ?n" using lifo_avail_card [OF assms(1)] pool_univ_card [of p] by linarith
  have t: "unat (bp_tail p) = ?c" by (rule lifo_tail(2) [OF assms(1) c])
  define p' where "p' = p\<lparr>bp_offset_ring := ?r[?c := off], bp_tail := (bp_tail p + 1) mod bp_buffer_count p,
    bp_count := bp_count p + 1\<rparr>"
  have cnt: "unat (bp_count p + 1) = ?c + 1" "unat (bp_tail p + 1) = ?c + 1"
    using c inv(3) t by (simp_all add: unat_add_no_wrap)
  have tl: "unat ((bp_tail p + 1) mod bp_buffer_count p) = (?c + 1) mod ?n"
    by (simp only: unat_mod_distrib cnt)
  have take: "take (Suc ?c) (?r[?c := off]) = take ?c ?r @ [off]"
    using c inv(1) by (simp add: take_Suc_conv_app_nth)
  have off_in: "off \<in> (\<lambda>i. of_nat i * bp_buffer_size p) ` {..<?n}" using i(1) by (auto simp: off_def)
  have off_new: "off \<notin> set (take ?c ?r)" using assms(3) b by (auto simp: pool_avail_def)
  have "Pool_Free b p = Inr p'"
    using c t inv(1) b by (simp add: Pool_Free_def ring_write_def p'_def)
  moreover have "lifo_invar p'"
  proof -
    have lt: "(?c + 1) mod ?n < ?n" using c by (intro mod_less_divisor) simp
    then have "(bp_tail p + 1) mod bp_buffer_count p \<noteq> bp_buffer_count p" using tl by auto
    with assms(1) lt c inv tl off_new off_in show ?thesis unfolding lifo_invar_def
      by (simp add: p'_def take cnt)
  qed
  moreover have "pool_univ p' = pool_univ p" by (simp add: pool_univ_def p'_def pool_buffer_def)
  moreover have "pool_avail p' = insert b (pool_avail p)"
    by (auto simp: pool_avail_def p'_def cnt(1) take b(1) offset_buffer_def)
  ultimately show ?thesis by blast
qed

interpretation lifo_pool: index_pool pool_alloc Pool_Free pool_avail pool_univ lifo_invar
proof
  fix p :: LocalBufferPool and b :: Buffer and p' :: LocalBufferPool
  assume inv: "lifo_invar p"
  have empty: "bp_count p = 0 \<longleftrightarrow> pool_avail p = {}"
    using lifo_avail_card [OF inv] by (auto simp: pool_avail_def unat_eq_0)
  have alloc: "\<exists>b p1. pool_alloc p = Inr (Some (b, p1)) \<and> b \<in> pool_avail p \<and> pool_avail p1 = pool_avail p - {b} \<and>
      pool_univ p1 = pool_univ p \<and> lifo_invar p1" if nz: "bp_count p \<noteq> 0"
  proof -
    let ?b = "offset_buffer p (bp_offset_ring p ! (unat (bp_count p) - 1))"
    from lifo_Allocate [OF inv nz] obtain p1 where p1: "Pool_Allocate p = Inr (?b, p1)" "lifo_invar p1"
      "pool_univ p1 = pool_univ p" "pool_avail p1 = pool_avail p - {?b}" by blast
    have "unat (bp_count p) - 1 < length (take (unat (bp_count p)) (bp_offset_ring p))"
      using nz inv by (simp add: lifo_invar_def unat_gt_0)
    then have "?b \<in> pool_avail p" unfolding pool_avail_def
      by (metis image_eqI nth_mem nth_take length_take min_less_iff_conj)
    moreover from this have "Buffer_IsValid ?b"
      using lifo_avail_univ [OF inv] lifo_offsets(2) [OF inv] by (auto simp: pool_univ_def)
    ultimately show ?thesis using p1 by (auto simp: pool_alloc_def)
  qed
  have none: "pool_alloc p = Inr None" if "bp_count p = 0"
    using that by (simp add: pool_alloc_def Pool_Allocate_def Buffer_IsValid_def Buffer_null_def)
  show "\<exists>r. pool_alloc p = Inr r" using alloc none by blast
  show "pool_alloc p = Inr None \<longleftrightarrow> pool_avail p = {}"
  proof (cases "bp_count p = 0")
    case True
    with empty none show ?thesis by simp
  qed (use alloc empty in auto)
  show "pool_alloc p = Inr (Some (b, p')) \<Longrightarrow> b \<in> pool_avail p \<and> pool_avail p' = pool_avail p - {b} \<and>
      pool_univ p' = pool_univ p \<and> lifo_invar p'"
  proof (cases "bp_count p = 0")
    case True
    from none [OF this] show "pool_alloc p = Inr (Some (b, p')) \<Longrightarrow> ?thesis" by simp
  qed (use alloc in auto)
  show "b \<in> pool_univ p \<Longrightarrow> b \<notin> pool_avail p \<Longrightarrow> \<exists>p'. Pool_Free b p = Inr p' \<and>
      pool_avail p' = insert b (pool_avail p) \<and> pool_univ p' = pool_univ p \<and> lifo_invar p'"
    using lifo_Free [OF inv] by blast
qed

lemma lifo_one_left:
  assumes "lifo_invar p" and "1 < card (pool_avail p)" and "Pool_Allocate p = Inr (b, p')"
  shows "pool_avail p' \<noteq> {}"
proof
  assume none: "pool_avail p' = {}"
  have "bp_count p \<noteq> 0" using assms(2) lifo_avail_card [OF assms(1)] by auto
  from lifo_Allocate [OF assms(1) this] assms(3) none obtain x where "pool_avail p - {x} = {}" by auto
  then have "card (pool_avail p) \<le> card {x}" by (intro card_mono) auto
  with assms(2) show False by simp
qed

text \<open>A buffer that comes back is the next one to be handed out.\<close>

lemma lifo_refill:
  assumes "lifo_invar p" and "b \<in> pool_univ p" and "b \<notin> pool_avail p" and "Pool_Free b p = Inr p1"
  shows "\<exists>p2. Pool_Allocate p1 = Inr (b, p2) \<and> pool_avail p2 = pool_avail p \<and> Buffer_IsValid b"
proof -
  from lifo_Free [OF assms(1-3)] assms(4) have p1: "lifo_invar p1" "pool_univ p1 = pool_univ p" "pool_avail p1 = insert b (pool_avail p)"
    by auto
  from assms(2) obtain off where b: "b = offset_buffer p off" by (auto simp: pool_univ_def pool_buffer_offset)
  then have off: "buf_addr b - bp_base_addr p = off" by (simp add: offset_buffer_def Buffer_new_def)
  have same: "offset_buffer p1 = offset_buffer p" and cnt: "bp_count p1 = bp_count p + 1"
    and ring: "bp_offset_ring p1 = (bp_offset_ring p)[unat (bp_tail p) := off]" and lt: "unat (bp_tail p) < length (bp_offset_ring p)"
    using assms(4) off by (auto simp: Pool_Free_def ring_write_def offset_buffer_def fun_eq_iff split: if_splits)
  have "b \<in> pool_avail p1" using p1(3) by simp
  then have nz: "bp_count p1 \<noteq> 0" using lifo_avail_card [OF p1(1)] by (auto simp: pool_avail_def)
  then have pos: "unat (bp_count p1) = Suc (unat (bp_count p))" unfolding cnt using unatSuc [of "bp_count p"] by (simp add: add.commute)
  moreover have "unat (bp_count p1) \<le> unat (bp_buffer_count p1)" "bp_buffer_count p1 = bp_buffer_count p"
    using p1(1) assms(4) by (auto simp: lifo_invar_def Pool_Free_def ring_write_def split: if_splits)
  ultimately have "unat (bp_tail p) = unat (bp_count p)" using lifo_tail(2) [OF assms(1)] by simp
  then have "offset_buffer p1 (bp_offset_ring p1 ! (unat (bp_count p1) - 1)) = b" using ring lt pos same b by simp
  with lifo_Allocate [OF p1(1) nz] p1(3) assms(3) obtain p2 where "Pool_Allocate p1 = Inr (b, p2)" "pool_avail p2 = pool_avail p" by auto
  moreover have "Buffer_IsValid b" using assms(2) lifo_offsets(2) [OF assms(1)] by (auto simp: pool_univ_def)
  ultimately show ?thesis by blast
qed

section \<open>What \<open>Create\<close> returns\<close>

lemma Pool_Create_fields:
  assumes "Pool_Create V ro E pd config L = (Inr p, L')"
  shows "bp_policy p = bpc_policy config" "bp_buffer_size p = bpc_buffer_size config"
    "bp_buffer_count p = bpc_buffer_count config" "bp_count p = bpc_buffer_count config"
    "bp_tail p = bpc_buffer_count config" "bp_head p = 0" "bp_base_addr p \<noteq> 0"
    "bpc_buffer_size config \<noteq> 0" "bpc_buffer_count config \<noteq> 0"
    "bp_offset_ring p = map (\<lambda>i. of_nat i * bpc_buffer_size config) [0..<unat (bpc_buffer_count config)]"
  using assms by (auto simp: Pool_Create_def Let_def split: if_splits prod.splits sum.splits)

lemma lifo_invar_Create:
  assumes "Pool_Create V ro E pd config L = (Inr p, L')" and "bpc_policy config \<noteq> FIFO"
    and "unat (bpc_buffer_count config) < 2 ^ 61"
    and "unat (bp_base_addr p) + unat (bpc_buffer_count config) * unat (bpc_buffer_size config) \<le> 2 ^ 64"
  shows "lifo_invar p" and "pool_avail p = pool_univ p"
proof -
  note f = Pool_Create_fields [OF assms(1)]
  let ?n = "unat (bpc_buffer_count config)" and ?s = "unat (bpc_buffer_size config)"
  have pos: "0 < ?s" "0 < unat (bp_base_addr p)" using f(7,8) by (simp_all add: unat_gt_0)
  have val: "unat (of_nat i * bpc_buffer_size config) = i * ?s" if "i < ?n" for i
  proof -
    have "unat (of_nat i :: u64) = i" using that assms(3) by (intro unat_of_nat_less) simp
    moreover have "i * ?s < ?n * ?s" using that pos by simp
    then have "i * ?s < 2 ^ 64" using assms(4) pos by linarith
    ultimately show ?thesis by (simp add: unat_word_ariths)
  qed
  have "inj_on (\<lambda>i. of_nat i * bpc_buffer_size config) {..<?n}"
  proof (rule inj_onI)
    fix i j assume ij: "i \<in> {..<?n}" "j \<in> {..<?n}"
      "of_nat i * bpc_buffer_size config = of_nat j * bpc_buffer_size config"
    then have "i * ?s = j * ?s" using val [of i] val [of j] by (metis lessThan_iff)
    with pos show "i = j" by simp
  qed
  then have "distinct (bp_offset_ring p)" by (simp add: f distinct_map lessThan_atLeast0)
  with assms(2-4) f show "lifo_invar p" by (auto simp: lifo_invar_def)
  show "pool_avail p = pool_univ p"
    by (auto simp: pool_avail_def pool_univ_def pool_buffer_offset f image_image lessThan_atLeast0)
qed

lemma pool_univ_card_eq: "lifo_invar p \<Longrightarrow> card (pool_univ p) = unat (bp_buffer_count p)"
proof -
  assume inv: "lifo_invar p"
  then have "0 < unat (bp_buffer_size p)" by (simp add: lifo_invar_def unat_gt_0)
  then have "inj_on (pool_buffer p) {..<unat (bp_buffer_count p)}"
    using lifo_offsets(1) [OF inv] unfolding inj_on_def pool_buffer_offset
    by (metis lessThan_iff mult_cancel2 not_less_zero offset_buffer_inject)
  then show ?thesis by (simp add: pool_univ_def card_image)
qed

text \<open>
  C21. A pool created with a policy other than FIFO never hands out a buffer twice: after any
  sequence of \<open>Allocate\<close> and \<open>Free\<close> by clients that free only what they hold, no access left the
  offset ring, the held buffers are distinct, and the held and the available buffers are exactly
  the buffers of the pool.
\<close>

theorem lifo_pool_no_sharing:
  assumes "Pool_Create V ro E pd config L = (Inr p, L')" and "bpc_policy config \<noteq> FIFO"
    and "unat (bpc_buffer_count config) < 2 ^ 61"
    and "unat (bp_base_addr p) + unat (bpc_buffer_count config) * unat (bpc_buffer_size config) \<le> 2 ^ 64"
  shows "\<exists>p' held. pool_run pool_alloc Pool_Free ops (p, []) = Inr (p', held) \<and>
           holds_exactly (pool_univ p) (pool_avail p') held \<and>
           length held + unat (Pool_AvailableCount p') = unat (bpc_buffer_count config)"
proof -
  note inv = lifo_invar_Create [OF assms]
  then have none: "holds_exactly (pool_univ p) (pool_avail p) []" by (simp add: holds_exactly_def)
  from lifo_pool.pool_run_ok [OF inv(1) none, of ops] obtain p' held where
    run: "pool_run pool_alloc Pool_Free ops (p, []) = Inr (p', held)" "lifo_invar p'"
      "pool_univ p' = pool_univ p" "holds_exactly (pool_univ p') (pool_avail p') held" by blast
  have "card (set held \<union> pool_avail p') = length held + card (pool_avail p')"
    using run(4) by (subst card_Un_disjoint) (auto simp: holds_exactly_def distinct_card pool_avail_def)
  then have "length held + unat (bp_count p') = unat (bp_buffer_count p)"
    using run pool_univ_card_eq [OF inv(1)] lifo_avail_card [OF run(2)] by (simp add: holds_exactly_def)
  with run show ?thesis by (auto simp: Pool_AvailableCount_def Pool_Create_fields(3) [OF assms(1)])
qed

section \<open>Who owns the memory\<close>

text \<open>What the pool relies on: memory that is handed out is not in use.\<close>

definition mem_fresh :: "mem_env \<Rightarrow> bool" where
  "mem_fresh E \<longleftrightarrow>
     (\<forall>L al sz. me_aligned_alloc E L al sz \<noteq> nullptr \<longrightarrow> R_Mem (me_aligned_alloc E L al sz) \<notin> lg_live L) \<and>
     (\<forall>L sz huge p. me_mmap E L sz huge = Some p \<longrightarrow> R_Mem p \<notin> lg_live L)"

text \<open>
  Creation gives everything back when it fails, and the destructor gives back what a successful one
  has obtained: the memory, its registration and the ring.
\<close>

lemma Pool_Create_releases:
  assumes "verbs_fresh V" and "mem_fresh E"
  shows "case Pool_Create V ro E pd config L of
           (Inl st, L') \<Rightarrow> L' = L
         | (Inr p, L') \<Rightarrow> (\<forall>q. bp_mr q = bp_mr p \<and> bp_hugepage q = bp_hugepage p \<and> bp_base_addr q = bp_base_addr p \<and>
              bp_ring_ptr q = bp_ring_ptr p \<longrightarrow> Pool_dtor q L' = L) \<and>
              (\<forall>fd. R_Fd fd \<in> lg_live L' \<longleftrightarrow> R_Fd fd \<in> lg_live L)"
proof -
  let ?total = "bpc_buffer_size config * bpc_buffer_count config"
  define mem where "mem = (if bpc_use_hugepage config then HugepageAllocator_Allocate E L ?total kPageSize
    else DefaultAllocator_Allocate E L ?total kPageSize)"
  have mem: "mem \<noteq> nullptr \<Longrightarrow> R_Mem mem \<notin> lg_live L"
    using assms(2) by (auto simp: mem_def mem_fresh_def HugepageAllocator_Allocate_def DefaultAllocator_Allocate_def split: option.splits)
  have free: "mem \<noteq> nullptr \<Longrightarrow> pool_allocator_free (bpc_use_hugepage config) mem (acquire (R_Mem mem) L) = L"
    using mem by (simp add: pool_allocator_free_def HugepageAllocator_Free_def DefaultAllocator_Free_def)
  have ring: "R_Mem (me_aligned_alloc E L1 64 n) \<notin> lg_live L1" if "me_aligned_alloc E L1 64 n \<noteq> nullptr" for L1 n
    using assms(2) that by (simp add: mem_fresh_def)
  show ?thesis
  proof (cases "pd = None \<or> bpc_buffer_count config > bpc_max_buffer_count config \<or> bpc_buffer_size config = 0 \<or>
      bpc_buffer_count config = 0 \<or> mem = nullptr")
    case True
    then show ?thesis by (auto simp: Pool_Create_def Let_def mem_def)
  next
    case False
    let ?mr = "MR_Register V ro pd mem ?total MemoryRegionConfig_default (acquire (R_Mem mem) L)"
    note run = Pool_Create_def Let_def mem_def [symmetric]
    show ?thesis
    proof (cases ?mr)
      case (Pair r L1)
      from MR_Register_creates [OF assms(1), of "acquire (R_Mem mem) L" ro pd mem ?total MemoryRegionConfig_default, unfolded Pair]
      have mr: "creates MR_owns (acquire (R_Mem mem) L) (r, L1)" .
      show ?thesis
      proof (cases r)
        case (Inl st)
        with mr Pair free False show ?thesis by (simp add: run)
      next
        case (Inr x)
        have gone: "MR_dtor x (pool_allocator_free (bpc_use_hugepage config) mem L1) = L"
          using mr Inr mem False
          by (auto simp: MR_owns_def MR_dtor_def pool_allocator_free_def HugepageAllocator_Free_def DefaultAllocator_Free_def
              acquire_def insert_Diff_if split: option.splits)
        moreover have "R_Fd fd \<in> lg_live L1 \<longleftrightarrow> R_Fd fd \<in> lg_live L" for fd
          using mr Inr by (auto simp: MR_owns_def split: option.splits)
        ultimately show ?thesis using Pair Inr False ring [of L1] by (simp add: run Pool_dtor_def)
      qed
    qed
  qed
qed

definition sample_mem :: mem_env where
  "sample_mem = \<lparr>me_mmap = (\<lambda>L _ huge. if huge \<or> R_Mem 65536 \<in> lg_live L then None else Some 65536), 
      me_aligned_alloc = (\<lambda>L _ _. case pick R_Mem [4096, 2048] L of Inl e \<Rightarrow> nullptr | Inr p \<Rightarrow> p)\<rparr>"

lemma sample_mem_fresh: "mem_fresh sample_mem"
  by (auto simp: mem_fresh_def sample_mem_def)

definition sample_pool_config :: "BufferAllocationPolicy \<Rightarrow> BufferPoolConfig" where
  "sample_pool_config pol =
     \<lparr>bpc_buffer_size = 64, bpc_buffer_count = 2, bpc_max_buffer_count = 8, bpc_numa_node = -1,
      bpc_use_hugepage = True, bpc_policy = pol\<rparr>"

definition sample_pool :: "BufferAllocationPolicy \<Rightarrow> LocalBufferPool" where
  "sample_pool pol = projr (fst (Pool_Create sample_verbs False sample_mem
     (Some \<lparr>pd_raw = 3, pd_device = None\<rparr>) (sample_pool_config pol) ledger_empty))"

lemma sample_pool_created:
  "\<exists>L'. Pool_Create sample_verbs False sample_mem (Some \<lparr>pd_raw = 3, pd_device = None\<rparr>)
     (sample_pool_config pol) ledger_empty = (Inr (sample_pool pol), L')" "bp_base_addr (sample_pool pol) = 65536"
  by (simp_all add: sample_pool_def Pool_Create_def sample_pool_config_def sample_mem_def sample_verbs_def
      HugepageAllocator_Allocate_def MR_Register_def Let_def)

theorem lifo_pool_no_sharing_witness:
  "\<exists>p' held. pool_run pool_alloc Pool_Free [Pool_Alloc, Pool_Alloc, Pool_Alloc] (sample_pool LIFO, []) =
       Inr (p', held) \<and> length held + unat (Pool_AvailableCount p') = 2"
proof -
  obtain L' where "Pool_Create sample_verbs False sample_mem (Some \<lparr>pd_raw = 3, pd_device = None\<rparr>)
     (sample_pool_config LIFO) ledger_empty = (Inr (sample_pool LIFO), L')"
    using sample_pool_created(1) by blast
  from lifo_pool_no_sharing [OF this, of "[Pool_Alloc, Pool_Alloc, Pool_Alloc]"] show ?thesis
    by (auto simp: sample_pool_config_def sample_pool_created)
qed

text \<open>
  C22. The default policy is broken: in a pool created with FIFO, the tail starts one past the last
  ring entry, so the first \<open>Free\<close> after the first \<open>Allocate\<close> writes outside the ring.
\<close>

theorem fifo_first_free_out_of_bounds:
  assumes "Pool_Create V ro E pd config L = (Inr p, L')" and "bpc_policy config = FIFO"
  shows "\<exists>b p1. Pool_Allocate p = Inr (b, p1) \<and> b = pool_buffer p 0 \<and> Pool_Free b p1 = Inl Out_Of_Bounds"
proof -
  note f = Pool_Create_fields [OF assms(1)]
  have n: "0 < unat (bpc_buffer_count config)" using f(9) by (simp add: unat_gt_0)
  then have "ring_read 0 p = Inr 0" by (simp add: ring_read_def f)
  then have alloc: "Pool_Allocate p = Inr (pool_buffer p 0,
      p\<lparr>bp_head := 1 mod bp_buffer_count p, bp_count := bp_count p - 1\<rparr>)"
    using f assms(2) by (simp add: Pool_Allocate_def Let_def pool_buffer_def Pool_GetBufferPtr_def)
  have "Pool_Free b (p\<lparr>bp_head := h, bp_count := c\<rparr>) = Inl Out_Of_Bounds" for b h c
    by (simp add: Pool_Free_def ring_write_def f)
  with alloc show ?thesis by auto
qed

theorem fifo_first_free_out_of_bounds_witness:
  "\<exists>b p1. Pool_Allocate (sample_pool FIFO) = Inr (b, p1) \<and> Pool_Free b p1 = Inl Out_Of_Bounds"
proof -
  obtain L' where "Pool_Create sample_verbs False sample_mem (Some \<lparr>pd_raw = 3, pd_device = None\<rparr>)
     (sample_pool_config FIFO) ledger_empty = (Inr (sample_pool FIFO), L')"
    using sample_pool_created(1) by blast
  from fifo_first_free_out_of_bounds [OF this] show ?thesis by (auto simp: sample_pool_config_def)
qed

end
