(* ===== verification/Mpsc_Queue.thy ===== *)
theory Mpsc_Queue
  imports Rdma_Types
begin

text \<open>
  \<open>include/rdma/common/mpsc_queue.h\<close>: the lock-free queue that carries tasks to a reactor, and
  the single-producer single-consumer ring. The queue is a step relation at the granularity of
  its atomic accesses, over any number of producer threads and one consumer; the nodes are
  numbers, with explicit \<open>next\<close> pointers. The ring is given twice: \<open>Push\<close> and \<open>Pop\<close> as
  functions, and the interleaving of one producer with one consumer. The memory orders of the
  source (release on publication, acquire on consumption) are modelled by sequential consistency.
\<close>

section \<open>The queue\<close>

text \<open>
  A producer is idle, or has stored \<open>old_head\<close> into the \<open>next\<close> field of its node and is about to
  compare and exchange.
\<close>

datatype producer_pc = Idle | Linking nat "nat option" | Exchanging nat "nat option"

record mpsc =
  mq_head :: "nat option"
  mq_next :: "nat \<Rightarrow> nat option"
  mq_pc :: "nat \<Rightarrow> producer_pc"
  mq_taken :: "nat list"

datatype mpsc_label = L_Tau | L_Pushed nat | L_PopAll "nat option" | L_Release nat

fun pc_node :: "producer_pc \<Rightarrow> nat option" where
  "pc_node Idle = None"
| "pc_node (Linking n p) = Some n"
| "pc_node (Exchanging n p) = Some n"

definition mpsc_init :: mpsc where
  "mpsc_init = \<lparr>mq_head = None, mq_next = (\<lambda>_. None), mq_pc = (\<lambda>_. Idle), mq_taken = []\<rparr>"

text \<open>The list a \<open>next\<close> chain spells.\<close>

primrec linked :: "(nat \<Rightarrow> nat option) \<Rightarrow> nat option \<Rightarrow> nat list \<Rightarrow> bool" where
  "linked nxt p [] \<longleftrightarrow> p = None"
| "linked nxt p (n # ns) \<longleftrightarrow> p = Some n \<and> linked nxt (nxt n) ns"

text \<open>
  A node is pushed by the thread that owns it: it is not in the queue, no other push of it is
  under way, and the consumer is done with it. \<open>compare_exchange_weak\<close> may fail although the head
  is the expected one; on failure the expected value becomes the current head and the loop goes on.
\<close>

definition node_free :: "nat \<Rightarrow> nat list \<Rightarrow> mpsc \<Rightarrow> bool" where
  "node_free n q s \<longleftrightarrow> n \<notin> set q \<and> n \<notin> set (mq_taken s) \<and> (\<forall>t. pc_node (mq_pc s t) \<noteq> Some n)"

inductive mpsc_step :: "mpsc \<Rightarrow> mpsc_label \<Rightarrow> mpsc \<Rightarrow> bool" where
  load: "mq_pc s t = Idle \<Longrightarrow> linked (mq_next s) (mq_head s) q \<Longrightarrow> node_free n q s \<Longrightarrow>
     mpsc_step s L_Tau (s\<lparr>mq_pc := (mq_pc s)(t := Linking n (mq_head s))\<rparr>)"
| link: "mq_pc s t = Linking n old \<Longrightarrow>
     mpsc_step s L_Tau (s\<lparr>mq_next := (mq_next s)(n := old), mq_pc := (mq_pc s)(t := Exchanging n old)\<rparr>)"
| cas_ok: "mq_pc s t = Exchanging n old \<Longrightarrow> mq_head s = old \<Longrightarrow>
     mpsc_step s (L_Pushed n) (s\<lparr>mq_head := Some n, mq_pc := (mq_pc s)(t := Idle)\<rparr>)"
| cas_fail: "mq_pc s t = Exchanging n old \<Longrightarrow>
     mpsc_step s L_Tau (s\<lparr>mq_pc := (mq_pc s)(t := Linking n (mq_head s))\<rparr>)"
| pop_all: "mq_taken s = [] \<Longrightarrow> linked (mq_next s) (mq_head s) q \<Longrightarrow>
     mpsc_step s (L_PopAll (mq_head s)) (s\<lparr>mq_head := None, mq_taken := q\<rparr>)"
| consume: "mq_taken s = n # ns \<Longrightarrow> mpsc_step s (L_Release n) (s\<lparr>mq_taken := ns\<rparr>)"

abbreviation mpsc_run :: "mpsc \<Rightarrow> mpsc_label list \<Rightarrow> mpsc \<Rightarrow> bool" where
  "mpsc_run \<equiv> labelled_run mpsc_step"

lemmas mpsc_extend = run_snoc [where step = mpsc_step]

text \<open>The answer of \<open>Empty\<close> is the state of the head at the moment of its load.\<close>

definition MpscQueue_Empty :: "mpsc \<Rightarrow> bool" where
  "MpscQueue_Empty s \<longleftrightarrow> mq_head s = None"

text \<open>The nodes pushed since the last \<open>PopAll\<close>, newest first, read off the history.\<close>

fun queued_after :: "mpsc_label \<Rightarrow> nat list \<Rightarrow> nat list" where
  "queued_after (L_Pushed n) q = n # q"
| "queued_after (L_PopAll p) q = []"
| "queued_after _ q = q"

definition queued :: "mpsc_label list \<Rightarrow> nat list" where
  "queued tr = fold queued_after tr []"

lemma queued_snoc [simp]: "queued [] = []" "queued (tr @ [l]) = queued_after l (queued tr)"
  by (simp_all add: queued_def)

lemma linked_unique: "linked nxt p xs \<Longrightarrow> linked nxt p ys \<Longrightarrow> xs = ys"
proof (induction xs arbitrary: p ys)
  case Nil
  then show ?case by (cases ys) auto
next
  case (Cons x xs)
  then show ?case by (cases ys) auto
qed

lemma linked_upd [simp]: "n \<notin> set xs \<Longrightarrow> linked (nxt(n := v)) p xs = linked nxt p xs"
  by (induction xs arbitrary: p) auto

text \<open>
  The invariant: the head chain spells the pushed nodes; pushed, taken and in-flight nodes are all
  different; a thread about to exchange has linked its node to the head it expects.
\<close>

definition mpsc_inv :: "nat list \<Rightarrow> mpsc \<Rightarrow> bool" where
  "mpsc_inv q s \<longleftrightarrow>
     linked (mq_next s) (mq_head s) q \<and> distinct (q @ mq_taken s) \<and>
     (\<forall>t n. pc_node (mq_pc s t) = Some n \<longrightarrow> n \<notin> set q \<and> n \<notin> set (mq_taken s)) \<and>
     (\<forall>t u n. pc_node (mq_pc s t) = Some n \<longrightarrow> pc_node (mq_pc s u) = Some n \<longrightarrow> t = u) \<and>
     (\<forall>t n old. mq_pc s t = Exchanging n old \<longrightarrow> mq_next s n = old)"

lemma mpsc_inv_step:
  assumes "mpsc_inv q s" and "mpsc_step s l s'"
  shows "mpsc_inv (queued_after l q) s'"
  using assms(2,1)
proof (cases rule: mpsc_step.cases)
  case (load t q' n)
  with assms(1) have "q' = q" by (auto simp: mpsc_inv_def dest: linked_unique)
  with load assms(1) show ?thesis by (auto simp: mpsc_inv_def node_free_def)
next
  case (link t n old)
  then have fresh: "n \<notin> set q \<and> n \<notin> set (mq_taken s)" "\<And>u m v. u \<noteq> t \<Longrightarrow> mq_pc s u = Exchanging m v \<Longrightarrow> m \<noteq> n"
    using assms(1) unfolding mpsc_inv_def by (metis pc_node.simps(2), metis pc_node.simps(2,3))
  with link assms(1) show ?thesis by (auto simp: mpsc_inv_def)
next
  case (cas_ok t n old)
  then show ?thesis using assms(1) unfolding mpsc_inv_def
    by (auto split: if_splits) (metis pc_node.simps(3))+
next
  case (cas_fail t n old)
  then have "n \<notin> set q \<and> n \<notin> set (mq_taken s)"
    using assms(1) unfolding mpsc_inv_def by (metis pc_node.simps(3))
  with cas_fail assms(1) show ?thesis by (auto simp: mpsc_inv_def)
next
  case (pop_all q')
  with assms(1) have "q' = q" by (auto simp: mpsc_inv_def dest: linked_unique)
  with pop_all assms(1) show ?thesis by (auto simp: mpsc_inv_def)
next
  case (consume n ns)
  with assms(1) show ?thesis by (auto simp: mpsc_inv_def)
qed

lemma mpsc_inv_run: "mpsc_run s tr s' \<Longrightarrow> s = mpsc_init \<Longrightarrow> mpsc_inv (queued tr) s'"
proof (induction rule: labelled_run.induct)
  case (run_nil s)
  then show ?case by (simp add: mpsc_inv_def mpsc_init_def)
next
  case (run_snoc s tr s' l s'')
  then show ?case by (simp add: mpsc_inv_step)
qed

text \<open>
  C16. No task is lost, duplicated or reordered by concurrent producers: in every reachable state
  the list under the head is exactly the list of nodes whose push has completed since the last
  \<open>PopAll\<close>, newest first, \<open>Empty\<close> says whether there is one, and a \<open>PopAll\<close> of the idle consumer
  takes exactly that list.
\<close>

theorem mpsc_pop_all_exact:
  assumes "mpsc_run mpsc_init tr s"
  shows "linked (mq_next s) (mq_head s) (queued tr) \<and> distinct (queued tr) \<and>
         (MpscQueue_Empty s \<longleftrightarrow> queued tr = []) \<and>
         (if mq_taken s = []
          then \<exists>s'. mpsc_step s (L_PopAll (mq_head s)) s' \<and> mq_taken s' = queued tr \<and> mq_head s' = None
          else True)"
proof -
  from mpsc_inv_run [OF assms refl] have inv: "mpsc_inv (queued tr) s" .
  then have l: "linked (mq_next s) (mq_head s) (queued tr)" by (simp add: mpsc_inv_def)
  have "\<exists>s'. mpsc_step s (L_PopAll (mq_head s)) s' \<and> mq_taken s' = queued tr \<and> mq_head s' = None"
    if "mq_taken s = []"
    using mpsc_step.pop_all [OF that l] by (intro exI conjI) auto
  moreover have "MpscQueue_Empty s \<longleftrightarrow> queued tr = []" using l by (cases "queued tr") (auto simp: MpscQueue_Empty_def)
  ultimately show ?thesis using inv l by (simp add: mpsc_inv_def)
qed

text \<open>Two producers race: the second one's exchange fails once and is repeated.\<close>

lemma mpsc_race:
  "\<exists>s. mpsc_run mpsc_init [L_Tau, L_Tau, L_Tau, L_Tau, L_Pushed 7, L_Tau, L_Tau, L_Pushed 8] s"
proof -
  define s1 where "s1 = mpsc_init\<lparr>mq_pc := (mq_pc mpsc_init)(0 := Linking 7 None)\<rparr>"
  define s2 where "s2 = s1\<lparr>mq_pc := (mq_pc s1)(1 := Linking 8 None)\<rparr>"
  define s3 where "s3 = s2\<lparr>mq_next := (mq_next s2)(7 := None), mq_pc := (mq_pc s2)(0 := Exchanging 7 None)\<rparr>"
  define s4 where "s4 = s3\<lparr>mq_next := (mq_next s3)(8 := None), mq_pc := (mq_pc s3)(1 := Exchanging 8 None)\<rparr>"
  define s5 where "s5 = s4\<lparr>mq_head := Some 7, mq_pc := (mq_pc s4)(0 := Idle)\<rparr>"
  define s6 where "s6 = s5\<lparr>mq_pc := (mq_pc s5)(1 := Linking 8 (Some 7))\<rparr>"
  define s7 where "s7 = s6\<lparr>mq_next := (mq_next s6)(8 := Some 7), mq_pc := (mq_pc s6)(1 := Exchanging 8 (Some 7))\<rparr>"
  define s8 where "s8 = s7\<lparr>mq_head := Some 8, mq_pc := (mq_pc s7)(1 := Idle)\<rparr>"
  have 1: "mpsc_step mpsc_init L_Tau s1"
    using mpsc_step.load [of mpsc_init 0 "[]" 7] by (simp add: s1_def mpsc_init_def node_free_def)
  have 2: "mpsc_step s1 L_Tau s2"
    using mpsc_step.load [of s1 1 "[]" 8] by (simp add: s2_def s1_def mpsc_init_def node_free_def)
  have 3: "mpsc_step s2 L_Tau s3"
    using mpsc_step.link [of s2 0 7 None] by (simp add: s3_def s2_def s1_def)
  have 4: "mpsc_step s3 L_Tau s4"
    using mpsc_step.link [of s3 1 8 None] by (simp add: s4_def s3_def s2_def)
  have 5: "mpsc_step s4 (L_Pushed 7) s5"
    using mpsc_step.cas_ok [of s4 0 7 None] by (simp add: s5_def s4_def s3_def s2_def s1_def mpsc_init_def)
  have 6: "mpsc_step s5 L_Tau s6"
    using mpsc_step.cas_fail [of s5 1 8 None] by (simp add: s6_def s5_def s4_def)
  have 7: "mpsc_step s6 L_Tau s7"
    using mpsc_step.link [of s6 1 8 "Some 7"] by (simp add: s7_def s6_def)
  have 8: "mpsc_step s7 (L_Pushed 8) s8"
    using mpsc_step.cas_ok [of s7 1 8 "Some 7"] by (simp add: s8_def s7_def s6_def s5_def)
  note mpsc_extend [OF mpsc_extend [OF mpsc_extend [OF mpsc_extend [OF mpsc_extend
    [OF mpsc_extend [OF mpsc_extend [OF mpsc_extend [OF run_nil 1] 2] 3] 4] 5] 6] 7] 8]
  then show ?thesis by auto
qed

theorem mpsc_pop_all_exact_witness:
  "\<exists>s. mpsc_run mpsc_init [L_Tau, L_Tau, L_Tau, L_Tau, L_Pushed 7, L_Tau, L_Tau, L_Pushed 8] s \<and>
     linked (mq_next s) (mq_head s) [8, 7]"
proof -
  obtain s where run: "mpsc_run mpsc_init [L_Tau, L_Tau, L_Tau, L_Tau, L_Pushed 7, L_Tau, L_Tau, L_Pushed 8] s"
    using mpsc_race by blast
  from mpsc_pop_all_exact [OF run] run show ?thesis by (auto simp: queued_def)
qed

section \<open>The ring\<close>

text \<open>\<open>cap\<close> is the template parameter \<open>Capacity\<close>, a power of two.\<close>

record 'a spsc =
  sp_head :: size_t
  sp_tail :: size_t
  sp_buffer :: "nat \<Rightarrow> 'a"

definition Spsc_Push :: "size_t \<Rightarrow> 'a \<Rightarrow> 'a spsc \<Rightarrow> bool \<times> 'a spsc" where
  "Spsc_Push cap item s =
     (let head = sp_head s;
          next_head = (head + 1) AND (cap - 1)
      in if next_head = sp_tail s then (False, s)
         else (True, s\<lparr>sp_buffer := (sp_buffer s)(unat head := item), sp_head := next_head\<rparr>))"

definition Spsc_Pop :: "size_t \<Rightarrow> 'a spsc \<Rightarrow> 'a option \<times> 'a spsc" where
  "Spsc_Pop cap s =
     (let tail = sp_tail s
      in if tail = sp_head s then (None, s)
         else (Some (sp_buffer s (unat tail)), s\<lparr>sp_tail := (tail + 1) AND (cap - 1)\<rparr>))"

definition Spsc_Empty :: "'a spsc \<Rightarrow> bool" where
  "Spsc_Empty s \<longleftrightarrow> sp_head s = sp_tail s"

definition Spsc_Size :: "size_t \<Rightarrow> 'a spsc \<Rightarrow> size_t" where
  "Spsc_Size cap s = (sp_head s - sp_tail s + cap) AND (cap - 1)"

definition Spsc_init :: "(nat \<Rightarrow> 'a) \<Rightarrow> 'a spsc" where
  "Spsc_init mem = \<lparr>sp_head = 0, sp_tail = 0, sp_buffer = mem\<rparr>"

text \<open>The items between \<open>tail\<close> and \<open>head\<close>, oldest first, in a ring of \<open>2^k\<close> entries.\<close>

definition spsc_len :: "nat \<Rightarrow> 'a spsc \<Rightarrow> nat" where
  "spsc_len k s = (unat (sp_head s) + 2 ^ k - unat (sp_tail s)) mod 2 ^ k"

definition spsc_items :: "nat \<Rightarrow> 'a spsc \<Rightarrow> 'a list" where
  "spsc_items k s = map (\<lambda>i. sp_buffer s ((unat (sp_tail s) + i) mod 2 ^ k)) [0..<spsc_len k s]"

definition spsc_inv :: "nat \<Rightarrow> 'a spsc \<Rightarrow> bool" where
  "spsc_inv k s \<longleftrightarrow> 0 < k \<and> k < 64 \<and> unat (sp_head s) < 2 ^ k \<and> unat (sp_tail s) < 2 ^ k"

text \<open>The contract of a bounded first-in first-out buffer.\<close>

locale bounded_fifo =
  fixes push :: "'a \<Rightarrow> 's \<Rightarrow> bool \<times> 's"
    and pop :: "'s \<Rightarrow> 'a option \<times> 's"
    and items :: "'s \<Rightarrow> 'a list"
    and limit :: nat
    and invar :: "'s \<Rightarrow> bool"
  assumes items_bound: "invar s \<Longrightarrow> length (items s) \<le> limit"
    and push_full: "invar s \<Longrightarrow> length (items s) = limit \<Longrightarrow> push x s = (False, s)"
    and push_room: "invar s \<Longrightarrow> length (items s) < limit \<Longrightarrow>
          \<exists>s'. push x s = (True, s') \<and> invar s' \<and> items s' = items s @ [x]"
    and pop_empty: "invar s \<Longrightarrow> items s = [] \<Longrightarrow> pop s = (None, s)"
    and pop_item: "invar s \<Longrightarrow> items s = x # xs \<Longrightarrow> \<exists>s'. pop s = (Some x, s') \<and> invar s' \<and> items s' = xs"
begin

text \<open>A batch that fits comes out in the order in which it went in.\<close>

lemma push_all:
  "invar s \<Longrightarrow> length (items s) + length xs \<le> limit \<Longrightarrow>
     \<exists>s'. fold (\<lambda>x s. snd (push x s)) xs s = s' \<and> invar s' \<and> items s' = items s @ xs"
proof (induction xs arbitrary: s)
  case (Cons x xs)
  then obtain s1 where s1: "push x s = (True, s1)" "invar s1" "items s1 = items s @ [x]"
    using push_room [of s x] by auto
  then show ?case using Cons.IH [of s1] Cons.prems(2) by auto
qed simp

end

text \<open>Positions in a ring of \<open>N\<close> entries.\<close>

lemma ring_distance:
  fixes h t N :: nat
  assumes "h < N" and "t < N"
  shows "(h + N - t) mod N = (if t \<le> h then h - t else h + N - t)"
proof (cases "t \<le> h")
  case True
  then have "h + N - t = (h - t) + N" by simp
  then have "(h + N - t) mod N = (h - t) mod N" by (simp only: mod_add_self2)
  with True assms show ?thesis by simp
next
  case False
  then have "h + N - t < N" using assms by linarith
  with False show ?thesis by simp
qed

lemma ring_advance:
  fixes h N :: nat
  assumes "h < N"
  shows "(h + 1) mod N = (if h + 1 = N then 0 else h + 1)"
  using assms by (cases "h + 1 = N") simp_all

lemma unat_next_position:
  fixes x :: size_t
  assumes "unat x < 2 ^ k" and "k < 64"
  shows "unat ((x + 1) AND (2 ^ k - 1)) = (unat x + 1) mod 2 ^ k"
proof -
  have "(2 :: nat) ^ k \<le> 2 ^ 63" using assms(2) by (intro power_increasing) simp_all
  then have "unat (x + 1) = unat x + 1" using assms(1) by (simp add: unat_word_ariths)
  then show ?thesis by (simp add: mask_eq_exp_minus_1 [symmetric] unat_eq_mod_mask)
qed

lemma spsc_Push_items:
  assumes inv: "spsc_inv k s" and h: "h' = (sp_head s + 1) AND (2 ^ k - 1)"
  shows "h' = sp_tail s \<longleftrightarrow> spsc_len k s = 2 ^ k - 1"
    and "h' \<noteq> sp_tail s \<Longrightarrow> spsc_inv k (s\<lparr>sp_buffer := (sp_buffer s)(unat (sp_head s) := x), sp_head := h'\<rparr>) \<and>
           spsc_items k (s\<lparr>sp_buffer := (sp_buffer s)(unat (sp_head s) := x), sp_head := h'\<rparr>) =
             spsc_items k s @ [x]"
proof -
  let ?h = "unat (sp_head s)" and ?t = "unat (sp_tail s)" and ?N = "2 ^ k :: nat"
  from inv have lt: "?h < ?N" "?t < ?N" "k < 64" "0 < k" by (simp_all add: spsc_inv_def)
  have N: "2 \<le> ?N" using lt(4) by (metis One_nat_def Suc_leI power_increasing power_one_right one_le_numeral)
  have h': "unat h' = (?h + 1) mod ?N" unfolding h by (rule unat_next_position [OF lt(1,3)])
  have len: "spsc_len k s = (if ?t \<le> ?h then ?h - ?t else ?h + ?N - ?t)"
    unfolding spsc_len_def by (rule ring_distance [OF lt(1,2)])
  have "h' = sp_tail s \<longleftrightarrow> (?h + 1) mod ?N = ?t" unfolding word_unat_eq_iff h' ..
  also have "\<dots> \<longleftrightarrow> spsc_len k s = ?N - 1"
    unfolding ring_advance [OF lt(1)] len using lt(1,2) N by auto
  finally show full: "h' = sp_tail s \<longleftrightarrow> spsc_len k s = ?N - 1" .
  assume room: "h' \<noteq> sp_tail s"
  let ?s = "s\<lparr>sp_buffer := (sp_buffer s)(?h := x), sp_head := h'\<rparr>"
  have h'lt: "unat h' < ?N" using lt(1) by (simp add: h')
  have "spsc_len k ?s = (if ?t \<le> unat h' then unat h' - ?t else unat h' + ?N - ?t)"
    unfolding spsc_len_def using ring_distance [OF h'lt lt(2)] by simp
  then have len': "spsc_len k ?s = Suc (spsc_len k s)"
    using room lt(1,2) unfolding len h' ring_advance [OF lt(1)] full by (auto split: if_splits simp: len)
  have pos: "(?t + spsc_len k s) mod ?N = ?h" unfolding len using lt(1,2) by auto
  have other: "(?t + i) mod ?N \<noteq> ?h" if "i < spsc_len k s" for i
  proof -
    have "spsc_len k s < ?N" using lt by (simp add: spsc_len_def)
    with add_mod_inject [of i ?N "spsc_len k s" ?t] that pos show ?thesis by simp
  qed
  show "spsc_inv k ?s \<and> spsc_items k ?s = spsc_items k s @ [x]"
    using h'lt inv by (simp add: spsc_items_def len' pos other spsc_inv_def cong: map_cong)
qed

lemma spsc_Pop_items:
  assumes inv: "spsc_inv k s"
  shows "sp_tail s = sp_head s \<longleftrightarrow> spsc_items k s = []"
    and "sp_tail s \<noteq> sp_head s \<Longrightarrow> spsc_inv k (s\<lparr>sp_tail := (sp_tail s + 1) AND (2 ^ k - 1)\<rparr>) \<and>
           spsc_items k s = sp_buffer s (unat (sp_tail s)) #
             spsc_items k (s\<lparr>sp_tail := (sp_tail s + 1) AND (2 ^ k - 1)\<rparr>)"
proof -
  let ?h = "unat (sp_head s)" and ?t = "unat (sp_tail s)" and ?N = "2 ^ k :: nat"
  from inv have lt: "?h < ?N" "?t < ?N" "k < 64" by (simp_all add: spsc_inv_def)
  have len: "spsc_len k s = (if ?t \<le> ?h then ?h - ?t else ?h + ?N - ?t)"
    unfolding spsc_len_def by (rule ring_distance [OF lt(1,2)])
  show "sp_tail s = sp_head s \<longleftrightarrow> spsc_items k s = []"
    using lt(1,2) unfolding spsc_items_def len word_unat_eq_iff by auto
  assume ne: "sp_tail s \<noteq> sp_head s"
  let ?s = "s\<lparr>sp_tail := (sp_tail s + 1) AND (2 ^ k - 1)\<rparr>"
  have t': "unat (sp_tail ?s) = (?t + 1) mod ?N" using unat_next_position [OF lt(2,3)] by simp
  have t'lt: "(?t + 1) mod ?N < ?N" by simp
  have ne': "?t \<noteq> ?h" using ne by (simp add: word_unat_eq_iff)
  have "spsc_len k ?s = (if (?t + 1) mod ?N \<le> ?h then ?h - (?t + 1) mod ?N else ?h + ?N - (?t + 1) mod ?N)"
    unfolding spsc_len_def t' using ring_distance [OF lt(1) t'lt] by simp
  then have len': "spsc_len k s = Suc (spsc_len k ?s)"
    using ne' lt(1,2) unfolding len ring_advance [OF lt(2)] by (auto split: if_splits)
  have shift: "sp_buffer s ((?t + Suc i) mod ?N) = sp_buffer ?s ((unat (sp_tail ?s) + i) mod ?N)" for i
    unfolding t' by (simp add: mod_add_left_eq)
  have "spsc_items k s = sp_buffer s (?t mod ?N) # map (\<lambda>i. sp_buffer s ((?t + Suc i) mod ?N)) [0..<spsc_len k ?s]"
    unfolding spsc_items_def len' by (simp add: upt_conv_Cons map_Suc_upt [symmetric] comp_def del: upt_Suc)
  then have "spsc_items k s = sp_buffer s ?t # spsc_items k ?s"
    unfolding shift using lt(2) by (simp add: spsc_items_def)
  then show "spsc_inv k ?s \<and> spsc_items k s = sp_buffer s ?t # spsc_items k ?s"
    using inv t' t'lt by (simp add: spsc_inv_def)
qed

interpretation spsc_fifo: bounded_fifo "Spsc_Push (2 ^ k)" "Spsc_Pop (2 ^ k)" "spsc_items k" "2 ^ k - 1" "spsc_inv k"
  for k
proof
  fix s :: "'a spsc" and x :: 'a and xs
  assume inv: "spsc_inv k s"
  have ln: "length (spsc_items k s) = spsc_len k s" by (simp add: spsc_items_def)
  have "spsc_len k s < 2 ^ k" by (simp add: spsc_len_def)
  then show "length (spsc_items k s) \<le> 2 ^ k - 1" by (simp add: ln)
  note push = spsc_Push_items [OF inv refl]
  show "length (spsc_items k s) = 2 ^ k - 1 \<Longrightarrow> Spsc_Push (2 ^ k) x s = (False, s)"
    using push(1) by (simp add: Spsc_Push_def ln Let_def)
  show "length (spsc_items k s) < 2 ^ k - 1 \<Longrightarrow> \<exists>s'. Spsc_Push (2 ^ k) x s = (True, s') \<and>
      spsc_inv k s' \<and> spsc_items k s' = spsc_items k s @ [x]"
    using push(1) push(2) [of x] by (simp add: Spsc_Push_def ln Let_def)
  note pop = spsc_Pop_items [OF inv]
  show "spsc_items k s = [] \<Longrightarrow> Spsc_Pop (2 ^ k) s = (None, s)"
    using pop(1) by (simp add: Spsc_Pop_def Let_def)
  show "spsc_items k s = x # xs \<Longrightarrow> \<exists>s'. Spsc_Pop (2 ^ k) s = (Some x, s') \<and> spsc_inv k s' \<and> spsc_items k s' = xs"
    using pop(1) pop(2) by (auto simp: Spsc_Pop_def Let_def)
qed

section \<open>One producer and one consumer on the ring\<close>

text \<open>
  The calls are split at their shared accesses: the test for a free (or a filled) entry, the copy
  of the item, and the store that publishes it.
\<close>

datatype 'a push_pc = P_Idle | P_Checked 'a | P_Copied 'a
datatype 'a pop_pc = C_Idle | C_Checked | C_Copied 'a

record 'a spsc_conc =
  sc_ring :: "'a spsc"
  sc_push :: "'a push_pc"
  sc_pop :: "'a pop_pc"

datatype 'a spsc_label = S_Tau | S_Full | S_Enqueued 'a | S_Empty | S_Dequeued 'a

inductive spsc_step :: "size_t \<Rightarrow> 'a spsc_conc \<Rightarrow> 'a spsc_label \<Rightarrow> 'a spsc_conc \<Rightarrow> bool" for cap where
  push_full: "sc_push c = P_Idle \<Longrightarrow> (sp_head (sc_ring c) + 1) AND (cap - 1) = sp_tail (sc_ring c) \<Longrightarrow>
     spsc_step cap c S_Full c"
| push_check: "sc_push c = P_Idle \<Longrightarrow> (sp_head (sc_ring c) + 1) AND (cap - 1) \<noteq> sp_tail (sc_ring c) \<Longrightarrow>
     spsc_step cap c S_Tau (c\<lparr>sc_push := P_Checked x\<rparr>)"
| push_copy: "sc_push c = P_Checked x \<Longrightarrow> sc_ring c = s \<Longrightarrow>
     spsc_step cap c S_Tau
       (c\<lparr>sc_ring := s\<lparr>sp_buffer := (sp_buffer s)(unat (sp_head s) := x)\<rparr>, sc_push := P_Copied x\<rparr>)"
| push_publish: "sc_push c = P_Copied x \<Longrightarrow> sc_ring c = s \<Longrightarrow>
     spsc_step cap c (S_Enqueued x)
       (c\<lparr>sc_ring := s\<lparr>sp_head := (sp_head s + 1) AND (cap - 1)\<rparr>, sc_push := P_Idle\<rparr>)"
| pop_empty: "sc_pop c = C_Idle \<Longrightarrow> sp_tail (sc_ring c) = sp_head (sc_ring c) \<Longrightarrow> spsc_step cap c S_Empty c"
| pop_check: "sc_pop c = C_Idle \<Longrightarrow> sp_tail (sc_ring c) \<noteq> sp_head (sc_ring c) \<Longrightarrow>
     spsc_step cap c S_Tau (c\<lparr>sc_pop := C_Checked\<rparr>)"
| pop_copy: "sc_pop c = C_Checked \<Longrightarrow> sc_ring c = s \<Longrightarrow>
     spsc_step cap c S_Tau (c\<lparr>sc_pop := C_Copied (sp_buffer s (unat (sp_tail s)))\<rparr>)"
| pop_advance: "sc_pop c = C_Copied x \<Longrightarrow> sc_ring c = s \<Longrightarrow>
     spsc_step cap c (S_Dequeued x)
       (c\<lparr>sc_ring := s\<lparr>sp_tail := (sp_tail s + 1) AND (cap - 1)\<rparr>, sc_pop := C_Idle\<rparr>)"

abbreviation spsc_run :: "size_t \<Rightarrow> 'a spsc_conc \<Rightarrow> 'a spsc_label list \<Rightarrow> 'a spsc_conc \<Rightarrow> bool" where
  "spsc_run cap \<equiv> labelled_run (spsc_step cap)"

lemmas spsc_extend = run_snoc [where step = "spsc_step cap" for cap]

definition spsc_conc_init :: "(nat \<Rightarrow> 'a) \<Rightarrow> 'a spsc_conc" where
  "spsc_conc_init mem = \<lparr>sc_ring = Spsc_init mem, sc_push = P_Idle, sc_pop = C_Idle\<rparr>"

fun enqueued :: "'a spsc_label list \<Rightarrow> 'a list" where
  "enqueued [] = []"
| "enqueued (S_Enqueued x # tr) = x # enqueued tr"
| "enqueued (_ # tr) = enqueued tr"

fun dequeued :: "'a spsc_label list \<Rightarrow> 'a list" where
  "dequeued [] = []"
| "dequeued (S_Dequeued x # tr) = x # dequeued tr"
| "dequeued (_ # tr) = dequeued tr"

lemma history_snoc [simp]:
  "enqueued (tr @ [l]) = enqueued tr @ enqueued [l]" "dequeued (tr @ [l]) = dequeued tr @ dequeued [l]"
proof -
  show "enqueued (tr @ [l]) = enqueued tr @ enqueued [l]"
    by (induction tr rule: enqueued.induct) simp_all
  show "dequeued (tr @ [l]) = dequeued tr @ dequeued [l]"
    by (induction tr rule: dequeued.induct) simp_all
qed

text \<open>
  The invariant of the interleaving: a producer past its test still has a free entry, a consumer
  past its test still has a filled one, and what each has copied is what it will publish.
\<close>

definition spsc_conc_inv :: "nat \<Rightarrow> 'a spsc_conc \<Rightarrow> bool" where
  "spsc_conc_inv k c \<longleftrightarrow>
     (let s = sc_ring c
      in spsc_inv k s \<and>
         (case sc_push c of
            P_Idle \<Rightarrow> True
          | P_Checked x \<Rightarrow> spsc_len k s < 2 ^ k - 1
          | P_Copied x \<Rightarrow> spsc_len k s < 2 ^ k - 1 \<and> sp_buffer s (unat (sp_head s)) = x) \<and>
         (case sc_pop c of
            C_Idle \<Rightarrow> True
          | C_Checked \<Rightarrow> spsc_items k s \<noteq> []
          | C_Copied x \<Rightarrow> spsc_items k s \<noteq> [] \<and> hd (spsc_items k s) = x))"

lemma length_spsc_items: "length (spsc_items k s) = spsc_len k s"
  by (simp add: spsc_items_def)

lemma spsc_copy_unseen:
  assumes "spsc_inv k s" and "spsc_len k s < 2 ^ k - 1"
  shows "spsc_items k (s\<lparr>sp_buffer := (sp_buffer s)(unat (sp_head s) := x)\<rparr>) = spsc_items k s"
    and "spsc_len k (s\<lparr>sp_buffer := (sp_buffer s)(unat (sp_head s) := x)\<rparr>) = spsc_len k s"
proof -
  let ?h' = "(sp_head s + 1) AND (2 ^ k - 1)"
  let ?s = "s\<lparr>sp_buffer := (sp_buffer s)(unat (sp_head s) := x)\<rparr>"
  have ne: "?h' \<noteq> sp_tail s" using spsc_Push_items(1) [OF assms(1) refl] assms(2) by auto
  show len: "spsc_len k ?s = spsc_len k s" by (simp add: spsc_len_def)
  have inv: "spsc_inv k ?s" using assms(1) by (simp add: spsc_inv_def)
  have "spsc_items k (s\<lparr>sp_buffer := (sp_buffer s)(unat (sp_head s) := x), sp_head := ?h'\<rparr>) = spsc_items k s @ [x]"
    using spsc_Push_items(2) [OF assms(1) refl ne] by simp
  moreover have "spsc_items k (?s\<lparr>sp_buffer := (sp_buffer ?s)(unat (sp_head ?s) := x), sp_head := ?h'\<rparr>) =
      spsc_items k ?s @ [x]"
    using spsc_Push_items(2) [OF inv, of ?h' x] ne by simp
  ultimately show "spsc_items k ?s = spsc_items k s" by simp
qed

lemma spsc_publish:
  assumes "spsc_inv k s" and "spsc_len k s < 2 ^ k - 1" and "sp_buffer s (unat (sp_head s)) = x"
  shows "spsc_inv k (s\<lparr>sp_head := (sp_head s + 1) AND (2 ^ k - 1)\<rparr>)"
    and "spsc_items k (s\<lparr>sp_head := (sp_head s + 1) AND (2 ^ k - 1)\<rparr>) = spsc_items k s @ [x]"
proof -
  have "(sp_head s + 1) AND (2 ^ k - 1) \<noteq> sp_tail s"
    using spsc_Push_items(1) [OF assms(1) refl] assms(2) by auto
  from spsc_Push_items(2) [OF assms(1) refl this, of x] assms(3)
  show "spsc_inv k (s\<lparr>sp_head := (sp_head s + 1) AND (2 ^ k - 1)\<rparr>)"
    "spsc_items k (s\<lparr>sp_head := (sp_head s + 1) AND (2 ^ k - 1)\<rparr>) = spsc_items k s @ [x]"
    by (auto simp: fun_upd_idem)
qed

lemma spsc_conc_step:
  assumes inv: "spsc_conc_inv k c" and step: "spsc_step (2 ^ k) c l c'"
  shows "spsc_conc_inv k c' \<and>
         spsc_items k (sc_ring c) @ enqueued [l] = dequeued [l] @ spsc_items k (sc_ring c')"
  using step
proof (cases rule: spsc_step.cases)
  case (push_check x)
  then have "spsc_len k (sc_ring c) \<noteq> 2 ^ k - 1"
    using spsc_Push_items(1) [OF _ refl, of k "sc_ring c"] inv by (simp add: spsc_conc_inv_def Let_def)
  moreover have "spsc_len k (sc_ring c) < 2 ^ k" by (simp add: spsc_len_def)
  ultimately show ?thesis using push_check inv by (simp add: spsc_conc_inv_def Let_def split: pop_pc.splits)
next
  case (push_copy x s)
  then have "spsc_inv k s" "spsc_len k s < 2 ^ k - 1" using inv by (simp_all add: spsc_conc_inv_def Let_def)
  with push_copy inv spsc_copy_unseen [of k s x] show ?thesis
    by (auto simp: spsc_conc_inv_def Let_def spsc_inv_def split: pop_pc.splits)
next
  case (push_publish x s)
  then have "spsc_inv k s" "spsc_len k s < 2 ^ k - 1" "sp_buffer s (unat (sp_head s)) = x"
    using inv by (simp_all add: spsc_conc_inv_def Let_def)
  with push_publish inv spsc_publish [of k s x] show ?thesis
    by (auto simp: spsc_conc_inv_def Let_def hd_append split: pop_pc.splits)
next
  case pop_check
  then show ?thesis using inv spsc_Pop_items(1) [of k "sc_ring c"] by (simp add: spsc_conc_inv_def Let_def)
next
  case (pop_copy s)
  then have ne: "spsc_inv k s" "spsc_items k s \<noteq> []" using inv by (simp_all add: spsc_conc_inv_def Let_def)
  with spsc_Pop_items [OF ne(1)] have "hd (spsc_items k s) = sp_buffer s (unat (sp_tail s))"
    by (metis list.sel(1))
  with pop_copy inv ne show ?thesis by (simp add: spsc_conc_inv_def Let_def)
next
  case (pop_advance x s)
  let ?s = "s\<lparr>sp_tail := (sp_tail s + 1) AND (2 ^ k - 1)\<rparr>"
  from pop_advance inv have ne: "spsc_inv k s" "spsc_items k s \<noteq> []" "hd (spsc_items k s) = x"
    by (simp_all add: spsc_conc_inv_def Let_def)
  with spsc_Pop_items [OF ne(1)] have s': "spsc_inv k ?s" "spsc_items k s = x # spsc_items k ?s" by auto
  then have "Suc (spsc_len k ?s) = spsc_len k s" by (metis length_Cons length_spsc_items)
  with s' pop_advance inv show ?thesis by (auto simp: spsc_conc_inv_def Let_def split: push_pc.splits)
qed (use inv in simp_all)

lemma spsc_conc_run:
  "spsc_run (2 ^ k) c tr c' \<Longrightarrow> spsc_conc_inv k c \<Longrightarrow>
     spsc_conc_inv k c' \<and> spsc_items k (sc_ring c) @ enqueued tr = dequeued tr @ spsc_items k (sc_ring c')"
proof (induction rule: labelled_run.induct)
  case (run_snoc c tr c' l c'')
  then show ?case using spsc_conc_step [of k c' l c''] by (auto simp del: enqueued.simps dequeued.simps) (metis append.assoc)
qed simp

text \<open>
  C23. The ring is a first-in first-out queue under every interleaving of the producer's and the
  consumer's accesses: what has been popped, followed by what is in the ring, is what has been
  pushed, and the ring never holds more than \<open>Capacity - 1\<close> items.
\<close>

theorem spsc_interleaved_fifo:
  assumes "0 < k" and "k < 64" and "spsc_run (2 ^ k) (spsc_conc_init mem) tr c"
  shows "enqueued tr = dequeued tr @ spsc_items k (sc_ring c) \<and> length (spsc_items k (sc_ring c)) \<le> 2 ^ k - 1"
proof -
  have "spsc_conc_inv k (spsc_conc_init mem)" "spsc_items k (Spsc_init mem) = []"
    using assms(1,2) by (simp_all add: spsc_conc_inv_def spsc_conc_init_def Spsc_init_def spsc_inv_def
        spsc_items_def spsc_len_def)
  with spsc_conc_run [OF assms(3)] have "spsc_conc_inv k c"
    and eq: "enqueued tr = dequeued tr @ spsc_items k (sc_ring c)" by (simp_all add: spsc_conc_init_def)
  then have "spsc_inv k (sc_ring c)" by (simp add: spsc_conc_inv_def Let_def)
  from spsc_fifo.items_bound [OF this] eq show ?thesis by blast
qed

text \<open>A run in which the consumer tests and copies while the producer is inside its second push.\<close>

lemma spsc_sample_run:
  "\<exists>c. spsc_run (2 ^ 2) (spsc_conc_init (\<lambda>_. 0 :: nat))
     [S_Tau, S_Tau, S_Enqueued 5, S_Tau, S_Tau, S_Tau, S_Dequeued 5] c"
proof -
  define c0 where "c0 = spsc_conc_init (\<lambda>_. 0 :: nat)"
  define c1 where "c1 = c0\<lparr>sc_push := P_Checked 5\<rparr>"
  define c2 where "c2 = c1\<lparr>sc_ring := (sc_ring c1)\<lparr>sp_buffer := (sp_buffer (sc_ring c1))(unat (sp_head (sc_ring c1)) := 5)\<rparr>,
    sc_push := P_Copied 5\<rparr>"
  define c3 where "c3 = c2\<lparr>sc_ring := (sc_ring c2)\<lparr>sp_head := (sp_head (sc_ring c2) + 1) AND (2 ^ 2 - 1)\<rparr>, sc_push := P_Idle\<rparr>"
  define c4 where "c4 = c3\<lparr>sc_pop := C_Checked\<rparr>"
  define c5 where "c5 = c4\<lparr>sc_push := P_Checked 6\<rparr>"
  define c6 where "c6 = c5\<lparr>sc_pop := C_Copied (sp_buffer (sc_ring c5) (unat (sp_tail (sc_ring c5))))\<rparr>"
  define c7 where "c7 = c6\<lparr>sc_ring := (sc_ring c6)\<lparr>sp_tail := (sp_tail (sc_ring c6) + 1) AND (2 ^ 2 - 1)\<rparr>, sc_pop := C_Idle\<rparr>"
  note defs = c0_def c1_def c2_def c3_def c4_def c5_def c6_def c7_def spsc_conc_init_def Spsc_init_def
  have 1: "spsc_step (2 ^ 2) c0 S_Tau c1"
    unfolding c1_def by (rule spsc_step.push_check) (simp_all add: defs)
  have 2: "spsc_step (2 ^ 2) c1 S_Tau c2"
    unfolding c2_def by (rule spsc_step.push_copy) (simp_all add: defs)
  have 3: "spsc_step (2 ^ 2) c2 (S_Enqueued 5) c3"
    unfolding c3_def by (rule spsc_step.push_publish) (simp_all add: defs)
  have 4: "spsc_step (2 ^ 2) c3 S_Tau c4"
    unfolding c4_def by (rule spsc_step.pop_check) (simp_all add: defs)
  have 5: "spsc_step (2 ^ 2) c4 S_Tau c5"
    unfolding c5_def by (rule spsc_step.push_check) (simp_all add: defs)
  have 6: "spsc_step (2 ^ 2) c5 S_Tau c6"
    unfolding c6_def by (rule spsc_step.pop_copy) (simp_all add: defs)
  have 7: "spsc_step (2 ^ 2) c6 (S_Dequeued 5) c7"
    unfolding c7_def by (rule spsc_step.pop_advance) (simp_all add: defs)
  note spsc_extend [OF spsc_extend [OF spsc_extend [OF spsc_extend
    [OF spsc_extend [OF spsc_extend [OF spsc_extend [OF run_nil 1] 2] 3] 4] 5] 6] 7]
  then show ?thesis by (auto simp: c0_def)
qed

theorem spsc_interleaved_fifo_witness:
  "\<exists>c. spsc_run (2 ^ 2) (spsc_conc_init (\<lambda>_. 0 :: nat))
         [S_Tau, S_Tau, S_Enqueued 5, S_Tau, S_Tau, S_Tau, S_Dequeued 5] c \<and> spsc_items 2 (sc_ring c) = []"
proof -
  obtain c where run: "spsc_run (2 ^ 2) (spsc_conc_init (\<lambda>_. 0 :: nat))
     [S_Tau, S_Tau, S_Enqueued 5, S_Tau, S_Tau, S_Tau, S_Dequeued 5] c" using spsc_sample_run by blast
  with spsc_interleaved_fifo [OF _ _ run] show ?thesis by auto
qed

text \<open>
  \<open>Push\<close> and \<open>Pop\<close> of a ring of \<open>2^k\<close> entries meet the contract of a bounded queue: a batch
  of at most \<open>2^k - 1\<close> items pushed into an empty ring is accepted and stored in order, and the
  next item is refused when the ring is full.
\<close>

theorem spsc_batch_roundtrip:
  assumes "0 < k" and "k < 64" and "length xs \<le> 2 ^ k - 1"
  shows "spsc_items k (fold (\<lambda>x s. snd (Spsc_Push (2 ^ k) x s)) xs (Spsc_init mem)) = xs \<and>
         (fst (Spsc_Push (2 ^ k) y (fold (\<lambda>x s. snd (Spsc_Push (2 ^ k) x s)) xs (Spsc_init mem))) \<longleftrightarrow>
            length xs < 2 ^ k - 1)"
proof -
  have "spsc_inv k (Spsc_init mem)" "spsc_items k (Spsc_init mem) = []"
    using assms(1,2) by (simp_all add: spsc_inv_def Spsc_init_def spsc_items_def spsc_len_def)
  with spsc_fifo.push_all [of k "Spsc_init mem" xs] assms(3) obtain s where
    s: "fold (\<lambda>x s. snd (Spsc_Push (2 ^ k) x s)) xs (Spsc_init mem) = s" "spsc_inv k s" "spsc_items k s = xs"
    by auto
  show ?thesis
    using s spsc_fifo.push_full [OF s(2), of y] spsc_fifo.push_room [OF s(2), of y] assms(3)
    by (cases "length xs = 2 ^ k - 1") auto
qed

theorem spsc_batch_roundtrip_witness:
  "spsc_items 2 (fold (\<lambda>x s. snd (Spsc_Push (2 ^ 2) x s)) [1, 2, 3] (Spsc_init (\<lambda>_. 0 :: nat))) = [1, 2, 3]"
  using spsc_batch_roundtrip [of 2 "[1, 2, 3 :: nat]" "\<lambda>_. 0" 0] by simp

end
