(* ===== verification/Completion_Dispatcher.thy ===== *)
theory Completion_Dispatcher
  imports Wr_Id Rpc_Slot
begin

text \<open>
  \<open>include/rdma/rpc/completion_dispatcher.h\<close> and \<open>src/rpc/completion_dispatcher.cpp\<close>: the map
  from connection ids to completion handlers with its two caches. A handler is a number, \<open>None\<close>
  the null pointer; what a dispatch does to the outside is the list of calls it makes, and a call
  through a null handler is \<open>Inl Null_Call\<close>. The handlers do not call back into the dispatcher.
  Prefetches have no effect on the state and are left out.
\<close>

section \<open>Completions and calls\<close>

text \<open>The fields of \<open>ibv_wc\<close> the program reads; status 0 is \<open>IBV_WC_SUCCESS\<close>.\<close>

record ibv_wc =
  wc_wr_id :: u64
  wc_status :: nat
  wc_opcode :: nat
  wc_byte_len :: u32
  wc_imm_data :: u32

definition IBV_WC_SUCCESS :: nat where
  "IBV_WC_SUCCESS = 0"

type_synonym handler = "nat option"

datatype disp_call = Call_Wc nat ptr ibv_wc | Call_Error nat ptr u16 nat

definition call_handler :: "handler \<Rightarrow> ptr \<Rightarrow> ibv_wc \<Rightarrow> disp_call list chk" where
  "call_handler h ctx wc = (case h of None \<Rightarrow> Inl Null_Call | Some f \<Rightarrow> Inr [Call_Wc f ctx wc])"

section \<open>State\<close>

definition kL0SetCount :: nat where
  "kL0SetCount = 32"

definition kL0SetMask :: u16 where
  "kL0SetMask = 31"

definition kL0Ways :: nat where
  "kL0Ways = 2"

definition kHotCacheMask :: u32 where
  "kHotCacheMask = 63"

definition kNoConn :: u16 where
  "kNoConn = 0xFFFF"

record L0CacheEntry =
  l0_conn_id :: u16
  l0_generation :: u8
  l0_access_count :: u8
  l0_ctx :: ptr
  l0_handler :: handler

record HotCacheEntry =
  hc_conn_id :: u16
  hc_access_count :: u16
  hc_ctx :: ptr
  hc_handler :: handler

record ConnectionEntry =
  ce_ctx :: ptr
  ce_handler :: handler

text \<open>\<open>cd_l0 set way\<close>, \<open>cd_hot pos\<close>, \<open>cd_buckets bucket\<close>: an unallocated bucket is \<open>None\<close>.\<close>

record CompletionDispatcher =
  cd_l0 :: "nat \<Rightarrow> nat \<Rightarrow> L0CacheEntry"
  cd_hot :: "nat \<Rightarrow> HotCacheEntry"
  cd_buckets :: "nat \<Rightarrow> (nat \<Rightarrow> ConnectionEntry) option"
  cd_error :: "ptr \<times> handler"

definition Dispatcher_new :: CompletionDispatcher where
  "Dispatcher_new =
     \<lparr>cd_l0 = (\<lambda>_ _. \<lparr>l0_conn_id = kNoConn, l0_generation = 0, l0_access_count = 0, l0_ctx = nullptr, l0_handler = None\<rparr>),
      cd_hot = (\<lambda>_. \<lparr>hc_conn_id = kNoConn, hc_access_count = 0, hc_ctx = nullptr, hc_handler = None\<rparr>),
      cd_buckets = (\<lambda>_. None), cd_error = (nullptr, None)\<rparr>"

definition l0_set :: "u16 \<Rightarrow> nat" where
  "l0_set conn_id = unat (conn_id AND kL0SetMask)"

definition bucket_idx :: "u16 \<Rightarrow> nat" where
  "bucket_idx conn_id = unat (ucast (drop_bit 8 conn_id) :: u8)"

definition slot_idx :: "u16 \<Rightarrow> nat" where
  "slot_idx conn_id = unat (ucast (conn_id AND 0xFF) :: u8)"

definition Hash :: "u16 \<Rightarrow> u32" where
  "Hash conn_id = (ucast conn_id * 0x9E3779B9) AND kHotCacheMask"

definition probe_pos :: "u16 \<Rightarrow> nat \<Rightarrow> nat" where
  "probe_pos conn_id probe = unat ((Hash conn_id + of_nat probe) AND kHotCacheMask)"

section \<open>The hot cache\<close>

text \<open>The four probes; \<open>None\<close> is the null result.\<close>

primrec find_from :: "u16 \<Rightarrow> nat \<Rightarrow> nat \<Rightarrow> (nat \<Rightarrow> HotCacheEntry) \<Rightarrow> nat option" where
  "find_from conn_id 0 probe hot = None"
| "find_from conn_id (Suc n) probe hot =
     (let pos = probe_pos conn_id probe
      in if hc_conn_id (hot pos) = conn_id then Some pos
         else if hc_conn_id (hot pos) = kNoConn then None
         else find_from conn_id n (probe + 1) hot)"

definition FindInHotCache :: "u16 \<Rightarrow> CompletionDispatcher \<Rightarrow> nat option" where
  "FindInHotCache conn_id d = find_from conn_id 4 0 (cd_hot d)"

text \<open>
  The loop of \<open>InsertHotCache\<close>: \<open>Inl pos\<close> when the entry exists, \<open>Inr pos\<close> for the position to
  overwrite.
\<close>

primrec insert_scan :: "u16 \<Rightarrow> nat \<Rightarrow> nat \<Rightarrow> nat \<Rightarrow> u16 \<Rightarrow> (nat \<Rightarrow> HotCacheEntry) \<Rightarrow> nat + nat" where
  "insert_scan conn_id 0 probe best_pos min_access hot = Inr best_pos"
| "insert_scan conn_id (Suc n) probe best_pos min_access hot =
     (let pos = probe_pos conn_id probe
      in if hc_conn_id (hot pos) = conn_id then Inl pos
         else if hc_conn_id (hot pos) = kNoConn then Inr pos
         else if hc_access_count (hot pos) < min_access
         then insert_scan conn_id n (probe + 1) pos (hc_access_count (hot pos)) hot
         else insert_scan conn_id n (probe + 1) best_pos min_access hot)"

definition InsertHotCache :: "u16 \<Rightarrow> ptr \<Rightarrow> handler \<Rightarrow> CompletionDispatcher \<Rightarrow> CompletionDispatcher" where
  "InsertHotCache conn_id ctx h d =
     (case insert_scan conn_id 4 0 (unat (Hash conn_id)) 0xFFFF (cd_hot d) of
        Inl pos \<Rightarrow> d\<lparr>cd_hot := (cd_hot d)(pos := (cd_hot d pos)\<lparr>hc_ctx := ctx, hc_handler := h,
                     hc_access_count := hc_access_count (cd_hot d pos) + 1\<rparr>)\<rparr>
      | Inr pos \<Rightarrow> d\<lparr>cd_hot := (cd_hot d)(pos := \<lparr>hc_conn_id = conn_id, hc_access_count = 1, hc_ctx = ctx, hc_handler = h\<rparr>)\<rparr>)"

section \<open>The set-associative cache\<close>

definition l0_write :: "nat \<Rightarrow> nat \<Rightarrow> L0CacheEntry \<Rightarrow> CompletionDispatcher \<Rightarrow> CompletionDispatcher" where
  "l0_write s w e d = d\<lparr>cd_l0 := (cd_l0 d)(s := (cd_l0 d s)(w := e))\<rparr>"

definition l0_install :: "nat \<Rightarrow> nat \<Rightarrow> u16 \<Rightarrow> ptr \<Rightarrow> handler \<Rightarrow> CompletionDispatcher \<Rightarrow> CompletionDispatcher" where
  "l0_install s w conn_id ctx h d =
     l0_write s w \<lparr>l0_conn_id = conn_id, l0_generation = l0_generation (cd_l0 d s w) + 1,
                   l0_access_count = 128, l0_ctx = ctx, l0_handler = h\<rparr> d"

text \<open>The loop over the two ways in \<open>RegisterConnection\<close>, with the least-recently-used fallback.\<close>

definition register_way :: "u16 \<Rightarrow> (nat \<Rightarrow> L0CacheEntry) \<Rightarrow> nat" where
  "register_way conn_id st =
     (if l0_conn_id (st 0) = conn_id \<or> l0_conn_id (st 0) = kNoConn then 0
      else let (lru0, min0) = (if l0_access_count (st 0) < 255 then (0, l0_access_count (st 0)) else (0 :: nat, 255))
           in if l0_conn_id (st 1) = conn_id \<or> l0_conn_id (st 1) = kNoConn then 1
              else if l0_access_count (st 1) < min0 then 1 else lru0)"

text \<open>The loop of \<open>MaybePromoteToL0\<close>: \<open>None\<close> for the early return.\<close>

definition promote_way :: "u16 \<Rightarrow> (nat \<Rightarrow> L0CacheEntry) \<Rightarrow> nat option" where
  "promote_way conn_id st =
     (if l0_conn_id (st 0) = kNoConn then Some 0
      else if l0_conn_id (st 0) = conn_id then None
      else if l0_conn_id (st 1) = kNoConn then Some 1
      else if l0_conn_id (st 1) = conn_id then None
      else Some (if l0_access_count (st 0) \<le> l0_access_count (st 1) then 0 else 1))"

definition MaybePromoteToL0 :: "u16 \<Rightarrow> ptr \<Rightarrow> handler \<Rightarrow> CompletionDispatcher \<Rightarrow> CompletionDispatcher" where
  "MaybePromoteToL0 conn_id ctx h d =
     (case promote_way conn_id (cd_l0 d (l0_set conn_id)) of
        None \<Rightarrow> d
      | Some w \<Rightarrow> l0_install (l0_set conn_id) w conn_id ctx h d)"

section \<open>The interface\<close>

definition l2_write :: "u16 \<Rightarrow> ConnectionEntry \<Rightarrow> CompletionDispatcher \<Rightarrow> CompletionDispatcher" where
  "l2_write conn_id e d =
     (let b = (case cd_buckets d (bucket_idx conn_id) of
                 Some f \<Rightarrow> f
               | None \<Rightarrow> (\<lambda>_. \<lparr>ce_ctx = nullptr, ce_handler = None\<rparr>))
      in d\<lparr>cd_buckets := (cd_buckets d)(bucket_idx conn_id \<mapsto> b(slot_idx conn_id := e))\<rparr>)"

definition RegisterConnection :: "u16 \<Rightarrow> ptr \<Rightarrow> handler \<Rightarrow> CompletionDispatcher \<Rightarrow> CompletionDispatcher" where
  "RegisterConnection conn_id ctx h d =
     (let d1 = l2_write conn_id \<lparr>ce_ctx = ctx, ce_handler = h\<rparr> d;
          s = l0_set conn_id;
          d2 = l0_install s (register_way conn_id (cd_l0 d1 s)) conn_id ctx h d1
      in InsertHotCache conn_id ctx h d2)"

text \<open>The loop that invalidates the first of the four probed entries with this id.\<close>

primrec invalidate_from :: "u16 \<Rightarrow> nat \<Rightarrow> nat \<Rightarrow> (nat \<Rightarrow> HotCacheEntry) \<Rightarrow> (nat \<Rightarrow> HotCacheEntry)" where
  "invalidate_from conn_id 0 probe hot = hot"
| "invalidate_from conn_id (Suc n) probe hot =
     (let pos = probe_pos conn_id probe
      in if hc_conn_id (hot pos) = conn_id
         then hot(pos := (hot pos)\<lparr>hc_conn_id := kNoConn, hc_ctx := nullptr, hc_handler := None\<rparr>)
         else invalidate_from conn_id n (probe + 1) hot)"

definition UnregisterConnection :: "u16 \<Rightarrow> CompletionDispatcher \<Rightarrow> CompletionDispatcher" where
  "UnregisterConnection conn_id d =
     (let d1 = (case cd_buckets d (bucket_idx conn_id) of
                  None \<Rightarrow> d
                | Some f \<Rightarrow> l2_write conn_id \<lparr>ce_ctx = nullptr, ce_handler = None\<rparr> d);
          s = l0_set conn_id;
          clear = (\<lambda>w. l0_write s w ((cd_l0 d1 s w)\<lparr>l0_conn_id := kNoConn, l0_ctx := nullptr, l0_handler := None\<rparr>) d1);
          d2 = (if l0_conn_id (cd_l0 d1 s 0) = conn_id then clear 0
                else if l0_conn_id (cd_l0 d1 s 1) = conn_id then clear 1 else d1)
      in d2\<lparr>cd_hot := invalidate_from conn_id 4 0 (cd_hot d2)\<rparr>)"

definition SetErrorHandler :: "ptr \<Rightarrow> handler \<Rightarrow> CompletionDispatcher \<Rightarrow> CompletionDispatcher" where
  "SetErrorHandler ctx h d = d\<lparr>cd_error := (ctx, h)\<rparr>"

definition DispatchFromL2 ::
  "u16 \<Rightarrow> ibv_wc \<Rightarrow> CompletionDispatcher \<Rightarrow> (disp_call list \<times> CompletionDispatcher) chk" where
  "DispatchFromL2 conn_id wc d =
     (case cd_buckets d (bucket_idx conn_id) of
        None \<Rightarrow> Inr ([], d)
      | Some f \<Rightarrow>
          let e = f (slot_idx conn_id)
          in if ce_handler e = None then Inr ([], d)
             else bind_chk (call_handler (ce_handler e) (ce_ctx e) wc) (\<lambda>cs.
                    Inr (cs, InsertHotCache conn_id (ce_ctx e) (ce_handler e) d)))"

text \<open>A hit in way \<open>w\<close>: its counter is set before the call, the other way's lowered after it.\<close>

definition l0_hit :: "nat \<Rightarrow> nat \<Rightarrow> ibv_wc \<Rightarrow> CompletionDispatcher \<Rightarrow> (disp_call list \<times> CompletionDispatcher) chk" where
  "l0_hit s w wc d =
     (let e = cd_l0 d s w;
          d1 = l0_write s w (e\<lparr>l0_access_count := 255\<rparr>) d;
          other = cd_l0 d1 s (1 - w)
      in bind_chk (call_handler (l0_handler e) (l0_ctx e) wc) (\<lambda>cs.
           Inr (cs, if l0_access_count other > 0
                    then l0_write s (1 - w) (other\<lparr>l0_access_count := l0_access_count other - 1\<rparr>) d1
                    else d1)))"

definition Dispatch :: "ibv_wc \<Rightarrow> CompletionDispatcher \<Rightarrow> (disp_call list \<times> CompletionDispatcher) chk" where
  "Dispatch wc d =
     (if wc_status wc \<noteq> IBV_WC_SUCCESS
      then Inr (case cd_error d of
                  (ctx, Some f) \<Rightarrow> [Call_Error f ctx (WrId_GetConnId (wc_wr_id wc)) (wc_status wc)]
                | (ctx, None) \<Rightarrow> [], d)
      else
        let conn_id = WrId_GetConnId (wc_wr_id wc);
            s = l0_set conn_id
        in if l0_conn_id (cd_l0 d s 0) = conn_id then l0_hit s 0 wc d
           else if l0_conn_id (cd_l0 d s 1) = conn_id then l0_hit s 1 wc d
           else case FindInHotCache conn_id d of
             Some pos \<Rightarrow>
               let e = cd_hot d pos
               in bind_chk (call_handler (hc_handler e) (hc_ctx e) wc) (\<lambda>cs.
                    Inr (cs, MaybePromoteToL0 conn_id (hc_ctx e) (hc_handler e)
                      (d\<lparr>cd_hot := (cd_hot d)(pos := e\<lparr>hc_access_count := hc_access_count e + 1\<rparr>)\<rparr>)))
           | None \<Rightarrow> DispatchFromL2 conn_id wc d)"

text \<open>The loop of \<open>DispatchBatch\<close>; the prefetches between its steps leave the dispatcher alone.\<close>

fun DispatchBatch :: "ibv_wc list \<Rightarrow> CompletionDispatcher \<Rightarrow> (disp_call list \<times> CompletionDispatcher) chk" where
  "DispatchBatch [] d = Inr ([], d)"
| "DispatchBatch (wc # wcs) d =
     bind_chk (Dispatch wc d) (\<lambda>(cs, d1).
     bind_chk (DispatchBatch wcs d1) (\<lambda>(cs', d2). Inr (cs @ cs', d2)))"

definition DispatchBatchSimple :: "ibv_wc list \<Rightarrow> CompletionDispatcher \<Rightarrow> (disp_call list \<times> CompletionDispatcher) chk" where
  "DispatchBatchSimple wcs d =
     fold (\<lambda>wc r. bind_chk r (\<lambda>(cs, d1). bind_chk (Dispatch wc d1) (\<lambda>(cs', d2). Inr (cs @ cs', d2)))) wcs (Inr ([], d))"

lemma DispatchBatchSimple_eq: "DispatchBatchSimple wcs d = DispatchBatch wcs d"
proof -
  let ?step = "\<lambda>wc r. bind_chk r (\<lambda>(cs, d1). bind_chk (Dispatch wc d1) (\<lambda>(cs', d2). Inr (cs @ cs', d2)))"
  have stop: "fold ?step wcs (Inl u) = Inl u" for wcs :: "ibv_wc list" and u by (induction wcs) simp_all
  have "fold ?step wcs (Inr (cs, d)) = bind_chk (DispatchBatch wcs d) (\<lambda>(cs', d'). Inr (cs @ cs', d'))" for cs
  proof (induction wcs arbitrary: cs d)
    case (Cons wc wcs)
    show ?case
    proof (cases "Dispatch wc d")
      case (Inr x)
      then show ?thesis
        by (cases x) (simp add: Cons.IH [unfolded split_def] bind_chk_assoc split_def)
    qed (simp add: stop)
  qed simp
  moreover have "bind_chk m (\<lambda>(cs', d'). Inr ([] @ cs', d')) = m" for m :: "(disp_call list \<times> CompletionDispatcher) chk"
    by (cases m) auto
  ultimately show ?thesis by (simp add: DispatchBatchSimple_def)
qed

definition GetConnectionFromL0 :: "u16 \<Rightarrow> CompletionDispatcher \<Rightarrow> ptr" where
  "GetConnectionFromL0 conn_id d = l0_ctx (cd_l0 d (l0_set conn_id) 0)"

section \<open>The caches agree with the index\<close>

text \<open>The map the dispatcher stands for: what the two-level index holds.\<close>

type_synonym registry = "u16 \<Rightarrow> (nat \<times> ptr) option"

definition l2_lookup :: "CompletionDispatcher \<Rightarrow> registry" where
  "l2_lookup d c =
     (case cd_buckets d (bucket_idx c) of
        None \<Rightarrow> None
      | Some f \<Rightarrow> map_option (\<lambda>h. (h, ce_ctx (f (slot_idx c)))) (ce_handler (f (slot_idx c))))"

definition l0_entry_ok :: "registry \<Rightarrow> nat \<Rightarrow> L0CacheEntry \<Rightarrow> bool" where
  "l0_entry_ok R s e \<longleftrightarrow> l0_conn_id e = kNoConn \<or>
     l0_set (l0_conn_id e) = s \<and> (\<exists>h. l0_handler e = Some h \<and> R (l0_conn_id e) = Some (h, l0_ctx e))"

definition l0_set_ok :: "registry \<Rightarrow> nat \<Rightarrow> (nat \<Rightarrow> L0CacheEntry) \<Rightarrow> bool" where
  "l0_set_ok R s st \<longleftrightarrow> l0_entry_ok R s (st 0) \<and> l0_entry_ok R s (st 1) \<and>
     (l0_conn_id (st 0) = kNoConn \<longrightarrow> l0_conn_id (st 1) = kNoConn) \<and>
     (l0_conn_id (st 0) \<noteq> kNoConn \<longrightarrow> l0_conn_id (st 0) \<noteq> l0_conn_id (st 1))"

definition l0_ok :: "registry \<Rightarrow> (nat \<Rightarrow> nat \<Rightarrow> L0CacheEntry) \<Rightarrow> bool" where
  "l0_ok R l0 \<longleftrightarrow> (\<forall>s. l0_set_ok R s (l0 s))"

text \<open>No probed position before an entry is empty or holds the same id.\<close>

definition hot_clear :: "u16 \<Rightarrow> nat \<Rightarrow> (nat \<Rightarrow> HotCacheEntry) \<Rightarrow> bool" where
  "hot_clear c j hot \<longleftrightarrow>
     (\<forall>i<j. hc_conn_id (hot (probe_pos c i)) \<noteq> kNoConn \<and> hc_conn_id (hot (probe_pos c i)) \<noteq> c)"

definition hot_entry_ok :: "registry \<Rightarrow> (nat \<Rightarrow> HotCacheEntry) \<Rightarrow> nat \<Rightarrow> bool" where
  "hot_entry_ok R hot pos \<longleftrightarrow> hc_conn_id (hot pos) = kNoConn \<or>
     (\<exists>h. hc_handler (hot pos) = Some h \<and> R (hc_conn_id (hot pos)) = Some (h, hc_ctx (hot pos))) \<and>
     (\<exists>j<4. pos = probe_pos (hc_conn_id (hot pos)) j \<and> hot_clear (hc_conn_id (hot pos)) j hot)"

definition disp_inv :: "registry \<Rightarrow> CompletionDispatcher \<Rightarrow> bool" where
  "disp_inv R d \<longleftrightarrow> l2_lookup d = R \<and> l0_ok R (cd_l0 d) \<and> (\<forall>pos. hot_entry_ok R (cd_hot d) pos)"

lemma disp_inv_new: "disp_inv (\<lambda>_. None) Dispatcher_new"
  by (simp add: disp_inv_def Dispatcher_new_def l2_lookup_def l0_ok_def l0_set_ok_def
      l0_entry_ok_def hot_entry_ok_def fun_eq_iff)

text \<open>The two index bytes determine the id.\<close>

lemma index_bytes: "bucket_idx c = bucket_idx c' \<and> slot_idx c = slot_idx c' \<longleftrightarrow> c = c'"
proof
  assume eq: "bucket_idx c = bucket_idx c' \<and> slot_idx c = slot_idx c'"
  then have b: "(ucast (drop_bit 8 c) :: u8) = ucast (drop_bit 8 c')"
    and s: "(ucast (c AND mask 8) :: u8) = ucast (c' AND mask 8)"
    by (simp_all add: bucket_idx_def slot_idx_def word_unat_eq_iff mask8_u16)
  show "c = c'"
  proof (rule bit_word_eqI)
    fix n assume n: "n < LENGTH(16)"
    show "bit c n = bit c' n"
    proof (cases "n < 8")
      case True
      then show ?thesis using arg_cong [OF s, of "\<lambda>w. bit w n"] by (simp add: bit_simps)
    next
      case False
      then have "n - 8 < 8" using n by simp
      with False show ?thesis using arg_cong [OF b, of "\<lambda>w. bit w (n - 8)"] by (simp add: bit_simps)
    qed
  qed
qed simp

lemma l2_lookup_write:
  "l2_lookup (l2_write c e d) = (l2_lookup d)(c := map_option (\<lambda>h. (h, ce_ctx e)) (ce_handler e))"
proof
  fix c'
  show "l2_lookup (l2_write c e d) c' = ((l2_lookup d)(c := map_option (\<lambda>h. (h, ce_ctx e)) (ce_handler e))) c'"
  proof (cases "bucket_idx c' = bucket_idx c")
    case True
    then show ?thesis using index_bytes [of c' c]
      by (cases "slot_idx c' = slot_idx c")
        (auto simp: l2_lookup_def l2_write_def Let_def split: option.splits)
  next
    case False
    then show ?thesis by (auto simp: l2_lookup_def l2_write_def Let_def)
  qed
qed

lemma cd_simps [simp]:
  "cd_l0 (l2_write c e d) = cd_l0 d" "cd_hot (l2_write c e d) = cd_hot d"
  "cd_error (l2_write c e d) = cd_error d"
  "cd_hot (l0_write s w x d) = cd_hot d" "l2_lookup (l0_write s w x d) = l2_lookup d"
  "cd_error (l0_write s w x d) = cd_error d"
  "cd_hot (l0_install s w c ctx h d) = cd_hot d" "l2_lookup (l0_install s w c ctx h d) = l2_lookup d"
  "cd_error (l0_install s w c ctx h d) = cd_error d"
  "cd_l0 (InsertHotCache c ctx h d) = cd_l0 d" "l2_lookup (InsertHotCache c ctx h d) = l2_lookup d"
  "cd_error (InsertHotCache c ctx h d) = cd_error d"
  "l2_lookup (d\<lparr>cd_hot := hh\<rparr>) = l2_lookup d"
  by (simp_all add: l2_write_def l0_write_def l0_install_def InsertHotCache_def l2_lookup_def fun_eq_iff Let_def
      split: sum.splits)

section \<open>The set-associative cache keeps its invariant\<close>

lemma l0_entry_ok_upd: "l0_entry_ok R s x \<Longrightarrow> l0_conn_id x \<noteq> c \<Longrightarrow> l0_entry_ok (R(c := v)) s x"
  by (auto simp: l0_entry_ok_def)

lemma l0_entry_other_set: "l0_entry_ok R s x \<Longrightarrow> s \<noteq> l0_set c \<Longrightarrow> c \<noteq> kNoConn \<Longrightarrow> l0_conn_id x \<noteq> c"
  by (auto simp: l0_entry_ok_def)

text \<open>Which way a new entry may go to: not past an empty way 0, and not beside an entry with its id.\<close>

definition way_ok :: "u16 \<Rightarrow> (nat \<Rightarrow> L0CacheEntry) \<Rightarrow> nat \<Rightarrow> bool" where
  "way_ok c st w \<longleftrightarrow> (w = 0 \<and> l0_conn_id (st 1) \<noteq> c) \<or>
     (w = 1 \<and> l0_conn_id (st 0) \<noteq> c \<and> l0_conn_id (st 0) \<noteq> kNoConn)"

lemma l0_ok_install:
  assumes "l0_ok R l0" and "c \<noteq> kNoConn" and w: "way_ok c (l0 (l0_set c)) w"
    and e: "l0_conn_id e = c" "l0_handler e = Some h" "l0_ctx e = ctx"
  shows "l0_ok (R(c \<mapsto> (h, ctx))) (l0(l0_set c := (l0 (l0_set c))(w := e)))"
  unfolding l0_ok_def
proof
  fix s
  let ?R = "R(c \<mapsto> (h, ctx))" and ?st = "(l0(l0_set c := (l0 (l0_set c))(w := e))) s"
  from assms(1) have old: "l0_entry_ok R s (l0 s 0)" "l0_entry_ok R s (l0 s 1)"
    "l0_conn_id (l0 s 0) = kNoConn \<longrightarrow> l0_conn_id (l0 s 1) = kNoConn"
    "l0_conn_id (l0 s 0) \<noteq> kNoConn \<longrightarrow> l0_conn_id (l0 s 0) \<noteq> l0_conn_id (l0 s 1)"
    by (simp_all add: l0_ok_def l0_set_ok_def)
  show "l0_set_ok ?R s ?st"
  proof (cases "s = l0_set c")
    case False
    with old assms(2) show ?thesis by (simp add: l0_set_ok_def l0_entry_ok_upd l0_entry_other_set)
  next
    case True
    have new: "l0_entry_ok ?R (l0_set c) e" using e by (simp add: l0_entry_ok_def)
    from w show ?thesis unfolding way_ok_def
    proof
      assume "w = 0 \<and> l0_conn_id (l0 (l0_set c) 1) \<noteq> c"
      with True old new e(1) assms(2) show ?thesis by (simp add: l0_set_ok_def l0_entry_ok_upd eq_commute [of c])
    next
      assume "w = 1 \<and> l0_conn_id (l0 (l0_set c) 0) \<noteq> c \<and> l0_conn_id (l0 (l0_set c) 0) \<noteq> kNoConn"
      with True old new e(1) show ?thesis by (simp add: l0_set_ok_def l0_entry_ok_upd)
    qed
  qed
qed

lemma register_way_ok:
  assumes "l0_ok R l0" and "c \<noteq> kNoConn"
  shows "way_ok c (l0 (l0_set c)) (register_way c (l0 (l0_set c)))"
proof -
  from assms(1) have "l0_set_ok R (l0_set c) (l0 (l0_set c))" by (simp add: l0_ok_def)
  with assms(2) show ?thesis
    by (auto simp: way_ok_def register_way_def l0_set_ok_def Let_def split: if_splits)
qed

lemma promote_way_ok:
  assumes "l0_ok R l0" and "c \<noteq> kNoConn" and "promote_way c (l0 (l0_set c)) = Some w"
  shows "way_ok c (l0 (l0_set c)) w"
proof -
  from assms(1) have "l0_set_ok R (l0_set c) (l0 (l0_set c))" by (simp add: l0_ok_def)
  with assms(2,3) show ?thesis
    by (auto simp: way_ok_def promote_way_def l0_set_ok_def split: if_splits)
qed

section \<open>The hot cache keeps its invariant\<close>

lemma probe_pos_inject: "i < 4 \<Longrightarrow> j < 4 \<Longrightarrow> probe_pos c i = probe_pos c j \<longleftrightarrow> i = j"
proof -
  assume ij: "i < 4" "j < 4"
  have m: "kHotCacheMask = mask 6" by (simp add: kHotCacheMask_def mask_eq_exp_minus_1)
  have pos: "probe_pos c k = (unat (Hash c) + k) mod 64" if "k < 4" for k
  proof -
    have "unat (Hash c) < 64" unfolding Hash_def m using and_mask_lt [of 6 "ucast c * 0x9E3779B9 :: u32"] by simp
    then have "unat (Hash c + of_nat k) = unat (Hash c) + k"
      using that by (simp add: unat_word_ariths unat_of_nat)
    then show ?thesis by (simp add: probe_pos_def m unat_eq_mod_mask)
  qed
  show ?thesis using ij add_mod_inject [of i 64 j "unat (Hash c)"] by (simp add: pos)
qed

lemma probe_pos_0: "probe_pos c 0 = unat (Hash c)"
  by (simp add: probe_pos_def Hash_def and.assoc)

lemma find_from_hit: "find_from c n p hot = Some pos \<Longrightarrow> hc_conn_id (hot pos) = c"
  by (induction n arbitrary: p) (auto simp: Let_def split: if_splits)

lemma hot_clear_Suc:
  "hot_clear c (Suc j) hot \<longleftrightarrow> hot_clear c j hot \<and>
     hc_conn_id (hot (probe_pos c j)) \<noteq> kNoConn \<and> hc_conn_id (hot (probe_pos c j)) \<noteq> c"
  by (auto simp: hot_clear_def less_Suc_eq)

lemma insert_scan_cases:
  assumes "hot_clear c p hot" and "\<exists>j<4. b = probe_pos c j" and "p + n = 4"
  shows "case insert_scan c n p b m hot of
           Inl pos \<Rightarrow> hc_conn_id (hot pos) = c
         | Inr pos \<Rightarrow> \<exists>j<4. pos = probe_pos c j \<and> hot_clear c j hot \<and>
                       (hc_conn_id (hot pos) = kNoConn \<or> hot_clear c 4 hot)"
  using assms
proof (induction n arbitrary: p b m)
  case 0
  then obtain j where j: "j < 4" "b = probe_pos c j" by auto
  moreover have "hot_clear c 4 hot" using 0 by simp
  ultimately show ?case by (auto simp: hot_clear_def)
next
  case (Suc n)
  let ?e = "hot (probe_pos c p)"
  consider "hc_conn_id ?e = c" | "hc_conn_id ?e \<noteq> c" "hc_conn_id ?e = kNoConn" |
    "hc_conn_id ?e \<noteq> c" "hc_conn_id ?e \<noteq> kNoConn" by blast
  then show ?case
  proof cases
    case 3
    then have clear: "hot_clear c (Suc p) hot" using Suc.prems(1) by (simp add: hot_clear_Suc)
    have p: "p < 4" "Suc p + n = 4" using Suc.prems(3) by simp_all
    have "\<exists>j<4. probe_pos c p = probe_pos c j" using p by blast
    with Suc.prems(2) 3 Suc.IH [OF clear _ p(2)] show ?thesis by (simp add: Let_def)
  next
    case 2
    have "p < 4" using Suc.prems(3) by simp
    with 2 Suc.prems(1) show ?thesis by (auto simp: Let_def)
  qed (simp add: Let_def)
qed

lemma insert_scan_full:
  "case insert_scan c 4 0 (unat (Hash c)) m hot of
     Inl pos \<Rightarrow> hc_conn_id (hot pos) = c
   | Inr pos \<Rightarrow> \<exists>j<4. pos = probe_pos c j \<and> hot_clear c j hot \<and>
                 (hc_conn_id (hot pos) = kNoConn \<or> hot_clear c 4 hot)"
proof (rule insert_scan_cases)
  show "\<exists>j<4. unat (Hash c) = probe_pos c j" using probe_pos_0 [of c] by (intro exI [of _ 0]) simp
qed (simp_all add: hot_clear_def)

lemma hot_entry_ok_upd:
  assumes "hot_entry_ok R hot p" and "p \<noteq> pos" and "hc_conn_id (hot p) \<noteq> c"
    and "hc_conn_id e = c" and "c \<noteq> kNoConn"
  shows "hot_entry_ok (R(c := v)) (hot(pos := e)) p"
proof -
  have "hot_clear c' j (hot(pos := e))" if "hot_clear c' j hot" "c' \<noteq> c" for c' j
    using that assms(4,5) by (auto simp: hot_clear_def)
  with assms show ?thesis unfolding hot_entry_ok_def by auto
qed

lemma hot_unique:
  assumes "\<And>p. hot_entry_ok R hot p" and "c \<noteq> kNoConn"
    and "hc_conn_id (hot p) = c" and "hc_conn_id (hot q) = c"
  shows "p = q"
proof -
  from assms(1) [of p] assms(2,3) obtain i where i: "i < 4" "p = probe_pos c i" "hot_clear c i hot"
    by (auto simp: hot_entry_ok_def)
  from assms(1) [of q] assms(2,4) obtain j where j: "j < 4" "q = probe_pos c j" "hot_clear c j hot"
    by (auto simp: hot_entry_ok_def)
  from i j assms(3,4) show ?thesis unfolding hot_clear_def by (metis linorder_neqE_nat)
qed

text \<open>Writing an entry for \<open>c\<close> where the scan allows it, with the new registration of \<open>c\<close>.\<close>

lemma hot_ok_write:
  assumes ok: "\<And>p. hot_entry_ok R hot p" and c: "c \<noteq> kNoConn"
    and e: "hc_conn_id e = c" "hc_handler e = Some h" "hc_ctx e = ctx"
    and pos: "hc_conn_id (hot pos) = c \<or>
      (\<exists>j<4. pos = probe_pos c j \<and> hot_clear c j hot \<and> (hc_conn_id (hot pos) = kNoConn \<or> hot_clear c 4 hot))"
  shows "hot_entry_ok (R(c \<mapsto> (h, ctx))) (hot(pos := e)) p"
proof -
  from pos obtain j where j: "j < 4" "pos = probe_pos c j" "hot_clear c j hot"
    using ok [of pos] c by (auto simp: hot_entry_ok_def)
  have only: "hc_conn_id (hot q) \<noteq> c" if "q \<noteq> pos" for q
  proof
    assume q: "hc_conn_id (hot q) = c"
    with ok [of q] c obtain i where i: "i < 4" "q = probe_pos c i" "hot_clear c i hot" by (auto simp: hot_entry_ok_def)
    from pos show False
    proof
      assume "hc_conn_id (hot pos) = c"
      with hot_unique [OF ok c q] that show False by simp
    next
      assume "\<exists>j<4. pos = probe_pos c j \<and> hot_clear c j hot \<and> (hc_conn_id (hot pos) = kNoConn \<or> hot_clear c 4 hot)"
      then consider "hc_conn_id (hot pos) = kNoConn" | "hot_clear c 4 hot" by blast
      then show False
      proof cases
        case 1
        have "i \<noteq> j" using that i j by auto
        with 1 i j q show False unfolding hot_clear_def by (metis linorder_neqE_nat)
      next
        case 2
        with i q show False by (auto simp: hot_clear_def)
      qed
    qed
  qed
  show ?thesis
  proof (cases "p = pos")
    case True
    have "hot_clear c j (hot(pos := e))"
      using j probe_pos_inject [of _ j c] unfolding hot_clear_def by auto
    with True j e show ?thesis by (auto simp: hot_entry_ok_def)
  next
    case False
    with ok only [OF False] e c show ?thesis by (intro hot_entry_ok_upd) auto
  qed
qed

lemma hot_ok_Insert:
  assumes "\<And>p. hot_entry_ok R (cd_hot d) p" and "c \<noteq> kNoConn"
  shows "hot_entry_ok (R(c \<mapsto> (h, ctx))) (cd_hot (InsertHotCache c ctx (Some h) d)) p"
proof (cases "insert_scan c 4 0 (unat (Hash c)) 0xFFFF (cd_hot d)")
  case (Inl pos)
  with insert_scan_full [where c = c and m = "0xFFFF" and hot = "cd_hot d"] have "hc_conn_id (cd_hot d pos) = c" by simp
  with Inl show ?thesis unfolding InsertHotCache_def
    by (simp del: fun_upd_apply) (rule hot_ok_write [OF assms], auto)
next
  case (Inr pos)
  with insert_scan_full [where c = c and m = "0xFFFF" and hot = "cd_hot d"] have
    "\<exists>j<4. pos = probe_pos c j \<and> hot_clear c j (cd_hot d) \<and>
       (hc_conn_id (cd_hot d pos) = kNoConn \<or> hot_clear c 4 (cd_hot d))" by simp
  with Inr show ?thesis unfolding InsertHotCache_def
    by (simp del: fun_upd_apply) (rule hot_ok_write [OF assms], auto)
qed

section \<open>The operations keep the invariant\<close>

lemma disp_inv_Register:
  assumes "disp_inv R d" and "c \<noteq> kNoConn"
  shows "disp_inv (R(c \<mapsto> (h, ctx))) (RegisterConnection c ctx (Some h) d)"
proof -
  let ?d1 = "l2_write c \<lparr>ce_ctx = ctx, ce_handler = Some h\<rparr> d"
  let ?w = "register_way c (cd_l0 d (l0_set c))"
  let ?d2 = "l0_install (l0_set c) ?w c ctx (Some h) ?d1"
  from assms(1) have inv: "l2_lookup d = R" "l0_ok R (cd_l0 d)" "\<And>p. hot_entry_ok R (cd_hot d) p"
    by (simp_all add: disp_inv_def)
  have "l0_ok (R(c \<mapsto> (h, ctx))) (cd_l0 ?d2)"
    unfolding l0_install_def l0_write_def
    using l0_ok_install [OF inv(2) assms(2) register_way_ok [OF inv(2) assms(2)]] by simp
  moreover have "hot_entry_ok (R(c \<mapsto> (h, ctx))) (cd_hot (InsertHotCache c ctx (Some h) ?d2)) p" for p
    using inv(3) by (intro hot_ok_Insert) (simp_all add: assms(2))
  moreover have "l2_lookup ?d1 = R(c \<mapsto> (h, ctx))" by (simp add: l2_lookup_write inv(1))
  ultimately show ?thesis by (simp add: disp_inv_def RegisterConnection_def Let_def)
qed

text \<open>Changing only an access counter changes nothing of the invariant.\<close>

lemma l0_ok_count:
  assumes "l0_ok R l0"
  shows "l0_ok R (l0(s := (l0 s)(w := (l0 s w)\<lparr>l0_access_count := n\<rparr>)))"
  using assms unfolding l0_ok_def by (auto simp: l0_set_ok_def l0_entry_ok_def)

lemma hot_ok_count:
  assumes "\<And>p. hot_entry_ok R hot p"
  shows "hot_entry_ok R (hot(pos := (hot pos)\<lparr>hc_access_count := n\<rparr>)) p"
proof -
  have "hc_conn_id ((hot(pos := (hot pos)\<lparr>hc_access_count := n\<rparr>)) q) = hc_conn_id (hot q)" for q by simp
  then have "hot_clear c j (hot(pos := (hot pos)\<lparr>hc_access_count := n\<rparr>)) = hot_clear c j hot" for c j
    by (simp add: hot_clear_def)
  with assms [of p] show ?thesis by (auto simp: hot_entry_ok_def)
qed

definition spec_calls :: "registry \<Rightarrow> ptr \<times> handler \<Rightarrow> ibv_wc \<Rightarrow> disp_call list" where
  "spec_calls R err wc =
     (let c = WrId_GetConnId (wc_wr_id wc)
      in if wc_status wc \<noteq> IBV_WC_SUCCESS
         then (case err of (ctx, Some f) \<Rightarrow> [Call_Error f ctx c (wc_status wc)] | (ctx, None) \<Rightarrow> [])
         else (case R c of Some (h, ctx) \<Rightarrow> [Call_Wc h ctx wc] | None \<Rightarrow> []))"

lemma l0_hit_ok:
  assumes "disp_inv R d" and "l0_conn_id (cd_l0 d s w) = c" and "c \<noteq> kNoConn" and "w < 2"
  shows "\<exists>h ctx d'. R c = Some (h, ctx) \<and> l0_hit s w wc d = Inr ([Call_Wc h ctx wc], d') \<and> disp_inv R d' \<and>
           cd_error d' = cd_error d"
proof -
  from assms(1) have inv: "l2_lookup d = R" "l0_ok R (cd_l0 d)" "\<forall>p. hot_entry_ok R (cd_hot d) p"
    by (simp_all add: disp_inv_def)
  have "w = 0 \<or> w = 1" using assms(4) by linarith
  then have "l0_entry_ok R s (cd_l0 d s w)" using inv(2) by (auto simp: l0_ok_def l0_set_ok_def)
  with assms(2,3) obtain h where h: "l0_handler (cd_l0 d s w) = Some h" "R c = Some (h, l0_ctx (cd_l0 d s w))"
    by (auto simp: l0_entry_ok_def)
  let ?d1 = "l0_write s w ((cd_l0 d s w)\<lparr>l0_access_count := 255\<rparr>) d"
  let ?o = "cd_l0 ?d1 s (1 - w)"
  let ?d2 = "l0_write s (1 - w) (?o\<lparr>l0_access_count := l0_access_count ?o - 1\<rparr>) ?d1"
  have 1: "disp_inv R ?d1"
    using inv l0_ok_count [OF inv(2), of s w 255] by (simp add: disp_inv_def) (simp add: l0_write_def)
  then have "l0_ok R (cd_l0 ?d1)" by (simp add: disp_inv_def)
  then have "disp_inv R ?d2"
    using 1 l0_ok_count [of R "cd_l0 ?d1" s "1 - w"] by (simp add: disp_inv_def) (simp add: l0_write_def)
  with 1 h show ?thesis by (auto simp: l0_hit_def call_handler_def Let_def)
qed

lemma disp_inv_promote:
  assumes "disp_inv R d" and "c \<noteq> kNoConn" and "R c = Some (h, ctx)"
  shows "disp_inv R (MaybePromoteToL0 c ctx (Some h) d) \<and> cd_error (MaybePromoteToL0 c ctx (Some h) d) = cd_error d"
proof (cases "promote_way c (cd_l0 d (l0_set c))")
  case (Some w)
  from assms(1) have inv: "l2_lookup d = R" "l0_ok R (cd_l0 d)" "\<forall>p. hot_entry_ok R (cd_hot d) p"
    by (simp_all add: disp_inv_def)
  have "R(c \<mapsto> (h, ctx)) = R" using assms(3) by (simp add: fun_upd_idem)
  then have "l0_ok R (cd_l0 (l0_install (l0_set c) w c ctx (Some h) d))"
    using l0_ok_install [OF inv(2) assms(2) promote_way_ok [OF inv(2) assms(2) Some], of _ h ctx]
    by (simp add: l0_install_def l0_write_def)
  with Some inv show ?thesis by (simp add: MaybePromoteToL0_def disp_inv_def)
qed (use assms in \<open>simp add: MaybePromoteToL0_def\<close>)

lemma Dispatch_refines:
  assumes inv: "disp_inv R d" and c: "WrId_GetConnId (wc_wr_id wc) \<noteq> kNoConn"
  shows "\<exists>d'. Dispatch wc d = Inr (spec_calls R (cd_error d) wc, d') \<and> disp_inv R d' \<and> cd_error d' = cd_error d"
proof (cases "wc_status wc = IBV_WC_SUCCESS")
  case False
  with inv show ?thesis by (simp add: Dispatch_def spec_calls_def Let_def)
next
  case True
  define c where "c = WrId_GetConnId (wc_wr_id wc)"
  define s where "s = l0_set c"
  have ne: "c \<noteq> kNoConn" using assms(2) by (simp add: c_def)
  note defs = Dispatch_def spec_calls_def Let_def c_def [symmetric] s_def [symmetric]
  consider (way0) "l0_conn_id (cd_l0 d s 0) = c"
    | (way1) "l0_conn_id (cd_l0 d s 0) \<noteq> c" "l0_conn_id (cd_l0 d s 1) = c"
    | (hot) pos where "l0_conn_id (cd_l0 d s 0) \<noteq> c" "l0_conn_id (cd_l0 d s 1) \<noteq> c" "FindInHotCache c d = Some pos"
    | (cold) "l0_conn_id (cd_l0 d s 0) \<noteq> c" "l0_conn_id (cd_l0 d s 1) \<noteq> c" "FindInHotCache c d = None"
    by (cases "FindInHotCache c d") auto
  then show ?thesis
  proof cases
    case way0
    with l0_hit_ok [OF inv way0 ne, of wc] True show ?thesis by (auto simp: defs)
  next
    case way1
    with l0_hit_ok [OF inv way1(2) ne, of wc] True show ?thesis by (auto simp: defs)
  next
    case (hot pos)
    then have conn: "hc_conn_id (cd_hot d pos) = c" by (auto simp: FindInHotCache_def dest: find_from_hit)
    have ok: "\<And>p. hot_entry_ok R (cd_hot d) p" using inv by (simp add: disp_inv_def)
    from ok [of pos] conn ne obtain h where
      h: "hc_handler (cd_hot d pos) = Some h" "R c = Some (h, hc_ctx (cd_hot d pos))"
      by (auto simp: hot_entry_ok_def)
    let ?d1 = "d\<lparr>cd_hot := (cd_hot d)(pos := (cd_hot d pos)\<lparr>hc_access_count := hc_access_count (cd_hot d pos) + 1\<rparr>)\<rparr>"
    have "disp_inv R ?d1"
      using inv hot_ok_count [OF ok] by (simp add: disp_inv_def del: fun_upd_apply)
    from disp_inv_promote [OF this ne h(2)] hot h True show ?thesis by (auto simp: defs call_handler_def)
  next
    case cold
    have ok: "\<And>p. hot_entry_ok R (cd_hot d) p" and l2: "l2_lookup d c = R c" using inv by (auto simp: disp_inv_def)
    show ?thesis
    proof (cases "R c")
      case None
      with l2 cold True inv show ?thesis
        by (auto simp: defs DispatchFromL2_def l2_lookup_def split: option.splits)
    next
      case (Some p)
      obtain h ctx where p: "p = (h, ctx)" by (cases p)
      with Some l2 obtain f where f: "cd_buckets d (bucket_idx c) = Some f" "ce_handler (f (slot_idx c)) = Some h"
        "ce_ctx (f (slot_idx c)) = ctx" by (auto simp: l2_lookup_def split: option.splits)
      have "R(c \<mapsto> (h, ctx)) = R" using Some p by (simp add: fun_upd_idem)
      with hot_ok_Insert [OF ok ne, of h ctx] inv have "disp_inv R (InsertHotCache c ctx (Some h) d)"
        by (simp add: disp_inv_def)
      with f Some p cold True show ?thesis by (auto simp: defs DispatchFromL2_def call_handler_def)
    qed
  qed
qed

section \<open>Histories\<close>

datatype disp_op =
    D_Register u16 ptr nat
  | D_Unregister u16
  | D_SetError ptr handler
  | D_Batch "ibv_wc list"

fun disp_run :: "disp_op list \<Rightarrow> CompletionDispatcher \<Rightarrow> (disp_call list \<times> CompletionDispatcher) chk" where
  "disp_run [] d = Inr ([], d)"
| "disp_run (D_Register c ctx h # ops) d = disp_run ops (RegisterConnection c ctx (Some h) d)"
| "disp_run (D_Unregister c # ops) d = disp_run ops (UnregisterConnection c d)"
| "disp_run (D_SetError ctx h # ops) d = disp_run ops (SetErrorHandler ctx h d)"
| "disp_run (D_Batch wcs # ops) d =
     bind_chk (DispatchBatch wcs d) (\<lambda>(cs, d1).
     bind_chk (disp_run ops d1) (\<lambda>(cs', d2). Inr (cs @ cs', d2)))"

text \<open>The specification: a map without caches.\<close>

fun spec_run :: "disp_op list \<Rightarrow> registry \<Rightarrow> ptr \<times> handler \<Rightarrow> disp_call list" where
  "spec_run [] R err = []"
| "spec_run (D_Register c ctx h # ops) R err = spec_run ops (R(c \<mapsto> (h, ctx))) err"
| "spec_run (D_Unregister c # ops) R err = spec_run ops (R(c := None)) err"
| "spec_run (D_SetError ctx h # ops) R err = spec_run ops R (ctx, h)"
| "spec_run (D_Batch wcs # ops) R err = concat (map (spec_calls R err) wcs) @ spec_run ops R err"

text \<open>Operations on real connection ids, none of them a removal.\<close>

fun keeps_cache :: "disp_op \<Rightarrow> bool" where
  "keeps_cache (D_Register c ctx h) \<longleftrightarrow> c \<noteq> kNoConn"
| "keeps_cache (D_Unregister c) \<longleftrightarrow> False"
| "keeps_cache (D_SetError ctx h) \<longleftrightarrow> True"
| "keeps_cache (D_Batch wcs) \<longleftrightarrow> list_all (\<lambda>wc. WrId_GetConnId (wc_wr_id wc) \<noteq> kNoConn) wcs"

lemma DispatchBatch_refines:
  "disp_inv R d \<Longrightarrow> list_all (\<lambda>wc. WrId_GetConnId (wc_wr_id wc) \<noteq> kNoConn) wcs \<Longrightarrow>
     \<exists>d'. DispatchBatch wcs d = Inr (concat (map (spec_calls R (cd_error d)) wcs), d') \<and> disp_inv R d' \<and>
          cd_error d' = cd_error d"
proof (induction wcs arbitrary: d)
  case (Cons wc wcs)
  from Cons.prems(2) have "WrId_GetConnId (wc_wr_id wc) \<noteq> kNoConn" by simp
  from Dispatch_refines [OF Cons.prems(1) this] obtain d1 where
    d1: "Dispatch wc d = Inr (spec_calls R (cd_error d) wc, d1)" "disp_inv R d1" "cd_error d1 = cd_error d" by blast
  with Cons.IH [OF d1(2)] Cons.prems(2) show ?case by auto
qed simp

lemma disp_run_refines:
  "disp_inv R d \<Longrightarrow> list_all keeps_cache ops \<Longrightarrow>
     \<exists>d'. disp_run ops d = Inr (spec_run ops R (cd_error d), d')"
proof (induction ops arbitrary: R d)
  case (Cons x ops)
  show ?case
  proof (cases x)
    case (D_Register c ctx h)
    moreover have "cd_error (RegisterConnection c ctx (Some h) d) = cd_error d"
      by (simp add: RegisterConnection_def Let_def)
    ultimately show ?thesis
      using Cons.IH [OF disp_inv_Register [OF Cons.prems(1), of c h ctx]] Cons.prems(2)
      by (simp del: fun_upd_apply)
  next
    case (D_SetError ctx h)
    have "disp_inv R (SetErrorHandler ctx h d)" "cd_error (SetErrorHandler ctx h d) = (ctx, h)"
      using Cons.prems(1) by (simp_all add: disp_inv_def SetErrorHandler_def l2_lookup_def fun_eq_iff)
    with Cons.IH [of R "SetErrorHandler ctx h d"] Cons.prems(2) D_SetError show ?thesis by simp
  next
    case (D_Batch wcs)
    with DispatchBatch_refines [OF Cons.prems(1), of wcs] Cons.prems(2) obtain d1 where
      d1: "DispatchBatch wcs d = Inr (concat (map (spec_calls R (cd_error d)) wcs), d1)" "disp_inv R d1"
        "cd_error d1 = cd_error d" by auto
    with Cons.IH [OF d1(2)] Cons.prems(2) D_Batch show ?thesis by auto
  qed (use Cons.prems(2) in simp)
qed simp

text \<open>
  C5. Without removals the three-level lookup is transparent: for every history of registrations,
  error handler changes and batches of completions in which no connection id is \<open>0xFFFF\<close>, the mark of
  an empty cache entry, the calls made are, in order, those of the plain map from connection ids to
  handlers, and no null handler is called.
\<close>

theorem dispatch_refines_map:
  assumes "list_all keeps_cache ops"
  shows "\<exists>d. disp_run ops Dispatcher_new = Inr (spec_run ops (\<lambda>_. None) (nullptr, None), d)"
  using disp_run_refines [OF disp_inv_new assms] by (simp add: Dispatcher_new_def)

definition sample_wc :: "u16 \<Rightarrow> ibv_wc" where
  "sample_wc c = \<lparr>wc_wr_id = push_bit 48 (ucast c), wc_status = 0, wc_opcode = 0, wc_byte_len = 0, wc_imm_data = 0\<rparr>"

lemma sample_wc_conn [simp]: "WrId_GetConnId (wc_wr_id (sample_wc c)) = c" "wc_status (sample_wc c) = 0"
proof -
  show "WrId_GetConnId (wc_wr_id (sample_wc c)) = c" unfolding sample_wc_def WrId_GetConnId_def
    by (rule bit_word_eqI) (auto simp: bit_simps)
qed (simp add: sample_wc_def)

theorem dispatch_refines_map_witness:
  "\<exists>d. disp_run [D_Register 7 64 1, D_Register 8 128 2, D_Batch [sample_wc 8, sample_wc 9, sample_wc 7]] Dispatcher_new =
     Inr ([Call_Wc 2 128 (sample_wc 8), Call_Wc 1 64 (sample_wc 7)], d)"
  using dispatch_refines_map [of "[D_Register 7 64 1, D_Register 8 128 2, D_Batch [sample_wc 8, sample_wc 9, sample_wc 7]]"]
  by (simp add: spec_calls_def Let_def IBV_WC_SUCCESS_def kNoConn_def)

text \<open>
  A completion whose work-request id carries connection id \<open>0xFFFF\<close>, the mark of an empty cache
  way, calls a null handler on every dispatcher whose way 0 of set 31 is empty, as it is after
  construction.
\<close>

theorem unassigned_conn_id_null_call:
  assumes "WrId_GetConnId (wc_wr_id wc) = 0xFFFF" and "wc_status wc = IBV_WC_SUCCESS"
  shows "Dispatch wc Dispatcher_new = Inl Null_Call"
  using assms by (simp add: Dispatch_def Dispatcher_new_def l0_hit_def call_handler_def kNoConn_def Let_def)

theorem unassigned_conn_id_null_call_witness: "Dispatch (sample_wc 0xFFFF) Dispatcher_new = Inl Null_Call"
  by (rule unassigned_conn_id_null_call) (simp_all add: IBV_WC_SUCCESS_def)

section \<open>Removal\<close>

text \<open>What registration and removal do to the two ways of the set of their connection.\<close>

lemma Register_l0:
  "cd_l0 (RegisterConnection c ctx h d) (l0_set c) =
     (let st = cd_l0 d (l0_set c); w = register_way c st
      in st(w := \<lparr>l0_conn_id = c, l0_generation = l0_generation (st w) + 1, l0_access_count = 128,
                  l0_ctx = ctx, l0_handler = h\<rparr>))"
  by (simp add: RegisterConnection_def Let_def l0_install_def l0_write_def)

lemma Unregister_l0:
  "cd_l0 (UnregisterConnection c d) (l0_set c) =
     (let st = cd_l0 d (l0_set c);
          clear = (\<lambda>w. st(w := (st w)\<lparr>l0_conn_id := kNoConn, l0_ctx := nullptr, l0_handler := None\<rparr>))
      in if l0_conn_id (st 0) = c then clear 0 else if l0_conn_id (st 1) = c then clear 1 else st)"
  by (simp add: UnregisterConnection_def Let_def l0_write_def split: option.splits)

text \<open>
  A removed connection can still be called: when two connections share a cache set, removing the
  first, registering the second again and removing it leaves its old entry in way 1, and the next
  completion calls its old handler with its old context, where the plain map calls nothing.
\<close>

theorem removed_handler_called:
  fixes x y z :: ptr and f g k :: nat
  assumes "a \<noteq> b" and "l0_set a = l0_set b" and "a \<noteq> kNoConn" and "b \<noteq> kNoConn"
    and "WrId_GetConnId (wc_wr_id wc) = b" and "wc_status wc = IBV_WC_SUCCESS"
  defines "ops \<equiv> [D_Register a x f, D_Register b y g, D_Unregister a, D_Register b z k, D_Unregister b, D_Batch [wc]]"
  shows "(\<exists>d. disp_run ops Dispatcher_new = Inr ([Call_Wc g y wc], d)) \<and>
         spec_run ops (\<lambda>_. None) (nullptr, None) = []"
proof -
  define d1 where "d1 = RegisterConnection a x (Some f) Dispatcher_new"
  define d2 where "d2 = RegisterConnection b y (Some g) d1"
  define d3 where "d3 = UnregisterConnection a d2"
  define d4 where "d4 = RegisterConnection b z (Some k) d3"
  define d5 where "d5 = UnregisterConnection b d4"
  let ?s = "l0_set b"
  note l0 = Register_l0 Unregister_l0 Let_def register_way_def
  have 1: "l0_conn_id (cd_l0 d1 ?s 0) = a \<and> l0_conn_id (cd_l0 d1 ?s 1) = kNoConn"
    unfolding d1_def assms(2) [symmetric] by (simp add: l0 Dispatcher_new_def)
  have 2: "l0_conn_id (cd_l0 d2 ?s 0) = a \<and> l0_conn_id (cd_l0 d2 ?s 1) = b \<and>
      l0_handler (cd_l0 d2 ?s 1) = Some g \<and> l0_ctx (cd_l0 d2 ?s 1) = y"
    unfolding d2_def l0 using 1 assms(1,3) by simp
  have 3: "l0_conn_id (cd_l0 d3 ?s 0) = kNoConn \<and> cd_l0 d3 ?s 1 = cd_l0 d2 ?s 1"
    unfolding d3_def assms(2) [symmetric] l0 using 2 assms(2) by simp
  have 4: "l0_conn_id (cd_l0 d4 ?s 0) = b \<and> cd_l0 d4 ?s 1 = cd_l0 d2 ?s 1"
    unfolding d4_def l0 using 3 by simp
  have 5: "l0_conn_id (cd_l0 d5 ?s 0) = kNoConn \<and> cd_l0 d5 ?s 1 = cd_l0 d2 ?s 1"
    unfolding d5_def l0 using 4 by simp
  then have "\<exists>d. Dispatch wc d5 = Inr ([Call_Wc g y wc], d)"
    using assms(4-6) 2 by (simp add: Dispatch_def l0_hit_def call_handler_def Let_def)
  moreover have "disp_run ops Dispatcher_new = disp_run [D_Batch [wc]] d5"
    by (simp add: ops_def d1_def d2_def d3_def d4_def d5_def)
  moreover have "spec_run ops (\<lambda>_. None) (nullptr, None) = []"
    using assms(1,5,6) by (simp add: ops_def spec_calls_def)
  ultimately show ?thesis by auto
qed

theorem removed_handler_called_witness:
  "\<exists>d. disp_run [D_Register 1 64 11, D_Register 33 128 12, D_Unregister 1, D_Register 33 192 13, D_Unregister 33,
      D_Batch [sample_wc 33]] Dispatcher_new = Inr ([Call_Wc 12 128 (sample_wc 33)], d)"
  using removed_handler_called [of 1 33 "sample_wc 33" 64 11 128 12 192 13]
  by (simp add: l0_set_def kL0SetMask_def kNoConn_def IBV_WC_SUCCESS_def)

end
