(* ===== verification/Queue_Pair.thy ===== *)
theory Queue_Pair
  imports Core_Objects Completion_Dispatcher
begin

text \<open>
  \<open>include/rdma/core/queue_pair.h\<close> and \<open>src/core/queue_pair.cpp\<close>: creation, the state
  transitions, selective signaling with completion-queue backpressure, the post operations and
  the fragmenting scatter-gather send. The device is a state \<open>'n\<close> with the verbs
  \<open>ibv_post_send\<close>, \<open>ibv_post_recv\<close> and \<open>ibv_modify_qp\<close> as functions on it that return the
  \<open>errno\<close> of a failure; every post threads the queue pair and that state.
\<close>

section \<open>Work requests and the device\<close>

datatype ibv_wr_opcode = IBV_WR_SEND | IBV_WR_RDMA_WRITE | IBV_WR_RDMA_WRITE_WITH_IMM | IBV_WR_RDMA_READ

record ibv_send_wr =
  swr_wr_id :: u64
  swr_opcode :: ibv_wr_opcode
  swr_signaled :: bool
  swr_inline :: bool
  swr_sg_list :: "ibv_sge list"
  swr_imm_data :: u32
  swr_remote_addr :: u64
  swr_rkey :: u32

definition ibv_send_wr_zero :: ibv_send_wr where
  "ibv_send_wr_zero =
     \<lparr>swr_wr_id = 0, swr_opcode = IBV_WR_SEND, swr_signaled = False, swr_inline = False, swr_sg_list = [],
      swr_imm_data = 0, swr_remote_addr = 0, swr_rkey = 0\<rparr>"

record ibv_recv_wr =
  rwr_wr_id :: u64
  rwr_sg_list :: "ibv_sge list"

text \<open>The attributes the transitions set; \<open>ah_grh\<close> is the optional global route header.\<close>

record ibv_grh =
  grh_dgid :: "u8 list"
  grh_sgid_index :: u8
  grh_hop_limit :: nat

record ibv_qp_attr =
  qa_qp_state :: QpState
  qa_port_num :: u8
  qa_access_flags :: nat
  qa_path_mtu :: u32
  qa_dest_qp_num :: u32
  qa_rq_psn :: u32
  qa_sq_psn :: u32
  qa_max_dest_rd_atomic :: nat
  qa_min_rnr_timer :: nat
  qa_dlid :: u16
  qa_ah_port_num :: u16
  qa_grh :: "ibv_grh option"
  qa_timeout :: nat
  qa_retry_cnt :: nat
  qa_rnr_retry :: nat
  qa_max_rd_atomic :: nat

definition ibv_qp_attr_zero :: "QpState \<Rightarrow> ibv_qp_attr" where
  "ibv_qp_attr_zero st =
     \<lparr>qa_qp_state = st, qa_port_num = 0, qa_access_flags = 0, qa_path_mtu = 0, qa_dest_qp_num = 0, qa_rq_psn = 0,
      qa_sq_psn = 0, qa_max_dest_rd_atomic = 0, qa_min_rnr_timer = 0, qa_dlid = 0, qa_ah_port_num = 0, qa_grh = None,
      qa_timeout = 0, qa_retry_cnt = 0, qa_rnr_retry = 0, qa_max_rd_atomic = 0\<rparr>"

datatype qp_mask =
    M_STATE | M_PKEY_INDEX | M_PORT | M_ACCESS_FLAGS | M_AV | M_PATH_MTU | M_DEST_QPN | M_RQ_PSN
  | M_MAX_DEST_RD_ATOMIC | M_MIN_RNR_TIMER | M_TIMEOUT | M_RETRY_CNT | M_RNR_RETRY | M_SQ_PSN | M_MAX_QP_RD_ATOMIC

record 'n qp_verbs =
  v_post_send :: "ptr \<Rightarrow> ibv_send_wr \<Rightarrow> 'n \<Rightarrow> int option \<times> 'n"
  v_post_recv :: "ptr \<Rightarrow> ibv_recv_wr \<Rightarrow> 'n \<Rightarrow> int option \<times> 'n"
  v_modify_qp :: "ptr \<Rightarrow> ibv_qp_attr \<Rightarrow> qp_mask set \<Rightarrow> 'n \<Rightarrow> int option \<times> 'n"

section \<open>Queue pairs\<close>

datatype ibv_qp_type = IBV_QPT_RC | IBV_QPT_UC | IBV_QPT_UD

record QueuePairConfig =
  qpc_max_send_wr :: u32
  qpc_max_recv_wr :: u32
  qpc_max_send_sge :: u32
  qpc_max_recv_sge :: u32
  qpc_max_inline_data :: u32
  qpc_signal_interval :: u32
  qpc_cq_depth :: u32
  qpc_qp_type :: ibv_qp_type

definition QueuePairConfig_default :: QueuePairConfig where
  "QueuePairConfig_default =
     \<lparr>qpc_max_send_wr = 4096, qpc_max_recv_wr = 4096, qpc_max_send_sge = 16, qpc_max_recv_sge = 16,
      qpc_max_inline_data = 256, qpc_signal_interval = 16, qpc_cq_depth = 65536,
      qpc_qp_type = IBV_QPT_RC\<rparr>"

record QueuePair =
  qp_raw :: ptr
  qp_raw_num :: u32
  qp_pd :: "ProtectionDomain option"
  qp_send_cq :: "CompletionQueue option"
  qp_recv_cq :: "CompletionQueue option"
  qp_config :: QueuePairConfig
  qp_unsignaled_count :: u32
  qp_outstanding_signaled :: u32

text \<open>
  \<open>create_qp L pd send_cq recv_cq config\<close> is \<open>ibv_create_qp\<close> on the attributes copied from the configuration,
  when the handles of \<open>L\<close> are in use.
\<close>

definition QP_Create ::
  "(ledger \<Rightarrow> ptr \<Rightarrow> ptr \<Rightarrow> ptr \<Rightarrow> QueuePairConfig \<Rightarrow> int + ptr \<times> u32) \<Rightarrow> ProtectionDomain option \<Rightarrow> CompletionQueue option
     \<Rightarrow> CompletionQueue option \<Rightarrow> QueuePairConfig \<Rightarrow> ledger \<Rightarrow> QueuePair Result \<times> ledger" where
  "QP_Create create_qp pd send_cq recv_cq config L =
     (if (case pd of None \<Rightarrow> True | Some p \<Rightarrow> pd_raw p = 0)
      then (Inl (Status_InvalidArgument ''Invalid protection domain''), L)
      else if (case send_cq of None \<Rightarrow> True | Some c \<Rightarrow> cq_raw c = 0)
      then (Inl (Status_InvalidArgument ''Invalid send completion queue''), L)
      else if (case recv_cq of None \<Rightarrow> True | Some c \<Rightarrow> cq_raw c = 0)
      then (Inl (Status_InvalidArgument ''Invalid receive completion queue''), L)
      else case create_qp L (pd_raw (the pd)) (cq_raw (the send_cq)) (cq_raw (the recv_cq)) config of
        Inl e \<Rightarrow> (Inl (Status_IOError ''Failed to create queue pair'' e), L)
      | Inr (qp, num) \<Rightarrow>
          (Inr \<lparr>qp_raw = qp, qp_raw_num = num, qp_pd = pd, qp_send_cq = send_cq, qp_recv_cq = recv_cq,
                qp_config = config, qp_unsignaled_count = 0, qp_outstanding_signaled = 0\<rparr>,
           acquire (R_QP qp) L))"

definition QP_dtor :: "QueuePair \<Rightarrow> ledger \<Rightarrow> ledger" where
  "QP_dtor q L = (if qp_raw q \<noteq> 0 then give_back (R_QP (qp_raw q)) L else L)"

definition QP_mctor :: "QueuePair \<Rightarrow> QueuePair \<times> QueuePair" where
  "QP_mctor other = (other, other\<lparr>qp_raw := 0, qp_pd := None, qp_send_cq := None, qp_recv_cq := None\<rparr>)"

definition QP_massign :: "QueuePair \<Rightarrow> QueuePair \<Rightarrow> ledger \<Rightarrow> QueuePair \<times> QueuePair \<times> ledger" where
  "QP_massign this other L =
     (other, other\<lparr>qp_raw := 0, qp_pd := None, qp_send_cq := None, qp_recv_cq := None\<rparr>,
      if qp_raw this \<noteq> 0 then give_back (R_QP (qp_raw this)) L else L)"

definition QP_owns :: "QueuePair \<Rightarrow> res list" where
  "QP_owns q = (if qp_raw q \<noteq> 0 then [R_QP (qp_raw q)] else [])"

interpretation qp_raii: raii QP_owns QP_dtor QP_mctor QP_massign
  by unfold_locales (auto simp: QP_owns_def QP_dtor_def QP_mctor_def QP_massign_def)

section \<open>State transitions\<close>

definition modify_status :: "string \<Rightarrow> int option \<times> 'n \<Rightarrow> Status \<times> 'n" where
  "modify_status msg r = (case r of (Some e, n) \<Rightarrow> (Status_IOError msg e, n) | (None, n) \<Rightarrow> (Status_OK, n))"

definition TransitionToInit :: "'n qp_verbs \<Rightarrow> u8 \<Rightarrow> QueuePair \<Rightarrow> 'n \<Rightarrow> Status \<times> 'n" where
  "TransitionToInit V port q n =
     modify_status ''Failed to transition QP to INIT''
       (v_modify_qp V (qp_raw q) ((ibv_qp_attr_zero QP_INIT)\<lparr>qa_port_num := port, qa_access_flags := 1 OR 2 OR 4\<rparr>)
          {M_STATE, M_PKEY_INDEX, M_PORT, M_ACCESS_FLAGS} n)"

definition use_grh :: "QpConnParams \<Rightarrow> bool" where
  "use_grh remote_params \<longleftrightarrow> list_ex (\<lambda>b. b \<noteq> 0) (take 16 (gid remote_params))"

definition TransitionToRTR :: "'n qp_verbs \<Rightarrow> QpConnParams \<Rightarrow> QueuePair \<Rightarrow> 'n \<Rightarrow> Status \<times> 'n" where
  "TransitionToRTR V rp q n =
     modify_status ''Failed to transition QP to RTR''
       (v_modify_qp V (qp_raw q)
          ((ibv_qp_attr_zero QP_RTR)\<lparr>qa_path_mtu := mtu rp, qa_dest_qp_num := qp_num rp, qa_rq_psn := psn rp,
             qa_max_dest_rd_atomic := 16, qa_min_rnr_timer := 12, qa_dlid := lid rp, qa_ah_port_num := port_num rp,
             qa_grh := (if use_grh rp
                        then Some \<lparr>grh_dgid = gid rp, grh_sgid_index = gid_index rp, grh_hop_limit = 64\<rparr>
                        else None)\<rparr>)
          {M_STATE, M_AV, M_PATH_MTU, M_DEST_QPN, M_RQ_PSN, M_MAX_DEST_RD_ATOMIC, M_MIN_RNR_TIMER} n)"

definition TransitionToRTS :: "'n qp_verbs \<Rightarrow> QueuePair \<Rightarrow> 'n \<Rightarrow> Status \<times> 'n" where
  "TransitionToRTS V q n =
     modify_status ''Failed to transition QP to RTS''
       (v_modify_qp V (qp_raw q)
          ((ibv_qp_attr_zero QP_RTS)\<lparr>qa_timeout := 14, qa_retry_cnt := 7, qa_rnr_retry := 7, qa_sq_psn := 0,
             qa_max_rd_atomic := 16\<rparr>)
          {M_STATE, M_TIMEOUT, M_RETRY_CNT, M_RNR_RETRY, M_SQ_PSN, M_MAX_QP_RD_ATOMIC} n)"

definition TransitionToError :: "'n qp_verbs \<Rightarrow> QueuePair \<Rightarrow> 'n \<Rightarrow> Status \<times> 'n" where
  "TransitionToError V q n =
     modify_status ''Failed to transition QP to ERROR'' (v_modify_qp V (qp_raw q) (ibv_qp_attr_zero QP_ERROR) {M_STATE} n)"

definition QP_Reset :: "'n qp_verbs \<Rightarrow> QueuePair \<Rightarrow> 'n \<Rightarrow> Status \<times> QueuePair \<times> 'n" where
  "QP_Reset V q n =
     (case v_modify_qp V (qp_raw q) (ibv_qp_attr_zero QP_RESET) {M_STATE} n of
        (Some e, n') \<Rightarrow> (Status_IOError ''Failed to reset QP'' e, q, n')
      | (None, n') \<Rightarrow> (Status_OK, q\<lparr>qp_unsignaled_count := 0, qp_outstanding_signaled := 0\<rparr>, n'))"

text \<open>\<open>query_port\<close> returns the lid and the active mtu, \<open>query_gid\<close> the sixteen bytes of the gid.\<close>

definition QP_GetLocalParams ::
  "(ptr \<Rightarrow> u8 \<Rightarrow> int + u16 \<times> u32) \<Rightarrow> (ptr \<Rightarrow> u8 \<Rightarrow> int \<Rightarrow> int + u8 list) \<Rightarrow> u8 \<Rightarrow> int \<Rightarrow> QueuePair \<Rightarrow> QpConnParams Result chk" where
  "QP_GetLocalParams query_port query_gid port gidx q =
     (if qp_raw q = 0 then Inl Null_Deref
      else case qp_pd q of
        None \<Rightarrow> Inl Null_Deref
      | Some p \<Rightarrow>
          (case pd_device p of
             None \<Rightarrow> Inl Null_Deref
           | Some d \<Rightarrow>
               let params = QpConnParams_zero\<lparr>qp_num := qp_raw_num q, psn := 0, port_num := ucast port, gid_index := of_int gidx\<rparr>
               in Inr (case Device_QueryPort query_port port d of
                         Inl s \<Rightarrow> Inl s
                       | Inr (l, m) \<Rightarrow>
                           (case Device_QueryGid query_gid port gidx d of
                              Inl s \<Rightarrow> Inl s
                            | Inr g \<Rightarrow> Inr (params\<lparr>lid := l, mtu := m, gid := g\<rparr>)))))"

section \<open>Selective signaling\<close>

definition CanPostSignaled :: "QueuePair \<Rightarrow> bool" where
  "CanPostSignaled q \<longleftrightarrow> qp_outstanding_signaled q < qpc_cq_depth (qp_config q) div 2"

definition ShouldSignal :: "QueuePair \<Rightarrow> bool \<times> QueuePair" where
  "ShouldSignal q =
     (let q1 = q\<lparr>qp_unsignaled_count := qp_unsignaled_count q + 1\<rparr>;
          should_signal = (qp_unsignaled_count q1 \<ge> qpc_signal_interval (qp_config q1))
      in if should_signal
         then (if \<not> CanPostSignaled q1 then (False, q1)
               else (True, q1\<lparr>qp_unsignaled_count := 0, qp_outstanding_signaled := qp_outstanding_signaled q1 + 1\<rparr>))
         else (False, q1))"

definition QP_OnSendComplete :: "bool \<Rightarrow> QueuePair \<Rightarrow> QueuePair" where
  "QP_OnSendComplete was_signaled q =
     (if was_signaled then q\<lparr>qp_outstanding_signaled := qp_outstanding_signaled q - 1\<rparr> else q)"

section \<open>Posting\<close>

definition sge_of_buffer :: "Buffer \<Rightarrow> ibv_sge" where
  "sge_of_buffer b = \<lparr>sge_addr = buf_addr b, sge_length = ucast (buf_length b), sge_lkey = buf_lkey b\<rparr>"

definition post_wr :: "'n qp_verbs \<Rightarrow> string \<Rightarrow> ibv_send_wr \<Rightarrow> QueuePair \<Rightarrow> 'n \<Rightarrow> Status \<times> QueuePair \<times> 'n" where
  "post_wr V msg wr q n =
     (case v_post_send V (qp_raw q) wr n of
        (Some e, n') \<Rightarrow> (Status_IOError msg e, q, n')
      | (None, n') \<Rightarrow> (Status_OK, q, n'))"

definition DoPostSend :: "'n qp_verbs \<Rightarrow> Buffer \<Rightarrow> u64 \<Rightarrow> bool \<Rightarrow> QueuePair \<Rightarrow> 'n \<Rightarrow> Status \<times> QueuePair \<times> 'n" where
  "DoPostSend V buf wr_id signaled q n =
     post_wr V ''ibv_post_send failed''
       (ibv_send_wr_zero\<lparr>swr_wr_id := wr_id, swr_opcode := IBV_WR_SEND, swr_signaled := signaled,
          swr_sg_list := [sge_of_buffer buf]\<rparr>) q n"

definition PostSend :: "'n qp_verbs \<Rightarrow> Buffer \<Rightarrow> u64 \<Rightarrow> QueuePair \<Rightarrow> 'n \<Rightarrow> Status \<times> QueuePair \<times> 'n" where
  "PostSend V buf wr_id q n = (let (sig, q1) = ShouldSignal q in DoPostSend V buf wr_id sig q1 n)"

definition PostSendInline :: "'n qp_verbs \<Rightarrow> ptr \<Rightarrow> size_t \<Rightarrow> u64 \<Rightarrow> QueuePair \<Rightarrow> 'n \<Rightarrow> Status \<times> QueuePair \<times> 'n" where
  "PostSendInline V data len wr_id q n =
     (if len > ucast (qpc_max_inline_data (qp_config q))
      then (Status_InvalidArgument ''Data too large for inline send'', q, n)
      else let (sig, q1) = ShouldSignal q
           in post_wr V ''ibv_post_send inline failed''
                (ibv_send_wr_zero\<lparr>swr_wr_id := wr_id, swr_opcode := IBV_WR_SEND, swr_inline := True, swr_signaled := sig,
                   swr_sg_list := [\<lparr>sge_addr = data, sge_length = ucast len, sge_lkey = 0\<rparr>]\<rparr>) q1 n)"

definition PostWrite ::
  "'n qp_verbs \<Rightarrow> Buffer \<Rightarrow> u64 \<Rightarrow> u32 \<Rightarrow> u64 \<Rightarrow> QueuePair \<Rightarrow> 'n \<Rightarrow> Status \<times> QueuePair \<times> 'n" where
  "PostWrite V buf remote_addr remote_rkey wr_id q n =
     (let (sig, q1) = ShouldSignal q
      in post_wr V ''ibv_post_send RDMA write failed''
           (ibv_send_wr_zero\<lparr>swr_wr_id := wr_id, swr_opcode := IBV_WR_RDMA_WRITE, swr_signaled := sig,
              swr_sg_list := [sge_of_buffer buf], swr_remote_addr := remote_addr, swr_rkey := remote_rkey\<rparr>) q1 n)"

definition PostWriteWithImm ::
  "'n qp_verbs \<Rightarrow> Buffer \<Rightarrow> u64 \<Rightarrow> u32 \<Rightarrow> u32 \<Rightarrow> u64 \<Rightarrow> QueuePair \<Rightarrow> 'n \<Rightarrow> Status \<times> QueuePair \<times> 'n" where
  "PostWriteWithImm V buf remote_addr remote_rkey imm_data wr_id q n =
     (let (sig, q1) = ShouldSignal q
      in post_wr V ''ibv_post_send RDMA write with imm failed''
           (ibv_send_wr_zero\<lparr>swr_wr_id := wr_id, swr_opcode := IBV_WR_RDMA_WRITE_WITH_IMM, swr_signaled := sig,
              swr_sg_list := [sge_of_buffer buf], swr_imm_data := htonl imm_data,
              swr_remote_addr := remote_addr, swr_rkey := remote_rkey\<rparr>) q1 n)"

definition PostRead ::
  "'n qp_verbs \<Rightarrow> Buffer \<Rightarrow> u64 \<Rightarrow> u32 \<Rightarrow> u64 \<Rightarrow> QueuePair \<Rightarrow> 'n \<Rightarrow> Status \<times> QueuePair \<times> 'n" where
  "PostRead V buf remote_addr remote_rkey wr_id q n =
     (let (sig, q1) = ShouldSignal q
      in post_wr V ''ibv_post_send RDMA read failed''
           (ibv_send_wr_zero\<lparr>swr_wr_id := wr_id, swr_opcode := IBV_WR_RDMA_READ, swr_signaled := sig,
              swr_sg_list := [sge_of_buffer buf], swr_remote_addr := remote_addr, swr_rkey := remote_rkey\<rparr>) q1 n)"

definition PostRecv :: "'n qp_verbs \<Rightarrow> Buffer \<Rightarrow> u64 \<Rightarrow> QueuePair \<Rightarrow> 'n \<Rightarrow> Status \<times> 'n" where
  "PostRecv V buf wr_id q n =
     modify_status ''ibv_post_recv failed''
       (v_post_recv V (qp_raw q) \<lparr>rwr_wr_id = wr_id, rwr_sg_list = [sge_of_buffer buf]\<rparr> n)"

section \<open>Scatter-gather sends\<close>

text \<open>\<open>iov\<close> is the list of the \<open>count\<close> entries that are read.\<close>

definition DoPostSendSGL ::
  "'n qp_verbs \<Rightarrow> iovec list \<Rightarrow> u32 \<Rightarrow> u64 \<Rightarrow> bool \<Rightarrow> QueuePair \<Rightarrow> 'n \<Rightarrow> Status \<times> QueuePair \<times> 'n" where
  "DoPostSendSGL V iov lkey wr_id signaled q n =
     (if length iov > 16 then (Status_InvalidArgument ''Too many SGEs'', q, n)
      else post_wr V ''ibv_post_send SGL failed''
             (ibv_send_wr_zero\<lparr>swr_wr_id := wr_id, swr_opcode := IBV_WR_SEND, swr_signaled := signaled,
                swr_sg_list := map (sge_of lkey) iov\<rparr>) q n)"

definition frag_wr_id :: "u16 \<Rightarrow> u8 \<Rightarrow> u64 \<Rightarrow> u32 \<Rightarrow> u64" where
  "frag_wr_id conn_id generation wr_id_base fragment_index =
     WrId_Encode conn_id REQUEST_SEND generation
       (((ucast wr_id_base :: u32) AND 0xFFFFFF) OR push_bit 24 fragment_index)"

text \<open>The loop over the fragments: \<open>None\<close> when it does not end.\<close>

partial_function (option) sgl_loop ::
  "'n qp_verbs \<Rightarrow> nat \<Rightarrow> u16 \<Rightarrow> u8 \<Rightarrow> u64 \<Rightarrow> iovec list \<Rightarrow> u32 \<Rightarrow> QueuePair \<Rightarrow> 'n \<Rightarrow> (Status \<times> QueuePair \<times> 'n) option"
where
  "sgl_loop V max_sge conn_id generation wr_id_base iov fragment_index q n =
     (if length iov > 0
      then
        let chunk = (if length iov < max_sge then length iov else max_sge);
            is_last = (length iov = chunk);
            (sig, q1) = (if is_last then ShouldSignal q else (False, q));
            (st, q2, n') = DoPostSendSGL V (take chunk iov) 0
                             (frag_wr_id conn_id generation wr_id_base fragment_index) sig q1 n
        in if \<not> Status_ok st then Some (st, q2, n')
           else sgl_loop V max_sge conn_id generation wr_id_base (drop chunk iov) (fragment_index + 1) q2 n'
      else Some (Status_OK, q, n))"

definition PostSendSGL ::
  "'n qp_verbs \<Rightarrow> iovec list \<Rightarrow> u64 \<Rightarrow> u16 \<Rightarrow> u8 \<Rightarrow> QueuePair \<Rightarrow> 'n \<Rightarrow> (Status \<times> QueuePair \<times> 'n) option" where
  "PostSendSGL V iov wr_id_base conn_id generation q n =
     (let max_sge = unat (qpc_max_send_sge (qp_config q))
      in if length iov \<le> max_sge
         then let (sig, q1) = ShouldSignal q in Some (DoPostSendSGL V iov 0 wr_id_base sig q1 n)
         else sgl_loop V max_sge conn_id generation wr_id_base iov 0 q n)"

section \<open>When a request is signaled\<close>

text \<open>\<open>k\<close> consecutive decisions.\<close>

primrec signal_seq :: "nat \<Rightarrow> QueuePair \<Rightarrow> bool list \<times> QueuePair" where
  "signal_seq 0 q = ([], q)"
| "signal_seq (Suc k) q = (let (bs, q1) = signal_seq k q; (b, q2) = ShouldSignal q1 in (bs @ [b], q2))"

lemma ShouldSignal_frame: "ShouldSignal q = (b, q') \<Longrightarrow> qp_config q' = qp_config q \<and> qp_raw q' = qp_raw q"
  by (auto simp: ShouldSignal_def Let_def split: if_splits)

lemma ShouldSignal_nat:
  assumes "unat (qp_unsignaled_count q) < 2 ^ 32 - 1"
  defines "s \<equiv> unat (qpc_signal_interval (qp_config q))"
  shows "ShouldSignal q =
     (if Suc (unat (qp_unsignaled_count q)) \<ge> s \<and> CanPostSignaled q
      then (True, q\<lparr>qp_unsignaled_count := 0, qp_outstanding_signaled := qp_outstanding_signaled q + 1\<rparr>)
      else (False, q\<lparr>qp_unsignaled_count := qp_unsignaled_count q + 1\<rparr>))"
proof -
  have "unat (qp_unsignaled_count q + 1) = Suc (unat (qp_unsignaled_count q))"
    using assms(1) by (simp add: unat_word_ariths)
  then show ?thesis
    by (simp add: ShouldSignal_def Let_def CanPostSignaled_def s_def word_le_nat_alt)
qed

lemma signal_seq_period:
  assumes "qp_unsignaled_count q = 0" and "0 < unat (qpc_signal_interval (qp_config q))"
    and "unat (qp_outstanding_signaled q) + k div unat (qpc_signal_interval (qp_config q)) \<le>
           unat (qpc_cq_depth (qp_config q) div 2)"
  defines "s \<equiv> unat (qpc_signal_interval (qp_config q))"
  shows "\<exists>q'. signal_seq k q = (map (\<lambda>i. s dvd Suc i) [0..<k], q') \<and>
           qp_config q' = qp_config q \<and> qp_raw q' = qp_raw q \<and> unat (qp_unsignaled_count q') = k mod s \<and>
           unat (qp_outstanding_signaled q') = unat (qp_outstanding_signaled q) + k div s"
  using assms(3)
proof (induction k)
  case 0
  then show ?case using assms(1) by simp
next
  case (Suc k)
  have s: "0 < s" "s < 2 ^ 32" using assms(2) unat_u32_lt [of "qpc_signal_interval (qp_config q)"]
    by (simp_all add: s_def)
  have "k div s \<le> Suc k div s" by (simp add: div_le_mono)
  with Suc.prems have "unat (qp_outstanding_signaled q) + k div unat (qpc_signal_interval (qp_config q)) \<le>
      unat (qpc_cq_depth (qp_config q) div 2)" unfolding s_def by linarith
  from Suc.IH [OF this] obtain q1 where
    q1: "signal_seq k q = (map (\<lambda>i. s dvd Suc i) [0..<k], q1)" "qp_config q1 = qp_config q" "qp_raw q1 = qp_raw q"
      "unat (qp_unsignaled_count q1) = k mod s"
      "unat (qp_outstanding_signaled q1) = unat (qp_outstanding_signaled q) + k div s" by blast
  have lt: "k mod s < s" using s by simp
  have room: "unat (qp_unsignaled_count q1) < 2 ^ 32 - 1" using q1(4) lt s by linarith
  show ?case
  proof (cases "Suc (k mod s) = s")
    case True
    then have mod: "Suc k mod s = 0" by (simp only: mod_Suc simp_thms if_True)
    then have div: "Suc k div s = Suc (k div s)" by (simp add: div_Suc)
    have can: "CanPostSignaled q1"
      using Suc.prems div q1(2,5) by (simp add: CanPostSignaled_def word_less_nat_alt s_def)
    have "unat (qp_outstanding_signaled q1 + 1) = Suc (unat (qp_outstanding_signaled q1))"
      using can unat_u32_lt [of "qpc_cq_depth (qp_config q1) div 2"]
      by (simp add: CanPostSignaled_def word_less_nat_alt unat_word_ariths)
    moreover have "ShouldSignal q1 = (True, q1\<lparr>qp_unsignaled_count := 0,
        qp_outstanding_signaled := qp_outstanding_signaled q1 + 1\<rparr>)"
      using ShouldSignal_nat [OF room] True can q1(2,4) by (simp add: s_def)
    moreover have "s dvd Suc k" using mod by auto
    ultimately show ?thesis using q1 mod div by simp
  next
    case False
    then have mod: "Suc k mod s = Suc (k mod s)" and div: "Suc k div s = k div s"
      by (simp_all add: mod_Suc div_Suc)
    have "ShouldSignal q1 = (False, q1\<lparr>qp_unsignaled_count := qp_unsignaled_count q1 + 1\<rparr>)"
      using ShouldSignal_nat [OF room] False lt q1(2,4) by (simp add: s_def)
    moreover have "unat (qp_unsignaled_count q1 + 1) = Suc (k mod s)"
      using room q1(4) by (simp add: unat_word_ariths)
    moreover have "\<not> s dvd Suc k" using mod by (auto simp: dvd_eq_mod_eq_0)
    ultimately show ?thesis using q1 mod div by simp
  qed
qed

text \<open>
  Starting from a reset counter and with room in the completion queue, exactly every
  \<open>signal_interval\<close>-th send request is signaled, and the outstanding counter grows by the number of
  signaled requests.
\<close>

theorem every_interval_signaled:
  assumes "qp_unsignaled_count q = 0" and "0 < unat (qpc_signal_interval (qp_config q))"
    and "unat (qp_outstanding_signaled q) + k div unat (qpc_signal_interval (qp_config q)) \<le>
           unat (qpc_cq_depth (qp_config q) div 2)"
  shows "fst (signal_seq k q) = map (\<lambda>i. unat (qpc_signal_interval (qp_config q)) dvd Suc i) [0..<k] \<and>
         unat (qp_outstanding_signaled (snd (signal_seq k q))) =
           unat (qp_outstanding_signaled q) + k div unat (qpc_signal_interval (qp_config q))"
  using signal_seq_period [OF assms] by auto

definition sample_qp :: QueuePair where
  "sample_qp = \<lparr>qp_raw = 1, qp_raw_num = 7, qp_pd = None, qp_send_cq = None, qp_recv_cq = None,
     qp_config = QueuePairConfig_default\<lparr>qpc_signal_interval := 2, qpc_cq_depth := 4\<rparr>,
     qp_unsignaled_count = 0, qp_outstanding_signaled = 0\<rparr>"

theorem every_interval_signaled_witness:
  "fst (signal_seq 4 sample_qp) = [False, True, False, True]"
proof -
  have cfg: "unat (qpc_signal_interval (qp_config sample_qp)) = 2" "unat (qpc_cq_depth (qp_config sample_qp) div 2) = 2"
    "qp_unsignaled_count sample_qp = 0" "qp_outstanding_signaled sample_qp = 0"
    by (simp_all add: sample_qp_def QueuePairConfig_default_def)
  have "fst (signal_seq 4 sample_qp) = map (\<lambda>i. 2 dvd Suc i) [0..<4]"
    using every_interval_signaled [of sample_qp 4] by (simp add: cfg)
  also have "\<dots> = [False, True, False, True]" by (simp add: upt_rec)
  finally show ?thesis .
qed

section \<open>Backpressure\<close>

text \<open>
  The device with a meter: beside its own state it counts the requests it has accepted that carry the
  signaled flag and whose completion has not been processed.
\<close>

definition metered :: "'n qp_verbs \<Rightarrow> ('n \<times> nat) qp_verbs" where
  "metered V =
     \<lparr>v_post_send = (\<lambda>p wr (n, inflight).
        (case v_post_send V p wr n of
           (Some e, n') \<Rightarrow> (Some e, n', inflight)
         | (None, n') \<Rightarrow> (None, n', if swr_signaled wr then Suc inflight else inflight))),
      v_post_recv = (\<lambda>p wr (n, inflight). case v_post_recv V p wr n of (r, n') \<Rightarrow> (r, n', inflight)),
      v_modify_qp = (\<lambda>p a m (n, inflight). case v_modify_qp V p a m n of (r, n') \<Rightarrow> (r, n', inflight))\<rparr>"

text \<open>
  The post operations of a client and the processing of a signaled completion, which takes place only
  when there is one. \<open>None\<close> is a scattered send that does not return.
\<close>

datatype qp_op =
    Post_Send Buffer u64
  | Post_Inline ptr size_t u64
  | Post_Write Buffer u64 u32 u64
  | Post_Write_Imm Buffer u64 u32 u32 u64
  | Post_Read Buffer u64 u32 u64
  | Post_SGL "iovec list" u64 u16 u8
  | Complete_Signaled

fun qp_exec :: "'n qp_verbs \<Rightarrow> qp_op \<Rightarrow> QueuePair \<times> 'n \<times> nat \<Rightarrow> (QueuePair \<times> 'n \<times> nat) option" where
  "qp_exec V (Post_Send b w) (q, d) = Some (snd (PostSend (metered V) b w q d))"
| "qp_exec V (Post_Inline p l w) (q, d) = Some (snd (PostSendInline (metered V) p l w q d))"
| "qp_exec V (Post_Write b a k w) (q, d) = Some (snd (PostWrite (metered V) b a k w q d))"
| "qp_exec V (Post_Write_Imm b a k m w) (q, d) = Some (snd (PostWriteWithImm (metered V) b a k m w q d))"
| "qp_exec V (Post_Read b a k w) (q, d) = Some (snd (PostRead (metered V) b a k w q d))"
| "qp_exec V (Post_SGL iov w c g) (q, d) = map_option snd (PostSendSGL (metered V) iov w c g q d)"
| "qp_exec V Complete_Signaled (q, n, i) = Some (if i = 0 then (q, n, i) else (QP_OnSendComplete True q, n, i - 1))"

primrec qp_run :: "'n qp_verbs \<Rightarrow> qp_op list \<Rightarrow> QueuePair \<times> 'n \<times> nat \<Rightarrow> (QueuePair \<times> 'n \<times> nat) option" where
  "qp_run V [] c = Some c"
| "qp_run V (x # xs) c = Option.bind (qp_exec V x c) (qp_run V xs)"

text \<open>The counter stays between the signaled requests in flight and the limit.\<close>

definition credit_inv :: "QueuePairConfig \<Rightarrow> QueuePair \<times> 'n \<times> nat \<Rightarrow> bool" where
  "credit_inv cfg c \<longleftrightarrow> (case c of (q, n, i) \<Rightarrow> qp_config q = cfg \<and>
     i \<le> unat (qp_outstanding_signaled q) \<and>
     unat (qp_outstanding_signaled q) \<le> unat (qpc_cq_depth cfg div 2))"

lemma ShouldSignal_credit:
  assumes "ShouldSignal q = (b, q')"
    and "unat (qp_outstanding_signaled q) \<le> unat (qpc_cq_depth (qp_config q) div 2)"
  shows "unat (qp_outstanding_signaled q') \<le> unat (qpc_cq_depth (qp_config q') div 2) \<and>
         unat (qp_outstanding_signaled q') = unat (qp_outstanding_signaled q) + (if b then 1 else 0)"
proof (cases b)
  case True
  then have can: "CanPostSignaled q" and q': "qp_outstanding_signaled q' = qp_outstanding_signaled q + 1"
    "qp_config q' = qp_config q"
    using assms(1) by (auto simp: ShouldSignal_def Let_def CanPostSignaled_def split: if_splits)
  then have "unat (qp_outstanding_signaled q) < unat (qpc_cq_depth (qp_config q) div 2)"
    by (simp add: CanPostSignaled_def word_less_nat_alt)
  moreover from this have "unat (qp_outstanding_signaled q + 1) = unat (qp_outstanding_signaled q) + 1"
    using unat_u32_lt [of "qpc_cq_depth (qp_config q) div 2"] by (simp add: unat_word_ariths)
  ultimately show ?thesis using q' True by simp
next
  case False
  then show ?thesis using assms by (auto simp: ShouldSignal_def Let_def split: if_splits)
qed

lemma post_wr_frame: "post_wr V msg wr q n = (st, q', n') \<Longrightarrow> q' = q"
  by (auto simp: post_wr_def split: prod.splits option.splits)

text \<open>A request carries the flag only when \<open>ShouldSignal\<close> has taken a credit for it.\<close>

lemma metered_post:
  assumes "post_wr (metered V) msg wr q (n, i) = (st, q', n', i')"
  shows "q' = q \<and> i' \<le> i + (if swr_signaled wr then 1 else 0)"
  using assms by (auto simp: post_wr_def metered_def split: prod.splits option.splits if_splits)

lemma credit_inv_post:
  assumes inv: "credit_inv cfg (q, n, i)" and s: "ShouldSignal q = (b, q1)" and "swr_signaled wr \<longrightarrow> b"
    and r: "post_wr (metered V) msg wr q1 (n, i) = r"
  shows "credit_inv cfg (snd r)"
proof -
  obtain st q' n' i' where r': "r = (st, q', n', i')" by (cases r)
  from metered_post [OF r [unfolded r']] have "q' = q1" "i' \<le> i + (if swr_signaled wr then 1 else 0)" by blast+
  moreover have le: "i \<le> unat (qp_outstanding_signaled q)"
    "unat (qp_outstanding_signaled q) \<le> unat (qpc_cq_depth (qp_config q) div 2)" and cfg: "qp_config q = cfg"
    using inv by (simp_all add: credit_inv_def)
  moreover note ShouldSignal_credit [OF s le(2)] ShouldSignal_frame [OF s]
  ultimately show ?thesis using assms(3) by (auto simp: credit_inv_def r' split: if_splits)
qed

text \<open>A request that is posted without asking.\<close>

lemma credit_inv_silent:
  assumes "credit_inv cfg (q, d)" and "\<not> swr_signaled wr"
  shows "credit_inv cfg (snd (post_wr (metered V) msg wr q d))"
proof -
  obtain n i where d: "d = (n, i)" by (cases d)
  obtain st q' n' i' where r: "post_wr (metered V) msg wr q d = (st, q', n', i')" by (metis prod.exhaust)
  from metered_post [OF r [unfolded d]] assms(2) have "q' = q" "i' \<le> i" by simp_all
  with assms(1) r d show ?thesis by (simp add: credit_inv_def)
qed

lemma credit_inv_SGL:
  assumes "credit_inv cfg (q, d)" and "ShouldSignal q = (b, q1)"
  shows "credit_inv cfg (snd (DoPostSendSGL (metered V) iov k w b q1 d))"
    and "credit_inv cfg (snd (DoPostSendSGL (metered V) iov k w False q d))"
proof -
  obtain n i where d: "d = (n, i)" by (cases d)
  have "credit_inv cfg (q1, n, i)"
    using assms ShouldSignal_credit [OF assms(2)] ShouldSignal_frame [OF assms(2)] by (auto simp: credit_inv_def d split: if_splits)
  with credit_inv_post [OF assms(1) [unfolded d] assms(2) _ refl]
  show "credit_inv cfg (snd (DoPostSendSGL (metered V) iov k w b q1 d))" by (simp add: DoPostSendSGL_def d)
  from credit_inv_silent [OF assms(1)] show "credit_inv cfg (snd (DoPostSendSGL (metered V) iov k w False q d))"
    using assms(1) by (simp add: DoPostSendSGL_def ibv_send_wr_zero_def)
qed

lemma sgl_loop_credit:
  assumes "0 < m" and "credit_inv cfg (q, d)"
  shows "\<exists>r. sgl_loop (metered V) m c g w iov k q d = Some r \<and> credit_inv cfg (snd r)"
  using assms(2)
proof (induction "length iov" arbitrary: iov k q d rule: less_induct)
  case less
  obtain b q1 where s: "ShouldSignal q = (b, q1)" by (cases "ShouldSignal q")
  show ?case
  proof (cases "iov = []")
    case True
    with less.prems show ?thesis by (subst sgl_loop.simps) simp
  next
    case False
    let ?ch = "if length iov < m then length iov else m"
    obtain sig q2 where q2: "(if length iov = ?ch then ShouldSignal q else (False, q)) = (sig, q2)"
      by (cases "if length iov = ?ch then ShouldSignal q else (False, q)")
    obtain st q3 d3 where p: "DoPostSendSGL (metered V) (take ?ch iov) 0 (frag_wr_id c g w k) sig q2 d = (st, q3, d3)"
      by (metis prod.exhaust)
    have inv: "credit_inv cfg (q3, d3)"
      using credit_inv_SGL [OF less.prems s, of V "take ?ch iov" 0 "frag_wr_id c g w k"] q2 p s by (auto split: if_splits)
    have "length (drop ?ch iov) < length iov" using False assms(1) by (simp add: length_drop)
    from less.hyps [OF this inv, of "k + 1"] obtain r where
      r: "sgl_loop (metered V) m c g w (drop ?ch iov) (k + 1) q3 d3 = Some r" "credit_inv cfg (snd r)" by blast
    have "sgl_loop (metered V) m c g w iov k q d =
        (if \<not> Status_ok st then Some (st, q3, d3) else sgl_loop (metered V) m c g w (drop ?ch iov) (k + 1) q3 d3)"
      using False q2 p by (subst sgl_loop.simps) (simp add: Let_def)
    with r inv show ?thesis by (cases r; cases d3) auto
  qed
qed

lemma credit_inv_exec:
  assumes "1 \<le> unat (qpc_max_send_sge cfg)" and "credit_inv cfg c"
  shows "\<exists>c'. qp_exec V x c = Some c' \<and> credit_inv cfg c'"
proof -
  obtain q n i where c: "c = (q, n, i)" by (cases c)
  obtain b q1 where s: "ShouldSignal q = (b, q1)" by (cases "ShouldSignal q")
  have q: "qp_config q = cfg" using assms(2) by (simp add: c credit_inv_def)
  note post = credit_inv_post [OF assms(2) [unfolded c] s _ refl]
  show ?thesis
  proof (cases x)
    case (Post_SGL iov w c' g)
    obtain r where r: "sgl_loop (metered V) (unat (qpc_max_send_sge cfg)) c' g w iov 0 q (n, i) = Some r" "credit_inv cfg (snd r)"
      using sgl_loop_credit [of "unat (qpc_max_send_sge cfg)" cfg q "(n, i)" V c' g w iov 0] assms by (auto simp: c)
    have "PostSendSGL (metered V) iov w c' g q (n, i) =
        Some (if length iov \<le> unat (qpc_max_send_sge cfg) then DoPostSendSGL (metered V) iov 0 w b q1 (n, i) else r)"
      using r(1) by (simp add: PostSendSGL_def q s)
    with Post_SGL r(2) credit_inv_SGL(1) [OF assms(2) [unfolded c] s, of V iov 0 w] show ?thesis by (simp add: c)
  next
    case Complete_Signaled
    have "unat (qp_outstanding_signaled q - 1) = unat (qp_outstanding_signaled q) - 1" if "0 < i"
    proof (rule unat_minus_one)
      show "qp_outstanding_signaled q \<noteq> 0" using that assms(2) by (auto simp: c credit_inv_def)
    qed
    with assms(2) Complete_Signaled show ?thesis by (auto simp: c credit_inv_def QP_OnSendComplete_def)
  qed (use post assms(2) in \<open>simp_all add: c s PostSend_def DoPostSend_def PostSendInline_def PostWrite_def PostWriteWithImm_def PostRead_def\<close>)
qed

text \<open>
  C29. Whatever the device accepts or refuses, a queue pair that may send at least one entry per
  request and whose completions are reported once never has more signaled requests in flight than
  half the depth of the completion queue: the requests the device has accepted with the signaled flag
  and not yet completed are at most the counter, and the counter is at most that bound, so that it
  never wraps. Every post operation returns, the fragmenting send included.
\<close>

theorem signaled_requests_bounded:
  assumes "qp_outstanding_signaled q = 0" and "1 \<le> unat (qpc_max_send_sge (qp_config q))"
  shows "\<exists>q' n' inflight. qp_run V ops (q, n, 0) = Some (q', n', inflight) \<and> qp_config q' = qp_config q \<and>
    inflight \<le> unat (qp_outstanding_signaled q') \<and>
    unat (qp_outstanding_signaled q') \<le> unat (qpc_cq_depth (qp_config q) div 2)"
proof -
  have "\<exists>c'. qp_run V ops c = Some c' \<and> credit_inv (qp_config q) c'" if "credit_inv (qp_config q) c" for c
    using that
  proof (induction ops arbitrary: c)
    case (Cons x xs)
    from credit_inv_exec [OF assms(2) Cons.prems, of V x] Cons.IH show ?case by fastforce
  qed simp
  from this [of "(q, n, 0)"] assms(1) show ?thesis by (auto simp: credit_inv_def)
qed

text \<open>An accepting device: of four requests, the last one fragmented, two are signaled, one of them completed.\<close>

definition accepting_verbs :: "'n qp_verbs" where
  "accepting_verbs = \<lparr>v_post_send = (\<lambda>_ _ n. (None, n)), v_post_recv = (\<lambda>_ _ n. (None, n)), v_modify_qp = (\<lambda>_ _ _ n. (None, n))\<rparr>"

theorem signaled_requests_bounded_witness:
  "\<exists>q' n' inflight. qp_run accepting_verbs [Post_Read Buffer_null 0 0 1, Post_Send Buffer_null 2, Post_Inline 4096 8 3,
       Post_SGL (replicate 17 \<lparr>iov_base = 4096, iov_len = 8\<rparr>) 4 0 0, Complete_Signaled] (sample_qp, (), 0) = Some (q', n', inflight) \<and>
     inflight \<le> unat (qp_outstanding_signaled q') \<and> unat (qp_outstanding_signaled q') \<le> 2"
proof -
  have "unat (qpc_cq_depth (qp_config sample_qp) div 2) = 2" "1 \<le> unat (qpc_max_send_sge (qp_config sample_qp))"
    "qp_outstanding_signaled sample_qp = 0" by (simp_all add: sample_qp_def QueuePairConfig_default_def)
  with signaled_requests_bounded [of sample_qp accepting_verbs "[Post_Read Buffer_null 0 0 1, Post_Send Buffer_null 2, Post_Inline 4096 8 3,
       Post_SGL (replicate 17 \<lparr>iov_base = 4096, iov_len = 8\<rparr>) 4 0 0, Complete_Signaled]" "()"] show ?thesis by auto
qed

section \<open>Failed posts keep their credit\<close>

definition refusing_verbs :: "int \<Rightarrow> 'n qp_verbs" where
  "refusing_verbs e =
     \<lparr>v_post_send = (\<lambda>_ _ n. (Some e, n)), v_post_recv = (\<lambda>_ _ n. (Some e, n)), v_modify_qp = (\<lambda>_ _ _ n. (Some e, n))\<rparr>"

primrec repeat_send :: "'n qp_verbs \<Rightarrow> Buffer \<Rightarrow> u64 \<Rightarrow> nat \<Rightarrow> QueuePair \<times> 'n \<Rightarrow> QueuePair \<times> 'n" where
  "repeat_send V b w 0 c = c"
| "repeat_send V b w (Suc k) c = (let (q, n) = repeat_send V b w k c; (st, q', n') = PostSend V b w q n in (q', n'))"

lemma repeat_send_refused: "repeat_send (refusing_verbs e) b w k (q, n) = (snd (signal_seq k q), n)"
  by (induction k)
    (simp_all add: PostSend_def DoPostSend_def post_wr_def refusing_verbs_def Let_def split: prod.splits)

text \<open>
  A send that the device refuses keeps the credit it took: after \<open>signal_interval\<close> times half the
  completion-queue depth refused sends nothing is in flight and yet no request will ever be signaled
  again, so that unsignaled work requests can no longer be retired.
\<close>

theorem refused_sends_exhaust_credit:
  assumes "qp_unsignaled_count q = 0" and "qp_outstanding_signaled q = 0"
    and "0 < unat (qpc_signal_interval (qp_config q))"
  shows "case repeat_send (refusing_verbs e) b w
                (unat (qpc_signal_interval (qp_config q)) * unat (qpc_cq_depth (qp_config q) div 2)) (q, n) of
           (q', n') \<Rightarrow> n' = n \<and> \<not> CanPostSignaled q' \<and> \<not> fst (ShouldSignal q')"
proof -
  let ?s = "unat (qpc_signal_interval (qp_config q))" and ?D = "unat (qpc_cq_depth (qp_config q) div 2)"
  from signal_seq_period [OF assms(1,3), of "?s * ?D"] assms(2,3) obtain q' where
    q': "signal_seq (?s * ?D) q = (map (\<lambda>i. ?s dvd Suc i) [0..<?s * ?D], q')" "qp_config q' = qp_config q"
      "unat (qp_outstanding_signaled q') = ?D" by auto
  then have "\<not> CanPostSignaled q'" by (simp add: CanPostSignaled_def word_less_nat_alt)
  moreover from this have "\<not> fst (ShouldSignal q')" by (simp add: ShouldSignal_def Let_def CanPostSignaled_def)
  ultimately show ?thesis using q'(1) by (simp add: repeat_send_refused)
qed

theorem refused_sends_exhaust_credit_witness:
  "case repeat_send (refusing_verbs 12) Buffer_null 0
          (unat (qpc_signal_interval (qp_config sample_qp)) * unat (qpc_cq_depth (qp_config sample_qp) div 2))
          (sample_qp, ()) of
     (q', n') \<Rightarrow> n' = () \<and> \<not> CanPostSignaled q' \<and> \<not> fst (ShouldSignal q')"
  by (rule refused_sends_exhaust_credit) (simp_all add: sample_qp_def QueuePairConfig_default_def)

section \<open>Scatter-gather sends\<close>

text \<open>A device that accepts every request and keeps them in order.\<close>

definition recording_verbs :: "ibv_send_wr list qp_verbs" where
  "recording_verbs =
     \<lparr>v_post_send = (\<lambda>_ wr n. (None, n @ [wr])), v_post_recv = (\<lambda>_ _ n. (None, n)), v_modify_qp = (\<lambda>_ _ _ n. (None, n))\<rparr>"

definition sgl_wr :: "u64 \<Rightarrow> iovec list \<Rightarrow> bool \<Rightarrow> ibv_send_wr" where
  "sgl_wr wr_id iov sig = ibv_send_wr_zero\<lparr>swr_wr_id := wr_id, swr_opcode := IBV_WR_SEND, swr_signaled := sig,
     swr_sg_list := map (sge_of 0) iov\<rparr>"

lemma DoPostSendSGL_recorded:
  "length iov \<le> 16 \<Longrightarrow> DoPostSendSGL recording_verbs iov 0 w sig q n = (Status_OK, q, n @ [sgl_wr w iov sig])"
  by (simp add: DoPostSendSGL_def post_wr_def recording_verbs_def sgl_wr_def)

text \<open>What a fragmented send must look like on the wire.\<close>

definition fragments_ok :: "nat \<Rightarrow> iovec list \<Rightarrow> ibv_send_wr list \<Rightarrow> bool" where
  "fragments_ok m iov wrs \<longleftrightarrow>
     concat (map swr_sg_list wrs) = map (sge_of 0) iov \<and>
     list_all (\<lambda>wr. length (swr_sg_list wr) \<le> m) wrs \<and>
     list_all (\<lambda>wr. \<not> swr_signaled wr) (butlast wrs)"

lemma ceil_div_one: "0 < k \<Longrightarrow> k \<le> m \<Longrightarrow> (k + m - 1) div m = 1" for k m :: nat
  by (rule div_nat_eqI) auto

lemma sgl_loop_recorded:
  assumes "1 \<le> m" and "m \<le> 16"
  shows "\<exists>q' wrs. sgl_loop recording_verbs m c g w iov k q n = Some (Status_OK, q', n @ wrs) \<and>
           fragments_ok m iov wrs \<and> length wrs = (length iov + m - 1) div m"
proof (induction "length iov" arbitrary: iov k q n rule: less_induct)
  case less
  show ?case
  proof (cases "iov = []")
    case True
    then show ?thesis using assms(1) by (subst sgl_loop.simps) (simp add: fragments_ok_def)
  next
    case False
    define ch where "ch = (if length iov < m then length iov else m)"
    obtain sig q1 where sig: "(if length iov = ch then ShouldSignal q else (False, q)) = (sig, q1)"
      by (cases "if length iov = ch then ShouldSignal q else (False, q)")
    have ch: "0 < ch" "ch \<le> length iov" "ch \<le> m" "ch \<le> 16" using False assms by (auto simp: ch_def)
    let ?wr = "sgl_wr (frag_wr_id c g w k) (take ch iov) sig"
    have step: "sgl_loop recording_verbs m c g w iov k q n =
        sgl_loop recording_verbs m c g w (drop ch iov) (k + 1) q1 (n @ [?wr])"
      using False ch sig
      by (subst sgl_loop.simps) (simp add: ch_def [symmetric] Let_def DoPostSendSGL_recorded del: if_split)
    have "length (drop ch iov) < length iov" using ch by simp
    from less [OF this, of "k + 1" q1 "n @ [?wr]"] obtain q' wrs where
      rest: "sgl_loop recording_verbs m c g w (drop ch iov) (k + 1) q1 (n @ [?wr]) = Some (Status_OK, q', (n @ [?wr]) @ wrs)"
        "fragments_ok m (drop ch iov) wrs" "length wrs = (length (drop ch iov) + m - 1) div m" by blast
    have unsig: "wrs \<noteq> [] \<Longrightarrow> \<not> sig"
      using rest(3) sig assms(1) by (cases "length iov = ch") auto
    have "fragments_ok m iov (?wr # wrs)"
      using rest(2) ch unsig unfolding fragments_ok_def
      by (auto simp: sgl_wr_def map_append [symmetric] simp del: map_append)
    moreover have "length (?wr # wrs) = (length iov + m - 1) div m"
    proof (cases "length iov < m")
      case True
      then have "ch = length iov" "(length iov + m - 1) div m = 1"
        using False ceil_div_one [of "length iov" m] by (simp_all add: ch_def)
      with rest(3) assms(1) show ?thesis by simp
    next
      case False
      then have "length iov + m - 1 = (length (drop ch iov) + m - 1) + m" using assms(1) by (simp add: ch_def)
      then have "(length iov + m - 1) div m = (length (drop ch iov) + m - 1) div m + 1"
        using assms(1) by (simp only: div_add_self2)
      then show ?thesis using rest(3) by simp
    qed
    ultimately show ?thesis using step rest(1) by (intro exI [of _ q'] exI [of _ "?wr # wrs"]) simp
  qed
qed

text \<open>
  C30. On a device that accepts its requests, a scatter-gather send of a vector with an entry, on a queue
  pair configured for one to sixteen entries per request, terminates, sends exactly the entries of the vector in order, splits them into the least
  number of requests, none with more entries than the limit, and asks for a completion at most on
  the last one.
\<close>

theorem PostSendSGL_complete:
  assumes "1 \<le> unat (qpc_max_send_sge (qp_config q))" and "unat (qpc_max_send_sge (qp_config q)) \<le> 16"
    and "iov \<noteq> []"
  shows "\<exists>q' wrs. PostSendSGL recording_verbs iov w c g q [] = Some (Status_OK, q', wrs) \<and>
           fragments_ok (unat (qpc_max_send_sge (qp_config q))) iov wrs \<and>
           length wrs = (length iov + unat (qpc_max_send_sge (qp_config q)) - 1) div unat (qpc_max_send_sge (qp_config q))"
proof (cases "length iov \<le> unat (qpc_max_send_sge (qp_config q))")
  case True
  let ?m = "unat (qpc_max_send_sge (qp_config q))"
  obtain sig q1 where sig: "ShouldSignal q = (sig, q1)" by (cases "ShouldSignal q")
  have "(length iov + ?m - 1) div ?m = 1"
    using True assms(3) by (intro ceil_div_one) simp_all
  moreover have "fragments_ok ?m iov [sgl_wr w iov sig]" using True by (simp add: fragments_ok_def sgl_wr_def)
  ultimately show ?thesis
    using True assms(2) sig by (auto simp: PostSendSGL_def DoPostSendSGL_recorded)
next
  case False
  with sgl_loop_recorded [OF assms(1,2), of c g w iov 0 q "[]"] show ?thesis
    by (simp add: PostSendSGL_def)
qed

theorem PostSendSGL_complete_witness:
  "\<exists>q' wrs. PostSendSGL recording_verbs (replicate 17 \<lparr>iov_base = 4096, iov_len = 8\<rparr>) 5 1 0 sample_qp [] =
       Some (Status_OK, q', wrs) \<and> length wrs = 2"
proof -
  have m: "unat (qpc_max_send_sge (qp_config sample_qp)) = 16" by (simp add: sample_qp_def QueuePairConfig_default_def)
  have "replicate 17 \<lparr>iov_base = 4096, iov_len = 8\<rparr> \<noteq> ([] :: iovec list)" by simp
  from PostSendSGL_complete [of sample_qp, unfolded m, OF _ _ this, of 5 1 0] show ?thesis by auto
qed

text \<open>
  With \<open>max_send_sge = 0\<close> the fragment loop of a non-empty vector never ends: each turn posts an
  empty request.
\<close>

theorem PostSendSGL_zero_sge_diverges:
  assumes "qpc_max_send_sge (qp_config q) = 0" and "iov \<noteq> []"
  shows "PostSendSGL recording_verbs iov w c g q n = None"
proof -
  have "V = recording_verbs \<longrightarrow> m = 0 \<longrightarrow> iov \<noteq> [] \<longrightarrow> False" if "sgl_loop V m c g w iov k q n = Some r"
    for V :: "ibv_send_wr list qp_verbs" and m c g w iov k q n r
    using that
  proof (rule sgl_loop.raw_induct [rotated], goal_cases)
    case (1 loop V m c g w iov k q n r)
    show ?case
    proof (intro impI)
      assume *: "V = recording_verbs" "m = 0" "iov \<noteq> []"
      with 1(2) have "loop recording_verbs 0 c g w iov (k + 1) q (n @ [sgl_wr (frag_wr_id c g w k) [] False]) = Some r"
        by (simp add: Let_def DoPostSendSGL_recorded)
      with 1(1) * show False by blast
    qed
  qed
  then have "sgl_loop recording_verbs 0 c g w iov 0 q n = None"
    using assms(2) by (metis option.exhaust)
  with assms show ?thesis by (simp add: PostSendSGL_def)
qed

theorem PostSendSGL_zero_sge_diverges_witness:
  "PostSendSGL recording_verbs [\<lparr>iov_base = 4096, iov_len = 8\<rparr>] 5 1 0
     (sample_qp\<lparr>qp_config := (qp_config sample_qp)\<lparr>qpc_max_send_sge := 0\<rparr>\<rparr>) [] = None"
  by (rule PostSendSGL_zero_sge_diverges) simp_all

text \<open>
  The request ids of all fragments but the first name no slot: the fragment number is put into
  bits 24 and up of the slot index, where \<open>GetSlotIndex\<close> reads it back, so that looking the slot of
  such a completion up leaves the slot arrays.
\<close>

theorem fragment_id_outside_slots:
  assumes "0 < k" and "k < 256"
  shows "WrId_GetConnId (frag_wr_id c g w k) = c \<and> WrId_GetGeneration (frag_wr_id c g w k) = g \<and>
         RpcSlotPool_GetHot (WrId_GetSlotIndex (frag_wr_id c g w k)) p = Inl Out_Of_Bounds"
proof -
  let ?s = "((ucast w :: u32) AND 0xFFFFFF) OR push_bit 24 k"
  have lt: "unat k < 256" using assms(2) by (simp add: word_less_nat_alt)
  have "k \<noteq> 0" using assms(1) by auto
  then obtain n where n: "bit k n" by (metis bit_eqI bit_0_eq bot_apply bot_bool_def)
  have "n < 8"
  proof (rule ccontr)
    assume "\<not> n < 8"
    then have "(2 :: nat) ^ 8 \<le> 2 ^ n" by (intro power_increasing) simp_all
    with bit_imp_le_unat [OF n] lt show False by simp
  qed
  then have "bit ?s (24 + n)" using n by (simp add: bit_simps)
  then have "2 ^ (24 + n) \<le> unat ?s" by (rule bit_imp_le_unat)
  moreover have "(2 :: nat) ^ 24 \<le> 2 ^ (24 + n)" by (intro power_increasing) simp_all
  ultimately have "kMaxSlots \<le> unat ?s" by (simp add: kMaxSlots_def)
  then show ?thesis by (simp add: frag_wr_id_def RpcSlotPool_GetHot_def)
qed

theorem fragment_id_outside_slots_witness:
  "RpcSlotPool_GetHot (WrId_GetSlotIndex (frag_wr_id 3 0 9 1)) RpcSlotPool_new = Inl Out_Of_Bounds"
  using fragment_id_outside_slots [of 1 3 0 9 RpcSlotPool_new] by simp

end
