(* ===== verification/Flow_Control.thy ===== *)
theory Flow_Control
  imports Rdma_Types Complex_Main
begin

text \<open>
  \<open>include/rdma/transport/flow_control.h\<close> and \<open>src/transport/flow_control.cpp\<close>: credit-based flow
  control. The credit counters are 32-bit words. The threshold arithmetic is single precision: the
  parameter \<open>rnd\<close> rounds the exact result of each float operation, literal and conversion, and the
  conversion back to \<open>uint32_t\<close> cuts the fraction off. The steady clock is an argument, in nanoseconds. The relaxed atomics
  are plain fields: each object is used by one thread.
\<close>

record FlowControlConfig =
  fcc_recv_depth :: u32
  fcc_lazy_update_threshold :: real
  fcc_idle_interval :: int
  fcc_enable_adaptive_threshold :: bool
  fcc_min_threshold :: real
  fcc_max_threshold :: real
  fcc_window_size :: u32
  fcc_high_rate_threshold :: u32
  fcc_low_rate_threshold :: u32

definition FlowControlConfig_default :: "(real \<Rightarrow> real) \<Rightarrow> FlowControlConfig" where
  "FlowControlConfig_default rnd =
     \<lparr>fcc_recv_depth = 1024, fcc_lazy_update_threshold = rnd (1 / 4), fcc_idle_interval = 100,
      fcc_enable_adaptive_threshold = True,
      fcc_min_threshold = rnd (1 / 10), fcc_max_threshold = rnd (1 / 2), fcc_window_size = 100,
      fcc_high_rate_threshold = 10000, fcc_low_rate_threshold = 1000\<rparr>"

record FlowControl =
  fc_config :: FlowControlConfig
  fc_lazy_threshold :: u32
  fc_current_threshold_ratio :: real
  fc_send_credits :: u32
  fc_pending_credits :: u32
  fc_last_activity :: int
  fc_last_sample_time :: int
  fc_window_recv_count :: u32
  fc_window_sample_count :: u32
  fc_estimated_rate :: u32

definition cast_u32 :: "real \<Rightarrow> u32" where
  "cast_u32 x = of_int (if 0 \<le> x then \<lfloor>x\<rfloor> else \<lceil>x\<rceil>)"

definition FlowControl_new :: "(real \<Rightarrow> real) \<Rightarrow> int \<Rightarrow> FlowControlConfig \<Rightarrow> FlowControl" where
  "FlowControl_new rnd now config =
     \<lparr>fc_config = config,
      fc_lazy_threshold = cast_u32 (rnd (rnd (real (unat (fcc_recv_depth config))) * fcc_lazy_update_threshold config)),
      fc_current_threshold_ratio = fcc_lazy_update_threshold config,
      fc_send_credits = fcc_recv_depth config, fc_pending_credits = 0, fc_last_activity = now, fc_last_sample_time = now,
      fc_window_recv_count = 0, fc_window_sample_count = 0, fc_estimated_rate = 0\<rparr>"

definition TryConsume :: "u32 \<Rightarrow> FlowControl \<Rightarrow> bool \<times> FlowControl" where
  "TryConsume count f =
     (let current = fc_send_credits f
      in if current < count then (False, f) else (True, f\<lparr>fc_send_credits := current - count\<rparr>))"

definition AdjustThreshold :: "(real \<Rightarrow> real) \<Rightarrow> FlowControl \<Rightarrow> FlowControl" where
  "AdjustThreshold rnd f =
     (let c = fc_config f;
          new_ratio =
            (if fc_estimated_rate f \<ge> fcc_high_rate_threshold c then fcc_max_threshold c
             else if fc_estimated_rate f \<le> fcc_low_rate_threshold c then fcc_min_threshold c
             else let rate_ratio =
                        rnd (rnd (real (unat (fc_estimated_rate f - fcc_low_rate_threshold c))) /
                             rnd (real (unat (fcc_high_rate_threshold c - fcc_low_rate_threshold c))))
                  in rnd (fcc_min_threshold c +
                          rnd (rate_ratio * rnd (fcc_max_threshold c - fcc_min_threshold c))));
          ratio = rnd (rnd (rnd (8 / 10) * fc_current_threshold_ratio f) + rnd (rnd (2 / 10) * new_ratio))
      in f\<lparr>fc_current_threshold_ratio := ratio,
           fc_lazy_threshold := cast_u32 (rnd (rnd (real (unat (fcc_recv_depth c))) * ratio))\<rparr>)"

definition UpdateRateStatistics :: "(real \<Rightarrow> real) \<Rightarrow> int \<Rightarrow> u32 \<Rightarrow> FlowControl \<Rightarrow> FlowControl" where
  "UpdateRateStatistics rnd now count f =
     (let f1 = f\<lparr>fc_window_recv_count := fc_window_recv_count f + count,
                 fc_window_sample_count := fc_window_sample_count f + 1\<rparr>
      in if fc_window_sample_count f1 \<ge> fcc_window_size (fc_config f1)
         then let elapsed_ms = (now - fc_last_sample_time f1) div 1000000;
                  f2 = (if elapsed_ms > 0
                        then AdjustThreshold rnd
                               (f1\<lparr>fc_estimated_rate := of_int (uint (fc_window_recv_count f1 * 1000) div elapsed_ms)\<rparr>)
                        else f1)
              in f2\<lparr>fc_window_recv_count := 0, fc_window_sample_count := 0, fc_last_sample_time := now\<rparr>
         else f1)"

definition OnRecvCompleted :: "(real \<Rightarrow> real) \<Rightarrow> int \<Rightarrow> u32 \<Rightarrow> FlowControl \<Rightarrow> FlowControl" where
  "OnRecvCompleted rnd now count f =
     (let f1 = f\<lparr>fc_pending_credits := fc_pending_credits f + count\<rparr>
      in if fcc_enable_adaptive_threshold (fc_config f1) then UpdateRateStatistics rnd now count f1 else f1)"

definition ShouldUpdateCredit :: "FlowControl \<Rightarrow> bool" where
  "ShouldUpdateCredit f \<longleftrightarrow> fc_pending_credits f \<ge> fc_lazy_threshold f"

definition GetPiggybackCredits :: "FlowControl \<Rightarrow> u32 \<times> FlowControl" where
  "GetPiggybackCredits f = (fc_pending_credits f, f\<lparr>fc_pending_credits := 0\<rparr>)"

definition AddCredits :: "u32 \<Rightarrow> FlowControl \<Rightarrow> FlowControl" where
  "AddCredits count f = f\<lparr>fc_send_credits := fc_send_credits f + count\<rparr>"

definition FlowControl_Reset :: "(real \<Rightarrow> real) \<Rightarrow> int \<Rightarrow> FlowControlConfig \<Rightarrow> FlowControl \<Rightarrow> FlowControl" where
  "FlowControl_Reset rnd now config f =
     f\<lparr>fc_config := config,
       fc_lazy_threshold := cast_u32 (rnd (rnd (real (unat (fcc_recv_depth config))) * fcc_lazy_update_threshold config)),
       fc_current_threshold_ratio := fcc_lazy_update_threshold config,
       fc_send_credits := fcc_recv_depth config, fc_pending_credits := 0, fc_last_activity := now, fc_last_sample_time := now,
       fc_window_recv_count := 0, fc_window_sample_count := 0, fc_estimated_rate := 0\<rparr>"

section \<open>The adaptive threshold does not touch the credits\<close>

lemma AdjustThreshold_credits [simp]:
  "fc_send_credits (AdjustThreshold rnd f) = fc_send_credits f"
  "fc_pending_credits (AdjustThreshold rnd f) = fc_pending_credits f"
  "fc_config (AdjustThreshold rnd f) = fc_config f"
  by (simp_all add: AdjustThreshold_def Let_def)

lemma OnRecvCompleted_credits [simp]:
  "fc_send_credits (OnRecvCompleted rnd now n f) = fc_send_credits f"
  "fc_pending_credits (OnRecvCompleted rnd now n f) = fc_pending_credits f + n"
  "fc_config (OnRecvCompleted rnd now n f) = fc_config f"
  by (simp_all add: OnRecvCompleted_def UpdateRateStatistics_def Let_def)

section \<open>Sender and receiver\<close>

text \<open>
  One direction of a connection: the sender's and the receiver's flow control, the messages on the
  wire, and the credit updates on their way back.
\<close>

record fc_link =
  fl_sender :: FlowControl
  fl_receiver :: FlowControl
  fl_messages :: nat
  fl_updates :: "u32 list"

inductive fc_step :: "(real \<Rightarrow> real) \<Rightarrow> fc_link \<Rightarrow> fc_link \<Rightarrow> bool" for rnd where
  send: "TryConsume 1 (fl_sender l) = (True, s') \<Longrightarrow>
     fc_step rnd l (l\<lparr>fl_sender := s', fl_messages := fl_messages l + 1\<rparr>)"
| deliver: "fl_messages l = Suc m \<Longrightarrow>
     fc_step rnd l (l\<lparr>fl_receiver := OnRecvCompleted rnd now 1 (fl_receiver l), fl_messages := m\<rparr>)"
| update: "ShouldUpdateCredit (fl_receiver l) \<Longrightarrow> GetPiggybackCredits (fl_receiver l) = (c, r') \<Longrightarrow>
     fc_step rnd l (l\<lparr>fl_receiver := r', fl_updates := fl_updates l @ [c]\<rparr>)"
| piggyback: "GetPiggybackCredits (fl_receiver l) = (c, r') \<Longrightarrow>
     fc_step rnd l (l\<lparr>fl_receiver := r', fl_updates := fl_updates l @ [c]\<rparr>)"
| credit: "fl_updates l = c # cs \<Longrightarrow>
     fc_step rnd l (l\<lparr>fl_sender := AddCredits c (fl_sender l), fl_updates := cs\<rparr>)"

definition link_init :: "(real \<Rightarrow> real) \<Rightarrow> int \<Rightarrow> FlowControlConfig \<Rightarrow> fc_link" where
  "link_init rnd now config =
     \<lparr>fl_sender = FlowControl_new rnd now config, fl_receiver = FlowControl_new rnd now config,
      fl_messages = 0, fl_updates = []\<rparr>"

definition link_credits :: "fc_link \<Rightarrow> nat" where
  "link_credits l = unat (fc_send_credits (fl_sender l)) + fl_messages l +
     unat (fc_pending_credits (fl_receiver l)) + sum_list (map unat (fl_updates l))"

lemma unat_add_u32: "unat a + unat b < 2 ^ 32 \<Longrightarrow> unat (a + b) = unat a + unat b" for a b :: u32
  by (simp add: unat_word_ariths)

lemma fc_step_conserves:
  assumes "fc_step rnd l l'" and "link_credits l < 2 ^ 32"
  shows "link_credits l' = link_credits l"
  using assms
proof (induction rule: fc_step.induct)
  case (send l s')
  then have nz: "fc_send_credits (fl_sender l) \<noteq> 0"
    and s': "s' = (fl_sender l)\<lparr>fc_send_credits := fc_send_credits (fl_sender l) - 1\<rparr>"
    by (auto simp: TryConsume_def Let_def split: if_splits)
  from nz have "unat (fc_send_credits (fl_sender l) - 1) = unat (fc_send_credits (fl_sender l)) - 1"
    "0 < unat (fc_send_credits (fl_sender l))" by (simp_all add: unat_minus_one unat_gt_0)
  with s' show ?case by (simp add: link_credits_def)
next
  case (deliver l m now)
  then have "unat (fc_pending_credits (fl_receiver l)) + unat (1 :: u32) < 2 ^ 32" by (simp add: link_credits_def)
  from unat_add_u32 [OF this] deliver show ?case by (simp add: link_credits_def)
next
  case (credit l c cs)
  then have "unat (fc_send_credits (fl_sender l)) + unat c < 2 ^ 32" by (simp add: link_credits_def)
  from unat_add_u32 [OF this] credit show ?case by (simp add: link_credits_def AddCredits_def)
qed (auto simp: link_credits_def GetPiggybackCredits_def)

interpretation fc_link: kept_invariant "fc_step rnd" "\<lambda>l. link_credits l = k \<and> k < 2 ^ 32" for rnd k
  by unfold_locales (auto simp: fc_step_conserves)

lemma fc_run_conserves: "(fc_step rnd)\<^sup>*\<^sup>* l l' \<Longrightarrow> link_credits l < 2 ^ 32 \<Longrightarrow> link_credits l' = link_credits l"
  using fc_link.run_keeps [of rnd l l' "link_credits l"] by blast

text \<open>
  C31. Credits are conserved and bound the traffic: in every reachable state of a link the sender's
  credits, the messages on the wire, the receiver's pending credits and the updates on their way add
  up to \<open>recv_depth\<close>, so that never more than \<open>recv_depth\<close> messages are outstanding at the receiver.
\<close>

theorem credits_conserved:
  assumes "(fc_step rnd)\<^sup>*\<^sup>* (link_init rnd now config) l"
  shows "link_credits l = unat (fcc_recv_depth config) \<and> fl_messages l \<le> unat (fcc_recv_depth config)"
proof -
  have init: "link_credits (link_init rnd now config) = unat (fcc_recv_depth config)"
    by (simp add: link_credits_def link_init_def FlowControl_new_def)
  then have "link_credits l = unat (fcc_recv_depth config)"
    using fc_run_conserves [OF assms] unat_u32_lt [of "fcc_recv_depth config"] by simp
  moreover from this have "fl_messages l \<le> unat (fcc_recv_depth config)" by (simp add: link_credits_def)
  ultimately show ?thesis by blast
qed

text \<open>A link with a window of one message, exact arithmetic and a fixed threshold: the message is sent, then delivered.\<close>

definition sample_fc_config :: FlowControlConfig where
  "sample_fc_config = (FlowControlConfig_default id)\<lparr>fcc_recv_depth := 1, fcc_enable_adaptive_threshold := False\<rparr>"

definition sample_link1 :: fc_link where
  "sample_link1 = (link_init id 0 sample_fc_config)
     \<lparr>fl_sender := (FlowControl_new id 0 sample_fc_config)\<lparr>fc_send_credits := 0\<rparr>, fl_messages := 1\<rparr>"

definition sample_link2 :: fc_link where
  "sample_link2 = sample_link1
     \<lparr>fl_receiver := (FlowControl_new id 0 sample_fc_config)\<lparr>fc_pending_credits := 1\<rparr>, fl_messages := 0\<rparr>"

lemmas sample_link_defs = sample_link1_def sample_link2_def sample_fc_config_def link_init_def FlowControl_new_def
  FlowControlConfig_default_def

lemma sample_send: "fc_step id (link_init id 0 sample_fc_config) sample_link1"
  using fc_step.send [of "link_init id 0 sample_fc_config"] by (simp add: sample_link_defs TryConsume_def)

lemma sample_deliver: "fc_step id sample_link1 sample_link2"
  using fc_step.deliver [of sample_link1 0 id 0] by (simp add: sample_link_defs OnRecvCompleted_def)

theorem credits_conserved_witness:
  "link_credits sample_link1 = 1 \<and> fl_messages sample_link1 \<le> 1"
  using credits_conserved [OF r_into_rtranclp [of "fc_step id", OF sample_send]]
  by (simp add: sample_fc_config_def)

section \<open>The threshold stays within the window\<close>

text \<open>
  What the threshold arithmetic needs of single precision: rounding is monotone and idempotent, exact
  on the integers up to \<open>2^24\<close>, and the sum of two rounded numbers of total at most one rounds to at
  most one, each of them being off by at most \<open>2^-25\<close> and \<open>1 + 2^-24\<close> being rounded to even.
\<close>

definition float_rounding :: "(real \<Rightarrow> real) \<Rightarrow> bool" where
  "float_rounding rnd \<longleftrightarrow> mono rnd \<and> (\<forall>x. rnd (rnd x) = rnd x) \<and> (\<forall>n\<le>2 ^ 24. rnd (real n) = real n) \<and>
     (\<forall>a b. 0 \<le> a \<and> 0 \<le> b \<and> a + b \<le> 1 \<longrightarrow> rnd (rnd a + rnd b) \<le> 1)"

lemma float_rounding_id: "float_rounding id"
  by (simp add: float_rounding_def mono_def)

lemma float_roundingD:
  assumes "float_rounding rnd"
  shows "x \<le> y \<Longrightarrow> rnd x \<le> rnd y" and "rnd (rnd x) = rnd x" and "n \<le> 2 ^ 24 \<Longrightarrow> rnd (real n) = real n"
    and "0 \<le> x \<Longrightarrow> 0 \<le> rnd x" and "0 \<le> a \<Longrightarrow> 0 \<le> b \<Longrightarrow> a + b \<le> 1 \<Longrightarrow> rnd (rnd a + rnd b) \<le> 1" and "rnd 1 = 1" and "x \<le> 1 \<Longrightarrow> rnd x \<le> 1"
proof -
  show m: "x \<le> y \<Longrightarrow> rnd x \<le> rnd y" for x y using assms by (simp add: float_rounding_def mono_def)
  show "rnd (rnd x) = rnd x" and n: "n \<le> 2 ^ 24 \<Longrightarrow> rnd (real n) = real n" for n using assms by (simp_all add: float_rounding_def)
  show "0 \<le> x \<Longrightarrow> 0 \<le> rnd x" using m [of 0 x] n [of 0] by simp
  show "0 \<le> a \<Longrightarrow> 0 \<le> b \<Longrightarrow> a + b \<le> 1 \<Longrightarrow> rnd (rnd a + rnd b) \<le> 1" using assms by (simp add: float_rounding_def)
  show one: "rnd 1 = 1" using n [of 1] by simp
  show "x \<le> 1 \<Longrightarrow> rnd x \<le> 1" using m [of x 1] one by simp
qed

text \<open>A share of at most one of the window.\<close>

lemma cast_u32_share:
  assumes r: "float_rounding rnd" and "unat depth \<le> 2 ^ 24" and "0 \<le> ratio" and "ratio \<le> 1"
  shows "cast_u32 (rnd (rnd (real (unat depth)) * ratio)) \<le> depth"
proof -
  note f = float_roundingD [OF r]
  let ?x = "rnd (rnd (real (unat depth)) * ratio)"
  have d: "rnd (real (unat depth)) = real (unat depth)" using assms(2) by (rule f(3))
  have "real (unat depth) * ratio \<le> real (unat depth)" using assms(4) mult_left_le [of ratio "real (unat depth)"] of_nat_0_le_iff by blast
  then have "rnd (real (unat depth) * ratio) \<le> rnd (real (unat depth))" by (rule f(1))
  then have "?x \<le> real (unat depth)" by (simp only: d)
  moreover have "0 \<le> rnd (real (unat depth) * ratio)" by (rule f(4)) (rule mult_nonneg_nonneg [OF of_nat_0_le_iff assms(3)])
  ultimately have x: "0 \<le> ?x" "?x \<le> real (unat depth)" by (simp_all only: d)
  then have "0 \<le> \<lfloor>?x\<rfloor>" "\<lfloor>?x\<rfloor> \<le> int (unat depth)" by (simp, linarith)
  then have fl: "uint (of_int \<lfloor>?x\<rfloor> :: u32) \<le> \<lfloor>?x\<rfloor>"
    by (simp add: uint_word_of_int zmod_le_nonneg_dividend)
  have "uint (of_int \<lfloor>?x\<rfloor> :: u32) \<le> uint depth" using fl \<open>\<lfloor>?x\<rfloor> \<le> int (unat depth)\<close> by simp
  then show ?thesis using x(1) by (simp add: cast_u32_def word_le_def)
qed

text \<open>A configuration whose ratios are floats between zero and one.\<close>

definition fc_config_ok :: "(real \<Rightarrow> real) \<Rightarrow> FlowControlConfig \<Rightarrow> bool" where
  "fc_config_ok rnd c \<longleftrightarrow> unat (fcc_recv_depth c) \<le> 2 ^ 24 \<and>
     0 \<le> fcc_lazy_update_threshold c \<and> fcc_lazy_update_threshold c \<le> 1 \<and>
     0 \<le> fcc_min_threshold c \<and> fcc_min_threshold c \<le> fcc_max_threshold c \<and> fcc_max_threshold c \<le> 1 \<and>
     rnd (fcc_min_threshold c) = fcc_min_threshold c"

definition threshold_ok :: "FlowControlConfig \<Rightarrow> FlowControl \<Rightarrow> bool" where
  "threshold_ok c f \<longleftrightarrow> fc_config f = c \<and> 0 \<le> fc_current_threshold_ratio f \<and> fc_current_threshold_ratio f \<le> 1 \<and>
     fc_lazy_threshold f \<le> fcc_recv_depth c"

lemma AdjustThreshold_ok:
  assumes r: "float_rounding rnd" and c: "fc_config_ok rnd c" and "threshold_ok c f"
  shows "threshold_ok c (AdjustThreshold rnd f)"
proof -
  note d = float_roundingD [OF r]
  have f: "fc_config f = c" "0 \<le> fc_current_threshold_ratio f" "fc_current_threshold_ratio f \<le> 1"
    using assms(3) by (simp_all add: threshold_ok_def)
  have k: "0 \<le> fcc_min_threshold c" "fcc_min_threshold c \<le> fcc_max_threshold c" "fcc_max_threshold c \<le> 1"
    "rnd (fcc_min_threshold c) = fcc_min_threshold c" "unat (fcc_recv_depth c) \<le> 2 ^ 24"
    using c by (simp_all add: fc_config_ok_def)
  let ?lo = "fcc_low_rate_threshold c" and ?hi = "fcc_high_rate_threshold c" and ?e = "fc_estimated_rate f"
  let ?rr = "rnd (rnd (real (unat (?e - ?lo))) / rnd (real (unat (?hi - ?lo))))"
  let ?span = "rnd (fcc_max_threshold c - fcc_min_threshold c)"
  let ?mid = "rnd (fcc_min_threshold c + rnd (?rr * ?span))"
  define new where "new = (if ?e \<ge> ?hi then fcc_max_threshold c else if ?e \<le> ?lo then fcc_min_threshold c else ?mid)"
  have "0 \<le> new \<and> new \<le> 1"
  proof (cases "?e \<ge> ?hi \<or> ?e \<le> ?lo")
    case False
    then have ord: "?lo < ?e" "?e < ?hi" by auto
    then have "?lo \<le> ?e" "?lo \<le> ?hi" by auto
    with ord have le: "?e - ?lo \<le> ?hi - ?lo" "0 < unat (?hi - ?lo)"
      by (simp_all only: word_le_nat_alt word_less_nat_alt unat_sub)
    have num: "rnd (real (unat (?e - ?lo))) \<le> rnd (real (unat (?hi - ?lo)))" by (rule d(1) [OF of_nat_mono [OF le(1) [unfolded word_le_nat_alt]]])
    have "1 \<le> real (unat (?hi - ?lo))" using le(2) by linarith
    from d(1) [OF this] have den: "1 \<le> rnd (real (unat (?hi - ?lo)))" by (simp only: d(6))
    have "rnd (real (unat (?e - ?lo))) / rnd (real (unat (?hi - ?lo))) \<le> 1" using num den by (simp add: divide_le_eq)
    then have "?rr \<le> 1" by (rule d(7))
    moreover have "0 \<le> ?rr" by (intro d(4) divide_nonneg_nonneg of_nat_0_le_iff)
    ultimately have rr: "0 \<le> ?rr" "?rr \<le> 1" by blast+
    have span: "0 \<le> ?span" using k(2) d(4) by simp
    then have "rnd (?rr * ?span) \<le> rnd ?span" using rr by (intro d(1)) (simp add: mult_left_le_one_le)
    then have "rnd (?rr * ?span) \<le> rnd (fcc_max_threshold c - fcc_min_threshold c)" by (simp add: d(2))
    then have "?mid \<le> rnd (rnd (fcc_min_threshold c) + rnd (fcc_max_threshold c - fcc_min_threshold c))"
      by (intro d(1)) (simp add: k(4))
    also have "\<dots> \<le> 1" using k by (intro d(5)) simp_all
    finally have "?mid \<le> 1" .
    moreover have "0 \<le> ?mid" using k(1) rr span d(4) by simp
    ultimately show ?thesis using False by (simp add: new_def)
  qed (use k in \<open>auto simp: new_def\<close>)
  then have new: "0 \<le> new" "new \<le> 1" by simp_all
  let ?ratio = "rnd (rnd (rnd (8 / 10) * fc_current_threshold_ratio f) + rnd (rnd (2 / 10) * new))"
  have p: "0 \<le> rnd (8 / 10)" "0 \<le> rnd (2 / 10)" using d(4) by simp_all
  have "rnd (rnd (8 / 10) * fc_current_threshold_ratio f) \<le> rnd (rnd (8 / 10))"
    "rnd (rnd (2 / 10) * new) \<le> rnd (rnd (2 / 10))" using p f(3) new by (intro d(1); simp add: mult_left_le)+
  then have "?ratio \<le> rnd (rnd (8 / 10) + rnd (2 / 10))" by (intro d(1)) (simp add: d(2))
  also have "\<dots> \<le> 1" by (rule d(5)) simp_all
  finally have "?ratio \<le> 1" .
  moreover have "0 \<le> ?ratio" using p f(2) new d(4) by simp
  moreover have "AdjustThreshold rnd f = f\<lparr>fc_current_threshold_ratio := ?ratio,
      fc_lazy_threshold := cast_u32 (rnd (rnd (real (unat (fcc_recv_depth c))) * ?ratio))\<rparr>"
    by (simp add: AdjustThreshold_def Let_def new_def f(1))
  ultimately show ?thesis using cast_u32_share [OF r k(5)] f(1) by (simp add: threshold_ok_def)
qed

lemma OnRecvCompleted_ok:
  assumes "float_rounding rnd" and "fc_config_ok rnd c" and "threshold_ok c f"
  shows "threshold_ok c (OnRecvCompleted rnd now n f)"
proof -
  have same: "threshold_ok c g" if "fc_config g = fc_config f" "fc_current_threshold_ratio g = fc_current_threshold_ratio f"
    "fc_lazy_threshold g = fc_lazy_threshold f" for g
    using assms(3) that by (simp add: threshold_ok_def)
  have win: "threshold_ok c (g\<lparr>fc_window_recv_count := a, fc_window_sample_count := b, fc_last_sample_time := t\<rparr>) = threshold_ok c g"
    for g a b t by (simp add: threshold_ok_def)
  show ?thesis
    unfolding OnRecvCompleted_def UpdateRateStatistics_def Let_def
    by (auto simp: win intro!: same AdjustThreshold_ok [OF assms(1,2)])
qed

lemma fc_step_threshold:
  "fc_step rnd l l' \<Longrightarrow> float_rounding rnd \<and> fc_config_ok rnd c \<and> threshold_ok c (fl_receiver l) \<Longrightarrow>
     float_rounding rnd \<and> fc_config_ok rnd c \<and> threshold_ok c (fl_receiver l')"
proof (induction rule: fc_step.induct)
  case (deliver l m now)
  then show ?case using OnRecvCompleted_ok [of rnd c "fl_receiver l" now 1] by simp
qed (auto simp: GetPiggybackCredits_def threshold_ok_def)

interpretation fc_threshold: kept_invariant "fc_step rnd"
    "\<lambda>l. float_rounding rnd \<and> fc_config_ok rnd c \<and> threshold_ok c (fl_receiver l)" for rnd c
  by unfold_locales (rule fc_step_threshold)

text \<open>
  C32. Credits do not get stuck: with a window of at most \<open>2^24\<close> messages and threshold ratios between
  zero and one, in every reachable state, however the receiver has adapted its threshold, the threshold
  is at most \<open>recv_depth\<close>, and when the sender has no credit and nothing is on the wire in either
  direction the receiver's lazy update fires and returns all \<open>recv_depth\<close> credits.
\<close>

theorem starved_sender_gets_credit:
  assumes "float_rounding rnd" and "fc_config_ok rnd config" and "(fc_step rnd)\<^sup>*\<^sup>* (link_init rnd now config) l"
  shows "fc_lazy_threshold (fl_receiver l) \<le> fcc_recv_depth config \<and>
    (fc_send_credits (fl_sender l) = 0 \<and> fl_messages l = 0 \<and> fl_updates l = [] \<longrightarrow>
       ShouldUpdateCredit (fl_receiver l) \<and> fst (GetPiggybackCredits (fl_receiver l)) = fcc_recv_depth config)"
proof -
  have "threshold_ok config (fl_receiver (link_init rnd now config))"
    using cast_u32_share [OF assms(1), of "fcc_recv_depth config" "fcc_lazy_update_threshold config"] assms(2)
    by (simp add: link_init_def FlowControl_new_def threshold_ok_def fc_config_ok_def)
  with fc_threshold.run_keeps [OF assms(3)] assms(1,2) have t: "fc_lazy_threshold (fl_receiver l) \<le> fcc_recv_depth config"
    by (auto simp: threshold_ok_def)
  have "link_credits (link_init rnd now config) = unat (fcc_recv_depth config)"
    by (simp add: link_credits_def link_init_def FlowControl_new_def)
  then have "link_credits l = unat (fcc_recv_depth config)"
    using fc_run_conserves [OF assms(3)] unat_u32_lt [of "fcc_recv_depth config"] by simp
  then have "fc_pending_credits (fl_receiver l) = fcc_recv_depth config"
    if "fc_send_credits (fl_sender l) = 0 \<and> fl_messages l = 0 \<and> fl_updates l = []"
    using that by (simp add: link_credits_def word_unat_eq_iff)
  with t show ?thesis by (auto simp: ShouldUpdateCredit_def GetPiggybackCredits_def)
qed

theorem starved_sender_gets_credit_witness:
  "fc_lazy_threshold (fl_receiver sample_link2) \<le> 1 \<and>
   ShouldUpdateCredit (fl_receiver sample_link2) \<and> fst (GetPiggybackCredits (fl_receiver sample_link2)) = 1"
proof -
  have "fc_config_ok id sample_fc_config" by (simp add: fc_config_ok_def sample_fc_config_def FlowControlConfig_default_def)
  from starved_sender_gets_credit [OF float_rounding_id this
      rtranclp.rtrancl_into_rtrancl [OF r_into_rtranclp [of "fc_step id", OF sample_send] sample_deliver]]
  show ?thesis by (simp add: sample_link_defs cast_u32_def)
qed

end
