(* ===== verification/Connection.thy ===== *)
theory Connection
  imports Queue_Pair Flow_Control
begin

text \<open>
  \<open>include/rdma/transport/connection.h\<close> and \<open>src/transport/connection.cpp\<close>: a connection owns a
  queue pair and drives it through the transitions of a connect and a disconnect; its send
  operations are guarded by the connection state. Logging is left out.
\<close>

section \<open>State\<close>

record ConnectionConfig =
  cc_qp_config :: QueuePairConfig
  cc_flow_control_config :: FlowControlConfig
  cc_recv_buffer_count :: u32
  cc_recv_buffer_size :: size_t
  cc_timeout_ms :: u32
  cc_retry_count :: u32
  cc_rnr_retry :: u32
  cc_port_num :: u8
  cc_gid_index :: int

definition ConnectionConfig_default :: "(real \<Rightarrow> real) \<Rightarrow> ConnectionConfig" where
  "ConnectionConfig_default rnd =
     \<lparr>cc_qp_config = QueuePairConfig_default, cc_flow_control_config = FlowControlConfig_default rnd,
      cc_recv_buffer_count = 256, cc_recv_buffer_size = 4096, cc_timeout_ms = 30000, cc_retry_count = 7,
      cc_rnr_retry = 7, cc_port_num = 1, cc_gid_index = 0\<rparr>"

record Connection =
  conn_qp :: QueuePair
  conn_pd :: "ProtectionDomain option"
  conn_send_cq :: "CompletionQueue option"
  conn_recv_cq :: "CompletionQueue option"
  conn_config :: ConnectionConfig
  conn_id_of :: u16
  conn_state :: ConnectionState
  conn_flow_control :: FlowControl
  conn_remote_recv_buffer :: RemoteMemoryInfo
  conn_peer_address :: string

text \<open>\<open>now0\<close> and \<open>now\<close> are the clock readings of the flow control's constructor and of its \<open>Reset\<close>.\<close>

definition Connection_Create ::
  "(ledger \<Rightarrow> ptr \<Rightarrow> ptr \<Rightarrow> ptr \<Rightarrow> QueuePairConfig \<Rightarrow> int + ptr \<times> u32) \<Rightarrow> (real \<Rightarrow> real) \<Rightarrow> int \<Rightarrow> int \<Rightarrow> ProtectionDomain option
     \<Rightarrow> CompletionQueue option \<Rightarrow> CompletionQueue option \<Rightarrow> ConnectionConfig \<Rightarrow> ledger \<Rightarrow> Connection Result \<times> ledger" where
  "Connection_Create create_qp rnd now0 now pd send_cq recv_cq config L =
     (if pd = None then (Inl (Status_InvalidArgument ''Invalid protection domain''), L)
      else case QP_Create create_qp pd send_cq recv_cq (cc_qp_config config) L of
        (Inl st, L1) \<Rightarrow> (Inl st, L1)
      | (Inr qp, L1) \<Rightarrow>
          (Inr \<lparr>conn_qp = qp, conn_pd = pd, conn_send_cq = send_cq, conn_recv_cq = recv_cq, conn_config = config,
                conn_id_of = 0, conn_state = DISCONNECTED,
                conn_flow_control = FlowControl_Reset rnd now (cc_flow_control_config config)
                                      (FlowControl_new rnd now0 (FlowControlConfig_default rnd)),
                conn_remote_recv_buffer = \<lparr>rmi_addr = 0, rmi_rkey = 0, rmi_length = 0\<rparr>, conn_peer_address = ''''\<rparr>,
           L1))"

definition SetConnId :: "u16 \<Rightarrow> Connection \<Rightarrow> Connection" where
  "SetConnId new_id c = c\<lparr>conn_id_of := new_id\<rparr>"

definition SetRemoteRecvBuffer :: "RemoteMemoryInfo \<Rightarrow> Connection \<Rightarrow> Connection" where
  "SetRemoteRecvBuffer info c = c\<lparr>conn_remote_recv_buffer := info\<rparr>"

definition SetPeerAddress :: "string \<Rightarrow> Connection \<Rightarrow> Connection" where
  "SetPeerAddress addr c = c\<lparr>conn_peer_address := addr\<rparr>"

definition CanSend :: "Connection \<Rightarrow> bool" where
  "CanSend c \<longleftrightarrow> fc_send_credits (conn_flow_control c) \<ge> 1"

definition Conn_GetLocalParams ::
  "(ptr \<Rightarrow> u8 \<Rightarrow> int + u16 \<times> u32) \<Rightarrow> (ptr \<Rightarrow> u8 \<Rightarrow> int \<Rightarrow> int + u8 list) \<Rightarrow> Connection \<Rightarrow> QpConnParams Result chk" where
  "Conn_GetLocalParams query_port query_gid c =
     QP_GetLocalParams query_port query_gid (cc_port_num (conn_config c)) (cc_gid_index (conn_config c)) (conn_qp c)"

section \<open>Connecting and disconnecting\<close>

definition Connect :: "'n qp_verbs \<Rightarrow> QpConnParams \<Rightarrow> Connection \<Rightarrow> 'n \<Rightarrow> Status \<times> Connection \<times> 'n" where
  "Connect V remote_params c n =
     (if conn_state c \<noteq> DISCONNECTED
      then (Status_InvalidArgument ''Connection already established or in progress'', c, n)
      else
        let c1 = c\<lparr>conn_state := CONNECTING\<rparr>;
            (st1, n1) = TransitionToInit V (cc_port_num (conn_config c1)) (conn_qp c1) n
        in if \<not> Status_ok st1 then (st1, c1\<lparr>conn_state := CONN_ERROR\<rparr>, n1)
           else
             let (st2, n2) = TransitionToRTR V remote_params (conn_qp c1) n1
             in if \<not> Status_ok st2 then (st2, c1\<lparr>conn_state := CONN_ERROR\<rparr>, n2)
                else
                  let (st3, n3) = TransitionToRTS V (conn_qp c1) n2
                  in if \<not> Status_ok st3 then (st3, c1\<lparr>conn_state := CONN_ERROR\<rparr>, n3)
                     else (Status_OK, c1\<lparr>conn_state := CONNECTED\<rparr>, n3))"

definition Disconnect :: "'n qp_verbs \<Rightarrow> Connection \<Rightarrow> 'n \<Rightarrow> Status \<times> Connection \<times> 'n" where
  "Disconnect V c n =
     (if conn_state c \<noteq> CONNECTED then (Status_OK, c, n)
      else
        let c1 = c\<lparr>conn_state := CLOSING\<rparr>;
            (st, n1) = TransitionToError V (conn_qp c1) n
        in (Status_OK, c1\<lparr>conn_state := DISCONNECTED\<rparr>, n1))"

text \<open>The destructor's body, then the member \<open>qp_\<close>.\<close>

definition Connection_dtor :: "'n qp_verbs \<Rightarrow> Connection \<Rightarrow> 'n \<Rightarrow> ledger \<Rightarrow> 'n \<times> ledger" where
  "Connection_dtor V c n L =
     (let (c1, n1) = (if conn_state c = CONNECTED then snd (Disconnect V c n) else (c, n))
      in (n1, QP_dtor (conn_qp c1) L))"

section \<open>Sending\<close>

definition with_qp :: "Connection \<Rightarrow> Status \<times> QueuePair \<times> 'n \<Rightarrow> Status \<times> Connection \<times> 'n" where
  "with_qp c r = (case r of (st, q, n) \<Rightarrow> (st, c\<lparr>conn_qp := q\<rparr>, n))"

definition not_established :: Status where
  "not_established = Status_InvalidArgument ''Connection not established''"

definition Conn_Send :: "'n qp_verbs \<Rightarrow> Buffer \<Rightarrow> u64 \<Rightarrow> Connection \<Rightarrow> 'n \<Rightarrow> Status \<times> Connection \<times> 'n" where
  "Conn_Send V buf wr_id c n =
     (if conn_state c \<noteq> CONNECTED then (not_established, c, n)
      else with_qp c (PostSend V buf wr_id (conn_qp c) n))"

definition Conn_SendInline :: "'n qp_verbs \<Rightarrow> ptr \<Rightarrow> size_t \<Rightarrow> u64 \<Rightarrow> Connection \<Rightarrow> 'n \<Rightarrow> Status \<times> Connection \<times> 'n" where
  "Conn_SendInline V data len wr_id c n =
     (if conn_state c \<noteq> CONNECTED then (not_established, c, n)
      else with_qp c (PostSendInline V data len wr_id (conn_qp c) n))"

definition Conn_Write ::
  "'n qp_verbs \<Rightarrow> Buffer \<Rightarrow> u64 \<Rightarrow> u32 \<Rightarrow> u64 \<Rightarrow> Connection \<Rightarrow> 'n \<Rightarrow> Status \<times> Connection \<times> 'n" where
  "Conn_Write V buf remote_addr remote_rkey wr_id c n =
     (if conn_state c \<noteq> CONNECTED then (not_established, c, n)
      else with_qp c (PostWrite V buf remote_addr remote_rkey wr_id (conn_qp c) n))"

definition Conn_WriteWithImm ::
  "'n qp_verbs \<Rightarrow> Buffer \<Rightarrow> u64 \<Rightarrow> u32 \<Rightarrow> u32 \<Rightarrow> u64 \<Rightarrow> Connection \<Rightarrow> 'n \<Rightarrow> Status \<times> Connection \<times> 'n" where
  "Conn_WriteWithImm V buf remote_addr remote_rkey imm_data wr_id c n =
     (if conn_state c \<noteq> CONNECTED then (not_established, c, n)
      else with_qp c (PostWriteWithImm V buf remote_addr remote_rkey imm_data wr_id (conn_qp c) n))"

definition Conn_Read ::
  "'n qp_verbs \<Rightarrow> Buffer \<Rightarrow> u64 \<Rightarrow> u32 \<Rightarrow> u64 \<Rightarrow> Connection \<Rightarrow> 'n \<Rightarrow> Status \<times> Connection \<times> 'n" where
  "Conn_Read V buf remote_addr remote_rkey wr_id c n =
     (if conn_state c \<noteq> CONNECTED then (not_established, c, n)
      else with_qp c (PostRead V buf remote_addr remote_rkey wr_id (conn_qp c) n))"

definition Conn_PostRecv :: "'n qp_verbs \<Rightarrow> Buffer \<Rightarrow> u64 \<Rightarrow> Connection \<Rightarrow> 'n \<Rightarrow> Status \<times> 'n" where
  "Conn_PostRecv V buf wr_id c n = PostRecv V buf wr_id (conn_qp c) n"

section \<open>The life of a connection\<close>

inductive conn_step :: "'n qp_verbs \<Rightarrow> Connection \<times> 'n \<Rightarrow> Connection \<times> 'n \<Rightarrow> bool" for V where
  connect: "Connect V rp c n = (st, c', n') \<Longrightarrow> conn_step V (c, n) (c', n')"
| disconnect: "Disconnect V c n = (st, c', n') \<Longrightarrow> conn_step V (c, n) (c', n')"
| send: "Conn_Send V b w c n = (st, c', n') \<Longrightarrow> conn_step V (c, n) (c', n')"
| send_inline: "Conn_SendInline V p len w c n = (st, c', n') \<Longrightarrow> conn_step V (c, n) (c', n')"
| rdma_write: "Conn_Write V b ra rk w c n = (st, c', n') \<Longrightarrow> conn_step V (c, n) (c', n')"
| rdma_write_imm: "Conn_WriteWithImm V b ra rk imm w c n = (st, c', n') \<Longrightarrow> conn_step V (c, n) (c', n')"
| rdma_read: "Conn_Read V b ra rk w c n = (st, c', n') \<Longrightarrow> conn_step V (c, n) (c', n')"
| post_recv: "Conn_PostRecv V b w c n = (st, n') \<Longrightarrow> conn_step V (c, n) (c, n')"

text \<open>
  The behaviour of a device the code relies on, as the verbs documentation gives it: \<open>qstate\<close> reads
  the state of a queue pair, a transition that is not in the table of legal transitions fails, a
  failed call changes no queue pair's state, a successful one sets the state of that queue pair to
  the requested one, and posting does not change any state.
\<close>

fun legal_transition :: "QpState \<Rightarrow> QpState \<Rightarrow> bool" where
  "legal_transition _ QP_RESET = True"
| "legal_transition _ QP_ERROR = True"
| "legal_transition QP_RESET QP_INIT = True"
| "legal_transition QP_INIT QP_INIT = True"
| "legal_transition QP_INIT QP_RTR = True"
| "legal_transition QP_RTR QP_RTS = True"
| "legal_transition QP_RTS QP_RTS = True"
| "legal_transition _ _ = False"

definition verbs_conform :: "'n qp_verbs \<Rightarrow> ('n \<Rightarrow> ptr \<Rightarrow> QpState) \<Rightarrow> bool" where
  "verbs_conform V qstate \<longleftrightarrow>
     (\<forall>p a m n e n'. v_modify_qp V p a m n = (Some e, n') \<longrightarrow> qstate n' = qstate n) \<and>
     (\<forall>p a m n n'. v_modify_qp V p a m n = (None, n') \<longrightarrow>
        legal_transition (qstate n p) (qa_qp_state a) \<and> qstate n' = (qstate n)(p := qa_qp_state a)) \<and>
     (\<forall>p w n. qstate (snd (v_post_send V p w n)) = qstate n) \<and>
     (\<forall>p w n. qstate (snd (v_post_recv V p w n)) = qstate n)"

lemma conform_modify:
  assumes "verbs_conform V qstate" and "v_modify_qp V p a m n = (r, n')"
  shows "r = None \<and> legal_transition (qstate n p) (qa_qp_state a) \<and> qstate n' = (qstate n)(p := qa_qp_state a) \<or>
         r \<noteq> None \<and> qstate n' = qstate n"
  using assms unfolding verbs_conform_def by (cases r) metis+

lemma conform_post [simp]:
  assumes "verbs_conform V qstate"
  shows "qstate (snd (v_post_send V p w n)) = qstate n" and "qstate (snd (v_post_recv V p rw n)) = qstate n"
  using assms unfolding verbs_conform_def by metis+

lemma transition_conforms:
  assumes "verbs_conform V qstate" and "modify_status msg (v_modify_qp V p a m n) = (st, n')"
  shows "Status_ok st \<and> legal_transition (qstate n p) (qa_qp_state a) \<and> qstate n' = (qstate n)(p := qa_qp_state a) \<or>
         \<not> Status_ok st \<and> qstate n' = qstate n"
proof -
  obtain r n1 where r: "v_modify_qp V p a m n = (r, n1)" by (cases "v_modify_qp V p a m n")
  with assms(2) have "n1 = n'" "Status_ok st \<longleftrightarrow> r = None" by (auto simp: modify_status_def split: option.splits)
  with conform_modify [OF assms(1) r] show ?thesis by auto
qed

text \<open>What every operation that only posts keeps: the handle, the connection state and the device's queue-pair states.\<close>

definition post_keeps :: "('n \<Rightarrow> ptr \<Rightarrow> QpState) \<Rightarrow> Connection \<times> 'n \<Rightarrow> Connection \<times> 'n \<Rightarrow> bool" where
  "post_keeps qstate x y \<longleftrightarrow> conn_state (fst y) = conn_state (fst x) \<and>
     qp_raw (conn_qp (fst y)) = qp_raw (conn_qp (fst x)) \<and> qstate (snd y) = qstate (snd x)"

lemma post_wr_keeps:
  assumes "verbs_conform V qstate" and "with_qp c (post_wr V msg wr q n) = (st, c', n')" and "qp_raw q = qp_raw (conn_qp c)"
  shows "post_keeps qstate (c, n) (c', n')"
proof -
  have "n' = snd (v_post_send V (qp_raw q) wr n)" "conn_state c' = conn_state c" "qp_raw (conn_qp c') = qp_raw q"
    using assms(2) by (auto simp: with_qp_def post_wr_def split: prod.splits option.splits)
  then show ?thesis using assms(1,3) by (simp add: post_keeps_def)
qed

lemma ShouldSignal_raw [simp]: "qp_raw (snd (ShouldSignal q)) = qp_raw q"
  by (simp add: ShouldSignal_def Let_def)

lemma posts_keep:
  assumes V: "verbs_conform V qstate"
  shows "Conn_Send V b w c n = (st, c', n') \<Longrightarrow> post_keeps qstate (c, n) (c', n')"
    and "Conn_SendInline V p len w c n = (st, c', n') \<Longrightarrow> post_keeps qstate (c, n) (c', n')"
    and "Conn_Write V b ra rk w c n = (st, c', n') \<Longrightarrow> post_keeps qstate (c, n) (c', n')"
    and "Conn_WriteWithImm V b ra rk imm w c n = (st, c', n') \<Longrightarrow> post_keeps qstate (c, n) (c', n')"
    and "Conn_Read V b ra rk w c n = (st, c', n') \<Longrightarrow> post_keeps qstate (c, n) (c', n')"
    and "Conn_PostRecv V b w c n = (st, n') \<Longrightarrow> post_keeps qstate (c, n) (c, n')"
proof -
  have same: "post_keeps qstate (c, n) (c, n)" by (simp add: post_keeps_def)
  note raw = ShouldSignal_raw [of "conn_qp c", simplified split_beta]
  show "Conn_Send V b w c n = (st, c', n') \<Longrightarrow> post_keeps qstate (c, n) (c', n')"
    using same raw by (auto simp: Conn_Send_def PostSend_def DoPostSend_def split_beta split: if_splits elim!: post_wr_keeps [OF V])
  show "Conn_SendInline V p len w c n = (st, c', n') \<Longrightarrow> post_keeps qstate (c, n) (c', n')"
    using same raw by (auto simp: Conn_SendInline_def PostSendInline_def split_beta with_qp_def [of c "(_, conn_qp c, n)"]
        split: if_splits elim!: post_wr_keeps [OF V])
  show "Conn_Write V b ra rk w c n = (st, c', n') \<Longrightarrow> post_keeps qstate (c, n) (c', n')"
    using same raw by (auto simp: Conn_Write_def PostWrite_def split_beta split: if_splits elim!: post_wr_keeps [OF V])
  show "Conn_WriteWithImm V b ra rk imm w c n = (st, c', n') \<Longrightarrow> post_keeps qstate (c, n) (c', n')"
    using same raw by (auto simp: Conn_WriteWithImm_def PostWriteWithImm_def split_beta split: if_splits elim!: post_wr_keeps [OF V])
  show "Conn_Read V b ra rk w c n = (st, c', n') \<Longrightarrow> post_keeps qstate (c, n) (c', n')"
    using same raw by (auto simp: Conn_Read_def PostRead_def split_beta split: if_splits elim!: post_wr_keeps [OF V])
  show "Conn_PostRecv V b w c n = (st, n') \<Longrightarrow> post_keeps qstate (c, n) (c, n')"
    using conform_post(2) [OF V] by (auto simp: Conn_PostRecv_def PostRecv_def modify_status_def post_keeps_def
        split: prod.splits option.splits) (metis snd_conv)+
qed

text \<open>The outcomes of a connect on a conforming device.\<close>

lemma Connect_conforms:
  assumes V: "verbs_conform V qstate" and eq: "Connect V rp c n = (st, c', n')"
  defines "p \<equiv> qp_raw (conn_qp c)"
  shows "qp_raw (conn_qp c') = p \<and>
     (conn_state c \<noteq> DISCONNECTED \<and> c' = c \<and> n' = n \<and> \<not> Status_ok st \<or>
      conn_state c = DISCONNECTED \<and> Status_ok st \<and> conn_state c' = CONNECTED \<and>
        qstate n p \<in> {QP_RESET, QP_INIT} \<and> qstate n' = (qstate n)(p := QP_RTS) \<or>
      conn_state c = DISCONNECTED \<and> \<not> Status_ok st \<and> conn_state c' = CONN_ERROR \<and>
        (qstate n p \<in> {QP_RESET, QP_INIT} \<or> qstate n' p = qstate n p))"
proof (cases "conn_state c = DISCONNECTED")
  case False
  with eq show ?thesis by (auto simp: Connect_def p_def)
next
  case True
  obtain st1 n1 where 1: "TransitionToInit V (cc_port_num (conn_config c)) (conn_qp c) n = (st1, n1)"
    by (cases "TransitionToInit V (cc_port_num (conn_config c)) (conn_qp c) n")
  obtain st2 n2 where 2: "TransitionToRTR V rp (conn_qp c) n1 = (st2, n2)" by (cases "TransitionToRTR V rp (conn_qp c) n1")
  obtain st3 n3 where 3: "TransitionToRTS V (conn_qp c) n2 = (st3, n3)" by (cases "TransitionToRTS V (conn_qp c) n2")
  have i: "Status_ok st1 \<and> qstate n p \<in> {QP_RESET, QP_INIT} \<and> qstate n1 = (qstate n)(p := QP_INIT) \<or>
      \<not> Status_ok st1 \<and> qstate n1 = qstate n"
    using transition_conforms [OF V 1 [unfolded TransitionToInit_def]]
    by (cases "qstate n p") (auto simp: ibv_qp_attr_zero_def p_def)
  have r: "Status_ok st2 \<and> qstate n2 = (qstate n1)(p := QP_RTR) \<or> \<not> Status_ok st2 \<and> qstate n2 = qstate n1"
    using transition_conforms [OF V 2 [unfolded TransitionToRTR_def]] by (auto simp: ibv_qp_attr_zero_def p_def)
  have s: "Status_ok st3 \<and> qstate n3 = (qstate n2)(p := QP_RTS) \<or> \<not> Status_ok st3 \<and> qstate n3 = qstate n2"
    using transition_conforms [OF V 3 [unfolded TransitionToRTS_def]] by (auto simp: ibv_qp_attr_zero_def p_def)
  have "(st, c', n') =
      (if \<not> Status_ok st1 then (st1, c\<lparr>conn_state := CONN_ERROR\<rparr>, n1)
       else if \<not> Status_ok st2 then (st2, c\<lparr>conn_state := CONN_ERROR\<rparr>, n2)
       else if \<not> Status_ok st3 then (st3, c\<lparr>conn_state := CONN_ERROR\<rparr>, n3)
       else (Status_OK, c\<lparr>conn_state := CONNECTED\<rparr>, n3))"
    using eq True 1 2 3 by (auto simp: Connect_def Let_def split: if_splits)
  with True i r s show ?thesis by (auto simp: p_def split: if_splits)
qed

lemma Disconnect_conforms:
  assumes V: "verbs_conform V qstate" and eq: "Disconnect V c n = (st, c', n')"
  defines "p \<equiv> qp_raw (conn_qp c)"
  shows "Status_ok st \<and> qp_raw (conn_qp c') = p \<and>
     (conn_state c \<noteq> CONNECTED \<and> c' = c \<and> n' = n \<or>
      conn_state c = CONNECTED \<and> conn_state c' = DISCONNECTED \<and>
        (qstate n' = (qstate n)(p := QP_ERROR) \<or> qstate n' = qstate n))"
proof (cases "conn_state c = CONNECTED")
  case False
  with eq show ?thesis by (auto simp: Disconnect_def p_def)
next
  case True
  obtain st1 n1 where 1: "TransitionToError V (conn_qp c) n = (st1, n1)" by (cases "TransitionToError V (conn_qp c) n")
  have "qstate n1 = (qstate n)(p := QP_ERROR) \<or> qstate n1 = qstate n"
    using transition_conforms [OF V 1 [unfolded TransitionToError_def]] by (auto simp: ibv_qp_attr_zero_def p_def)
  with eq True 1 show ?thesis by (auto simp: Disconnect_def Let_def p_def)
qed

section \<open>Established connections are usable\<close>

definition conn_ready :: "('n \<Rightarrow> ptr \<Rightarrow> QpState) \<Rightarrow> Connection \<times> 'n \<Rightarrow> bool" where
  "conn_ready qstate x \<longleftrightarrow>
     conn_state (fst x) \<in> {DISCONNECTED, CONNECTED, CONN_ERROR} \<and>
     (conn_state (fst x) = CONNECTED \<longrightarrow> qstate (snd x) (qp_raw (conn_qp (fst x))) = QP_RTS)"

lemma conn_ready_kept: "post_keeps qstate x y \<Longrightarrow> conn_ready qstate x \<Longrightarrow> conn_ready qstate y"
  by (simp add: conn_ready_def post_keeps_def)

lemma conn_step_ready:
  assumes "verbs_conform V qstate" and "conn_step V x y" and "conn_ready qstate x"
  shows "conn_ready qstate y"
  using assms(2,3)
proof (induction rule: conn_step.induct)
  case (connect rp c n st c' n')
  from Connect_conforms [OF assms(1) connect(1)] connect(2) show ?case by (auto simp: conn_ready_def)
next
  case (disconnect c n st c' n')
  from Disconnect_conforms [OF assms(1) disconnect(1)] disconnect(2) show ?case by (auto simp: conn_ready_def)
qed (auto elim: conn_ready_kept dest: posts_keep [OF assms(1)])

text \<open>
  C33. On a device that conforms to the verbs state table, whatever sequence of connects, disconnects
  and posts a fresh connection sees, an established connection's queue pair is ready to send, and
  between calls the connection is disconnected, connected or in error.
\<close>

theorem established_qp_ready_to_send:
  assumes "verbs_conform V qstate" and "conn_state c = DISCONNECTED" and "(conn_step V)\<^sup>*\<^sup>* (c, n) (c', n')"
  shows "conn_state c' \<in> {DISCONNECTED, CONNECTED, CONN_ERROR} \<and>
         (conn_state c' = CONNECTED \<longrightarrow> qstate n' (qp_raw (conn_qp c')) = QP_RTS)"
proof -
  have "kept_invariant (conn_step V) (conn_ready qstate)"
    by unfold_locales (rule conn_step_ready [OF assms(1)])
  from kept_invariant.run_keeps [OF this assms(3)] assms(2) have "conn_ready qstate (c', n')" by (simp add: conn_ready_def)
  then show ?thesis by (simp add: conn_ready_def)
qed

text \<open>A device that holds nothing but the states and accepts exactly the legal transitions.\<close>

definition table_verbs :: "(ptr \<Rightarrow> QpState) qp_verbs" where
  "table_verbs =
     \<lparr>v_post_send = (\<lambda>p w n. (None, n)), v_post_recv = (\<lambda>p w n. (None, n)),
      v_modify_qp = (\<lambda>p a m n. if legal_transition (n p) (qa_qp_state a) then (None, n(p := qa_qp_state a)) else (Some 22, n))\<rparr>"

lemma table_verbs_conform: "verbs_conform table_verbs (\<lambda>n. n)"
  by (auto simp: verbs_conform_def table_verbs_def split: if_splits)

definition sample_conn :: "ConnectionState \<Rightarrow> Connection" where
  "sample_conn st =
     \<lparr>conn_qp = sample_qp, conn_pd = None, conn_send_cq = None, conn_recv_cq = None,
      conn_config = ConnectionConfig_default id, conn_id_of = 0, conn_state = st,
      conn_flow_control = FlowControl_new id 0 (FlowControlConfig_default id),
      conn_remote_recv_buffer = \<lparr>rmi_addr = 0, rmi_rkey = 0, rmi_length = 0\<rparr>, conn_peer_address = ''''\<rparr>"

lemmas sample_transitions = TransitionToInit_def TransitionToRTR_def TransitionToRTS_def TransitionToError_def
  modify_status_def table_verbs_def ibv_qp_attr_zero_def sample_conn_def sample_qp_def

lemma sample_connect:
  "Connect table_verbs QpConnParams_zero (sample_conn DISCONNECTED) (\<lambda>_. QP_RESET) =
     (Status_OK, sample_conn CONNECTED, (\<lambda>_. QP_RESET)(1 := QP_RTS))"
  by (simp add: Connect_def sample_transitions Let_def)

lemma sample_disconnect:
  "Disconnect table_verbs (sample_conn CONNECTED) ((\<lambda>_. QP_RESET)(1 := QP_RTS)) =
     (Status_OK, sample_conn DISCONNECTED, (\<lambda>_. QP_RESET)(1 := QP_ERROR))"
  by (simp add: Disconnect_def sample_transitions Let_def)

lemma sample_reconnect:
  "Connect table_verbs QpConnParams_zero (sample_conn DISCONNECTED) ((\<lambda>_. QP_RESET)(1 := QP_ERROR)) =
     (Status_IOError ''Failed to transition QP to INIT'' 22, sample_conn CONN_ERROR, (\<lambda>_. QP_RESET)(1 := QP_ERROR))"
  by (simp add: Connect_def sample_transitions Let_def)

theorem established_qp_ready_to_send_witness:
  "((\<lambda>_. QP_RESET)(1 := QP_RTS)) (qp_raw (conn_qp (sample_conn CONNECTED))) = QP_RTS"
  using established_qp_ready_to_send [OF table_verbs_conform _ r_into_rtranclp [of "conn_step table_verbs", OF conn_step.connect, OF sample_connect]]
  by (simp add: sample_conn_def)

section \<open>A disconnected connection stays disconnected\<close>

definition conn_dead :: "('n \<Rightarrow> ptr \<Rightarrow> QpState) \<Rightarrow> Connection \<times> 'n \<Rightarrow> bool" where
  "conn_dead qstate x \<longleftrightarrow>
     conn_state (fst x) \<in> {DISCONNECTED, CONN_ERROR} \<and> qstate (snd x) (qp_raw (conn_qp (fst x))) = QP_ERROR"

lemma conn_dead_kept: "post_keeps qstate x y \<Longrightarrow> conn_dead qstate x \<Longrightarrow> conn_dead qstate y"
  by (simp add: conn_dead_def post_keeps_def)

lemma conn_step_dead:
  assumes "verbs_conform V qstate" and "conn_step V x y" and "conn_dead qstate x"
  shows "conn_dead qstate y"
  using assms(2,3)
proof (induction rule: conn_step.induct)
  case (connect rp c n st c' n')
  from Connect_conforms [OF assms(1) connect(1)] connect(2) show ?case by (auto simp: conn_dead_def)
next
  case (disconnect c n st c' n')
  from Disconnect_conforms [OF assms(1) disconnect(1)] disconnect(2) show ?case by (auto simp: conn_dead_def)
qed (auto elim: conn_dead_kept dest: posts_keep [OF assms(1)])

text \<open>
  C34. A connection object cannot be reused: once a disconnect has moved its queue pair to the error
  state, no sequence of operations on the connection makes it connected again, since nothing
  in the connection resets the queue pair.
\<close>

theorem disconnected_never_reconnects:
  assumes "verbs_conform V qstate" and "conn_state c = CONNECTED" and "Disconnect V c n = (st, c1, n1)"
    and "qstate n1 (qp_raw (conn_qp c1)) = QP_ERROR" and "(conn_step V)\<^sup>*\<^sup>* (c1, n1) (c2, n2)"
  shows "conn_state c2 \<noteq> CONNECTED"
proof -
  have dead: "conn_dead qstate (c1, n1)"
    using Disconnect_conforms [OF assms(1,3)] assms(2,4) by (auto simp: conn_dead_def)
  have "kept_invariant (conn_step V) (conn_dead qstate)"
    by unfold_locales (rule conn_step_dead [OF assms(1)])
  from kept_invariant.run_keeps [OF this assms(5) dead] have "conn_dead qstate (c2, n2)" .
  then show ?thesis by (auto simp: conn_dead_def)
qed

theorem disconnected_never_reconnects_witness:
  "conn_state (sample_conn CONN_ERROR) \<noteq> CONNECTED"
  using disconnected_never_reconnects [OF table_verbs_conform _ sample_disconnect _
      r_into_rtranclp [of "conn_step table_verbs", OF conn_step.connect, OF sample_reconnect]]
  by (simp add: sample_conn_def sample_qp_def)

section \<open>Creation and destruction\<close>

text \<open>What creation relies on: the queue pair the library returns is not null and not in use.\<close>

definition qp_fresh :: "(ledger \<Rightarrow> ptr \<Rightarrow> ptr \<Rightarrow> ptr \<Rightarrow> QueuePairConfig \<Rightarrow> int + ptr \<times> u32) \<Rightarrow> bool" where
  "qp_fresh create_qp \<longleftrightarrow>
     (\<forall>L p s r c q num. create_qp L p s r c = Inr (q, num) \<longrightarrow> q \<noteq> 0 \<and> R_QP q \<notin> lg_live L)"

text \<open>
  A connection leaks no queue pair: a failed creation leaves the ledger of handles as it was, and
  destroying a created connection, whatever state it has reached, gives its queue pair back exactly
  once.
\<close>

theorem connection_never_leaks:
  assumes "Connection_Create create_qp rnd now0 now pd scq rcq config L = (r, L1)"
    and "qp_fresh create_qp"
  shows "case r of Inl st \<Rightarrow> L1 = L \<and> \<not> Status_ok st
                 | Inr c \<Rightarrow> snd (Connection_dtor V (c\<lparr>conn_state := any_state\<rparr>) n L1) = L"
proof -
  obtain r' L' where qp: "QP_Create create_qp pd scq rcq (cc_qp_config config) L = (r', L')"
    by (cases "QP_Create create_qp pd scq rcq (cc_qp_config config) L")
  have "case r' of Inl st \<Rightarrow> L' = L \<and> \<not> Status_ok st
      | Inr q \<Rightarrow> L' = acquire (R_QP (qp_raw q)) L \<and> qp_raw q \<noteq> 0 \<and> R_QP (qp_raw q) \<notin> lg_live L"
    using qp assms(2) by (auto simp: QP_Create_def qp_fresh_def split: if_splits sum.splits) blast+
  moreover have "snd (Connection_dtor V c n L') = QP_dtor (conn_qp c) L'" for c L'
    by (simp add: Connection_dtor_def Disconnect_def Let_def split_beta)
  ultimately show ?thesis
    using assms(1) qp by (auto simp: Connection_Create_def QP_dtor_def split: if_splits sum.splits)
qed

definition sample_pd :: ProtectionDomain where
  "sample_pd = \<lparr>pd_raw = 3, pd_device = None\<rparr>"

definition sample_create_qp :: "ledger \<Rightarrow> ptr \<Rightarrow> ptr \<Rightarrow> ptr \<Rightarrow> QueuePairConfig \<Rightarrow> int + ptr \<times> u32" where
  "sample_create_qp L p s r c = map_sum id (\<lambda>q. (q, 9)) (pick R_QP [5] L)"

lemma sample_create_qp_fresh: "qp_fresh sample_create_qp"
  by (auto simp: qp_fresh_def sample_create_qp_def split: if_splits)

definition sample_cq :: CompletionQueue where
  "sample_cq = \<lparr>cq_raw = 4, cq_channel = 0, cq_device = None, cq_depth = 16, cq_outstanding = 0\<rparr>"

theorem connection_never_leaks_witness:
  "snd (Connection_dtor table_verbs
          ((projr (fst (Connection_Create sample_create_qp id 0 0 (Some sample_pd) (Some sample_cq) (Some sample_cq)
             (ConnectionConfig_default id) ledger_empty)))\<lparr>conn_state := CONNECTED\<rparr>)
          (\<lambda>_. QP_RTS) (acquire (R_QP 5) ledger_empty)) = ledger_empty"
  using connection_never_leaks [of sample_create_qp id 0 0 "Some sample_pd" "Some sample_cq" "Some sample_cq"
      "ConnectionConfig_default id" ledger_empty _ _ table_verbs CONNECTED "\<lambda>_. QP_RTS", OF surjective_pairing]
  by (simp add: Connection_Create_def QP_Create_def sample_pd_def sample_cq_def ledger_empty_def sample_create_qp_def sample_create_qp_fresh)

end
