(* ===== verification/Connection_Manager.thy ===== *)
theory Connection_Manager
  imports Connection
begin

text \<open>
  \<open>include/rdma/transport/connection_manager.h\<close> and \<open>src/transport/connection_manager.cpp\<close>: a table
  of connections indexed by connection id, with a stack of free ids. A null \<open>unique_ptr\<close> of the
  table is \<open>None\<close>; the pointer that \<open>CreateConnection\<close> and \<open>GetConnection\<close> return is the id of the
  connection in the table. Logging is left out.
\<close>

section \<open>State\<close>

record ConnectionManagerConfig =
  cmc_max_connections :: u16
  cmc_default_conn_config :: ConnectionConfig

definition ConnectionManagerConfig_default :: "(real \<Rightarrow> real) \<Rightarrow> ConnectionManagerConfig" where
  "ConnectionManagerConfig_default rnd =
     \<lparr>cmc_max_connections = 1024, cmc_default_conn_config = ConnectionConfig_default rnd\<rparr>"

record ConnectionManager =
  cm_pd :: ProtectionDomain
  cm_send_cq :: CompletionQueue
  cm_recv_cq :: CompletionQueue
  cm_config :: ConnectionManagerConfig
  cm_connections :: "Connection option list"
  cm_free_conn_ids :: "u16 list"
  cm_active_count :: size_t

definition UINT16_MAX :: u16 where
  "UINT16_MAX = 0xFFFF"

definition Manager_Create ::
  "ProtectionDomain option \<Rightarrow> CompletionQueue option \<Rightarrow> CompletionQueue option \<Rightarrow> ConnectionManagerConfig
     \<Rightarrow> ConnectionManager Result" where
  "Manager_Create pd send_cq recv_cq config =
     (case (pd, send_cq, recv_cq) of
        (Some p, Some s, Some r) \<Rightarrow>
          Inr \<lparr>cm_pd = p, cm_send_cq = s, cm_recv_cq = r, cm_config = config,
               cm_connections = replicate (unat (cmc_max_connections config)) None,
               cm_free_conn_ids = stack_init (unat (cmc_max_connections config)), cm_active_count = 0\<rparr>
      | _ \<Rightarrow> Inl (Status_InvalidArgument ''Invalid parameters''))"

definition AllocateConnId :: "ConnectionManager \<Rightarrow> u16 \<times> ConnectionManager" where
  "AllocateConnId m =
     (if cm_free_conn_ids m = [] then (UINT16_MAX, m)
      else (last (cm_free_conn_ids m), m\<lparr>cm_free_conn_ids := butlast (cm_free_conn_ids m)\<rparr>))"

definition FreeConnId :: "u16 \<Rightarrow> ConnectionManager \<Rightarrow> ConnectionManager" where
  "FreeConnId conn_id m = m\<lparr>cm_free_conn_ids := cm_free_conn_ids m @ [conn_id]\<rparr>"

text \<open>
  \<open>connections_[conn_id] = ...\<close> without a bound test in the source. \<open>mk\<close> is \<open>Connection::Create\<close> on
  the manager's objects, with its side effects on the ledger of handles.
\<close>

definition CreateConnection ::
  "(ProtectionDomain option \<Rightarrow> CompletionQueue option \<Rightarrow> CompletionQueue option \<Rightarrow> ConnectionConfig \<Rightarrow> ledger
      \<Rightarrow> Connection Result \<times> ledger) \<Rightarrow> ConnectionConfig \<Rightarrow> ConnectionManager \<Rightarrow> ledger
     \<Rightarrow> (u16 Result \<times> ConnectionManager \<times> ledger) chk" where
  "CreateConnection mk config m L =
     (let (conn_id, m1) = AllocateConnId m
      in if conn_id = UINT16_MAX
         then Inr (Inl (Status_ResourceExhausted ''No available connection slots''), m1, L)
         else case mk (Some (cm_pd m1)) (Some (cm_send_cq m1)) (Some (cm_recv_cq m1)) config L of
           (Inl st, L1) \<Rightarrow> Inr (Inl st, FreeConnId conn_id m1, L1)
         | (Inr conn, L1) \<Rightarrow>
             if unat conn_id < length (cm_connections m1)
             then Inr (Inr conn_id,
                    m1\<lparr>cm_connections := (cm_connections m1)[unat conn_id := Some (SetConnId conn_id conn)],
                       cm_active_count := cm_active_count m1 + 1\<rparr>, L1)
             else Inl Out_Of_Bounds)"

definition GetConnection :: "u16 \<Rightarrow> ConnectionManager \<Rightarrow> Connection option" where
  "GetConnection conn_id m =
     (if unat conn_id \<ge> length (cm_connections m) then None else cm_connections m ! unat conn_id)"

definition RemoveConnection ::
  "'n qp_verbs \<Rightarrow> u16 \<Rightarrow> ConnectionManager \<Rightarrow> 'n \<Rightarrow> ledger \<Rightarrow> ConnectionManager \<times> 'n \<times> ledger" where
  "RemoveConnection V conn_id m n L =
     (if unat conn_id \<ge> length (cm_connections m) then (m, n, L)
      else case cm_connections m ! unat conn_id of
        None \<Rightarrow> (m, n, L)
      | Some c \<Rightarrow>
          let (n1, L1) = Connection_dtor V c n L;
              m1 = FreeConnId conn_id (m\<lparr>cm_connections := (cm_connections m)[unat conn_id := None]\<rparr>)
          in (m1\<lparr>cm_active_count := cm_active_count m1 - 1\<rparr>, n1, L1))"

text \<open>\<open>connections_.clear()\<close> destroys the connections in the order of the table.\<close>

fun destroy_all :: "'n qp_verbs \<Rightarrow> Connection option list \<Rightarrow> 'n \<Rightarrow> ledger \<Rightarrow> 'n \<times> ledger" where
  "destroy_all V [] n L = (n, L)"
| "destroy_all V (None # cs) n L = destroy_all V cs n L"
| "destroy_all V (Some c # cs) n L = (let (n1, L1) = Connection_dtor V c n L in destroy_all V cs n1 L1)"

definition Manager_dtor :: "'n qp_verbs \<Rightarrow> ConnectionManager \<Rightarrow> 'n \<Rightarrow> ledger \<Rightarrow> 'n \<times> ledger" where
  "Manager_dtor V m n L = destroy_all V (cm_connections m) n L"

section \<open>Connection ids are an index pool\<close>

definition conn_alloc :: "ConnectionManager \<Rightarrow> (u16 \<times> ConnectionManager) option" where
  "conn_alloc m = (case AllocateConnId m of (i, m') \<Rightarrow> if i = UINT16_MAX then None else Some (i, m'))"

definition conn_release :: "u16 \<Rightarrow> ConnectionManager \<Rightarrow> ConnectionManager chk" where
  "conn_release i m = Inr (FreeConnId i m)"

definition conn_avail :: "ConnectionManager \<Rightarrow> u16 set" where
  "conn_avail m = set (cm_free_conn_ids m)"

definition conn_univ :: "ConnectionManager \<Rightarrow> u16 set" where
  "conn_univ m = {i. i < cmc_max_connections (cm_config m)}"

definition conn_ids_ok :: "ConnectionManager \<Rightarrow> bool" where
  "conn_ids_ok m \<longleftrightarrow> distinct (cm_free_conn_ids m) \<and> conn_avail m \<subseteq> conn_univ m"

lemma univ_below_sentinel: "i \<in> conn_univ m \<Longrightarrow> i \<noteq> UINT16_MAX"
proof
  assume "i \<in> conn_univ m" and "i = UINT16_MAX"
  then have "UINT16_MAX < cmc_max_connections (cm_config m)" by (simp add: conn_univ_def)
  then show False using unat_u16_lt [of "cmc_max_connections (cm_config m)"]
    by (simp add: word_less_nat_alt UINT16_MAX_def)
qed

interpretation conn_ids: index_pool "\<lambda>m. Inr (conn_alloc m)" conn_release conn_avail conn_univ conn_ids_ok
proof unfold_locales
  fix m m' :: ConnectionManager and i :: u16
  assume inv: "conn_ids_ok m"
  have last: "last (cm_free_conn_ids m) \<noteq> UINT16_MAX" if "cm_free_conn_ids m \<noteq> []"
    using inv last_in_set [OF that] univ_below_sentinel [of "last (cm_free_conn_ids m)" m]
    by (auto simp: conn_ids_ok_def conn_avail_def)
  show "(Inr (conn_alloc m) :: (u16 \<times> ConnectionManager) option chk) = Inr None \<longleftrightarrow> conn_avail m = {}"
    using last by (auto simp: conn_alloc_def AllocateConnId_def conn_avail_def)
  show "i \<in> conn_avail m \<and> conn_avail m' = conn_avail m - {i} \<and> conn_univ m' = conn_univ m \<and> conn_ids_ok m'"
    if "(Inr (conn_alloc m) :: (u16 \<times> ConnectionManager) option chk) = Inr (Some (i, m'))"
  proof -
    from that have "cm_free_conn_ids m \<noteq> []" "i = last (cm_free_conn_ids m)"
      "m' = m\<lparr>cm_free_conn_ids := butlast (cm_free_conn_ids m)\<rparr>"
      by (auto simp: conn_alloc_def AllocateConnId_def split: if_splits)
    with stack_pop [of "cm_free_conn_ids m"] inv show ?thesis
      by (auto simp: conn_ids_ok_def conn_avail_def conn_univ_def)
  qed
  show "\<exists>m'. conn_release i m = Inr m' \<and> conn_avail m' = insert i (conn_avail m) \<and> conn_univ m' = conn_univ m \<and> conn_ids_ok m'"
    if "i \<in> conn_univ m" "i \<notin> conn_avail m"
    using that inv by (auto simp: conn_release_def FreeConnId_def conn_ids_ok_def conn_avail_def conn_univ_def)
qed simp

section \<open>The table and the free list agree\<close>

definition conn_live :: "ConnectionManager \<Rightarrow> nat set" where
  "conn_live m = {i. i < length (cm_connections m) \<and> cm_connections m ! i \<noteq> None}"

definition mgr_inv :: "ConnectionManager \<Rightarrow> bool" where
  "mgr_inv m \<longleftrightarrow> length (cm_connections m) = unat (cmc_max_connections (cm_config m)) \<and> conn_ids_ok m \<and>
     unat ` conn_avail m = {..<length (cm_connections m)} - conn_live m \<and>
     unat (cm_active_count m) = card (conn_live m) \<and>
     (\<forall>i c. GetConnection i m = Some c \<longrightarrow> conn_id_of c = i)"

lemma finite_conn_live [simp]: "finite (conn_live m)"
  by (simp add: conn_live_def)

lemma card_conn_live: "card (conn_live m) \<le> length (cm_connections m)"
  using card_mono [of "{..<length (cm_connections m)}" "conn_live m"] by (auto simp: conn_live_def)

lemma GetConnection_live: "GetConnection i m \<noteq> None \<longleftrightarrow> unat i \<in> conn_live m"
  by (auto simp: GetConnection_def conn_live_def)

lemma mgr_inv_Create:
  assumes "Manager_Create pd scq rcq config = Inr m"
  shows "mgr_inv m"
proof -
  let ?n = "unat (cmc_max_connections config)"
  from assms obtain p s r where m: "m = \<lparr>cm_pd = p, cm_send_cq = s, cm_recv_cq = r, cm_config = config,
      cm_connections = replicate ?n None, cm_free_conn_ids = stack_init ?n, cm_active_count = 0\<rparr>"
    by (auto simp: Manager_Create_def split: option.splits)
  have n: "?n \<le> 2 ^ LENGTH(16)" using unat_u16_lt [of "cmc_max_connections config"] by simp
  have "i < cmc_max_connections config" if "i \<in> set (stack_init ?n)" for i :: u16
    using that stack_init_props(2) [OF n] by (auto simp: word_less_nat_alt)
  moreover have "conn_live m = {}" by (auto simp: conn_live_def m)
  ultimately show ?thesis
    using stack_init_props [OF n] by (auto simp: mgr_inv_def conn_ids_ok_def conn_avail_def conn_univ_def m GetConnection_def)
qed

text \<open>Every outcome of \<open>CreateConnection\<close>.\<close>

lemma conn_alloc_Allocate:
  "conn_ids_ok m \<Longrightarrow> AllocateConnId m =
     (case conn_alloc m of None \<Rightarrow> (UINT16_MAX, m) | Some (i, m') \<Rightarrow> (i, m'))"
  using conn_ids.alloc_None [of m] by (auto simp: conn_alloc_def AllocateConnId_def conn_avail_def split: if_splits)

lemma conn_alloc_frame:
  "conn_alloc m = Some (i, m') \<Longrightarrow> i \<noteq> UINT16_MAX \<and> m' = m\<lparr>cm_free_conn_ids := butlast (cm_free_conn_ids m)\<rparr> \<and>
     cm_free_conn_ids m = butlast (cm_free_conn_ids m) @ [i]"
  by (auto simp: conn_alloc_def AllocateConnId_def split: if_splits)

lemma CreateConnection_outcome:
  assumes inv: "mgr_inv m"
  shows "conn_alloc m = None \<and>
      CreateConnection mk config m L = Inr (Inl (Status_ResourceExhausted ''No available connection slots''), m, L) \<or>
    (\<exists>i m1. conn_alloc m = Some (i, m1) \<and> unat i < length (cm_connections m) \<and>
      CreateConnection mk config m L =
        (case mk (Some (cm_pd m)) (Some (cm_send_cq m)) (Some (cm_recv_cq m)) config L of
           (Inl st, L1) \<Rightarrow> Inr (Inl st, m, L1)
         | (Inr conn, L1) \<Rightarrow>
             Inr (Inr i, m1\<lparr>cm_connections := (cm_connections m)[unat i := Some (SetConnId i conn)],
                            cm_active_count := cm_active_count m + 1\<rparr>, L1)))"
proof (cases "conn_alloc m")
  case None
  with inv show ?thesis using conn_alloc_Allocate [of m] by (simp add: CreateConnection_def mgr_inv_def)
next
  case (Some p)
  obtain i m1 where p: "p = (i, m1)" by (cases p)
  from Some p have f: "i \<noteq> UINT16_MAX" "m1 = m\<lparr>cm_free_conn_ids := butlast (cm_free_conn_ids m)\<rparr>"
    "cm_free_conn_ids m = butlast (cm_free_conn_ids m) @ [i]" using conn_alloc_frame by blast+
  have ok: "conn_ids_ok m" using inv by (simp add: mgr_inv_def)
  have "i \<in> conn_avail m" using conn_ids.alloc_Some [OF ok] Some p by blast
  then have lt: "unat i < length (cm_connections m)"
    using ok inv by (auto simp: conn_ids_ok_def conn_univ_def mgr_inv_def word_less_nat_alt)
  have "FreeConnId i m1 = m" using f(2,3) by (simp add: FreeConnId_def)
  then have "CreateConnection mk config m L =
        (case mk (Some (cm_pd m)) (Some (cm_send_cq m)) (Some (cm_recv_cq m)) config L of
           (Inl st, L1) \<Rightarrow> Inr (Inl st, m, L1)
         | (Inr conn, L1) \<Rightarrow>
             Inr (Inr i, m1\<lparr>cm_connections := (cm_connections m)[unat i := Some (SetConnId i conn)],
                            cm_active_count := cm_active_count m + 1\<rparr>, L1))"
    using Some p f(1,2) lt conn_alloc_Allocate [OF ok] by (auto simp: CreateConnection_def split: sum.splits prod.splits)
  with Some p lt show ?thesis by blast
qed

lemma mgr_inv_insert:
  assumes inv: "mgr_inv m" and al: "conn_alloc m = Some (i, m1)" and lt: "unat i < length (cm_connections m)"
    and id: "conn_id_of c = i"
  defines "m' \<equiv> m1\<lparr>cm_connections := (cm_connections m)[unat i := Some c], cm_active_count := cm_active_count m + 1\<rparr>"
  shows "mgr_inv m' \<and> GetConnection i m = None \<and> GetConnection i m' = Some c \<and> conn_live m' = insert (unat i) (conn_live m) \<and>
    (\<forall>j. j \<noteq> i \<longrightarrow> GetConnection j m' = GetConnection j m)"
proof -
  have ok: "conn_ids_ok m" using inv by (simp add: mgr_inv_def)
  note a = conn_ids.alloc_Some [OF ok al [THEN arg_cong [of _ _ Inr]]]
  have m1: "m1 = m\<lparr>cm_free_conn_ids := butlast (cm_free_conn_ids m)\<rparr>" using conn_alloc_frame [OF al] by blast
  have notlive: "unat i \<notin> conn_live m" using a inv by (auto simp: mgr_inv_def)
  have live: "conn_live m' = insert (unat i) (conn_live m)"
    using lt by (auto simp: conn_live_def m'_def m1 nth_list_update)
  have get: "GetConnection j m' = (if j = i then Some c else GetConnection j m)" for j
    using lt by (auto simp: GetConnection_def m'_def m1 nth_list_update word_unat_eq_iff)
  have av: "conn_avail m' = conn_avail m - {i}" using a by (simp add: m'_def conn_avail_def m1)
  have "unat ` (conn_avail m - {i}) = unat ` conn_avail m - {unat i}" by (auto simp: word_unat_eq_iff)
  then have free: "unat ` conn_avail m' = {..<length (cm_connections m')} - conn_live m'"
    using inv live av by (auto simp: mgr_inv_def m'_def m1)
  have "card (conn_live m) < length (cm_connections m')"
    using card_conn_live [of m'] live notlive by simp
  then have "unat (cm_active_count m + 1) = Suc (unat (cm_active_count m))"
    using inv unat_u16_lt [of "cmc_max_connections (cm_config m)"]
    by (simp add: mgr_inv_def m'_def m1 unat_word_ariths)
  then have "unat (cm_active_count m') = card (conn_live m')"
    using inv live notlive by (simp add: mgr_inv_def m'_def)
  moreover have "conn_ids_ok m'" using a av m1 by (auto simp: conn_ids_ok_def m'_def conn_univ_def conn_avail_def)
  ultimately have "mgr_inv m'" using free inv get id by (auto simp: mgr_inv_def m'_def m1)
  moreover have "GetConnection i m = None" using notlive GetConnection_live by blast
  ultimately show ?thesis using live get by simp
qed

lemma mgr_inv_Remove:
  assumes inv: "mgr_inv m" and r: "RemoveConnection V i m n L = (m', n', L')"
  shows "mgr_inv m'"
proof (cases "GetConnection i m")
  case None
  then have "m' = m" using r by (auto simp: RemoveConnection_def GetConnection_def split: if_splits)
  with inv show ?thesis by simp
next
  case (Some c)
  then have lt: "unat i < length (cm_connections m)" and at: "cm_connections m ! unat i = Some c"
    by (auto simp: GetConnection_def split: if_splits)
  have m': "m' = m\<lparr>cm_connections := (cm_connections m)[unat i := None], cm_free_conn_ids := cm_free_conn_ids m @ [i],
      cm_active_count := cm_active_count m - 1\<rparr>"
    using r lt at by (auto simp: RemoveConnection_def FreeConnId_def split: prod.splits)
  have live: "unat i \<in> conn_live m" using lt at by (simp add: conn_live_def)
  have live': "conn_live m' = conn_live m - {unat i}" using lt by (auto simp: conn_live_def m' nth_list_update)
  have notav: "i \<notin> conn_avail m" using inv live by (auto simp: mgr_inv_def)
  have univ: "i \<in> conn_univ m" using lt inv by (simp add: conn_univ_def mgr_inv_def word_less_nat_alt)
  have "conn_ids_ok m'" using inv notav univ by (auto simp: mgr_inv_def conn_ids_ok_def conn_avail_def conn_univ_def m')
  moreover have "unat ` conn_avail m' = {..<length (cm_connections m')} - conn_live m'"
  proof -
    have "conn_avail m' = insert i (conn_avail m)" by (auto simp: conn_avail_def m')
    then show ?thesis using inv live' lt by (auto simp: mgr_inv_def m')
  qed
  moreover have "unat (cm_active_count m') = card (conn_live m')"
  proof -
    have "unat (cm_active_count m) = card (conn_live m)" using inv by (simp add: mgr_inv_def)
    moreover have "card (conn_live m) > 0" using live card_gt_0_iff finite_conn_live by blast
    ultimately have "cm_active_count m \<noteq> 0" by (auto simp: unat_eq_0)
    then have "unat (cm_active_count m - 1) = card (conn_live m) - 1"
      using \<open>unat (cm_active_count m) = card (conn_live m)\<close> by (simp add: unat_minus_one)
    then show ?thesis using live live' by (simp add: m' card_Diff_singleton)
  qed
  moreover have "GetConnection j m' = Some d \<Longrightarrow> GetConnection j m = Some d" for j d
    using lt by (auto simp: GetConnection_def m' nth_list_update split: if_splits)
  ultimately show ?thesis using inv by (auto simp: mgr_inv_def m')
qed

text \<open>A connection used through its pointer keeps its id.\<close>

lemma conn_step_id: "conn_step V x y \<Longrightarrow> conn_id_of (fst y) = conn_id_of (fst x)"
  by (induction rule: conn_step.induct)
    (auto simp: Connect_def Disconnect_def Conn_Send_def Conn_SendInline_def Conn_Write_def Conn_WriteWithImm_def
      Conn_Read_def with_qp_def Let_def split: if_splits prod.splits)

lemma mgr_inv_use:
  assumes inv: "mgr_inv m" and get: "GetConnection i m = Some c" and id: "conn_id_of c' = conn_id_of c"
  shows "mgr_inv (m\<lparr>cm_connections := (cm_connections m)[unat i := Some c']\<rparr>)" (is "mgr_inv ?m")
proof -
  from get have lt: "unat i < length (cm_connections m)" and at: "cm_connections m ! unat i = Some c"
    by (auto simp: GetConnection_def split: if_splits)
  then have "conn_live ?m = conn_live m" by (auto simp: conn_live_def nth_list_update)
  moreover have "GetConnection j ?m = (if j = i then Some c' else GetConnection j m)" for j
    using lt by (auto simp: GetConnection_def nth_list_update word_unat_eq_iff)
  moreover have "conn_id_of c = i" using inv get by (simp add: mgr_inv_def)
  ultimately show ?thesis
    using inv id by (auto simp: mgr_inv_def conn_ids_ok_def conn_avail_def conn_univ_def)
qed

section \<open>The life of a manager\<close>

inductive mgr_step ::
  "(ProtectionDomain option \<Rightarrow> CompletionQueue option \<Rightarrow> CompletionQueue option \<Rightarrow> ConnectionConfig \<Rightarrow> ledger
      \<Rightarrow> Connection Result \<times> ledger) \<Rightarrow> 'n qp_verbs \<Rightarrow> ConnectionManager \<times> 'n \<times> ledger
     \<Rightarrow> ConnectionManager \<times> 'n \<times> ledger \<Rightarrow> bool" for mk V where
  create: "CreateConnection mk config m L = Inr (r, m', L') \<Longrightarrow> mgr_step mk V (m, n, L) (m', n, L')"
| remove: "RemoveConnection V i m n L = (m', n', L') \<Longrightarrow> mgr_step mk V (m, n, L) (m', n', L')"
| use: "GetConnection i m = Some c \<Longrightarrow> conn_step V (c, n) (c', n') \<Longrightarrow>
     mgr_step mk V (m, n, L) (m\<lparr>cm_connections := (cm_connections m)[unat i := Some c']\<rparr>, n', L)"

lemma mgr_step_inv: "mgr_step mk V x y \<Longrightarrow> mgr_inv (fst x) \<Longrightarrow> mgr_inv (fst y)"
proof (induction rule: mgr_step.induct)
  case (create config m L r m' L' n)
  from create(2) have inv: "mgr_inv m" by simp
  obtain r1 L1 where mk: "mk (Some (cm_pd m)) (Some (cm_send_cq m)) (Some (cm_recv_cq m)) config L = (r1, L1)"
    by fastforce
  from CreateConnection_outcome [OF inv, of mk config L] create(1) mk have "m' = m \<or>
      (\<exists>i m1 conn. conn_alloc m = Some (i, m1) \<and> unat i < length (cm_connections m) \<and>
        m' = m1\<lparr>cm_connections := (cm_connections m)[unat i := Some (SetConnId i conn)], cm_active_count := cm_active_count m + 1\<rparr>)"
    by (cases r1) auto
  with inv mgr_inv_insert [OF inv] show ?case by (auto simp: SetConnId_def)
next
  case (remove i m n L m' n' L')
  then show ?case using mgr_inv_Remove by auto
next
  case (use i m c n c' n' L)
  then show ?case using mgr_inv_use conn_step_id by fastforce
qed

interpretation manager: kept_invariant "mgr_step mk V" "\<lambda>x. mgr_inv (fst x)" for mk V
  by unfold_locales (rule mgr_step_inv)

lemma mgr_run_inv:
  "Manager_Create pd scq rcq config = Inr m0 \<Longrightarrow> (mgr_step mk V)\<^sup>*\<^sup>* (m0, n0, L0) (m, n, L) \<Longrightarrow> mgr_inv m"
  using manager.run_keeps [of mk V "(m0, n0, L0)" "(m, n, L)"] mgr_inv_Create by simp

text \<open>
  C35. In every state a connection manager can reach by creating, removing and using connections,
  \<open>GetActiveCount\<close> is the number of connections in the table and creating one more either changes
  nothing but the ledger and reports an error, which it does for want of an id exactly when
  \<open>max_connections\<close> connections are alive, or enters the connection under an id that no other
  connection has and leaves the others in place. The table is never accessed out of bounds.
\<close>

theorem connection_ids_unique:
  assumes "Manager_Create pd scq rcq mconfig = Inr m0" and "(mgr_step mk V)\<^sup>*\<^sup>* (m0, n0, L0) (m, n, L)"
  shows "unat (cm_active_count m) = card (conn_live m) \<and>
    (case CreateConnection mk config m L of
       Inl _ \<Rightarrow> False
     | Inr (Inl st, m', L') \<Rightarrow> m' = m \<and>
         (card (conn_live m) < unat (cmc_max_connections (cm_config m)) \<or>
          card (conn_live m) = unat (cmc_max_connections (cm_config m)) \<and> L' = L \<and>
            st = Status_ResourceExhausted ''No available connection slots'')
     | Inr (Inr i, m', L') \<Rightarrow> GetConnection i m = None \<and>
         (\<exists>c. GetConnection i m' = Some c \<and> conn_id_of c = i) \<and> (\<forall>j. j \<noteq> i \<longrightarrow> GetConnection j m' = GetConnection j m) \<and>
         cm_active_count m' = cm_active_count m + 1)"
proof -
  have inv: "mgr_inv m" using mgr_run_inv [OF assms] .
  have active: "unat (cm_active_count m) = card (conn_live m)"
    and len: "length (cm_connections m) = unat (cmc_max_connections (cm_config m))"
    using inv by (simp_all add: mgr_inv_def)
  show ?thesis
  proof (cases "conn_alloc m")
    case None
    then have "conn_avail m = {}" using inv conn_ids.alloc_None by (simp add: mgr_inv_def)
    then have "{..<length (cm_connections m)} \<subseteq> conn_live m" using inv len by (simp add: mgr_inv_def)
    then have "conn_live m = {..<length (cm_connections m)}" by (auto simp: conn_live_def)
    with CreateConnection_outcome [OF inv, of mk config L] None active len show ?thesis by simp
  next
    case (Some p)
    obtain i m1 where p: "p = (i, m1)" by (cases p)
    obtain r1 L1 where mk: "mk (Some (cm_pd m)) (Some (cm_send_cq m)) (Some (cm_recv_cq m)) config L = (r1, L1)"
      by fastforce
    from CreateConnection_outcome [OF inv, of mk config L] Some p mk have lt: "unat i < length (cm_connections m)"
      and eq: "CreateConnection mk config m L =
        (case r1 of
           Inl st \<Rightarrow> Inr (Inl st, m, L1)
         | Inr conn \<Rightarrow>
             Inr (Inr i, m1\<lparr>cm_connections := (cm_connections m)[unat i := Some (SetConnId i conn)],
                            cm_active_count := cm_active_count m + 1\<rparr>, L1))"
      by simp_all
    have id: "conn_id_of (SetConnId i conn) = i" for conn by (simp add: SetConnId_def)
    note ins = mgr_inv_insert [OF inv Some [unfolded p] lt id]
    have "unat i \<notin> conn_live m" using ins GetConnection_live [of i m] by simp
    moreover have "conn_live m \<subseteq> {..<length (cm_connections m)}" by (auto simp: conn_live_def)
    moreover have "unat i \<in> {..<length (cm_connections m)}" using lt by simp
    ultimately have "conn_live m \<subset> {..<length (cm_connections m)}" by blast
    then have room: "card (conn_live m) < unat (cmc_max_connections (cm_config m))"
      using psubset_card_mono [of "{..<length (cm_connections m)}" "conn_live m"] len by simp
    show ?thesis
    proof (cases r1)
      case (Inl st)
      with eq active room show ?thesis by simp
    next
      case (Inr conn)
      from ins [of conn] eq [unfolded Inr] active id [of conn] show ?thesis by simp
    qed
  qed
qed

text \<open>A manager for one connection over a device that always creates queue pair 5.\<close>

definition sample_mk where
  "sample_mk = Connection_Create (\<lambda>_ _ _ _ _. Inr (5, 9)) id 0 0"

theorem connection_ids_unique_witness:
  "unat (cm_active_count (projr (Manager_Create (Some sample_pd) (Some sample_cq) (Some sample_cq)
      \<lparr>cmc_max_connections = 1, cmc_default_conn_config = ConnectionConfig_default id\<rparr>))) =
   card (conn_live (projr (Manager_Create (Some sample_pd) (Some sample_cq) (Some sample_cq)
      \<lparr>cmc_max_connections = 1, cmc_default_conn_config = ConnectionConfig_default id\<rparr>)))"
proof -
  have "Manager_Create (Some sample_pd) (Some sample_cq) (Some sample_cq)
      \<lparr>cmc_max_connections = 1, cmc_default_conn_config = ConnectionConfig_default id\<rparr> =
    Inr (projr (Manager_Create (Some sample_pd) (Some sample_cq) (Some sample_cq)
      \<lparr>cmc_max_connections = 1, cmc_default_conn_config = ConnectionConfig_default id\<rparr>))"
    by (simp add: Manager_Create_def)
  from connection_ids_unique [OF this rtranclp.rtrancl_refl [of "mgr_step sample_mk table_verbs"]]
  show ?thesis by blast
qed

end
