(* ===== verification/Rpc_Endpoint.thy ===== *)
theory Rpc_Endpoint
  imports Connection_Manager Timing_Wheel Buffer_Pool
begin

text \<open>
  \<open>include/rdma/rpc/rpc_endpoint.h\<close> and \<open>src/rpc/rpc_endpoint.cpp\<close>: the RPC layer that ties a
  connection, the slot pool, the timing wheel and the receive buffers together. The endpoint holds
  pointers to the connection, the buffer pool and the wheel, so one record carries the endpoint with
  the objects it points to, the device state, and the log of the callbacks it has invoked. Callbacks
  do not call back into the endpoint.
\<close>

section \<open>State\<close>

record EndpointConfig =
  epc_timeout_ms :: u32
  epc_max_inline_data :: size_t
  epc_enable_zero_copy_response :: bool

definition EndpointConfig_default :: EndpointConfig where
  "EndpointConfig_default =
     \<lparr>epc_timeout_ms = 30000, epc_max_inline_data = 256, epc_enable_zero_copy_response = True\<rparr>"

text \<open>A callback: function, context, slot index, status.\<close>

type_synonym rpc_call = "ptr \<times> ptr \<times> u32 \<times> u8"

record 'n RpcEndpoint =
  ep_conn :: Connection
  ep_buffer_pool :: LocalBufferPool
  ep_timing_wheel :: TimingWheel
  ep_slot_pool :: RpcSlotPool
  ep_config :: EndpointConfig
  ep_net :: 'n
  ep_calls :: "rpc_call list"

definition RpcEndpoint_Create ::
  "Connection option \<Rightarrow> LocalBufferPool option \<Rightarrow> TimingWheel option \<Rightarrow> EndpointConfig \<Rightarrow> 'n \<Rightarrow> 'n RpcEndpoint Result" where
  "RpcEndpoint_Create conn pool wheel config n =
     (case (conn, pool, wheel) of
        (Some c, Some b, Some t) \<Rightarrow>
          Inr \<lparr>ep_conn = c, ep_buffer_pool = b, ep_timing_wheel = t, ep_slot_pool = RpcSlotPool_new, ep_config = config,
               ep_net = n, ep_calls = []\<rparr>
      | _ \<Rightarrow> Inl (Status_InvalidArgument ''Invalid parameters''))"

definition invoke_callback :: "u32 \<Rightarrow> RpcSlotContext \<Rightarrow> u8 \<Rightarrow> 'n RpcEndpoint \<Rightarrow> 'n RpcEndpoint" where
  "invoke_callback slot_index context st e =
     (if callback_fn context \<noteq> nullptr
      then e\<lparr>ep_calls := ep_calls e @ [(callback_fn context, callback_ctx context, slot_index, st)]\<rparr>
      else e)"

definition free_slot :: "u32 \<Rightarrow> 'n RpcEndpoint \<Rightarrow> 'n RpcEndpoint chk" where
  "free_slot slot_index e =
     bind_chk (RpcSlotPool_Free slot_index (ep_slot_pool e)) (\<lambda>p. Inr (e\<lparr>ep_slot_pool := p\<rparr>))"

section \<open>Requests\<close>

text \<open>Steps 1 to 3 of both send operations: the slot is allocated and initialised, the timeout scheduled.\<close>

definition open_request :: "ptr \<Rightarrow> ptr \<Rightarrow> 'n RpcEndpoint \<Rightarrow> ((u32 \<times> u8) option \<times> 'n RpcEndpoint) chk" where
  "open_request ctx fn e =
     (let ((slot_index, generation), p0) = RpcSlotPool_Allocate (ep_slot_pool e)
      in if slot_index = kNoSlot then Inr (None, e\<lparr>ep_slot_pool := p0\<rparr>)
         else bind_chk (RpcSlotPool_GetHot slot_index p0) (\<lambda>hot.
              bind_chk (RpcSlotPool_GetContext slot_index p0) (\<lambda>context.
                let hot1 = (Hot_SetState kStateInUse hot)\<lparr>hot_conn_id := conn_id_of (ep_conn e), total_wr_count := 1,
                             completed_wr_count := 0\<rparr>;
                    context1 = context\<lparr>callback_ctx := ctx, callback_fn := fn\<rparr>;
                    p1 = RpcSlotPool_set_context slot_index context1 (RpcSlotPool_set_hot slot_index hot1 p0);
                    (_, t1) = TimingWheel_Schedule slot_index generation (epc_timeout_ms (ep_config e)) (ep_timing_wheel e)
                in Inr (Some (slot_index, generation), e\<lparr>ep_slot_pool := p1, ep_timing_wheel := t1\<rparr>))))"

text \<open>Step 4: the header goes inline; on failure the slot is freed.\<close>

definition send_header ::
  "'n qp_verbs \<Rightarrow> ptr \<Rightarrow> size_t \<Rightarrow> u32 \<Rightarrow> u8 \<Rightarrow> 'n RpcEndpoint \<Rightarrow> (Status \<times> 'n RpcEndpoint) chk" where
  "send_header V header header_len slot_index generation e =
     (let wr_id = WrId_Encode (conn_id_of (ep_conn e)) REQUEST_SEND generation slot_index;
          (st, c, n) = Conn_SendInline V header header_len wr_id (ep_conn e) (ep_net e);
          e1 = e\<lparr>ep_conn := c, ep_net := n\<rparr>
      in if \<not> Status_ok st then bind_chk (free_slot slot_index e1) (\<lambda>e2. Inr (st, e2))
         else Inr (st, e1))"

definition request_imm :: "u32 \<Rightarrow> u8 \<Rightarrow> u32" where
  "request_imm slot_index generation = push_bit 16 (ucast generation) OR (slot_index AND 0xFFFF)"

text \<open>\<open>hot->total_wr_count++\<close>.\<close>

definition add_wr :: "u32 \<Rightarrow> 'n RpcEndpoint \<Rightarrow> 'n RpcEndpoint" where
  "add_wr slot_index e =
     (let hot = slots_hot (ep_slot_pool e) (unat slot_index)
      in e\<lparr>ep_slot_pool := RpcSlotPool_set_hot slot_index (hot\<lparr>total_wr_count := total_wr_count hot + 1\<rparr>) (ep_slot_pool e)\<rparr>)"

definition no_slots :: Status where
  "no_slots = Status_ResourceExhausted ''No available RPC slots''"

definition SendRequest ::
  "'n qp_verbs \<Rightarrow> ptr \<Rightarrow> size_t \<Rightarrow> Buffer option \<Rightarrow> ptr \<Rightarrow> ptr \<Rightarrow> 'n RpcEndpoint \<Rightarrow> (u32 Result \<times> 'n RpcEndpoint) chk" where
  "SendRequest V header header_len data_buf ctx fn e =
     bind_chk (open_request ctx fn e) (\<lambda>(r, e1).
       case r of
         None \<Rightarrow> Inr (Inl no_slots, e1)
       | Some (slot_index, generation) \<Rightarrow>
           bind_chk (send_header V header header_len slot_index generation e1) (\<lambda>(st, e2).
             if \<not> Status_ok st then Inr (Inl st, e2)
             else case data_buf of
               None \<Rightarrow> Inr (Inr slot_index, e2)
             | Some b \<Rightarrow>
                 if \<not> Buffer_IsValid b then Inr (Inr slot_index, e2)
                 else let e3 = add_wr slot_index e2;
                          remote_buf = conn_remote_recv_buffer (ep_conn e3);
                          (_, c, n) = Conn_WriteWithImm V b (rmi_addr remote_buf) (rmi_rkey remote_buf)
                                        (request_imm slot_index generation)
                                        (WrId_Encode (conn_id_of (ep_conn e1)) REQUEST_SEND generation slot_index)
                                        (ep_conn e3) (ep_net e3)
                      in Inr (Inr slot_index, e3\<lparr>ep_conn := c, ep_net := n\<rparr>)))"

text \<open>\<open>iov\<close> is \<open>None\<close> for the null pointer; the outer \<open>None\<close> is a fragment loop that does not end.\<close>

definition SendRequestSGL ::
  "'n qp_verbs \<Rightarrow> ptr \<Rightarrow> size_t \<Rightarrow> iovec list option \<Rightarrow> ptr \<Rightarrow> ptr \<Rightarrow> 'n RpcEndpoint
     \<Rightarrow> (u32 Result \<times> 'n RpcEndpoint) chk option" where
  "SendRequestSGL V header header_len iov ctx fn e =
     (case bind_chk (open_request ctx fn e) (\<lambda>(r, e1).
             case r of
               None \<Rightarrow> Inr (Inl no_slots, e1)
             | Some (slot_index, generation) \<Rightarrow>
                 bind_chk (send_header V header header_len slot_index generation e1) (\<lambda>(st, e2).
                   Inr (if \<not> Status_ok st then Inl st else Inr (slot_index, generation), e2))) of
        Inl u \<Rightarrow> Some (Inl u)
      | Inr (Inl st, e2) \<Rightarrow> Some (Inr (Inl st, e2))
      | Inr (Inr (slot_index, generation), e2) \<Rightarrow>
          (case iov of
             Some (v # vs) \<Rightarrow>
               let e3 = add_wr slot_index e2
               in (case PostSendSGL V (v # vs) (ucast slot_index) (conn_id_of (ep_conn e3)) generation
                          (conn_qp (ep_conn e3)) (ep_net e3) of
                     None \<Rightarrow> None
                   | Some (_, q, n) \<Rightarrow>
                       Some (Inr (Inr slot_index, e3\<lparr>ep_conn := (ep_conn e3)\<lparr>conn_qp := q\<rparr>, ep_net := n\<rparr>)))
           | _ \<Rightarrow> Some (Inr (Inr slot_index, e2))))"

section \<open>Completions\<close>

definition OnRpcComplete :: "u32 \<Rightarrow> 'n RpcEndpoint \<Rightarrow> 'n RpcEndpoint chk" where
  "OnRpcComplete slot_index e =
     bind_chk (RpcSlotPool_GetContext slot_index (ep_slot_pool e)) (\<lambda>context.
     bind_chk (RpcSlotPool_GetHot slot_index (ep_slot_pool e)) (\<lambda>hot.
       free_slot slot_index (invoke_callback slot_index context (error_code hot) e)))"

text \<open>The common part of both handlers: \<open>None\<close> when the lookup fails and the handler returns at once.\<close>

definition complete_wr :: "u32 \<Rightarrow> u8 \<Rightarrow> 'n RpcEndpoint \<Rightarrow> 'n RpcEndpoint option chk" where
  "complete_wr slot_index generation e =
     bind_chk (RpcSlotPool_GetHotChecked slot_index generation (ep_slot_pool e)) (\<lambda>r.
       case r of
         None \<Rightarrow> Inr None
       | Some hot \<Rightarrow>
           let hot1 = Hot_MarkCompleted hot;
               e1 = e\<lparr>ep_slot_pool := RpcSlotPool_set_hot slot_index hot1 (ep_slot_pool e)\<rparr>
           in if Hot_IsCompleted hot1 then bind_chk (OnRpcComplete slot_index e1) (\<lambda>e2. Inr (Some e2))
              else Inr (Some e1))"

definition OnSendComplete :: "ibv_wc \<Rightarrow> 'n RpcEndpoint \<Rightarrow> 'n RpcEndpoint chk" where
  "OnSendComplete wc e =
     bind_chk (complete_wr (WrId_GetSlotIndex (wc_wr_id wc)) (WrId_GetGeneration (wc_wr_id wc)) e) (\<lambda>r.
       Inr (case r of None \<Rightarrow> e | Some e1 \<Rightarrow> e1))"

definition RepostRecvBuffer :: "'n qp_verbs \<Rightarrow> 'n RpcEndpoint \<Rightarrow> 'n RpcEndpoint chk" where
  "RepostRecvBuffer V e =
     bind_chk (Pool_Allocate (ep_buffer_pool e)) (\<lambda>(buf, b).
       let e1 = e\<lparr>ep_buffer_pool := b\<rparr>
       in Inr (if Buffer_IsValid buf
               then e1\<lparr>ep_net := snd (Conn_PostRecv V buf 0 (ep_conn e1) (ep_net e1))\<rparr> else e1))"

definition imm_slot :: "u32 \<Rightarrow> u32" where
  "imm_slot wire = ntohl wire AND 0xFFFF"

definition imm_generation :: "u32 \<Rightarrow> u8" where
  "imm_generation wire = ucast (drop_bit 16 (ntohl wire) AND 0xFF)"

definition OnWriteWithImmRecv :: "'n qp_verbs \<Rightarrow> ibv_wc \<Rightarrow> 'n RpcEndpoint \<Rightarrow> 'n RpcEndpoint chk" where
  "OnWriteWithImmRecv V wc e =
     bind_chk (complete_wr (imm_slot (wc_imm_data wc)) (imm_generation (wc_imm_data wc)) e) (\<lambda>r.
       case r of None \<Rightarrow> Inr e | Some e1 \<Rightarrow> RepostRecvBuffer V e1)"

definition SendReadResponse ::
  "'n qp_verbs \<Rightarrow> u32 \<Rightarrow> u8 \<Rightarrow> Buffer \<Rightarrow> RemoteMemoryInfo \<Rightarrow> 'n RpcEndpoint \<Rightarrow> Status \<times> 'n RpcEndpoint" where
  "SendReadResponse V client_slot_index client_generation data_buf client_buffer e =
     (let (st, c, n) = Conn_WriteWithImm V data_buf (rmi_addr client_buffer) (rmi_rkey client_buffer)
                         (htonl (request_imm client_slot_index client_generation)) 0 (ep_conn e) (ep_net e)
      in (st, e\<lparr>ep_conn := c, ep_net := n\<rparr>))"

section \<open>Timeouts\<close>

fun CheckTimeouts :: "(u32 \<times> u8) list \<Rightarrow> 'n RpcEndpoint \<Rightarrow> (nat \<times> 'n RpcEndpoint) chk" where
  "CheckTimeouts [] e = Inr (0, e)"
| "CheckTimeouts ((slot_index, generation) # expired) e =
     bind_chk (RpcSlotPool_GetHotChecked slot_index generation (ep_slot_pool e)) (\<lambda>r.
       case r of
         None \<Rightarrow> CheckTimeouts expired e
       | Some hot \<Rightarrow>
           if Hot_IsCompleted hot then CheckTimeouts expired e
           else
             let e1 = e\<lparr>ep_slot_pool := RpcSlotPool_set_hot slot_index
                          (hot\<lparr>error_code := 1, completed_wr_count := total_wr_count hot\<rparr>) (ep_slot_pool e)\<rparr>
             in bind_chk (RpcSlotPool_GetContext slot_index (ep_slot_pool e1)) (\<lambda>context.
                bind_chk (free_slot slot_index (invoke_callback slot_index context 1 e1)) (\<lambda>e2.
                bind_chk (CheckTimeouts expired e2) (\<lambda>(count, e3). Inr (count + 1, e3)))))"

section \<open>Slots and the requests they were issued for\<close>

definition slot_held :: "RpcSlotPool \<Rightarrow> u32 \<Rightarrow> bool" where
  "slot_held p s \<longleftrightarrow> unat s < kMaxSlots \<and> s \<notin> slot_avail p"

text \<open>
  \<open>K\<close> lists the pairs of slot and generation issued so far. A slot's generation counts the pairs
  issued for it that are done with, and an issued pair whose generation is the slot's current one
  belongs to a slot in use.
\<close>

definition pool_hist :: "RpcSlotPool \<Rightarrow> (u32 \<times> u8) list \<Rightarrow> bool" where
  "pool_hist p K \<longleftrightarrow> slot_invar p \<and>
     (\<forall>(s, g)\<in>set K. unat s < kMaxSlots \<and> unat g \<le> slot_gen p s \<and> (s \<in> slot_avail p \<longrightarrow> unat g < slot_gen p s)) \<and>
     (\<forall>s. unat s < kMaxSlots \<longrightarrow> slot_gen p s + of_bool (slot_held p s) = count_list (map fst K) s)"

definition few_uses :: "(u32 \<times> u8) list \<Rightarrow> bool" where
  "few_uses K \<longleftrightarrow> (\<forall>s. count_list (map fst K) s < 4096)"

lemma pool_hist_new: "pool_hist RpcSlotPool_new []"
proof -
  have "slot_gen RpcSlotPool_new s = 0" if "unat s < kMaxSlots" for s
    using that by (simp add: slot_gen_def RpcSlotPool_new_def unat_Hot_GetGeneration kMaxSlots_def unat_drop_bit_eq)
      (simp add: drop_bit_eq_div)
  then show ?thesis by (auto simp: pool_hist_def slot_invar_new slot_held_def slot_avail_new)
qed

lemma pool_hist_alloc:
  assumes "pool_hist p K" and "RpcSlotPool_Allocate p = ((s, g), p1)" and "s \<noteq> kNoSlot"
  shows "pool_hist p1 ((s, g) # K)" and "\<not> slot_held p s" and "slot_held p1 = (slot_held p)(s := True)"
    and "slots_context p1 = slots_context p" and "unat s < kMaxSlots"
proof -
  have inv: "slot_invar p" using assms(1) by (simp add: pool_hist_def)
  have top: "stack_top p > 0" using assms(2,3) Allocate_empty by fastforce
  note a = Allocate_index [OF inv top assms(2)] and b = Allocate_some [OF inv assms(2,3)]
  have gen: "slot_gen p1 t = slot_gen p t" for t using slot_gen_Allocate [of p t] assms(2) by simp
  show held: "\<not> slot_held p s" and h1: "slot_held p1 = (slot_held p)(s := True)" and "unat s < kMaxSlots"
    using a by (auto simp: slot_held_def fun_eq_iff)
  show "slots_context p1 = slots_context p" using assms(2) by (auto simp: RpcSlotPool_Allocate_def Let_def split: if_splits)
  have "unat g \<le> slot_gen p s" using b(3) by simp
  then show "pool_hist p1 ((s, g) # K)"
    using assms(1) a(2,7,8) gen held h1 by (auto simp: pool_hist_def)
qed

lemma pool_hist_free:
  assumes "pool_hist p K" and "slot_held p s" and "few_uses K"
  shows "\<exists>p'. RpcSlotPool_Free s p = Inr p' \<and> pool_hist p' K \<and> slot_held p' = (slot_held p)(s := False) \<and>
           slots_context p' = slots_context p"
proof -
  have inv: "slot_invar p" and lt: "unat s < kMaxSlots" and na: "s \<notin> slot_avail p"
    using assms(1,2) by (simp_all add: pool_hist_def slot_held_def)
  from Free_ok [OF inv lt na] obtain p' where p': "RpcSlotPool_Free s p = Inr p'"
    "slot_avail p' = insert s (slot_avail p)" "slot_invar p'" by blast
  have "slot_gen p s + 1 = count_list (map fst K) s" using assms(1,2) lt by (auto simp: pool_hist_def)
  then have small: "slot_gen p s + 1 < 4096" using assms(3) by (auto simp: few_uses_def)
  have gen: "slot_gen p' t = (if t = s then slot_gen p s + 1 else slot_gen p t)" for t
    using slot_gen_Free [OF p'(1), of t] small by simp
  have held: "slot_held p' = (slot_held p)(s := False)"
    using p'(2) by (auto simp: slot_held_def fun_eq_iff)
  have "slots_context p' = slots_context p" using p'(1) by (auto simp: RpcSlotPool_Free_def Let_def split: if_splits)
  moreover have "pool_hist p' K"
    unfolding pool_hist_def
  proof (intro conjI ballI allI impI)
    fix x assume "x \<in> set K"
    obtain t g where x: "x = (t, g)" by (cases x)
    with \<open>x \<in> set K\<close> assms(1) have "unat t < kMaxSlots \<and> unat g \<le> slot_gen p t \<and> (t \<in> slot_avail p \<longrightarrow> unat g < slot_gen p t)"
      unfolding pool_hist_def by blast
    then show "case x of (t, g) \<Rightarrow> unat t < kMaxSlots \<and> unat g \<le> slot_gen p' t \<and> (t \<in> slot_avail p' \<longrightarrow> unat g < slot_gen p' t)"
      using p'(2) by (auto simp: x gen)
  next
    fix t :: u32 assume "unat t < kMaxSlots"
    then show "slot_gen p' t + of_bool (slot_held p' t) = count_list (map fst K) t"
      using assms(1,2) held gen by (auto simp: pool_hist_def)
  qed (rule p'(3))
  ultimately show ?thesis using p'(1) held by blast
qed

text \<open>Updates of the counters and of the context of a slot do not matter.\<close>

lemma pool_hist_set_hot:
  assumes "pool_hist p K" and "unat s < kMaxSlots"
    and "slot_gen_packed h = slot_gen_packed (slots_hot p (unat s))" and "Hot_GetState h = Hot_GetState (slots_hot p (unat s))"
  shows "pool_hist (RpcSlotPool_set_hot s h p) K" and "slot_held (RpcSlotPool_set_hot s h p) = slot_held p"
    and "slots_context (RpcSlotPool_set_hot s h p) = slots_context p"
proof -
  let ?p = "RpcSlotPool_set_hot s h p"
  have av: "slot_avail ?p = slot_avail p" by (simp add: slot_avail_def RpcSlotPool_set_hot_def)
  then show held: "slot_held ?p = slot_held p" by (simp add: slot_held_def fun_eq_iff)
  have gen: "slot_gen ?p t = slot_gen p t" for t
    using assms(3) by (auto simp: slot_gen_def RpcSlotPool_set_hot_def Hot_GetGeneration_def)
  have "slot_invar ?p"
    using assms av unfolding slot_invar_def pool_hist_def
    by (auto simp: RpcSlotPool_set_hot_def Hot_GetSlotIndex_def Hot_IsFree_def slot_univ_def)
  then show "pool_hist ?p K" using assms(1) av held gen by (simp add: pool_hist_def)
  show "slots_context ?p = slots_context p" by (simp add: RpcSlotPool_set_hot_def)
qed

lemma pool_hist_set_context:
  assumes "pool_hist p K"
  shows "pool_hist (RpcSlotPool_set_context s c p) K" and "slot_held (RpcSlotPool_set_context s c p) = slot_held p"
proof -
  let ?p = "RpcSlotPool_set_context s c p"
  have av: "slot_avail ?p = slot_avail p" by (simp add: slot_avail_def RpcSlotPool_set_context_def)
  then show held: "slot_held ?p = slot_held p" by (simp add: slot_held_def fun_eq_iff)
  have gen: "slot_gen ?p t = slot_gen p t" for t by (simp add: slot_gen_def RpcSlotPool_set_context_def)
  have "slot_invar ?p" using assms av unfolding slot_invar_def pool_hist_def
    by (auto simp: RpcSlotPool_set_context_def slot_univ_def)
  then show "pool_hist ?p K" using assms av held gen by (simp add: pool_hist_def)
qed

text \<open>
  What a completion may carry without harm: any slot and generation of the pool, except those of a free
  slot in its current generation, which the check of the generation takes for a request in progress.
  The pairs issued so far are all harmless.
\<close>

definition harmless :: "RpcSlotPool \<Rightarrow> u32 \<times> u8 \<Rightarrow> bool" where
  "harmless p x \<longleftrightarrow> (case x of (s, g) \<Rightarrow> unat s < kMaxSlots \<and> (s \<in> slot_avail p \<longrightarrow> unat g \<noteq> slot_gen p s))"

lemma pool_hist_harmless: "pool_hist p K \<Longrightarrow> x \<in> set K \<Longrightarrow> harmless p x"
  unfolding pool_hist_def harmless_def by fastforce

lemma harmless_checked:
  assumes "harmless p (s, g)"
  shows "\<exists>r. RpcSlotPool_GetHotChecked s g p = Inr r \<and> (\<forall>hot. r = Some hot \<longrightarrow> hot = slots_hot p (unat s) \<and> slot_held p s)"
  using assms by (auto simp: harmless_def GetHotChecked_gen slot_held_def)

section \<open>The endpoint invariant\<close>

definition call_slots :: "'n RpcEndpoint \<Rightarrow> u32 list" where
  "call_slots e = map (\<lambda>(_, _, s, _). s) (ep_calls e)"

text \<open>\<open>A\<close> lists the slots of the requests that were accepted.\<close>

definition ep_inv :: "'n RpcEndpoint \<Rightarrow> (u32 \<times> u8) list \<Rightarrow> u32 list \<Rightarrow> bool" where
  "ep_inv e K A \<longleftrightarrow> pool_hist (ep_slot_pool e) K \<and> lifo_invar (ep_buffer_pool e) \<and>
     (\<forall>s. slot_held (ep_slot_pool e) s \<longrightarrow> callback_fn (slots_context (ep_slot_pool e) (unat s)) \<noteq> nullptr) \<and>
     (\<forall>s. count_list (call_slots e) s + of_bool (slot_held (ep_slot_pool e) s) = count_list A s)"

lemma free_slot_ok:
  assumes "pool_hist (ep_slot_pool e) K" and "slot_held (ep_slot_pool e) s" and "few_uses K"
  shows "\<exists>p'. free_slot s e = Inr (e\<lparr>ep_slot_pool := p'\<rparr>) \<and> pool_hist p' K \<and>
           slot_held p' = (slot_held (ep_slot_pool e))(s := False) \<and> slots_context p' = slots_context (ep_slot_pool e)"
  using pool_hist_free [OF assms] by (auto simp: free_slot_def)

text \<open>A slot in use is called back once and freed.\<close>

lemma finish_ok:
  assumes inv: "ep_inv e K A" and held: "slot_held (ep_slot_pool e) s" and few: "few_uses K"
    and h: "slot_gen_packed h = slot_gen_packed (slots_hot (ep_slot_pool e) (unat s))"
      "Hot_GetState h = Hot_GetState (slots_hot (ep_slot_pool e) (unat s))"
  defines "e1 \<equiv> e\<lparr>ep_slot_pool := RpcSlotPool_set_hot s h (ep_slot_pool e)\<rparr>"
  shows "\<exists>e'. free_slot s (invoke_callback s (slots_context (ep_slot_pool e) (unat s)) st e1) = Inr e' \<and> ep_inv e' K A \<and>
           \<not> slot_held (ep_slot_pool e') s \<and>
           ep_calls e' = ep_calls e @ [(callback_fn (slots_context (ep_slot_pool e) (unat s)),
                                         callback_ctx (slots_context (ep_slot_pool e) (unat s)), s, st)]"
proof -
  let ?c = "slots_context (ep_slot_pool e) (unat s)"
  define e2 where "e2 = invoke_callback s ?c st e1"
  have lt: "unat s < kMaxSlots" using held by (simp add: slot_held_def)
  have hist: "pool_hist (ep_slot_pool e) K" and fn: "callback_fn ?c \<noteq> nullptr" using inv held by (simp_all add: ep_inv_def)
  note sh = pool_hist_set_hot [OF hist lt h]
  have e2: "e2 = e\<lparr>ep_slot_pool := RpcSlotPool_set_hot s h (ep_slot_pool e),
      ep_calls := ep_calls e @ [(callback_fn ?c, callback_ctx ?c, s, st)]\<rparr>"
    using fn by (simp add: e2_def invoke_callback_def e1_def)
  have "pool_hist (ep_slot_pool e2) K" "slot_held (ep_slot_pool e2) s"
    using sh held by (simp_all add: e2)
  from free_slot_ok [OF this few] obtain p' where p': "free_slot s e2 = Inr (e2\<lparr>ep_slot_pool := p'\<rparr>)" "pool_hist p' K"
    "slot_held p' = (slot_held (ep_slot_pool e2))(s := False)" "slots_context p' = slots_context (ep_slot_pool e2)"
    by blast
  have h': "slot_held p' = (slot_held (ep_slot_pool e))(s := False)" and c': "slots_context p' = slots_context (ep_slot_pool e)"
    using p'(3,4) sh by (simp_all add: e2)
  have "count_list (call_slots e) s + of_bool (slot_held (ep_slot_pool e) s) = count_list A s"
    using inv unfolding ep_inv_def by blast
  then have "Suc (count_list (call_slots e) s) = count_list A s" using held by simp
  then have "ep_inv (e2\<lparr>ep_slot_pool := p'\<rparr>) K A"
    using inv held p'(2) h' c' by (auto simp: ep_inv_def e2 call_slots_def split: if_splits)
  with p'(1) h' show ?thesis unfolding e2_def [symmetric] by (auto simp: e2)
qed

lemma complete_wr_ok:
  assumes inv: "ep_inv e K A" and k: "harmless (ep_slot_pool e) (s, g)" and few: "few_uses K"
  shows "\<exists>r. complete_wr s g e = Inr r \<and> (\<forall>e'. r = Some e' \<longrightarrow> ep_inv e' K A)"
proof -
  have hist: "pool_hist (ep_slot_pool e) K" using inv by (simp add: ep_inv_def)
  from harmless_checked [OF k] obtain r where
    r: "RpcSlotPool_GetHotChecked s g (ep_slot_pool e) = Inr r"
      "\<And>hot. r = Some hot \<Longrightarrow> hot = slots_hot (ep_slot_pool e) (unat s) \<and> slot_held (ep_slot_pool e) s" by blast
  show ?thesis
  proof (cases r)
    case None
    with r(1) show ?thesis by (simp add: complete_wr_def)
  next
    case (Some hot)
    with r(2) have hot: "hot = slots_hot (ep_slot_pool e) (unat s)" and held: "slot_held (ep_slot_pool e) s" by auto
    have lt: "unat s < kMaxSlots" using held by (simp add: slot_held_def)
    let ?h = "Hot_MarkCompleted hot"
    have h: "slot_gen_packed ?h = slot_gen_packed (slots_hot (ep_slot_pool e) (unat s))"
      "Hot_GetState ?h = Hot_GetState (slots_hot (ep_slot_pool e) (unat s))"
      by (simp_all add: Hot_MarkCompleted_def hot Hot_GetState_def)
    note sh = pool_hist_set_hot [OF hist lt h]
    let ?e1 = "e\<lparr>ep_slot_pool := RpcSlotPool_set_hot s ?h (ep_slot_pool e)\<rparr>"
    show ?thesis
    proof (cases "Hot_IsCompleted ?h")
      case True
      from finish_ok [OF inv held few h, of "error_code ?h"] obtain e' where
        "free_slot s (invoke_callback s (slots_context (ep_slot_pool e) (unat s)) (error_code ?h) ?e1) = Inr e'" "ep_inv e' K A"
        by blast
      then show ?thesis using r(1) Some True lt sh(3)
        by (simp add: complete_wr_def Let_def OnRpcComplete_def RpcSlotPool_GetContext_def RpcSlotPool_GetHot_def)
          (simp add: RpcSlotPool_set_hot_def)
    next
      case False
      have "ep_inv ?e1 K A" using inv sh by (simp add: ep_inv_def call_slots_def)
      with r(1) Some False show ?thesis by (simp add: complete_wr_def Let_def)
    qed
  qed
qed

lemma CheckTimeouts_ok:
  assumes "ep_inv e K A" and "set expired \<subseteq> set K" and few: "few_uses K"
  shows "\<exists>n e'. CheckTimeouts expired e = Inr (n, e') \<and> ep_inv e' K A \<and> length (ep_calls e') = length (ep_calls e) + n"
  using assms(1,2)
proof (induction expired arbitrary: e)
  case Nil
  then show ?case by simp
next
  case (Cons x xs)
  obtain s g where x: "x = (s, g)" by (cases x)
  have inv: "ep_inv e K A" and k: "(s, g) \<in> set K" and sub: "set xs \<subseteq> set K" using Cons.prems x by auto
  have hist: "pool_hist (ep_slot_pool e) K" using inv by (simp add: ep_inv_def)
  from harmless_checked [OF pool_hist_harmless [OF hist k]] obtain r where
    r: "RpcSlotPool_GetHotChecked s g (ep_slot_pool e) = Inr r"
      "\<And>hot. r = Some hot \<Longrightarrow> hot = slots_hot (ep_slot_pool e) (unat s) \<and> slot_held (ep_slot_pool e) s" by blast
  show ?case
  proof (cases "\<exists>hot. r = Some hot \<and> \<not> Hot_IsCompleted hot")
    case False
    then have "CheckTimeouts (x # xs) e = CheckTimeouts xs e" using r(1) x by (auto split: option.splits)
    with Cons.IH [OF inv sub] show ?thesis by simp
  next
    case True
    then obtain hot where Some: "r = Some hot" "\<not> Hot_IsCompleted hot" by blast
    with r(2) have hot: "hot = slots_hot (ep_slot_pool e) (unat s)" and held: "slot_held (ep_slot_pool e) s" by auto
    have lt: "unat s < kMaxSlots" using held by (simp add: slot_held_def)
    let ?h = "hot\<lparr>error_code := 1, completed_wr_count := total_wr_count hot\<rparr>"
    have h: "slot_gen_packed ?h = slot_gen_packed (slots_hot (ep_slot_pool e) (unat s))"
      "Hot_GetState ?h = Hot_GetState (slots_hot (ep_slot_pool e) (unat s))" by (simp_all add: hot Hot_GetState_def)
    from finish_ok [OF inv held few h, of 1] obtain e' where
      e': "free_slot s (invoke_callback s (slots_context (ep_slot_pool e) (unat s)) 1
             (e\<lparr>ep_slot_pool := RpcSlotPool_set_hot s ?h (ep_slot_pool e)\<rparr>)) = Inr e'" "ep_inv e' K A"
        "length (ep_calls e') = length (ep_calls e) + 1" by auto
    from Cons.IH [OF e'(2) sub] obtain n e'' where
      "CheckTimeouts xs e' = Inr (n, e'')" "ep_inv e'' K A" "length (ep_calls e'') = length (ep_calls e') + n" by blast
    then show ?thesis using r(1) Some e' lt x pool_hist_set_hot(3) [OF hist lt h]
      by (simp add: Let_def RpcSlotPool_GetContext_def)
  qed
qed

lemma RepostRecvBuffer_ok:
  assumes "ep_inv e K A"
  shows "\<exists>e'. RepostRecvBuffer V e = Inr e' \<and> ep_inv e' K A"
proof -
  have inv: "lifo_invar (ep_buffer_pool e)" using assms by (simp add: ep_inv_def)
  obtain buf b where b: "Pool_Allocate (ep_buffer_pool e) = Inr (buf, b)" "lifo_invar b"
  proof (cases "bp_count (ep_buffer_pool e) = 0")
    case True
    then show ?thesis using that [of Buffer_null "ep_buffer_pool e"] inv by (simp add: Pool_Allocate_def)
  next
    case False
    then show ?thesis using lifo_Allocate [OF inv False] that by blast
  qed
  then show ?thesis using assms by (simp add: RepostRecvBuffer_def Let_def ep_inv_def call_slots_def)
qed

lemma ep_inv_conn [simp]:
  "ep_inv (e\<lparr>ep_conn := c, ep_net := n\<rparr>) K A = ep_inv e K A"
  by (simp add: ep_inv_def call_slots_def)

lemma open_request_ok:
  assumes inv: "ep_inv e K A" and fn: "fn \<noteq> nullptr"
  shows "fst (fst (RpcSlotPool_Allocate (ep_slot_pool e))) = kNoSlot \<and> open_request ctx fn e = Inr (None, e) \<or>
    (\<exists>s g e1. fst (RpcSlotPool_Allocate (ep_slot_pool e)) = (s, g) \<and> s \<noteq> kNoSlot \<and>
       open_request ctx fn e = Inr (Some (s, g), e1) \<and> ep_inv e1 ((s, g) # K) (s # A) \<and> slot_held (ep_slot_pool e1) s \<and>
       ep_calls e1 = ep_calls e \<and> ep_conn e1 = ep_conn e \<and> ep_net e1 = ep_net e)"
proof -
  obtain s g p0 where a: "RpcSlotPool_Allocate (ep_slot_pool e) = ((s, g), p0)" by (metis prod.exhaust)
  have hist: "pool_hist (ep_slot_pool e) K" using inv by (simp add: ep_inv_def)
  then have si: "slot_invar (ep_slot_pool e)" by (simp add: pool_hist_def)
  show ?thesis
  proof (cases "s = kNoSlot")
    case True
    have "stack_top (ep_slot_pool e) = 0" using True Allocate_index(3) [OF si _ a] by blast
    then have "p0 = ep_slot_pool e" using a Allocate_empty by fastforce
    with a True show ?thesis by (simp add: open_request_def)
  next
    case False
    note al = pool_hist_alloc [OF hist a False]
    let ?hot = "slots_hot p0 (unat s)"
    define hot1 where "hot1 = (Hot_SetState kStateInUse ?hot)\<lparr>hot_conn_id := conn_id_of (ep_conn e),
      total_wr_count := 1, completed_wr_count := 0\<rparr>"
    define p1 where "p1 = RpcSlotPool_set_hot s hot1 p0"
    define p2 where "p2 = RpcSlotPool_set_context s ((slots_context p0 (unat s))\<lparr>callback_ctx := ctx, callback_fn := fn\<rparr>) p1"
    define t1 where "t1 = snd (TimingWheel_Schedule s g (epc_timeout_ms (ep_config e)) (ep_timing_wheel e))"
    define e1 where "e1 = e\<lparr>ep_slot_pool := p2, ep_timing_wheel := t1\<rparr>"
    have "Hot_GetState ?hot = kStateInUse AND mask 2"
      using a False by (auto simp: RpcSlotPool_Allocate_def Let_def Hot_GetState_SetState split: if_splits)
    moreover have "Hot_GetState hot1 = Hot_GetState (Hot_SetState kStateInUse ?hot)"
      by (simp add: hot1_def Hot_GetState_def)
    ultimately have "Hot_GetState hot1 = Hot_GetState ?hot" by (simp add: Hot_GetState_SetState)
    moreover have "slot_gen_packed hot1 = slot_gen_packed ?hot" by (simp add: hot1_def)
    ultimately have p1: "pool_hist p1 ((s, g) # K)" "slot_held p1 = slot_held p0" "slots_context p1 = slots_context p0"
      using pool_hist_set_hot [OF al(1) al(5)] by (simp_all add: p1_def)
    have p2: "pool_hist p2 ((s, g) # K)" "slot_held p2 = (slot_held (ep_slot_pool e))(s := True)"
      using pool_hist_set_context [OF p1(1)] p1(2) al(3) by (simp_all add: p2_def)
    have c2: "slots_context p2 = (slots_context (ep_slot_pool e))
        (unat s := (slots_context p0 (unat s))\<lparr>callback_ctx := ctx, callback_fn := fn\<rparr>)"
      using p1(3) al(4) by (simp add: p2_def RpcSlotPool_set_context_def)
    have cnt: "count_list (call_slots e) t + of_bool (slot_held (ep_slot_pool e) t) = count_list A t" for t
      using inv unfolding ep_inv_def by blast
    have cs: "call_slots e1 = call_slots e" by (simp add: call_slots_def e1_def)
    have "ep_inv e1 ((s, g) # K) (s # A)"
      unfolding ep_inv_def
    proof (intro conjI allI impI)
      fix t
      show "count_list (call_slots e1) t + of_bool (slot_held (ep_slot_pool e1) t) = count_list (s # A) t"
        unfolding cs using cnt [of t] al(2) by (auto simp: e1_def p2(2))
      show "callback_fn (slots_context (ep_slot_pool e1) (unat t)) \<noteq> nullptr" if "slot_held (ep_slot_pool e1) t"
        using that inv fn by (auto simp: e1_def p2(2) c2 ep_inv_def word_unat_eq_iff split: if_splits)
    qed (use inv p2(1) in \<open>simp_all add: e1_def ep_inv_def\<close>)
    moreover have "open_request ctx fn e = Inr (Some (s, g), e1)"
      using a False al(5) by (simp add: open_request_def RpcSlotPool_GetHot_def RpcSlotPool_GetContext_def Let_def split_beta
          e1_def t1_def p2_def p1_def hot1_def)
    moreover have "slot_held (ep_slot_pool e1) s" by (simp add: e1_def p2(2))
    ultimately show ?thesis using a False by (simp add: e1_def)
  qed
qed

lemma abort_ok:
  assumes inv: "ep_inv e K (s # A)" and held: "slot_held (ep_slot_pool e) s" and few: "few_uses K"
  shows "\<exists>e'. free_slot s e = Inr e' \<and> ep_inv e' K A \<and> ep_calls e' = ep_calls e"
proof -
  have "pool_hist (ep_slot_pool e) K" using inv by (simp add: ep_inv_def)
  from free_slot_ok [OF this held few] obtain p' where p': "free_slot s e = Inr (e\<lparr>ep_slot_pool := p'\<rparr>)" "pool_hist p' K"
    "slot_held p' = (slot_held (ep_slot_pool e))(s := False)" "slots_context p' = slots_context (ep_slot_pool e)" by blast
  have cnt: "count_list (call_slots e) t + of_bool (slot_held (ep_slot_pool e) t) = count_list (s # A) t" for t
    using inv unfolding ep_inv_def by blast
  have "count_list (call_slots e) t + of_bool (slot_held p' t) = count_list A t" for t
    using cnt [of t] held p'(3) by (auto split: if_splits)
  then have "ep_inv (e\<lparr>ep_slot_pool := p'\<rparr>) K A"
    using inv p'(2,3,4) by (auto simp: ep_inv_def call_slots_def)
  with p'(1) show ?thesis by auto
qed

lemma send_header_ok:
  assumes inv: "ep_inv e K (s # A)" and held: "slot_held (ep_slot_pool e) s" and few: "few_uses K"
  shows "\<exists>st e2. send_header V header len s g e = Inr (st, e2) \<and>
    (if Status_ok st then ep_inv e2 K (s # A) \<and> slot_held (ep_slot_pool e2) s else ep_inv e2 K A)"
proof -
  obtain st c n where snd: "Conn_SendInline V header len (WrId_Encode (conn_id_of (ep_conn e)) REQUEST_SEND g s) (ep_conn e) (ep_net e) = (st, c, n)"
    by (metis prod.exhaust)
  let ?e1 = "e\<lparr>ep_conn := c, ep_net := n\<rparr>"
  have "slot_held (ep_slot_pool ?e1) s" using held by simp
  from abort_ok [OF _ this few, of A] inv obtain e' where "free_slot s ?e1 = Inr e'" "ep_inv e' K A" by auto
  with snd inv held show ?thesis by (simp add: send_header_def Let_def)
qed

lemma add_wr_ok:
  assumes "ep_inv e K A" and "slot_held (ep_slot_pool e) s"
  shows "ep_inv (add_wr s e) K A"
proof -
  let ?hot = "slots_hot (ep_slot_pool e) (unat s)"
  have "pool_hist (ep_slot_pool e) K" "unat s < kMaxSlots" using assms by (simp_all add: ep_inv_def slot_held_def)
  from pool_hist_set_hot [OF this, of "?hot\<lparr>total_wr_count := total_wr_count ?hot + 1\<rparr>"]
  show ?thesis using assms(1) by (simp add: add_wr_def Let_def ep_inv_def call_slots_def Hot_GetState_def)
qed

text \<open>The pair issued by the next request, and the slots accepted after it.\<close>

definition issued :: "'n RpcEndpoint \<Rightarrow> (u32 \<times> u8) list" where
  "issued e = (let p = fst (RpcSlotPool_Allocate (ep_slot_pool e)) in if fst p = kNoSlot then [] else [p])"

fun accepted :: "u32 Result \<Rightarrow> u32 list" where
  "accepted (Inl st) = []"
| "accepted (Inr s) = [s]"

lemma SendRequest_ok:
  assumes inv: "ep_inv e K A" and fn: "fn \<noteq> nullptr" and few: "few_uses (issued e @ K)"
  shows "\<exists>r e'. SendRequest V header len data_buf ctx fn e = Inr (r, e') \<and> ep_inv e' (issued e @ K) (accepted r @ A)"
  using open_request_ok [OF inv fn, of ctx]
proof (elim disjE exE conjE)
  fix s g e1
  assume a: "fst (RpcSlotPool_Allocate (ep_slot_pool e)) = (s, g)" "s \<noteq> kNoSlot"
    and o: "open_request ctx fn e = Inr (Some (s, g), e1)" and i1: "ep_inv e1 ((s, g) # K) (s # A)"
    and h1: "slot_held (ep_slot_pool e1) s"
  have iss: "issued e = [(s, g)]" using a by (simp add: issued_def)
  with few have "few_uses ((s, g) # K)" by simp
  from send_header_ok [OF i1 h1 this, of V header len g] obtain st e2 where
    sh: "send_header V header len s g e1 = Inr (st, e2)"
      "if Status_ok st then ep_inv e2 ((s, g) # K) (s # A) \<and> slot_held (ep_slot_pool e2) s else ep_inv e2 ((s, g) # K) A" by blast
  show ?thesis
  proof (cases "Status_ok st")
    case False
    with o sh iss show ?thesis by (simp add: SendRequest_def)
  next
    case True
    with sh(2) have "ep_inv e2 ((s, g) # K) (s # A)" "ep_inv (add_wr s e2) ((s, g) # K) (s # A)"
      using add_wr_ok by auto
    with o sh(1) True iss show ?thesis
      by (cases data_buf) (simp_all add: SendRequest_def Let_def split_beta)
  qed
qed (use inv in \<open>simp add: SendRequest_def issued_def\<close>)

lemma SendRequestSGL_ok:
  assumes inv: "ep_inv e K A" and fn: "fn \<noteq> nullptr" and few: "few_uses (issued e @ K)"
    and eq: "SendRequestSGL V header len iov ctx fn e = Some x"
  shows "\<exists>r e'. x = Inr (r, e') \<and> ep_inv e' (issued e @ K) (accepted r @ A)"
  using open_request_ok [OF inv fn, of ctx]
proof (elim disjE exE conjE)
  fix s g e1
  assume a: "fst (RpcSlotPool_Allocate (ep_slot_pool e)) = (s, g)" "s \<noteq> kNoSlot"
    and o: "open_request ctx fn e = Inr (Some (s, g), e1)" and i1: "ep_inv e1 ((s, g) # K) (s # A)"
    and h1: "slot_held (ep_slot_pool e1) s"
  have iss: "issued e = [(s, g)]" using a by (simp add: issued_def)
  with few have "few_uses ((s, g) # K)" by simp
  from send_header_ok [OF i1 h1 this, of V header len g] obtain st e2 where
    sh: "send_header V header len s g e1 = Inr (st, e2)"
      "if Status_ok st then ep_inv e2 ((s, g) # K) (s # A) \<and> slot_held (ep_slot_pool e2) s else ep_inv e2 ((s, g) # K) A" by blast
  show ?thesis
  proof (cases "Status_ok st")
    case False
    with o sh iss eq show ?thesis by (auto simp: SendRequestSGL_def)
  next
    case True
    with sh(2) have "ep_inv e2 ((s, g) # K) (s # A)" "ep_inv (add_wr s e2) ((s, g) # K) (s # A)"
      using add_wr_ok by auto
    with o sh(1) True iss eq show ?thesis
      by (auto simp: SendRequestSGL_def Let_def split: option.splits list.splits)
  qed
qed (use inv eq in \<open>auto simp: SendRequestSGL_def issued_def\<close>)

section \<open>Every accepted request is called back exactly once\<close>

text \<open>
  The steps of an endpoint in any order and any number of times: requests, each with a callback,
  responses, send completions and immediate data that are harmless, and timeouts of requests it has
  issued. The completion of a read response, which carries work-request id 0, is a send completion
  like the others.
\<close>

inductive ep_step ::
  "'n qp_verbs \<Rightarrow> 'n RpcEndpoint \<times> (u32 \<times> u8) list \<times> u32 list \<Rightarrow> 'n RpcEndpoint \<times> (u32 \<times> u8) list \<times> u32 list \<Rightarrow> bool"
  for V where
  send: "fn \<noteq> nullptr \<Longrightarrow> SendRequest V header len data_buf ctx fn e = Inr (r, e') \<Longrightarrow>
     ep_step V (e, K, A) (e', issued e @ K, accepted r @ A)"
| send_sgl: "fn \<noteq> nullptr \<Longrightarrow> SendRequestSGL V header len iov ctx fn e = Some (Inr (r, e')) \<Longrightarrow>
     ep_step V (e, K, A) (e', issued e @ K, accepted r @ A)"
| send_complete: "harmless (ep_slot_pool e) (WrId_GetSlotIndex (wc_wr_id wc), WrId_GetGeneration (wc_wr_id wc)) \<Longrightarrow>
     OnSendComplete wc e = Inr e' \<Longrightarrow> ep_step V (e, K, A) (e', K, A)"
| imm_recv: "harmless (ep_slot_pool e) (imm_slot (wc_imm_data wc), imm_generation (wc_imm_data wc)) \<Longrightarrow>
     OnWriteWithImmRecv V wc e = Inr e' \<Longrightarrow> ep_step V (e, K, A) (e', K, A)"
| timeouts: "set expired \<subseteq> set K \<Longrightarrow> CheckTimeouts expired e = Inr (count, e') \<Longrightarrow> ep_step V (e, K, A) (e', K, A)"
| respond: "SendReadResponse V s g b remote e = (st, e') \<Longrightarrow> ep_step V (e, K, A) (e', K, A)"

lemma OnSendComplete_ok:
  assumes "ep_inv e K A" and "harmless (ep_slot_pool e) (WrId_GetSlotIndex (wc_wr_id wc), WrId_GetGeneration (wc_wr_id wc))"
    and "few_uses K"
  shows "\<exists>e'. OnSendComplete wc e = Inr e' \<and> ep_inv e' K A"
  using complete_wr_ok [OF assms] assms(1) by (auto simp: OnSendComplete_def split: option.splits)

lemma OnWriteWithImmRecv_ok:
  assumes "ep_inv e K A" and "harmless (ep_slot_pool e) (imm_slot (wc_imm_data wc), imm_generation (wc_imm_data wc))"
    and "few_uses K"
  shows "\<exists>e'. OnWriteWithImmRecv V wc e = Inr e' \<and> ep_inv e' K A"
proof -
  from complete_wr_ok [OF assms] obtain r where
    r: "complete_wr (imm_slot (wc_imm_data wc)) (imm_generation (wc_imm_data wc)) e = Inr r"
      "\<And>e'. r = Some e' \<Longrightarrow> ep_inv e' K A" by blast
  then show ?thesis using assms(1) RepostRecvBuffer_ok
    by (cases r) (auto simp: OnWriteWithImmRecv_def)
qed

lemma few_uses_append: "few_uses (xs @ K) \<Longrightarrow> few_uses K"
proof (unfold few_uses_def, intro allI)
  fix s assume "\<forall>s. count_list (map fst (xs @ K)) s < 4096"
  then have "count_list (map fst (xs @ K)) s < 4096" by blast
  then show "count_list (map fst K) s < 4096" by simp
qed

lemma ep_step_inv:
  "ep_step V x y \<Longrightarrow> few_uses (fst (snd y)) \<Longrightarrow>
     (few_uses (fst (snd x)) \<Longrightarrow> ep_inv (fst x) (fst (snd x)) (snd (snd x))) \<Longrightarrow> ep_inv (fst y) (fst (snd y)) (snd (snd y))"
proof (induction rule: ep_step.induct)
  case (send fn header len data_buf ctx e r e' K A)
  then show ?case using SendRequest_ok [of e K A fn V header len data_buf ctx] few_uses_append by force
next
  case (send_sgl fn header len iov ctx e r e' K A)
  then show ?case using SendRequestSGL_ok [of e K A fn V header len iov ctx] few_uses_append by force
next
  case (send_complete e wc e' K A)
  then show ?case using OnSendComplete_ok [of e K A wc] by force
next
  case (imm_recv e wc e' K A)
  then show ?case using OnWriteWithImmRecv_ok [of e K A wc V] by force
next
  case (timeouts expired K e count e' A)
  then show ?case using CheckTimeouts_ok [of e K A expired] by force
next
  case (respond s g b remote e st e' K A)
  then show ?case by (auto simp: SendReadResponse_def Let_def split: prod.splits)
qed

interpretation endpoint: kept_invariant "ep_step V"
    "\<lambda>x. few_uses (fst (snd x)) \<longrightarrow> ep_inv (fst x) (fst (snd x)) (snd (snd x))" for V
  by unfold_locales (auto intro: ep_step_inv)

lemma ep_run_inv:
  assumes "RpcEndpoint_Create conn (Some b) wheel config n = Inr e0" and "lifo_invar b"
    and "(ep_step V)\<^sup>*\<^sup>* (e0, [], []) (e, K, A)" and "few_uses K"
  shows "ep_inv e K A"
proof -
  have "ep_slot_pool e0 = RpcSlotPool_new" "ep_buffer_pool e0 = b" "ep_calls e0 = []"
    using assms(1) by (auto simp: RpcEndpoint_Create_def split: option.splits)
  then have "ep_inv e0 [] []" using pool_hist_new assms(2)
    by (simp add: ep_inv_def call_slots_def) (simp add: slot_held_def slot_avail_new)
  with endpoint.run_keeps [OF assms(3)] assms(4) show ?thesis by simp
qed


definition sample_wheel :: TimingWheel where
  "sample_wheel = TimingWheel_new (\<lambda>_. \<lparr>te_slot_index = 0, te_generation = 0, te_next = None\<rparr>)"

text \<open>A device that accepts everything and records the work requests.\<close>

definition record_verbs :: "ibv_send_wr list qp_verbs" where
  "record_verbs =
     \<lparr>v_post_send = (\<lambda>p w n. (None, n @ [w])), v_post_recv = (\<lambda>p w n. (None, n)), v_modify_qp = (\<lambda>p a m n. (None, n))\<rparr>"

definition sample_ep :: "ibv_send_wr list RpcEndpoint" where
  "sample_ep = \<lparr>ep_conn = sample_conn CONNECTED, ep_buffer_pool = sample_pool LIFO, ep_timing_wheel = sample_wheel,
     ep_slot_pool = RpcSlotPool_new, ep_config = EndpointConfig_default, ep_net = [], ep_calls = []\<rparr>"

lemma sample_ep_created:
  "RpcEndpoint_Create (Some (sample_conn CONNECTED)) (Some (sample_pool LIFO)) (Some sample_wheel) EndpointConfig_default [] =
     Inr sample_ep"
  by (simp add: RpcEndpoint_Create_def sample_ep_def)

lemma sample_pool_invar: "lifo_invar (sample_pool LIFO)"
proof -
  obtain L' where "Pool_Create sample_verbs False sample_mem (Some \<lparr>pd_raw = 3, pd_device = None\<rparr>)
     (sample_pool_config LIFO) ledger_empty = (Inr (sample_pool LIFO), L')"
    using sample_pool_created(1) by blast
  from lifo_invar_Create(1) [OF this] show ?thesis by (simp add: sample_pool_config_def sample_pool_created)
qed


section \<open>Immediate data\<close>

lemma imm_roundtrip:
  assumes "unat s < kMaxSlots"
  shows "imm_slot (htonl (request_imm s g)) = s" and "imm_generation (htonl (request_imm s g)) = g"
proof -
  have hi: "\<not> bit s n" if "16 \<le> n" for n
  proof
    assume "bit s n"
    then have "2 ^ n \<le> unat s" by (rule bit_imp_le_unat)
    moreover have "(2 :: nat) ^ 16 \<le> 2 ^ n" using that by (rule power_increasing) simp
    ultimately show False using assms by (simp add: kMaxSlots_def)
  qed
  show "imm_slot (htonl (request_imm s g)) = s" unfolding imm_slot_def request_imm_def mask_folds bswap32_involutive
    using hi by (intro bit_word_eqI) (auto simp: bit_simps not_le [symmetric] dest: bit_width_dests)
  show "imm_generation (htonl (request_imm s g)) = g"
    unfolding imm_generation_def request_imm_def mask_folds bswap32_involutive
    by (rule bit_word_eqI) (auto simp: bit_simps dest: bit_width_dests)
qed

text \<open>What the recording device sees of the two kinds of request.\<close>

lemma record_post: "post_wr record_verbs msg wr q n = (Status_OK, q, n @ [wr])"
  by (simp add: post_wr_def record_verbs_def)

lemma record_header:
  assumes "send_header record_verbs header len s g e = Inr (st, e2)" and "Status_ok st"
  shows "\<exists>hdr. ep_net e2 = ep_net e @ [hdr] \<and> swr_wr_id hdr = WrId_Encode (conn_id_of (ep_conn e)) REQUEST_SEND g s \<and>
           conn_state (ep_conn e2) = conn_state (ep_conn e)"
  using assms by (auto simp: send_header_def Let_def split_beta Conn_SendInline_def not_established_def PostSendInline_def
      record_post with_qp_def bind_chk_eq_Inr_conv split: if_splits)

lemma record_write_imm:
  assumes "conn_state c = CONNECTED"
  shows "\<exists>wr. snd (snd (Conn_WriteWithImm record_verbs b ra rk imm w c n)) = n @ [wr] \<and>
           swr_opcode wr = IBV_WR_RDMA_WRITE_WITH_IMM \<and> swr_imm_data wr = htonl imm \<and> swr_wr_id wr = w"
  using assms by (simp add: Conn_WriteWithImm_def PostWriteWithImm_def Let_def split_beta record_post with_qp_def)

text \<open>
  C36. The immediate data of a request survives the wire: what \<open>SendRequest\<close> posts for a slot of the
  pool is read back by the receiving handler as the same slot and generation.
\<close>

theorem request_imm_roundtrip:
  assumes "SendRequest record_verbs header len (Some b) ctx fn e = Inr (Inr s, e')" and "Buffer_IsValid b"
    and "ep_inv e K A" and "fn \<noteq> nullptr" and "conn_state (ep_conn e) = CONNECTED"
  shows "\<exists>g hdr wr. ep_net e' = ep_net e @ [hdr, wr] \<and> fst (RpcSlotPool_Allocate (ep_slot_pool e)) = (s, g) \<and>
           swr_opcode wr = IBV_WR_RDMA_WRITE_WITH_IMM \<and> imm_slot (swr_imm_data wr) = s \<and> imm_generation (swr_imm_data wr) = g \<and>
           WrId_GetSlotIndex (swr_wr_id hdr) = s \<and> WrId_GetGeneration (swr_wr_id hdr) = g"
  using open_request_ok [OF assms(3,4), of ctx]
proof (elim disjE exE conjE)
  fix t g e1
  assume a: "fst (RpcSlotPool_Allocate (ep_slot_pool e)) = (t, g)"
    and o: "open_request ctx fn e = Inr (Some (t, g), e1)" and h: "slot_held (ep_slot_pool e1) t"
    and c: "ep_conn e1 = ep_conn e" and n: "ep_net e1 = ep_net e"
  have lt: "unat t < kMaxSlots" using h by (simp add: slot_held_def)
  obtain st e2 where sh: "send_header record_verbs header len t g e1 = Inr (st, e2)" and ok: "Status_ok st"
    using assms(1) o by (cases "send_header record_verbs header len t g e1") (auto simp: SendRequest_def split: if_splits)
  from record_header [OF sh ok] c n obtain hdr where hdr: "ep_net e2 = ep_net e @ [hdr]"
    "swr_wr_id hdr = WrId_Encode (conn_id_of (ep_conn e)) REQUEST_SEND g t" and st2: "conn_state (ep_conn e2) = CONNECTED"
    using assms(5) by auto
  have e3: "ep_net (add_wr t e2) = ep_net e2" "ep_conn (add_wr t e2) = ep_conn e2" by (simp_all add: add_wr_def Let_def)
  from assms(1) o sh ok assms(2) have "s = t" and
    e': "ep_net e' = snd (snd (Conn_WriteWithImm record_verbs b (rmi_addr (conn_remote_recv_buffer (ep_conn e2)))
      (rmi_rkey (conn_remote_recv_buffer (ep_conn e2))) (request_imm t g)
      (WrId_Encode (conn_id_of (ep_conn e1)) REQUEST_SEND g t) (ep_conn e2) (ep_net e2)))"
    by (auto simp: SendRequest_def Let_def split_beta e3)
  with record_write_imm [OF st2] obtain wr where "ep_net e' = ep_net e2 @ [wr]" "swr_opcode wr = IBV_WR_RDMA_WRITE_WITH_IMM"
    "swr_imm_data wr = htonl (request_imm t g)" by metis
  with hdr a \<open>s = t\<close> imm_roundtrip [OF lt, of g] show ?thesis by auto
qed (use assms(1) in \<open>simp add: SendRequest_def\<close>)

theorem request_imm_roundtrip_witness:
  "\<exists>g hdr wr e'. SendRequest record_verbs 4096 16 (Some (Buffer_new 8192 64 7)) 1 2 sample_ep = Inr (Inr 0, e') \<and>
     ep_net e' = [hdr, wr] \<and> imm_slot (swr_imm_data wr) = 0 \<and> imm_generation (swr_imm_data wr) = g"
proof -
  have inv: "ep_inv sample_ep [] []"
    using ep_run_inv [OF sample_ep_created sample_pool_invar, of record_verbs sample_ep "[]" "[]"]
    by (simp add: few_uses_def)
  have al: "fst (RpcSlotPool_Allocate (ep_slot_pool sample_ep)) = (0, 0)"
    by (simp add: sample_ep_def RpcSlotPool_Allocate_def RpcSlotPool_new_def kMaxSlots_def Let_def Hot_GetGeneration_def hot_bits)
  from open_request_ok [OF inv, of 2 1] al obtain e1 where o: "open_request 1 2 sample_ep = Inr (Some (0, 0), e1)"
    "ep_conn e1 = sample_conn CONNECTED" by (auto simp: kNoSlot_def sample_ep_def)
  then have "\<exists>e2. send_header record_verbs 4096 16 0 0 e1 = Inr (Status_OK, e2)"
    by (simp add: send_header_def Conn_SendInline_def PostSendInline_def with_qp_def record_post sample_conn_def
        sample_qp_def QueuePairConfig_default_def Let_def split_beta)
  with o have "\<exists>e'. SendRequest record_verbs 4096 16 (Some (Buffer_new 8192 64 7)) 1 2 sample_ep = Inr (Inr 0, e')"
    by (auto simp: SendRequest_def Let_def split_beta)
  then obtain e' where e': "SendRequest record_verbs 4096 16 (Some (Buffer_new 8192 64 7)) 1 2 sample_ep = Inr (Inr 0, e')" ..
  from request_imm_roundtrip [OF e' _ inv] show ?thesis
    using e' by (auto simp: Buffer_IsValid_def Buffer_new_def sample_ep_def sample_conn_def)
qed

text \<open>
  A read response names the wrong request: \<open>SendReadResponse\<close> converts the immediate data to
  network order and \<open>PostWriteWithImm\<close> converts it again, so the client's handler, which converts it
  once, reads the generation as the high byte of the slot and the slot's high byte as the generation.
\<close>

theorem read_response_names_wrong_slot:
  assumes "SendReadResponse record_verbs s g b remote e = (st, e')" and "conn_state (ep_conn e) = CONNECTED"
    and "unat s < kMaxSlots"
  shows "\<exists>wr. ep_net e' = ep_net e @ [wr] \<and> imm_slot (swr_imm_data wr) = push_bit 8 (ucast g) \<and>
           imm_generation (swr_imm_data wr) = ucast (drop_bit 8 s)"
proof -
  from assms(1) have "ep_net e' = snd (snd (Conn_WriteWithImm record_verbs b (rmi_addr remote) (rmi_rkey remote)
      (htonl (request_imm s g)) 0 (ep_conn e) (ep_net e)))"
    by (auto simp: SendReadResponse_def Let_def split_beta)
  with record_write_imm [OF assms(2)] obtain wr where "ep_net e' = ep_net e @ [wr]"
    "swr_imm_data wr = htonl (htonl (request_imm s g))" by metis
  moreover have "imm_slot (request_imm s g) = push_bit 8 (ucast g)"
    unfolding imm_slot_def request_imm_def mask_folds
    by (rule bit_word_eqI) (auto simp: bit_simps bit_bswap32 dest: bit_width_dests)
  moreover have "imm_generation (request_imm s g) = ucast (drop_bit 8 s)"
    unfolding imm_generation_def request_imm_def mask_folds
    by (rule bit_word_eqI) (auto simp: bit_simps bit_bswap32 dest: bit_width_dests)
  ultimately show ?thesis by simp
qed

theorem read_response_names_wrong_slot_witness:
  "\<exists>wr. ep_net (snd (SendReadResponse record_verbs 5 3 (Buffer_new 8192 64 7) \<lparr>rmi_addr = 0, rmi_rkey = 0, rmi_length = 0\<rparr> sample_ep)) = [wr] \<and>
     imm_slot (swr_imm_data wr) = 0x300 \<and> imm_generation (swr_imm_data wr) = 0"
  using read_response_names_wrong_slot [of 5 3 "Buffer_new 8192 64 7" "\<lparr>rmi_addr = 0, rmi_rkey = 0, rmi_length = 0\<rparr>" sample_ep,
      OF surjective_pairing]
  by (simp add: sample_ep_def sample_conn_def kMaxSlots_def)

text \<open>
  C37. A read response is posted with work-request id 0, which names slot 0 in generation 0: on an
  endpoint that has sent no request of its own, handling the completion of the response frees the
  free slot 0 and writes one past the end of the free stack.
\<close>

theorem response_completion_overflows_pool:
  assumes "RpcEndpoint_Create (Some c) pool wheel config n = Inr e" and "conn_state c = CONNECTED"
    and "SendReadResponse record_verbs s g b remote e = (st, e')"
  shows "\<exists>wr. ep_net e' = n @ [wr] \<and> (\<forall>wc. wc_wr_id wc = swr_wr_id wr \<longrightarrow> OnSendComplete wc e' = Inl Out_Of_Bounds)"
proof -
  have e: "ep_net e = n" "ep_conn e = c" "ep_slot_pool e = RpcSlotPool_new"
    using assms(1) by (auto simp: RpcEndpoint_Create_def split: option.splits)
  from assms(3) have e': "ep_net e' = snd (snd (Conn_WriteWithImm record_verbs b (rmi_addr remote) (rmi_rkey remote)
      (htonl (request_imm s g)) 0 (ep_conn e) (ep_net e)))" "ep_slot_pool e' = RpcSlotPool_new"
    by (auto simp: SendReadResponse_def Let_def split_beta e)
  with record_write_imm [OF assms(2)] e obtain wr where wr: "ep_net e' = n @ [wr]" "swr_wr_id wr = 0" by metis
  have "OnSendComplete wc e' = Inl Out_Of_Bounds" if "wc_wr_id wc = 0" for wc
    using that e'(2) by (simp add: OnSendComplete_def complete_wr_def WrId_GetSlotIndex_def WrId_GetGeneration_def
        RpcSlotPool_GetHotChecked_def kMaxSlots_def Hot_ValidateGeneration_def Let_def OnRpcComplete_def
        RpcSlotPool_GetContext_def RpcSlotPool_GetHot_def free_slot_def RpcSlotPool_Free_def Hot_IsCompleted_def
        Hot_MarkCompleted_def invoke_callback_def RpcSlotPool_set_hot_def Hot_GetGeneration_def)
      (simp add: RpcSlotPool_new_def kMaxSlots_def Hot_GetGeneration_def)
  with wr show ?thesis by simp
qed

theorem response_completion_overflows_pool_witness:
  "\<exists>wr. ep_net (snd (SendReadResponse record_verbs 5 3 (Buffer_new 8192 64 7) \<lparr>rmi_addr = 0, rmi_rkey = 0, rmi_length = 0\<rparr> sample_ep)) = [wr] \<and>
     (\<forall>wc. wc_wr_id wc = swr_wr_id wr \<longrightarrow> OnSendComplete wc (snd (SendReadResponse record_verbs 5 3 (Buffer_new 8192 64 7)
        \<lparr>rmi_addr = 0, rmi_rkey = 0, rmi_length = 0\<rparr> sample_ep)) = Inl Out_Of_Bounds)"
  using response_completion_overflows_pool [OF sample_ep_created _ surjective_pairing] by (simp add: sample_conn_def)

end
