(* ===== verification/Doorbell_Batcher.thy ===== *)
theory Doorbell_Batcher
  imports Queue_Pair
begin

text \<open>
  \<open>include/rdma/core/doorbell_batcher.h\<close>: collects send requests in a chain and posts the chain with
  one doorbell. The chain is the list of its requests; a request is added by a caller who does not
  touch it until it is posted. \<open>now\<close> is a reading of the time-stamp counter, \<open>tsc_per_us\<close> the
  calibrated rate. \<open>ibv_post_send\<close> on a chain posts its requests in order up to the first that fails.
\<close>

section \<open>State and operations\<close>

record DoorbellConfig =
  dbc_max_batch_size :: size_t
  dbc_max_delay_us :: u32
  dbc_low_load_threshold :: size_t

definition DoorbellConfig_default :: DoorbellConfig where
  "DoorbellConfig_default = \<lparr>dbc_max_batch_size = 32, dbc_max_delay_us = 10, dbc_low_load_threshold = 4\<rparr>"

record DoorbellBatcher =
  db_qp :: ptr
  db_config :: DoorbellConfig
  db_chain :: "ibv_send_wr list"
  db_send_count :: size_t
  db_first_wr_tsc :: u64
  db_idle_poll_count :: u32

definition DoorbellBatcher_new :: "ptr \<Rightarrow> DoorbellConfig \<Rightarrow> DoorbellBatcher" where
  "DoorbellBatcher_new qp config =
     \<lparr>db_qp = qp, db_config = config, db_chain = [], db_send_count = 0, db_first_wr_tsc = 0, db_idle_poll_count = 0\<rparr>"

fun post_chain :: "'n qp_verbs \<Rightarrow> ptr \<Rightarrow> ibv_send_wr list \<Rightarrow> 'n \<Rightarrow> int option \<times> 'n" where
  "post_chain V p [] n = (None, n)"
| "post_chain V p (w # ws) n =
     (case v_post_send V p w n of (Some e, n') \<Rightarrow> (Some e, n') | (None, n') \<Rightarrow> post_chain V p ws n')"

definition FlushSend :: "'n qp_verbs \<Rightarrow> DoorbellBatcher \<Rightarrow> 'n \<Rightarrow> Status \<times> DoorbellBatcher \<times> 'n" where
  "FlushSend V b n =
     (if db_chain b = [] then (Status_OK, b, n)
      else
        let (ret, n') = post_chain V (db_qp b) (db_chain b) n;
            b' = b\<lparr>db_chain := [], db_send_count := 0, db_idle_poll_count := 0\<rparr>
        in case ret of
             Some e \<Rightarrow> (Status_IOError ''ibv_post_send failed'' e, b', n')
           | None \<Rightarrow> (Status_OK, b', n'))"

text \<open>The status of the flush inside \<open>AddSendWr\<close> is discarded.\<close>

definition AddSendWr :: "'n qp_verbs \<Rightarrow> u64 \<Rightarrow> ibv_send_wr \<Rightarrow> DoorbellBatcher \<Rightarrow> 'n \<Rightarrow> DoorbellBatcher \<times> 'n" where
  "AddSendWr V now wr b n =
     (let b1 = (if db_chain b \<noteq> [] then b else b\<lparr>db_first_wr_tsc := now\<rparr>);
          b2 = b1\<lparr>db_chain := db_chain b1 @ [wr], db_send_count := db_send_count b1 + 1\<rparr>
      in if db_send_count b2 \<ge> dbc_max_batch_size (db_config b2) then snd (FlushSend V b2 n) else (b2, n))"

definition ShouldFlush :: "u64 \<Rightarrow> u64 \<Rightarrow> DoorbellBatcher \<Rightarrow> bool" where
  "ShouldFlush tsc_per_us now b =
     (if db_send_count b = 0 then False
      else if db_send_count b \<ge> dbc_max_batch_size (db_config b) then True
      else if now - db_first_wr_tsc b \<ge> ucast (dbc_max_delay_us (db_config b)) * tsc_per_us then True
      else db_idle_poll_count b \<ge> 2 \<and> db_send_count b > 0)"

definition OnPollEnd ::
  "'n qp_verbs \<Rightarrow> u64 \<Rightarrow> u64 \<Rightarrow> bool \<Rightarrow> DoorbellBatcher \<Rightarrow> 'n \<Rightarrow> Status \<times> DoorbellBatcher \<times> 'n" where
  "OnPollEnd V tsc_per_us now had_events b n =
     (let b1 = b\<lparr>db_idle_poll_count := if had_events then 0 else db_idle_poll_count b + 1\<rparr>
      in if ShouldFlush tsc_per_us now b1 then FlushSend V b1 n else (Status_OK, b1, n))"

text \<open>\<open>rdtsc\<close> leaves the counter in two registers of 32 bits.\<close>

definition GetTsc :: "u32 \<Rightarrow> u32 \<Rightarrow> u64" where
  "GetTsc lo hi = push_bit 32 (ucast hi) OR ucast lo"

lemma unat_GetTsc: "unat (GetTsc lo hi) = unat hi * 2 ^ 32 + unat lo"
proof -
  have disj: "push_bit 32 (ucast hi) AND ucast lo = (0 :: u64)" by (rule bit_word_eqI) (auto simp: bit_simps dest: bit_imp_le_length)
  have b: "unat hi < 2 ^ 32" "unat lo < 2 ^ 32" using unsigned_less [of hi] unsigned_less [of lo] by simp_all
  have u: "unat (ucast w :: u64) = unat w" if "unat w < 2 ^ 32" for w :: u32 using that by (simp add: unsigned_ucast_eq take_bit_eq_mod)
  have "unat (push_bit 32 (ucast hi :: u64)) = unat hi * 2 ^ 32"
    using b(1) by (simp add: push_bit_eq_mult unat_word_ariths u)
  moreover have "GetTsc lo hi = push_bit 32 (ucast hi) + ucast lo"
    using disjunctive_add_eq_or [OF disj] by (simp add: GetTsc_def)
  ultimately show ?thesis using b by (simp add: unat_word_ariths u)
qed

definition CalibrateTsc :: "u64 \<Rightarrow> u64 \<Rightarrow> int \<Rightarrow> u64 \<Rightarrow> u64" where
  "CalibrateTsc tsc_start tsc_end elapsed_us tsc_per_us =
     (if elapsed_us > 0 then (tsc_end - tsc_start) div of_int elapsed_us else tsc_per_us)"

section \<open>Requests are posted once and in order\<close>

text \<open>A device that takes every request; what it does with them is its own.\<close>

definition accepts_all :: "'n qp_verbs \<Rightarrow> bool" where
  "accepts_all V \<longleftrightarrow> (\<forall>p w n. fst (v_post_send V p w n) = None)"

abbreviation post_all :: "'n qp_verbs \<Rightarrow> ptr \<Rightarrow> ibv_send_wr list \<Rightarrow> 'n \<Rightarrow> 'n" where
  "post_all V p ws n \<equiv> fold (\<lambda>w n. snd (v_post_send V p w n)) ws n"

lemma post_chain_all: "accepts_all V \<Longrightarrow> post_chain V p ws n = (None, post_all V p ws n)"
  by (induction ws arbitrary: n) (auto simp: accepts_all_def split: prod.splits option.splits, (metis fst_conv option.distinct(1) snd_conv)+)

datatype db_op = Db_Add u64 ibv_send_wr | Db_PollEnd u64 bool | Db_Flush

fun db_run :: "'n qp_verbs \<Rightarrow> u64 \<Rightarrow> db_op list \<Rightarrow> DoorbellBatcher \<times> 'n \<Rightarrow> DoorbellBatcher \<times> 'n" where
  "db_run V tpu [] s = s"
| "db_run V tpu (Db_Add now wr # xs) (b, n) = db_run V tpu xs (AddSendWr V now wr b n)"
| "db_run V tpu (Db_PollEnd now ev # xs) (b, n) = db_run V tpu xs (snd (OnPollEnd V tpu now ev b n))"
| "db_run V tpu (Db_Flush # xs) (b, n) = db_run V tpu xs (snd (FlushSend V b n))"

fun added :: "db_op list \<Rightarrow> ibv_send_wr list" where
  "added [] = []"
| "added (Db_Add now wr # xs) = wr # added xs"
| "added (_ # xs) = added xs"

text \<open>The count is the length of the chain, which is shorter than a batch.\<close>

definition db_inv :: "DoorbellBatcher \<Rightarrow> bool" where
  "db_inv b \<longleftrightarrow> unat (db_send_count b) = length (db_chain b) \<and>
     length (db_chain b) < unat (dbc_max_batch_size (db_config b))"

lemma FlushSend_accepting:
  assumes "accepts_all V"
  shows "snd (FlushSend V b n) =
    (if db_chain b = [] then b else b\<lparr>db_chain := [], db_send_count := 0, db_idle_poll_count := 0\<rparr>,
     post_all V (db_qp b) (db_chain b) n)"
  by (simp add: FlushSend_def post_chain_all [OF assms])

lemma db_step_order:
  assumes "accepts_all V" and inv: "db_inv b"
  shows "AddSendWr V now wr b n = (b', n') \<Longrightarrow>
      db_inv b' \<and> db_qp b' = db_qp b \<and> post_all V (db_qp b) (db_chain b') n' = post_all V (db_qp b) (db_chain b @ [wr]) n"
    and "snd (FlushSend V b n) = (b', n') \<Longrightarrow>
      db_inv b' \<and> db_qp b' = db_qp b \<and> post_all V (db_qp b) (db_chain b') n' = post_all V (db_qp b) (db_chain b) n"
    and "snd (OnPollEnd V tpu now ev b n) = (b', n') \<Longrightarrow>
      db_inv b' \<and> db_qp b' = db_qp b \<and> post_all V (db_qp b) (db_chain b') n' = post_all V (db_qp b) (db_chain b) n"
proof -
  note fl = FlushSend_accepting [OF assms(1)]
  have "length (db_chain b) + 1 < 2 ^ 64"
    using inv unat_u64_lt [of "dbc_max_batch_size (db_config b)"] by (simp add: db_inv_def)
  then have cnt: "unat (db_send_count b + 1) = length (db_chain b) + 1" using inv by (simp add: db_inv_def unat_word_ariths)
  have pos: "0 < unat (dbc_max_batch_size (db_config b))" using inv by (simp add: db_inv_def)
  show "AddSendWr V now wr b n = (b', n') \<Longrightarrow>
      db_inv b' \<and> db_qp b' = db_qp b \<and> post_all V (db_qp b) (db_chain b') n' = post_all V (db_qp b) (db_chain b @ [wr]) n"
    using inv cnt pos by (auto simp: AddSendWr_def Let_def fl db_inv_def word_le_nat_alt split: if_splits)
  show "snd (FlushSend V b n) = (b', n') \<Longrightarrow>
      db_inv b' \<and> db_qp b' = db_qp b \<and> post_all V (db_qp b) (db_chain b') n' = post_all V (db_qp b) (db_chain b) n"
    using inv pos by (auto simp: fl db_inv_def split: if_splits)
  show "snd (OnPollEnd V tpu now ev b n) = (b', n') \<Longrightarrow>
      db_inv b' \<and> db_qp b' = db_qp b \<and> post_all V (db_qp b) (db_chain b') n' = post_all V (db_qp b) (db_chain b) n"
    using inv pos by (auto simp: OnPollEnd_def Let_def fl db_inv_def split: if_splits)
qed

text \<open>
  C38. On a device that takes every request the batcher changes only when requests are posted: after
  any sequence of additions, ends of poll rounds and flushes, posting what is still pending leaves
  the device as if every request had been posted at once, in the order of the additions, and fewer
  than a batch are pending.
\<close>

theorem doorbell_posts_in_order:
  assumes "accepts_all V" and "0 < unat (dbc_max_batch_size config)"
    and "db_run V tpu xs (DoorbellBatcher_new p config, n) = (b', n')"
  shows "post_all V p (db_chain b') n' = post_all V p (added xs) n \<and>
    length (db_chain b') < unat (dbc_max_batch_size (db_config b')) \<and> unat (db_send_count b') = length (db_chain b')"
proof -
  have "db_inv b' \<and> db_qp b' = db_qp b \<and> post_all V (db_qp b) (db_chain b') n' = post_all V (db_qp b) (db_chain b @ added xs) n"
    if "db_run V tpu xs (b, n) = (b', n')" "db_inv b" for b n
    using that
  proof (induction xs arbitrary: b n)
    case (Cons x xs)
    show ?case
    proof (cases x)
      case (Db_Add now wr)
      obtain b1 n1 where "AddSendWr V now wr b n = (b1, n1)" by (cases "AddSendWr V now wr b n")
      with db_step_order(1) [OF assms(1) Cons.prems(2) this] Cons.IH [of b1 n1] Cons.prems Db_Add show ?thesis by simp
    next
      case (Db_PollEnd now ev)
      obtain b1 n1 where "snd (OnPollEnd V tpu now ev b n) = (b1, n1)" by (cases "snd (OnPollEnd V tpu now ev b n)")
      with db_step_order(3) [OF assms(1) Cons.prems(2) this] Cons.IH [of b1 n1] Cons.prems Db_PollEnd show ?thesis by simp
    next
      case Db_Flush
      obtain b1 n1 where "snd (FlushSend V b n) = (b1, n1)" by (cases "snd (FlushSend V b n)")
      with db_step_order(2) [OF assms(1) Cons.prems(2) this] Cons.IH [of b1 n1] Cons.prems Db_Flush show ?thesis by simp
    qed
  qed simp
  from this [OF assms(3)] assms(2) show ?thesis by (simp add: db_inv_def DoorbellBatcher_new_def)
qed

definition logging_verbs :: "u64 list qp_verbs" where
  "logging_verbs =
     \<lparr>v_post_send = (\<lambda>p w n. (None, n @ [swr_wr_id w])), v_post_recv = (\<lambda>p w n. (None, n)), v_modify_qp = (\<lambda>p a m n. (None, n))\<rparr>"

theorem doorbell_posts_in_order_witness:
  "\<exists>b'. db_run logging_verbs 2400
      [Db_Add 0 (ibv_send_wr_zero\<lparr>swr_wr_id := 1\<rparr>), Db_Add 5 (ibv_send_wr_zero\<lparr>swr_wr_id := 2\<rparr>), Db_PollEnd 30000 True]
      (DoorbellBatcher_new 9 DoorbellConfig_default, []) = (b', [1, 2]) \<and> length (db_chain b') < 32"
proof -
  let ?xs = "[Db_Add 0 (ibv_send_wr_zero\<lparr>swr_wr_id := 1\<rparr>), Db_Add 5 (ibv_send_wr_zero\<lparr>swr_wr_id := 2\<rparr>), Db_PollEnd 30000 True]"
  let ?s = "db_run logging_verbs 2400 ?xs (DoorbellBatcher_new 9 DoorbellConfig_default, [])"
  have acc: "accepts_all logging_verbs" by (simp add: accepts_all_def logging_verbs_def)
  have run: "snd ?s = [1, 2]" "db_config (fst ?s) = DoorbellConfig_default"
    by (simp_all add: AddSendWr_def OnPollEnd_def ShouldFlush_def FlushSend_def DoorbellBatcher_new_def
        DoorbellConfig_default_def logging_verbs_def ibv_send_wr_zero_def Let_def)
  obtain b' n' where s: "?s = (b', n')" by (cases ?s)
  from doorbell_posts_in_order [OF acc _ s] run s show ?thesis by (auto simp: DoorbellConfig_default_def)
qed

text \<open>Two idle rounds after an addition nothing is pending, whatever the clock says.\<close>

lemma OnPollEnd_outcome:
  assumes "OnPollEnd V tpu now False b n = (st, b', n')"
  shows "db_chain b' = [] \<or> b' = b\<lparr>db_idle_poll_count := db_idle_poll_count b + 1\<rparr> \<and> \<not> ShouldFlush tpu now b'"
    and "db_chain b = [] \<Longrightarrow> db_chain b' = []"
  using assms by (auto simp: OnPollEnd_def FlushSend_def Let_def split: if_splits prod.splits option.splits)

lemma doorbell_idle_flush:
  assumes "db_inv b" and idle: "unat (db_idle_poll_count b) < 2 ^ 32 - 2"
    and 1: "OnPollEnd V tpu t1 False b n = (st1, b1, n1)" and 2: "OnPollEnd V tpu t2 False b1 n1 = (st2, b2, n2)"
  shows "db_chain b2 = []"
proof (rule ccontr)
  assume ne: "db_chain b2 \<noteq> []"
  then have "db_chain b1 \<noteq> []" using OnPollEnd_outcome(2) [OF 2] by blast
  with OnPollEnd_outcome(1) [OF 1] have b1: "b1 = b\<lparr>db_idle_poll_count := db_idle_poll_count b + 1\<rparr>" by blast
  with OnPollEnd_outcome(1) [OF 2] ne have b2: "b2 = b\<lparr>db_idle_poll_count := db_idle_poll_count b + 1 + 1\<rparr>"
    "\<not> ShouldFlush tpu t2 b2" by auto
  have "unat (db_idle_poll_count b + 1 + 1) = unat (db_idle_poll_count b) + 2" using idle by (simp add: unat_word_ariths)
  then have "db_idle_poll_count b + 1 + 1 \<ge> 2" by (simp add: word_le_nat_alt)
  moreover have "db_send_count b \<noteq> 0" using ne assms(1) b2(1) by (auto simp: db_inv_def)
  ultimately show False using b2 by (auto simp: ShouldFlush_def word_neq_0_conv split: if_splits)
qed

text \<open>
  A failing device loses requests: when \<open>ibv_post_send\<close> refuses the first request of a full
  batch, the requests of the batch are dropped from the chain although none was posted, and
  \<open>AddSendWr\<close>, which triggered the flush, reports nothing to its caller.
\<close>

theorem doorbell_failure_drops_batch:
  assumes "db_inv b" and "unat (dbc_max_batch_size (db_config b)) = length (db_chain b) + 1"
    and "\<And>w n. v_post_send V (db_qp b) w n = (Some e, n)"
  shows "\<exists>b'. AddSendWr V now wr b n = (b', n) \<and> db_chain b' = [] \<and> db_send_count b' = 0"
proof -
  have "length (db_chain b) + 1 < 2 ^ 64"
    using assms(2) unat_u64_lt [of "dbc_max_batch_size (db_config b)"] by simp
  then have "unat (db_send_count b + 1) = length (db_chain b) + 1" using assms(1) by (simp add: db_inv_def unat_word_ariths)
  then have full: "dbc_max_batch_size (db_config b) \<le> db_send_count b + 1" using assms(2) by (simp add: word_le_nat_alt)
  show ?thesis using full assms(3) by (cases "db_chain b") (auto simp: AddSendWr_def FlushSend_def Let_def)
qed

definition failing_verbs :: "u64 list qp_verbs" where
  "failing_verbs = logging_verbs\<lparr>v_post_send := (\<lambda>p w n. (Some 12, n))\<rparr>"

theorem doorbell_failure_drops_batch_witness:
  "\<exists>b'. AddSendWr failing_verbs 0 ibv_send_wr_zero
      (DoorbellBatcher_new 9 (DoorbellConfig_default\<lparr>dbc_max_batch_size := 1\<rparr>)) [] = (b', []) \<and> db_chain b' = []"
  using doorbell_failure_drops_batch [of "DoorbellBatcher_new 9 (DoorbellConfig_default\<lparr>dbc_max_batch_size := 1\<rparr>)"
      failing_verbs 12 0 ibv_send_wr_zero "[]"]
  by (auto simp: db_inv_def DoorbellBatcher_new_def failing_verbs_def)

end
