(* ===== verification/Kv_Protocol.thy ===== *)
theory Kv_Protocol
  imports Rdma_Types
begin

text \<open>
  \<open>examples/kv_protocol.h\<close>: the request and response headers of the key-value service and their
  sixteen-byte object representation, which is what travels in the send and receive buffers, the
  value sizes and their alignment. The enumerators of \<open>kv::Status\<close> carry the prefix \<open>KV_\<close>.
\<close>

section \<open>Operations and status codes\<close>

datatype OpType = GET | PUT | GET_RESPONSE | PUT_RESPONSE

fun OpType_code :: "OpType \<Rightarrow> u8" where
  "OpType_code GET = 1"
| "OpType_code PUT = 2"
| "OpType_code GET_RESPONSE = 3"
| "OpType_code PUT_RESPONSE = 4"

definition OpType_of :: "u8 \<Rightarrow> OpType option" where
  "OpType_of b = (if b = 1 then Some GET else if b = 2 then Some PUT else if b = 3 then Some GET_RESPONSE
     else if b = 4 then Some PUT_RESPONSE else None)"

lemma OpType_of_code [simp]: "OpType_of (OpType_code p) = Some p"
  by (cases p) (simp_all add: OpType_of_def)

datatype KvStatus = KV_OK | KV_NOT_FOUND | KV_NO_SPACE | KV_INVALID_REQUEST | KV_INTERNAL_ERROR

fun KvStatus_code :: "KvStatus \<Rightarrow> u8" where
  "KvStatus_code KV_OK = 0"
| "KvStatus_code KV_NOT_FOUND = 1"
| "KvStatus_code KV_NO_SPACE = 2"
| "KvStatus_code KV_INVALID_REQUEST = 3"
| "KvStatus_code KV_INTERNAL_ERROR = 4"

lemma KvStatus_code_inject [simp]: "KvStatus_code a = KvStatus_code b \<longleftrightarrow> a = b"
  by (cases a; cases b) simp_all

section \<open>Headers\<close>

record RequestHeader =
  rq_op_type :: u8
  rq_segment_count :: u8
  rq_reserved :: u16
  rq_value_size :: u32
  rq_key :: u64

definition SetGet :: "u64 \<Rightarrow> RequestHeader" where
  "SetGet k = \<lparr>rq_op_type = OpType_code GET, rq_segment_count = 0, rq_reserved = 0, rq_value_size = 0, rq_key = k\<rparr>"

definition SetPut :: "u64 \<Rightarrow> u32 \<Rightarrow> u8 \<Rightarrow> RequestHeader" where
  "SetPut k sz segments =
     \<lparr>rq_op_type = OpType_code PUT, rq_segment_count = segments, rq_reserved = 0, rq_value_size = sz, rq_key = k\<rparr>"

record ResponseHeader =
  rs_op_type :: u8
  rs_status :: u8
  rs_reserved :: u16
  rs_value_size :: u32
  rs_key :: u64

definition SetGetResponse :: "u64 \<Rightarrow> KvStatus \<Rightarrow> u32 \<Rightarrow> ResponseHeader" where
  "SetGetResponse k s sz =
     \<lparr>rs_op_type = OpType_code GET_RESPONSE, rs_status = KvStatus_code s, rs_reserved = 0, rs_value_size = sz, rs_key = k\<rparr>"

definition SetPutResponse :: "u64 \<Rightarrow> KvStatus \<Rightarrow> ResponseHeader" where
  "SetPutResponse k s =
     \<lparr>rs_op_type = OpType_code PUT_RESPONSE, rs_status = KvStatus_code s, rs_reserved = 0, rs_value_size = 0, rs_key = k\<rparr>"

record SegmentDescriptor =
  seg_offset :: u32
  seg_length :: u32

section \<open>Sizes\<close>

definition MIN_VALUE_SIZE :: u32 where "MIN_VALUE_SIZE = 4096"
definition MAX_VALUE_SIZE :: u32 where "MAX_VALUE_SIZE = 65536"
definition VALUE_ALIGN :: u32 where "VALUE_ALIGN = 4096"
definition MAX_SEGMENTS :: u8 where "MAX_SEGMENTS = 16"
definition sizeof_RequestHeader :: nat where "sizeof_RequestHeader = 16"
definition sizeof_ResponseHeader :: nat where "sizeof_ResponseHeader = 16"
definition sizeof_SegmentDescriptor :: nat where "sizeof_SegmentDescriptor = 8"

definition MAX_REQUEST_SIZE :: size_t where
  "MAX_REQUEST_SIZE = of_nat (sizeof_RequestHeader + unat MAX_SEGMENTS * sizeof_SegmentDescriptor + unat MAX_VALUE_SIZE)"

definition MAX_RESPONSE_SIZE :: size_t where
  "MAX_RESPONSE_SIZE = of_nat (sizeof_ResponseHeader + unat MAX_VALUE_SIZE)"

lemmas kv_sizes = MIN_VALUE_SIZE_def MAX_VALUE_SIZE_def VALUE_ALIGN_def MAX_SEGMENTS_def sizeof_RequestHeader_def
  sizeof_ResponseHeader_def sizeof_SegmentDescriptor_def

definition IsValidValueSize :: "u32 \<Rightarrow> bool" where
  "IsValidValueSize sz \<longleftrightarrow> sz \<ge> MIN_VALUE_SIZE \<and> sz \<le> MAX_VALUE_SIZE \<and> sz mod VALUE_ALIGN = 0"

definition AlignValueSize :: "u32 \<Rightarrow> u32" where
  "AlignValueSize sz = ((sz + VALUE_ALIGN - 1) div VALUE_ALIGN) * VALUE_ALIGN"

text \<open>An aligned size is the least multiple of the alignment that is large enough, and valid for sizes in range.\<close>

lemma AlignValueSize_least:
  assumes "unat sz \<le> 65536"
  shows "unat (AlignValueSize sz) = (unat sz + 4095) div 4096 * 4096"
proof -
  have "unat (sz + 4096 - 1) = unat sz + 4095"
  proof -
    have "sz + 4096 - 1 = sz + 4095" by simp
    then show ?thesis using assms by (simp add: unat_word_ariths)
  qed
  moreover have "(unat sz + 4095) div 4096 * 4096 \<le> unat sz + 4095" by simp
  ultimately show ?thesis
    using assms by (simp add: AlignValueSize_def kv_sizes unat_word_ariths unat_div)
qed

lemma AlignValueSize_valid:
  assumes "0 < unat sz" and "unat sz \<le> 65536"
  shows "IsValidValueSize (AlignValueSize sz) \<and> unat sz \<le> unat (AlignValueSize sz)"
proof -
  define q where "q = (unat sz + 4095) div 4096"
  have q: "1 \<le> q" "q \<le> 16" "unat sz \<le> q * 4096" using assms unfolding q_def by linarith+
  have a: "unat (AlignValueSize sz) = q * 4096" using AlignValueSize_least [OF assms(2)] by (simp add: q_def)
  then have "unat (AlignValueSize sz mod VALUE_ALIGN) = 0" by (simp add: kv_sizes unat_mod)
  then have "AlignValueSize sz mod VALUE_ALIGN = 0" by (simp add: unat_eq_0)
  with a q show ?thesis by (simp add: IsValidValueSize_def kv_sizes word_le_nat_alt)
qed

section \<open>The headers in memory\<close>

text \<open>Both headers have the layout: two bytes, a 16-bit, a 32-bit and a 64-bit field, without padding.\<close>

definition header_bytes :: "u8 \<Rightarrow> u8 \<Rightarrow> u16 \<Rightarrow> u32 \<Rightarrow> u64 \<Rightarrow> u8 list" where
  "header_bytes a b c d e = [a, b] @ le_bytes 2 c @ le_bytes 4 d @ le_bytes 8 e"

definition header_fields :: "u8 list \<Rightarrow> (u8 \<times> u8 \<times> u16 \<times> u32 \<times> u64) option" where
  "header_fields bs =
     (if length bs < 16 then None
      else Some (bs ! 0, bs ! 1, le_word (take 2 (drop 2 bs)), le_word (take 4 (drop 4 bs)), le_word (take 8 (drop 8 bs))))"

lemma length_header_bytes [simp]: "length (header_bytes a b c d e) = 16"
  by (simp add: header_bytes_def)

lemma header_fields_bytes [simp]: "header_fields (header_bytes a b c d e @ rest) = Some (a, b, c, d, e)"
  by (simp add: header_fields_def) (simp add: header_bytes_def le_word_le_bytes)

definition Request_bytes :: "RequestHeader \<Rightarrow> u8 list" where
  "Request_bytes h = header_bytes (rq_op_type h) (rq_segment_count h) (rq_reserved h) (rq_value_size h) (rq_key h)"

definition Request_of :: "u8 list \<Rightarrow> RequestHeader option" where
  "Request_of bs = map_option (\<lambda>(a, b, c, d, e). \<lparr>rq_op_type = a, rq_segment_count = b, rq_reserved = c, rq_value_size = d, rq_key = e\<rparr>)
     (header_fields bs)"

definition Response_bytes :: "ResponseHeader \<Rightarrow> u8 list" where
  "Response_bytes h = header_bytes (rs_op_type h) (rs_status h) (rs_reserved h) (rs_value_size h) (rs_key h)"

definition Response_of :: "u8 list \<Rightarrow> ResponseHeader option" where
  "Response_of bs = map_option (\<lambda>(a, b, c, d, e). \<lparr>rs_op_type = a, rs_status = b, rs_reserved = c, rs_value_size = d, rs_key = e\<rparr>)
     (header_fields bs)"

lemma Request_of_bytes [simp]: "Request_of (Request_bytes h @ rest) = Some h"
  by (simp add: Request_of_def Request_bytes_def)

lemma Response_of_bytes [simp]: "Response_of (Response_bytes h @ rest) = Some h"
  by (simp add: Response_of_def Response_bytes_def)

lemma length_Request_bytes [simp]: "length (Request_bytes h) = 16"
  by (simp add: Request_bytes_def)

lemma length_Response_bytes [simp]: "length (Response_bytes h) = 16"
  by (simp add: Response_bytes_def)

interpretation request_codec: codec Request_bytes Request_of "\<lambda>_. True"
  by unfold_locales (use Request_of_bytes [of _ "[]"] in simp)

interpretation response_codec: codec Response_bytes Response_of "\<lambda>_. True"
  by unfold_locales (use Response_of_bytes [of _ "[]"] in simp)

definition GetOpType :: "u8 list \<Rightarrow> OpType option" where
  "GetOpType header = OpType_of (header ! 0)"

text \<open>
  A request header written by the client is read by the server as it was written, whatever
  follows it in the buffer, and its first byte is the operation; the same holds of a response.
\<close>

lemma kv_headers_roundtrip:
  "Request_of (Request_bytes (SetPut k sz seg) @ rest) = Some (SetPut k sz seg) \<and>
   GetOpType (Request_bytes (SetPut k sz seg) @ rest) = Some PUT \<and>
   GetOpType (Request_bytes (SetGet k) @ rest) = Some GET \<and>
   Response_of (Response_bytes (SetGetResponse k s sz) @ rest) = Some (SetGetResponse k s sz) \<and>
   GetOpType (Response_bytes (SetGetResponse k s sz) @ rest) = Some GET_RESPONSE"
proof -
  have "GetOpType (header_bytes a b c d e @ rest) = OpType_of a" for a b c d e
    by (simp add: GetOpType_def header_bytes_def)
  then show ?thesis
    by (simp add: Request_bytes_def [of "SetPut k sz seg"] Request_bytes_def [of "SetGet k"]
        Response_bytes_def [of "SetGetResponse k s sz"]) (simp_all add: SetPut_def SetGet_def SetGetResponse_def
        Request_of_def Response_of_def OpType_of_def)
qed

end
