(* ===== verification/Kv_Store.thy ===== *)
theory Kv_Store
  imports Kv_Protocol
begin

text \<open>
  \<open>examples/kv_store.h\<close>: the key-value store, an open-addressing hash table over a pool of value
  slots. The storage pool is a byte array of \<open>total_storage_size\<close> bytes, given by its contents; a
  copy that leaves it is \<open>Inl Out_Of_Bounds\<close>, as is an index outside the table, a division by a
  zero slot size is \<open>Inl Div_By_Zero\<close>. The bytes a caller's pointer refers to are a list. The
  allocation of the table does not fail. The floating-point load factor is left out.
\<close>

section \<open>State\<close>

record StoreConfig =
  total_storage_size :: size_t
  slot_size :: size_t
  sc_hash_table_size :: size_t

definition StoreConfig_default :: StoreConfig where
  "StoreConfig_default = \<lparr>total_storage_size = 1024 * 1024 * 1024, slot_size = ucast MAX_VALUE_SIZE, sc_hash_table_size = 0\<rparr>"

record Entry =
  ent_key :: u64
  ent_slot_index :: u32
  ent_value_size :: u32
  ent_occupied :: bool
  ent_deleted :: bool

definition Entry_empty :: Entry where
  "Entry_empty = \<lparr>ent_key = 0, ent_slot_index = 0, ent_value_size = 0, ent_occupied = False, ent_deleted = False\<rparr>"

record KVStore =
  kv_config :: StoreConfig
  kv_storage :: "nat \<Rightarrow> u8"
  kv_table :: "Entry list"
  kv_free_slots :: "u32 list"
  kv_num_slots :: size_t
  kv_table_size :: size_t
  kv_hash_mask :: size_t
  kv_used_slots :: size_t
  kv_used_bytes :: size_t

section \<open>Helpers\<close>

definition NextPowerOfTwo :: "size_t \<Rightarrow> size_t" where
  "NextPowerOfTwo n =
     (if n = 0 then 1
      else let n = n - 1;
               n = n OR drop_bit 1 n;
               n = n OR drop_bit 2 n;
               n = n OR drop_bit 4 n;
               n = n OR drop_bit 8 n;
               n = n OR drop_bit 16 n;
               n = n OR drop_bit 32 n
           in n + 1)"

primrec hash_loop :: "nat \<Rightarrow> u64 \<Rightarrow> u64 \<Rightarrow> u64" where
  "hash_loop 0 h key = h"
| "hash_loop (Suc n) h key = hash_loop n ((h XOR (key AND 0xFF)) * 0x100000001b3) (drop_bit 8 key)"

definition HashKey :: "u64 \<Rightarrow> size_t" where
  "HashKey key = hash_loop 8 0xcbf29ce484222325 key"

definition table_read :: "size_t \<Rightarrow> KVStore \<Rightarrow> Entry chk" where
  "table_read i s = (if unat i < length (kv_table s) then Inr (kv_table s ! unat i) else Inl Out_Of_Bounds)"

text \<open>The probing loop of \<open>FindEntry\<close> with \<open>n\<close> iterations left: the position of the entry, \<open>None\<close> for the null pointer.\<close>

primrec find_loop :: "nat \<Rightarrow> u64 \<Rightarrow> size_t \<Rightarrow> KVStore \<Rightarrow> size_t option chk" where
  "find_loop 0 key i s = Inr None"
| "find_loop (Suc n) key i s =
     bind_chk (table_read i s) (\<lambda>e.
       if \<not> ent_occupied e then Inr None
       else if ent_key e = key \<and> \<not> ent_deleted e then Inr (Some i)
       else find_loop n key ((i + 1) AND kv_hash_mask s) s)"

definition FindEntry :: "u64 \<Rightarrow> KVStore \<Rightarrow> size_t option chk" where
  "FindEntry key s = find_loop (unat (kv_table_size s)) key (HashKey key AND kv_hash_mask s) s"

text \<open>The probing loop of the insertions: the first free position.\<close>

primrec free_loop :: "nat \<Rightarrow> size_t \<Rightarrow> KVStore \<Rightarrow> size_t option chk" where
  "free_loop 0 i s = Inr None"
| "free_loop (Suc n) i s =
     bind_chk (table_read i s) (\<lambda>e.
       if \<not> ent_occupied e \<or> ent_deleted e then Inr (Some i)
       else free_loop n ((i + 1) AND kv_hash_mask s) s)"

definition FindFree :: "u64 \<Rightarrow> KVStore \<Rightarrow> size_t option chk" where
  "FindFree key s = free_loop (unat (kv_table_size s)) (HashKey key AND kv_hash_mask s) s"

text \<open>The byte offset of a slot; \<open>memcpy\<close> into the pool and out of it.\<close>

definition GetSlotPtr :: "u32 \<Rightarrow> KVStore \<Rightarrow> size_t" where
  "GetSlotPtr slot_index s = ucast slot_index * slot_size (kv_config s)"

definition pool_write :: "nat \<Rightarrow> u8 list \<Rightarrow> KVStore \<Rightarrow> KVStore chk" where
  "pool_write at bs s =
     (if at + length bs \<le> unat (total_storage_size (kv_config s))
      then Inr (s\<lparr>kv_storage := (\<lambda>i. if at \<le> i \<and> i < at + length bs then bs ! (i - at) else kv_storage s i)\<rparr>)
      else Inl Out_Of_Bounds)"

definition pool_read :: "nat \<Rightarrow> nat \<Rightarrow> KVStore \<Rightarrow> u8 list chk" where
  "pool_read at n s =
     (if at + n \<le> unat (total_storage_size (kv_config s)) then Inr (map (\<lambda>i. kv_storage s (at + i)) [0..<n])
      else Inl Out_Of_Bounds)"

section \<open>Operations\<close>

text \<open>\<open>alloc n\<close> is the storage \<open>new (std::nothrow)\<close> returns, \<open>None\<close> for null.\<close>

definition Store_Initialize :: "(size_t \<Rightarrow> (nat \<Rightarrow> u8) option) \<Rightarrow> StoreConfig \<Rightarrow> KVStore option chk" where
  "Store_Initialize alloc config =
     (if slot_size config = 0 then Inl Div_By_Zero
      else
        let num_slots = total_storage_size config div slot_size config
        in if num_slots = 0 then Inr None
           else
             let table_size = (if sc_hash_table_size config = 0 then NextPowerOfTwo (num_slots * 2)
                               else NextPowerOfTwo (sc_hash_table_size config))
             in case alloc (total_storage_size config) of
                  None \<Rightarrow> Inr None
                | Some mem \<Rightarrow>
                    Inr (Some \<lparr>kv_config = config, kv_storage = mem,
                      kv_table = replicate (unat table_size) Entry_empty,
                      kv_free_slots = stack_init (unat num_slots), kv_num_slots = num_slots, kv_table_size = table_size,
                      kv_hash_mask = table_size - 1, kv_used_slots = 0, kv_used_bytes = 0\<rparr>))"

text \<open>The new entry of an insertion and the slot it takes.\<close>

definition insert_entry :: "u64 \<Rightarrow> u32 \<Rightarrow> size_t \<Rightarrow> KVStore \<Rightarrow> u32 \<times> KVStore" where
  "insert_entry key value_size i s =
     (let slot_index = last (kv_free_slots s)
      in (slot_index,
          s\<lparr>kv_free_slots := butlast (kv_free_slots s),
            kv_table := (kv_table s)[unat i := \<lparr>ent_key = key, ent_slot_index = slot_index, ent_value_size = value_size,
                                                 ent_occupied = True, ent_deleted = False\<rparr>],
            kv_used_slots := kv_used_slots s + 1\<rparr>))"

definition Put :: "u64 \<Rightarrow> u8 list \<Rightarrow> u32 \<Rightarrow> KVStore \<Rightarrow> (KvStatus \<times> KVStore) chk" where
  "Put key value_data value_size s =
     (if \<not> IsValidValueSize value_size then Inr (KV_INVALID_REQUEST, s)
      else if kv_free_slots s = [] then Inr (KV_NO_SPACE, s)
      else bind_chk (FindEntry key s) (\<lambda>existing.
        case existing of
          Some i \<Rightarrow>
            let e = kv_table s ! unat i
            in if length value_data < unat value_size then Inl Out_Of_Bounds
               else bind_chk (pool_write (unat (GetSlotPtr (ent_slot_index e) s)) (take (unat value_size) value_data) s) (\<lambda>s1.
                      Inr (KV_OK, s1\<lparr>kv_table := (kv_table s1)[unat i := e\<lparr>ent_value_size := value_size\<rparr>],
                                     kv_used_bytes := kv_used_bytes s1 - ucast (ent_value_size e) + ucast value_size\<rparr>))
        | None \<Rightarrow>
            bind_chk (FindFree key s) (\<lambda>r.
              case r of
                None \<Rightarrow> Inr (KV_NO_SPACE, s)
              | Some i \<Rightarrow>
                  if length value_data < unat value_size then Inl Out_Of_Bounds
                  else let (slot_index, s1) = insert_entry key value_size i s
                       in bind_chk (pool_write (unat (GetSlotPtr slot_index s1)) (take (unat value_size) value_data) s1) (\<lambda>s2.
                            Inr (KV_OK, s2\<lparr>kv_used_bytes := kv_used_bytes s2 + ucast value_size\<rparr>)))))"

text \<open>
  \<open>PutSGL\<close>: the 32-bit sum of the segment lengths is compared with the announced size. When the
  probing loop runs zero times its \<open>slot_index\<close> is read uninitialised.
\<close>

fun copy_segments :: "nat \<Rightarrow> u8 list list \<Rightarrow> KVStore \<Rightarrow> KVStore chk" where
  "copy_segments at [] s = Inr s"
| "copy_segments at (b # bs) s = bind_chk (pool_write at b s) (copy_segments (at + length b) bs)"

definition PutSGL :: "u64 \<Rightarrow> u8 list list \<Rightarrow> u32 \<Rightarrow> KVStore \<Rightarrow> (KvStatus \<times> KVStore) chk" where
  "PutSGL key segments total_size s =
     (if \<not> IsValidValueSize total_size \<or> segments = [] then Inr (KV_INVALID_REQUEST, s)
      else if of_nat (sum_list (map length segments)) \<noteq> total_size then Inr (KV_INVALID_REQUEST, s)
      else if kv_free_slots s = [] then Inr (KV_NO_SPACE, s)
      else bind_chk (FindEntry key s) (\<lambda>existing.
        bind_chk
          (case existing of
             Some i \<Rightarrow>
               let e = kv_table s ! unat i
               in Inr (Some (ent_slot_index e,
                    s\<lparr>kv_used_bytes := kv_used_bytes s - ucast (ent_value_size e),
                      kv_table := (kv_table s)[unat i := e\<lparr>ent_value_size := total_size\<rparr>]\<rparr>))
           | None \<Rightarrow>
               bind_chk (FindFree key s) (\<lambda>r.
                 case r of
                   Some i \<Rightarrow> Inr (Some (insert_entry key total_size i s))
                 | None \<Rightarrow> if kv_table_size s = 0 then Inl Uninit_Read else Inr None))
          (\<lambda>r. case r of
                 None \<Rightarrow> Inr (KV_NO_SPACE, s)
               | Some (slot_index, s1) \<Rightarrow>
                   bind_chk (copy_segments (unat (GetSlotPtr slot_index s1)) segments s1) (\<lambda>s2.
                     Inr (KV_OK, s2\<lparr>kv_used_bytes := kv_used_bytes s2 + ucast total_size\<rparr>)))))"

text \<open>\<open>Get\<close> returns the bytes copied to \<open>out_value\<close>; \<open>out_value_size\<close> is their number.\<close>

definition Get :: "u64 \<Rightarrow> u32 \<Rightarrow> KVStore \<Rightarrow> (KvStatus \<times> u8 list) chk" where
  "Get key buffer_size s =
     bind_chk (FindEntry key s) (\<lambda>r.
       case r of
         None \<Rightarrow> Inr (KV_NOT_FOUND, [])
       | Some i \<Rightarrow>
           let e = kv_table s ! unat i
           in if buffer_size < ent_value_size e then Inr (KV_INVALID_REQUEST, [])
              else bind_chk (pool_read (unat (GetSlotPtr (ent_slot_index e) s)) (unat (ent_value_size e)) s) (\<lambda>bs.
                     Inr (KV_OK, bs)))"

definition GetInfo :: "u64 \<Rightarrow> KVStore \<Rightarrow> (KvStatus \<times> u32) chk" where
  "GetInfo key s =
     bind_chk (FindEntry key s) (\<lambda>r.
       Inr (case r of None \<Rightarrow> (KV_NOT_FOUND, 0) | Some i \<Rightarrow> (KV_OK, ent_value_size (kv_table s ! unat i))))"

definition GetValuePtr :: "u64 \<Rightarrow> KVStore \<Rightarrow> (size_t \<times> u32) option chk" where
  "GetValuePtr key s =
     bind_chk (FindEntry key s) (\<lambda>r.
       Inr (map_option (\<lambda>i. (GetSlotPtr (ent_slot_index (kv_table s ! unat i)) s, ent_value_size (kv_table s ! unat i))) r))"

section \<open>Rounding up to a power of two\<close>

lemma smear_step:
  fixes x m :: "'a::len word"
  assumes "\<And>k. bit x k \<longleftrightarrow> (\<exists>j<w. bit m (k + j))"
  shows "bit (x OR drop_bit w x) k \<longleftrightarrow> (\<exists>j<2 * w. bit m (k + j))"
proof -
  have "(\<exists>j<2 * w. bit m (k + j)) \<longleftrightarrow> (\<exists>j<w. bit m (k + j)) \<or> (\<exists>j<w. bit m (k + w + j))"
  proof
    assume "\<exists>j<2 * w. bit m (k + j)"
    then obtain j where j: "j < 2 * w" "bit m (k + j)" by blast
    show "(\<exists>j<w. bit m (k + j)) \<or> (\<exists>j<w. bit m (k + w + j))"
    proof (cases "j < w")
      case False
      then have "j - w < w" "k + w + (j - w) = k + j" using j(1) by auto
      with j(2) show ?thesis by metis
    qed (use j in blast)
  next
    assume "(\<exists>j<w. bit m (k + j)) \<or> (\<exists>j<w. bit m (k + w + j))"
    then show "\<exists>j<2 * w. bit m (k + j)"
    proof (elim disjE exE conjE)
      fix j assume "j < w" "bit m (k + j)"
      then show ?thesis by (intro exI [of _ j]) simp
    next
      fix j assume "j < w" "bit m (k + w + j)"
      then show ?thesis by (intro exI [of _ "w + j"]) (simp add: add.assoc)
    qed
  qed
  then show ?thesis by (simp add: bit_simps assms add.commute [of w])
qed

lemma NextPowerOfTwo_correct:
  assumes "0 < unat n" and "unat n \<le> 2 ^ 63"
  shows "\<exists>b\<le>63. unat (NextPowerOfTwo n) = 2 ^ b \<and> unat n \<le> 2 ^ b \<and> 2 ^ b < 2 * unat n \<and> NextPowerOfTwo n - 1 = mask b"
proof -
  define m where "m = n - 1"
  define x1 where "x1 = m OR drop_bit 1 m"
  define x2 where "x2 = x1 OR drop_bit 2 x1"
  define x3 where "x3 = x2 OR drop_bit 4 x2"
  define x4 where "x4 = x3 OR drop_bit 8 x3"
  define x5 where "x5 = x4 OR drop_bit 16 x4"
  define x6 where "x6 = x5 OR drop_bit 32 x5"
  have nz: "n \<noteq> 0" using assms(1) by auto
  have um: "unat m = unat n - 1" using nz by (simp add: m_def unat_minus_one)
  have np: "NextPowerOfTwo n = x6 + 1"
    using nz by (simp add: NextPowerOfTwo_def Let_def m_def x1_def x2_def x3_def x4_def x5_def x6_def)
  have "bit m k \<longleftrightarrow> (\<exists>j<1. bit m (k + j))" for k by simp
  note s1 = smear_step [OF this, folded x1_def, simplified]
  note s2 = smear_step [OF s1, folded x2_def, simplified]
  note s3 = smear_step [OF s2, folded x3_def, simplified]
  note s4 = smear_step [OF s3, folded x4_def, simplified]
  note s5 = smear_step [OF s4, folded x5_def, simplified]
  note s6 = smear_step [OF s5, folded x6_def, simplified]
  have x6: "bit x6 k \<longleftrightarrow> (\<exists>j\<ge>k. bit m j)" for k
    unfolding s6
  proof
    assume "\<exists>j\<ge>k. bit m j"
    then obtain j where j: "j \<ge> k" "bit m j" by blast
    with bit_u64_le [OF j(2)] show "\<exists>j<64. bit m (k + j)" by (intro exI [of _ "j - k"]) simp
  qed (metis le_add1)
  show ?thesis
  proof (cases "m = 0")
    case True
    then have "x6 = 0" by (simp add: x1_def x2_def x3_def x4_def x5_def x6_def)
    moreover have "unat n = 1" using um True assms(1) by simp
    ultimately show ?thesis using np by (intro exI [of _ 0]) simp
  next
    case False
    define h where "h = Max {j. bit m j}"
    have fin: "finite {j. bit m j}" by (rule finite_subset [of _ "{..<64}"]) (auto dest: bit_u64_le)
    have "{j. bit m j} \<noteq> {}" using False by (auto simp: bit_eq_iff)
    then have h: "bit m h" "\<And>j. bit m j \<Longrightarrow> j \<le> h" using Max_in [OF fin] Max_ge [OF fin] by (auto simp: h_def)
    have bits: "bit x6 k \<longleftrightarrow> k \<le> h" for k unfolding x6 using h by (meson order_trans)
    have "x6 = mask (Suc h)"
    proof (rule bit_word_eqI)
      fix k assume "k < LENGTH(64)"
      then show "bit x6 k = bit (mask (Suc h) :: u64) k" unfolding bits by (simp add: bit_mask_iff less_Suc_eq_le del: mask_Suc_exp)
    qed
    moreover have "2 ^ h \<le> unat m" using bit_imp_le_unat [OF h(1)] .
    moreover have hb: "h < 63"
    proof -
      have "unat m < 2 ^ 63" using um assms by linarith
      with \<open>2 ^ h \<le> unat m\<close> have "(2::nat) ^ h < 2 ^ 63" by linarith
      then show ?thesis by (rule power_less_imp_less_exp [rotated]) simp
    qed
    moreover have "unat m < 2 ^ Suc h"
    proof -
      have "m = take_bit (Suc h) m" using h(2) by (intro bit_word_eqI) (auto simp: bit_simps less_Suc_eq_le)
      then have "unat m = take_bit (Suc h) (unat m)" by (metis unsigned_take_bit_eq)
      then show ?thesis by (metis take_bit_nat_less_exp)
    qed
    moreover have "unat (mask (Suc h) + 1 :: u64) = 2 ^ Suc h"
    proof -
      have "mask (Suc h) + 1 = (2 ^ Suc h :: u64)" by (simp add: mask_eq_exp_minus_1)
      also have "\<dots> = of_nat (2 ^ Suc h)" by simp
      finally have "mask (Suc h) + 1 = (of_nat (2 ^ Suc h) :: u64)" .
      moreover have "(2 :: nat) ^ Suc h < 2 ^ LENGTH(64)" using hb by (intro power_strict_increasing) simp_all
      ultimately show ?thesis by (simp only: unat_of_nat_less)
    qed
    ultimately show ?thesis using np um by (intro exI [of _ "Suc h"]) auto
  qed
qed

section \<open>Linear probing\<close>

text \<open>The table has a power of two of positions and the mask selects one.\<close>

definition table_ok :: "KVStore \<Rightarrow> bool" where
  "table_ok s \<longleftrightarrow> (\<exists>b\<le>63. kv_hash_mask s = mask b \<and> unat (kv_table_size s) = 2 ^ b \<and> length (kv_table s) = 2 ^ b)"

definition ent_at :: "KVStore \<Rightarrow> nat \<Rightarrow> Entry" where
  "ent_at s j = kv_table s ! j"

definition home :: "u64 \<Rightarrow> KVStore \<Rightarrow> nat" where
  "home key s = unat (HashKey key AND kv_hash_mask s)"

definition probe :: "u64 \<Rightarrow> KVStore \<Rightarrow> nat \<Rightarrow> nat" where
  "probe key s d = (home key s + d) mod length (kv_table s)"

lemma table_okD:
  assumes "table_ok s"
  shows "0 < length (kv_table s)" and "unat (kv_table_size s) = length (kv_table s)"
    and "home key s < length (kv_table s)" and "unat ((i + 1) AND kv_hash_mask s) = (unat i + 1) mod length (kv_table s)"
proof -
  from assms obtain b where b: "b \<le> 63" "kv_hash_mask s = mask b" "unat (kv_table_size s) = 2 ^ b" "length (kv_table s) = 2 ^ b"
    by (auto simp: table_ok_def)
  then show "0 < length (kv_table s)" "unat (kv_table_size s) = length (kv_table s)" "home key s < length (kv_table s)"
    by (simp_all add: home_def and_mask_lt)
  have "(2 :: nat) ^ b dvd 2 ^ 64" using b(1) by (intro le_imp_power_dvd) simp
  then have "(unat i + 1) mod 2 ^ 64 mod 2 ^ b = (unat i + 1) mod 2 ^ b" by (rule mod_mod_cancel)
  then show "unat ((i + 1) AND kv_hash_mask s) = (unat i + 1) mod length (kv_table s)"
    using b(2,4) by (simp add: unat_eq_mod_mask unat_word_ariths)
qed

lemma probe_lt: "table_ok s \<Longrightarrow> probe key s d < length (kv_table s)"
  using table_okD(1) by (simp add: probe_def)

lemma probe_next:
  assumes "table_ok s" and "unat i = probe key s d"
  shows "unat ((i + 1) AND kv_hash_mask s) = probe key s (Suc d)"
  using table_okD(4) [OF assms(1), of i] assms(2) by (simp add: probe_def mod_Suc_eq)

lemma probe_start: "table_ok s \<Longrightarrow> unat (HashKey key AND kv_hash_mask s) = probe key s 0"
  using table_okD(3) [of s key] by (simp add: probe_def home_def)

lemma table_read_probe:
  "table_ok s \<Longrightarrow> unat i = probe key s d \<Longrightarrow> table_read i s = Inr (ent_at s (probe key s d))"
  by (simp add: table_read_def probe_lt ent_at_def)

definition holds_key :: "u64 \<Rightarrow> Entry \<Rightarrow> bool" where
  "holds_key key e \<longleftrightarrow> ent_occupied e \<and> ent_key e = key \<and> \<not> ent_deleted e"

lemma find_loop_spec:
  assumes "table_ok s" and "unat i = probe key s d"
  shows "(\<exists>j d'. find_loop n key i s = Inr (Some j) \<and> d \<le> d' \<and> d' < d + n \<and> unat j = probe key s d' \<and>
             holds_key key (ent_at s (probe key s d'))) \<or>
         find_loop n key i s = Inr None \<and>
           ((\<exists>d'. d \<le> d' \<and> d' < d + n \<and> \<not> ent_occupied (ent_at s (probe key s d')) \<and>
               (\<forall>x. d \<le> x \<and> x < d' \<longrightarrow> \<not> holds_key key (ent_at s (probe key s x)))) \<or>
            (\<forall>x. d \<le> x \<and> x < d + n \<longrightarrow> \<not> holds_key key (ent_at s (probe key s x))))"
  using assms(2)
proof (induction n arbitrary: i d)
  case 0
  then show ?case by auto
next
  case (Suc n)
  let ?e = "ent_at s (probe key s d)" and ?i = "(i + 1) AND kv_hash_mask s"
  have rd: "table_read i s = Inr ?e" using table_read_probe [OF assms(1) Suc.prems] .
  show ?case
  proof (cases "holds_key key ?e")
    case True
    then have "find_loop (Suc n) key i s = Inr (Some i)" using rd by (simp add: holds_key_def)
    with True Suc.prems show ?thesis by (intro disjI1 exI [of _ i] exI [of _ d]) simp
  next
    case hk: False
    show ?thesis
    proof (cases "ent_occupied ?e")
      case False
      then have "find_loop (Suc n) key i s = Inr None" using rd by simp
      with False show ?thesis by (intro disjI2 conjI disjI1 exI [of _ d]) auto
    next
      case True
      then have eq: "find_loop (Suc n) key i s = find_loop n key ?i s" using rd hk by (auto simp: holds_key_def)
      have skip: "(\<forall>x. d \<le> x \<and> x < k \<longrightarrow> \<not> holds_key key (ent_at s (probe key s x)))"
        if "\<forall>x. Suc d \<le> x \<and> x < k \<longrightarrow> \<not> holds_key key (ent_at s (probe key s x))" for k
        using that hk by (metis Suc_leI le_neq_implies_less)
      from Suc.IH [OF probe_next [OF assms(1) Suc.prems]] show ?thesis
      proof (elim disjE exE conjE)
        fix j d' assume "find_loop n key ?i s = Inr (Some j)" "Suc d \<le> d'" "d' < Suc d + n" "unat j = probe key s d'"
          "holds_key key (ent_at s (probe key s d'))"
        then show ?thesis unfolding eq by (intro disjI1 exI [of _ j] exI [of _ d']) simp
      next
        fix d' assume "find_loop n key ?i s = Inr None" "Suc d \<le> d'" "d' < Suc d + n"
          "\<not> ent_occupied (ent_at s (probe key s d'))" "\<forall>x. Suc d \<le> x \<and> x < d' \<longrightarrow> \<not> holds_key key (ent_at s (probe key s x))"
        then show ?thesis using skip [of d'] unfolding eq by (intro disjI2 conjI disjI1 exI [of _ d']) simp_all
      next
        assume "find_loop n key ?i s = Inr None"
          "\<forall>x. Suc d \<le> x \<and> x < Suc d + n \<longrightarrow> \<not> holds_key key (ent_at s (probe key s x))"
        then show ?thesis using skip [of "d + Suc n"] unfolding eq by (intro disjI2 conjI) simp_all
      qed
    qed
  qed
qed

text \<open>Every occupied position can be reached from its key's home without crossing a free one; keys occur once; nothing is deleted.\<close>

definition probing_ok :: "KVStore \<Rightarrow> bool" where
  "probing_ok s \<longleftrightarrow> table_ok s \<and>
     (\<forall>j<length (kv_table s). \<not> ent_deleted (ent_at s j)) \<and>
     (\<forall>j<length (kv_table s). ent_occupied (ent_at s j) \<longrightarrow>
        (\<exists>d<length (kv_table s). j = probe (ent_key (ent_at s j)) s d \<and>
           (\<forall>x<d. ent_occupied (ent_at s (probe (ent_key (ent_at s j)) s x))))) \<and>
     (\<forall>i<length (kv_table s). \<forall>j<length (kv_table s).
        ent_occupied (ent_at s i) \<and> ent_occupied (ent_at s j) \<and> ent_key (ent_at s i) = ent_key (ent_at s j) \<longrightarrow> i = j)"

lemma probe_surj:
  assumes "table_ok s" and "j < length (kv_table s)"
  shows "\<exists>d<length (kv_table s). j = probe key s d"
proof -
  let ?N = "length (kv_table s)"
  have h: "home key s < ?N" using table_okD [OF assms(1)] by simp
  let ?d = "(j + ?N - home key s) mod ?N"
  have "(home key s + ?d) mod ?N = (home key s + (j + ?N - home key s)) mod ?N" by (rule mod_add_right_eq)
  also have "home key s + (j + ?N - home key s) = j + ?N" using h by simp
  finally have "probe key s ?d = j" using assms(2) by (simp add: probe_def)
  moreover have "?d < ?N" using assms(2) by (intro mod_less_divisor) linarith
  ultimately show ?thesis by metis
qed

lemma FindEntry_present:
  assumes ok: "probing_ok s" and j: "j < length (kv_table s)" "holds_key key (ent_at s j)"
  shows "\<exists>i. FindEntry key s = Inr (Some i) \<and> unat i = j"
proof -
  have t: "table_ok s" using ok by (simp add: probing_ok_def)
  have key: "ent_occupied (ent_at s j)" "ent_key (ent_at s j) = key" using j(2) by (simp_all add: holds_key_def)
  from ok j(1) key obtain d where d: "d < length (kv_table s)" "j = probe key s d"
    "\<And>x. x < d \<Longrightarrow> ent_occupied (ent_at s (probe key s x))" unfolding probing_ok_def by blast
  from find_loop_spec [OF t probe_start [OF t], of "length (kv_table s)" key] show ?thesis
  proof (elim disjE exE conjE)
    fix i d' assume "find_loop (length (kv_table s)) key (HashKey key AND kv_hash_mask s) s = Inr (Some i)"
      "unat i = probe key s d'" "holds_key key (ent_at s (probe key s d'))"
    moreover from this have "probe key s d' = j"
      using ok j probe_lt [OF t, of key d'] unfolding probing_ok_def holds_key_def by blast
    ultimately show ?thesis by (simp add: FindEntry_def table_okD(2) [OF t])
  next
    fix d' assume "\<not> ent_occupied (ent_at s (probe key s d'))"
      and clear: "\<forall>x. 0 \<le> x \<and> x < d' \<longrightarrow> \<not> holds_key key (ent_at s (probe key s x))"
    then have "\<not> d' < d" "d' \<noteq> d" using d(2,3) key by blast+
    then have "d < d'" by simp
    then show ?thesis using clear d(2) j(2) by auto
  next
    assume "\<forall>x. 0 \<le> x \<and> x < 0 + length (kv_table s) \<longrightarrow> \<not> holds_key key (ent_at s (probe key s x))"
    then show ?thesis using d(1,2) j(2) by auto
  qed
qed

lemma FindEntry_absent:
  assumes ok: "probing_ok s" and none: "\<And>j. j < length (kv_table s) \<Longrightarrow> \<not> holds_key key (ent_at s j)"
  shows "FindEntry key s = Inr None"
proof -
  have t: "table_ok s" using ok by (simp add: probing_ok_def)
  show ?thesis
    using find_loop_spec [OF t probe_start [OF t], of "length (kv_table s)" key] none probe_lt [OF t]
    by (auto simp: FindEntry_def table_okD(2) [OF t])
qed

text \<open>The first free position from the home of a key.\<close>

lemma free_loop_spec:
  assumes "table_ok s" and "\<forall>j<length (kv_table s). \<not> ent_deleted (ent_at s j)" and "unat i = probe key s d"
  shows "(\<exists>j d'. free_loop n i s = Inr (Some j) \<and> d \<le> d' \<and> d' < d + n \<and> unat j = probe key s d' \<and>
             \<not> ent_occupied (ent_at s (probe key s d')) \<and> (\<forall>x. d \<le> x \<and> x < d' \<longrightarrow> ent_occupied (ent_at s (probe key s x)))) \<or>
         free_loop n i s = Inr None \<and> (\<forall>x. d \<le> x \<and> x < d + n \<longrightarrow> ent_occupied (ent_at s (probe key s x)))"
  using assms(3)
proof (induction n arbitrary: i d)
  case 0
  then show ?case by auto
next
  case (Suc n)
  let ?e = "ent_at s (probe key s d)" and ?i = "(i + 1) AND kv_hash_mask s"
  have rd: "table_read i s = Inr ?e" using table_read_probe [OF assms(1) Suc.prems] .
  have nd: "\<not> ent_deleted ?e" using assms(2) probe_lt [OF assms(1)] by blast
  show ?case
  proof (cases "ent_occupied ?e")
    case False
    then have "free_loop (Suc n) i s = Inr (Some i)" using rd by simp
    with False Suc.prems show ?thesis by (intro disjI1 exI [of _ i] exI [of _ d]) auto
  next
    case True
    then have eq: "free_loop (Suc n) i s = free_loop n ?i s" using rd nd by simp
    have skip: "(\<forall>x. d \<le> x \<and> x < k \<longrightarrow> ent_occupied (ent_at s (probe key s x)))"
      if "\<forall>x. Suc d \<le> x \<and> x < k \<longrightarrow> ent_occupied (ent_at s (probe key s x))" for k
      using that True by (metis Suc_leI le_neq_implies_less)
    from Suc.IH [OF probe_next [OF assms(1) Suc.prems]] show ?thesis
    proof (elim disjE exE conjE)
      fix j d' assume "free_loop n ?i s = Inr (Some j)" "Suc d \<le> d'" "d' < Suc d + n" "unat j = probe key s d'"
        "\<not> ent_occupied (ent_at s (probe key s d'))" "\<forall>x. Suc d \<le> x \<and> x < d' \<longrightarrow> ent_occupied (ent_at s (probe key s x))"
      then show ?thesis using skip [of d'] unfolding eq by (intro disjI1 exI [of _ j] exI [of _ d']) simp
    next
      assume "free_loop n ?i s = Inr None" "\<forall>x. Suc d \<le> x \<and> x < Suc d + n \<longrightarrow> ent_occupied (ent_at s (probe key s x))"
      then show ?thesis using skip [of "d + Suc n"] unfolding eq by (intro disjI2 conjI) simp_all
    qed
  qed
qed

lemma FindFree_finds:
  assumes ok: "probing_ok s" and free: "j < length (kv_table s)" "\<not> ent_occupied (ent_at s j)"
  shows "\<exists>i d. FindFree key s = Inr (Some i) \<and> d < length (kv_table s) \<and> unat i = probe key s d \<and>
           \<not> ent_occupied (ent_at s (probe key s d)) \<and> (\<forall>x<d. ent_occupied (ent_at s (probe key s x)))"
proof -
  have t: "table_ok s" and nd: "\<forall>j<length (kv_table s). \<not> ent_deleted (ent_at s j)" using ok by (simp_all add: probing_ok_def)
  from probe_surj [OF t free(1)] obtain d where d: "d < length (kv_table s)" "j = probe key s d" by blast
  with free(2) have nall: "\<not> (\<forall>x. 0 \<le> x \<and> x < 0 + length (kv_table s) \<longrightarrow> ent_occupied (ent_at s (probe key s x)))" by auto
  from free_loop_spec [OF t nd probe_start [OF t], of "length (kv_table s)" key] nall show ?thesis
    unfolding FindFree_def table_okD(2) [OF t] by auto
qed

lemma probing_ok_update:
  assumes ok: "probing_ok s" and same: "ent_key e = ent_key (ent_at s j)" "ent_occupied e" "\<not> ent_deleted e" "ent_occupied (ent_at s j)"
    and s': "kv_table s' = (kv_table s)[j := e]" "kv_hash_mask s' = kv_hash_mask s" "kv_table_size s' = kv_table_size s"
    and j: "j < length (kv_table s)"
  shows "probing_ok s'"
proof -
  have at: "ent_at s' i = (if i = j then e else ent_at s i)" if "i < length (kv_table s)" for i
    using that by (simp add: ent_at_def s')
  have probe: "probe k s' d = probe k s d" for k d by (simp add: probe_def home_def s')
  have t: "table_ok s" "table_ok s'" using ok by (simp_all add: probing_ok_def table_ok_def s')
  have fields: "ent_occupied (ent_at s' i) = ent_occupied (ent_at s i)" "ent_key (ent_at s' i) = ent_key (ent_at s i)"
    if "i < length (kv_table s)" for i using that same by (simp_all add: at)
  have "ent_occupied (ent_at s' (probe k s d)) = ent_occupied (ent_at s (probe k s d))" for k d
    using fields(1) [OF probe_lt [OF t(1)]] .
  then show ?thesis using ok t(2) same at fields unfolding probing_ok_def probe by (simp add: s')
qed

lemma probing_ok_insert:
  assumes ok: "probing_ok s" and d: "d < length (kv_table s)" "j = probe key s d" "\<not> ent_occupied (ent_at s j)"
      "\<And>x. x < d \<Longrightarrow> ent_occupied (ent_at s (probe key s x))"
    and e: "ent_key e = key" "ent_occupied e" "\<not> ent_deleted e"
    and new: "\<And>i. i < length (kv_table s) \<Longrightarrow> \<not> holds_key key (ent_at s i)"
    and s': "kv_table s' = (kv_table s)[j := e]" "kv_hash_mask s' = kv_hash_mask s" "kv_table_size s' = kv_table_size s"
  shows "probing_ok s'"
proof -
  let ?N = "length (kv_table s)"
  have t: "table_ok s" "table_ok s'" using ok by (simp_all add: probing_ok_def table_ok_def s')
  have jlt: "j < ?N" using probe_lt [OF t(1)] d(2) by simp
  have at: "ent_at s' i = (if i = j then e else ent_at s i)" if "i < ?N" for i using that by (simp add: ent_at_def s')
  have probe: "probe k s' d = probe k s d" for k d by (simp add: probe_def home_def s')
  have len: "length (kv_table s') = ?N" by (simp add: s')
  have grow: "ent_occupied (ent_at s (probe k s x)) \<Longrightarrow> ent_occupied (ent_at s' (probe k s x))" for k x
    using at [OF probe_lt [OF t(1)]] e(2) by simp
  show ?thesis
    unfolding probing_ok_def len probe
  proof (intro conjI allI impI)
    fix i assume i: "i < ?N"
    show "\<not> ent_deleted (ent_at s' i)" using ok i e(3) at unfolding probing_ok_def by simp
    assume occ: "ent_occupied (ent_at s' i)"
    show "\<exists>d<?N. i = probe (ent_key (ent_at s' i)) s d \<and> (\<forall>x<d. ent_occupied (ent_at s' (probe (ent_key (ent_at s' i)) s x)))"
    proof (cases "i = j")
      case True
      then have "ent_key (ent_at s' i) = key" using at [OF i] e(1) by simp
      then show ?thesis using True d grow by (intro exI [of _ d]) auto
    next
      case False
      then have same: "ent_at s' i = ent_at s i" using at [OF i] by simp
      with occ ok i obtain d' where "d' < ?N" "i = probe (ent_key (ent_at s i)) s d'"
        "\<And>x. x < d' \<Longrightarrow> ent_occupied (ent_at s (probe (ent_key (ent_at s i)) s x))" unfolding probing_ok_def by metis
      then show ?thesis unfolding same using grow by (intro exI [of _ d']) simp
    qed
  next
    fix i k assume ik: "i < ?N" "k < ?N"
      and "ent_occupied (ent_at s' i) \<and> ent_occupied (ent_at s' k) \<and> ent_key (ent_at s' i) = ent_key (ent_at s' k)"
    moreover have "\<not> (ent_occupied (ent_at s m) \<and> ent_key (ent_at s m) = key)" if "m < ?N" for m
      using new [OF that] ok that by (auto simp: holds_key_def probing_ok_def)
    ultimately show "i = k" using ok at ik e(1) unfolding probing_ok_def by (auto split: if_splits)
  qed (rule t(2))
qed

section \<open>The store as a map\<close>

definition occ :: "KVStore \<Rightarrow> nat set" where
  "occ s = {j. j < length (kv_table s) \<and> ent_occupied (ent_at s j)}"

definition slot_base :: "KVStore \<Rightarrow> u32 \<Rightarrow> nat" where
  "slot_base s i = unat i * unat (slot_size (kv_config s))"

definition value_of :: "KVStore \<Rightarrow> Entry \<Rightarrow> u8 list" where
  "value_of s e = map (\<lambda>i. kv_storage s (slot_base s (ent_slot_index e) + i)) [0..<unat (ent_value_size e)]"

text \<open>What a lookup of the key finds.\<close>

definition kv_abs :: "KVStore \<Rightarrow> u64 \<Rightarrow> u8 list option" where
  "kv_abs s key = (case FindEntry key s of Inr (Some i) \<Rightarrow> Some (value_of s (ent_at s (unat i))) | _ \<Rightarrow> None)"

definition kv_inv :: "KVStore \<Rightarrow> bool" where
  "kv_inv s \<longleftrightarrow> probing_ok s \<and>
     65536 \<le> unat (slot_size (kv_config s)) \<and>
     unat (kv_num_slots s) * unat (slot_size (kv_config s)) \<le> unat (total_storage_size (kv_config s)) \<and>
     unat (kv_num_slots s) \<le> length (kv_table s) \<and>
     distinct (kv_free_slots s) \<and> (\<forall>f\<in>set (kv_free_slots s). unat f < unat (kv_num_slots s)) \<and>
     (\<forall>j\<in>occ s. unat (ent_slot_index (ent_at s j)) < unat (kv_num_slots s) \<and>
        ent_slot_index (ent_at s j) \<notin> set (kv_free_slots s) \<and> IsValidValueSize (ent_value_size (ent_at s j))) \<and>
     inj_on (\<lambda>j. ent_slot_index (ent_at s j)) (occ s) \<and>
     card (occ s) + length (kv_free_slots s) = unat (kv_num_slots s) \<and>
     unat (kv_used_slots s) = card (occ s) \<and>
     kv_used_bytes s = (\<Sum>j\<in>occ s. ucast (ent_value_size (ent_at s j)))"

lemma finite_occ [simp]: "finite (occ s)"
  by (simp add: occ_def)

lemma holds_key_occ: "probing_ok s \<Longrightarrow> j < length (kv_table s) \<Longrightarrow>
    holds_key key (ent_at s j) \<longleftrightarrow> j \<in> occ s \<and> ent_key (ent_at s j) = key"
  by (auto simp: holds_key_def occ_def probing_ok_def)

lemma kv_abs_present:
  assumes "probing_ok s" and "j \<in> occ s"
  shows "kv_abs s (ent_key (ent_at s j)) = Some (value_of s (ent_at s j))"
proof -
  have j: "j < length (kv_table s)" using assms(2) by (simp add: occ_def)
  with assms have "holds_key (ent_key (ent_at s j)) (ent_at s j)" by (simp add: holds_key_occ)
  from FindEntry_present [OF assms(1) j this] show ?thesis by (auto simp: kv_abs_def)
qed

lemma kv_abs_absent:
  assumes "probing_ok s" and "key \<notin> (\<lambda>j. ent_key (ent_at s j)) ` occ s"
  shows "kv_abs s key = None" and "FindEntry key s = Inr None"
proof -
  have "\<not> holds_key key (ent_at s j)" if "j < length (kv_table s)" for j
    using assms that by (auto simp: holds_key_occ)
  from FindEntry_absent [OF assms(1) this] show "FindEntry key s = Inr None" by blast
  then show "kv_abs s key = None" by (simp add: kv_abs_def)
qed

lemma FindEntry_occ:
  assumes "probing_ok s"
  shows "(\<exists>i. FindEntry key s = Inr (Some i) \<and> unat i \<in> occ s \<and> ent_key (ent_at s (unat i)) = key) \<or>
         FindEntry key s = Inr None \<and> key \<notin> (\<lambda>j. ent_key (ent_at s j)) ` occ s"
proof (cases "key \<in> (\<lambda>j. ent_key (ent_at s j)) ` occ s")
  case True
  then obtain j where j: "j \<in> occ s" "ent_key (ent_at s j) = key" by auto
  then have lt: "j < length (kv_table s)" by (simp add: occ_def)
  with j assms have "holds_key key (ent_at s j)" by (simp add: holds_key_occ)
  from FindEntry_present [OF assms lt this] j show ?thesis by auto
qed (use kv_abs_absent(2) [OF assms] in blast)

lemma inj_on_keys: "probing_ok s \<Longrightarrow> inj_on (\<lambda>j. ent_key (ent_at s j)) (occ s)"
  unfolding inj_on_def occ_def probing_ok_def by auto

lemma dom_kv_abs: "probing_ok s \<Longrightarrow> dom (kv_abs s) = (\<lambda>j. ent_key (ent_at s j)) ` occ s"
proof (intro set_eqI iffI)
  fix k assume ok: "probing_ok s" and "k \<in> dom (kv_abs s)"
  then show "k \<in> (\<lambda>j. ent_key (ent_at s j)) ` occ s" using kv_abs_absent(1) [OF ok] by (metis domIff)
next
  fix k assume ok: "probing_ok s" and "k \<in> (\<lambda>j. ent_key (ent_at s j)) ` occ s"
  then show "k \<in> dom (kv_abs s)" using kv_abs_present [OF ok] by auto
qed

lemma card_dom_kv_abs: "probing_ok s \<Longrightarrow> card (dom (kv_abs s)) = card (occ s)"
  by (simp add: dom_kv_abs card_image inj_on_keys)

lemma GetSlotPtr_base:
  assumes "kv_inv s" and "unat i < unat (kv_num_slots s)"
  shows "unat (GetSlotPtr i s) = slot_base s i" and "slot_base s i + unat (slot_size (kv_config s)) \<le> unat (total_storage_size (kv_config s))"
proof -
  have "Suc (unat i) * unat (slot_size (kv_config s)) \<le> unat (kv_num_slots s) * unat (slot_size (kv_config s))"
    using assms(2) by (intro mult_right_mono) simp_all
  then show le: "slot_base s i + unat (slot_size (kv_config s)) \<le> unat (total_storage_size (kv_config s))"
    using assms(1) by (simp add: slot_base_def kv_inv_def)
  then have "slot_base s i < 2 ^ 64" using unat_u64_lt [of "total_storage_size (kv_config s)"] assms(1)
    by (simp add: kv_inv_def)
  then show "unat (GetSlotPtr i s) = slot_base s i"
    using unat_u32_lt [of i] by (simp add: GetSlotPtr_def slot_base_def unat_word_ariths unat_ucast_mod)
qed

lemma valid_size_bounds: "IsValidValueSize sz \<Longrightarrow> unat sz \<le> 65536"
  by (simp add: IsValidValueSize_def kv_sizes word_le_nat_alt)

text \<open>Writing a value into one slot leaves the values in the others as they are.\<close>

definition stored :: "nat \<Rightarrow> u8 list \<Rightarrow> (nat \<Rightarrow> u8) \<Rightarrow> nat \<Rightarrow> u8" where
  "stored at bs mem = (\<lambda>i. if at \<le> i \<and> i < at + length bs then bs ! (i - at) else mem i)"

lemma pool_write_slot:
  assumes "kv_inv s" and "unat i < unat (kv_num_slots s)" and "length bs \<le> 65536"
  shows "pool_write (slot_base s i) bs s = Inr (s\<lparr>kv_storage := stored (slot_base s i) bs (kv_storage s)\<rparr>)"
  using GetSlotPtr_base(2) [OF assms(1,2)] assms(1,3) by (simp add: pool_write_def stored_def kv_inv_def)

lemma slots_disjoint:
  fixes a b S x y :: nat
  assumes "a \<noteq> b" and "x < S" and "y < S"
  shows "a * S + x \<noteq> b * S + y"
proof
  assume "a * S + x = b * S + y"
  then have "(a * S + x) div S = (b * S + y) div S" by simp
  with assms show False by simp
qed

lemma value_of_stored:
  assumes s': "kv_storage s' = stored (slot_base s i) bs (kv_storage s)" "kv_config s' = kv_config s"
    and S: "65536 \<le> unat (slot_size (kv_config s))" "length bs \<le> 65536" "unat (ent_value_size e) \<le> 65536"
  shows "ent_slot_index e \<noteq> i \<Longrightarrow> value_of s' e = value_of s e"
    and "ent_slot_index e = i \<Longrightarrow> unat (ent_value_size e) = length bs \<Longrightarrow> value_of s' e = bs"
proof -
  let ?S = "unat (slot_size (kv_config s))"
  assume ne: "ent_slot_index e \<noteq> i"
  have "stored (slot_base s i) bs (kv_storage s) (slot_base s (ent_slot_index e) + x) = kv_storage s (slot_base s (ent_slot_index e) + x)"
    if "x < unat (ent_value_size e)" for x
  proof -
    have "\<not> (slot_base s i \<le> slot_base s (ent_slot_index e) + x \<and> slot_base s (ent_slot_index e) + x < slot_base s i + length bs)"
    proof
      assume "slot_base s i \<le> slot_base s (ent_slot_index e) + x \<and> slot_base s (ent_slot_index e) + x < slot_base s i + length bs"
      then obtain y where "y < length bs" "slot_base s (ent_slot_index e) + x = slot_base s i + y"
        by (metis add_less_cancel_left le_Suc_ex)
      moreover have "unat (ent_slot_index e) \<noteq> unat i" using ne by (simp add: word_unat_eq_iff)
      ultimately show False
        using slots_disjoint [of "unat (ent_slot_index e)" "unat i" x ?S y] S that by (simp add: slot_base_def)
    qed
    then show ?thesis by (auto simp: stored_def)
  qed
  then show "value_of s' e = value_of s e" by (simp add: value_of_def s' slot_base_def)
next
  assume "ent_slot_index e = i" "unat (ent_value_size e) = length bs"
  then show "value_of s' e = bs" by (auto simp: value_of_def s' slot_base_def stored_def intro: nth_equalityI)
qed

lemma kv_abs_eqI:
  assumes ok: "probing_ok s" "probing_ok s'"
    and dom: "(\<lambda>j. ent_key (ent_at s' j)) ` occ s' = insert key ((\<lambda>j. ent_key (ent_at s j)) ` occ s)"
    and j0: "j0 \<in> occ s'" "ent_key (ent_at s' j0) = key" "value_of s' (ent_at s' j0) = v"
    and rest: "\<And>j. j \<in> occ s' \<Longrightarrow> j \<noteq> j0 \<Longrightarrow> j \<in> occ s \<and> ent_at s' j = ent_at s j \<and> value_of s' (ent_at s j) = value_of s (ent_at s j)"
  shows "kv_abs s' = (kv_abs s)(key \<mapsto> v)"
proof
  fix k
  show "kv_abs s' k = ((kv_abs s)(key \<mapsto> v)) k"
  proof (cases "k = key")
    case True
    with kv_abs_present [OF ok(2) j0(1)] j0(2,3) show ?thesis by simp
  next
    case False
    show ?thesis
    proof (cases "k \<in> (\<lambda>j. ent_key (ent_at s' j)) ` occ s'")
      case True
      then obtain j where j: "j \<in> occ s'" "ent_key (ent_at s' j) = k" by auto
      with False j0(2) have "j \<noteq> j0" by auto
      from rest [OF j(1) this] kv_abs_present [OF ok(2) j(1)] kv_abs_present [OF ok(1), of j] j(2) False
      show ?thesis by simp
    next
      case nin: False
      then have "k \<notin> (\<lambda>j. ent_key (ent_at s j)) ` occ s" using dom by auto
      with kv_abs_absent(1) [OF ok(2) nin] kv_abs_absent(1) [OF ok(1)] False show ?thesis by simp
    qed
  qed
qed

section \<open>Both insertions keep the invariant\<close>

lemma store_update:
  assumes inv: "kv_inv s" and j: "j \<in> occ s" and sz: "IsValidValueSize sz" "length bs = unat sz"
  defines "e \<equiv> ent_at s j"
  defines "s' \<equiv> s\<lparr>kv_storage := stored (slot_base s (ent_slot_index e)) bs (kv_storage s),
      kv_table := (kv_table s)[j := e\<lparr>ent_value_size := sz\<rparr>],
      kv_used_bytes := kv_used_bytes s - ucast (ent_value_size e) + ucast sz\<rparr>"
  shows "kv_inv s'" and "kv_abs s' = (kv_abs s)(ent_key e \<mapsto> bs)" and "kv_num_slots s' = kv_num_slots s"
proof -
  have lt: "j < length (kv_table s)" and oc: "ent_occupied e" using j by (simp_all add: occ_def e_def)
  have ok: "probing_ok s" using inv by (simp add: kv_inv_def)
  then have nd: "\<not> ent_deleted e" using lt by (simp add: probing_ok_def e_def)
  have at: "ent_at s' i = (if i = j then e\<lparr>ent_value_size := sz\<rparr> else ent_at s i)" if "i < length (kv_table s)" for i
    using that by (simp add: ent_at_def s'_def)
  have occ': "occ s' = occ s" using at oc by (auto simp: occ_def s'_def e_def split: if_splits)
  have at': "ent_at s' i = (if i = j then e\<lparr>ent_value_size := sz\<rparr> else ent_at s i)" if "i \<in> occ s" for i
    using that at by (simp add: occ_def)
  have ok': "probing_ok s'"
    by (rule probing_ok_update [OF ok _ _ _ _ _ _ _ lt, of "e\<lparr>ent_value_size := sz\<rparr>"]) (use oc nd in \<open>simp_all add: s'_def e_def\<close>)
  have sl: "ent_slot_index (ent_at s' i) = ent_slot_index (ent_at s i)" "ent_key (ent_at s' i) = ent_key (ent_at s i)"
    if "i \<in> occ s" for i using at' [OF that] by (simp_all add: e_def)
  have "(\<Sum>i\<in>occ s. ucast (ent_value_size (ent_at s' i)) :: u64) =
      (\<Sum>i\<in>occ s. ucast (ent_value_size (ent_at s i))) - ucast (ent_value_size e) + ucast sz"
  proof -
    have "(\<Sum>i\<in>occ s. ucast (ent_value_size (ent_at s' i)) :: u64) =
        ucast sz + (\<Sum>i\<in>occ s - {j}. ucast (ent_value_size (ent_at s i)))"
      using at' j by (subst sum.remove [OF finite_occ j]) (auto intro!: sum.cong)
    moreover have "(\<Sum>i\<in>occ s. ucast (ent_value_size (ent_at s i)) :: u64) =
        ucast (ent_value_size e) + (\<Sum>i\<in>occ s - {j}. ucast (ent_value_size (ent_at s i)))"
      unfolding e_def by (rule sum.remove [OF finite_occ j])
    ultimately show ?thesis by simp
  qed
  moreover have "inj_on (\<lambda>i. ent_slot_index (ent_at s' i)) (occ s)"
    using inv sl(1) unfolding kv_inv_def by (metis (no_types, lifting) inj_on_cong)
  moreover have "IsValidValueSize (ent_value_size (ent_at s' i))" if "i \<in> occ s" for i
    using inv that sz(1) at' by (auto simp: kv_inv_def)
  ultimately show "kv_inv s'"
    using inv ok' sl(1) unfolding kv_inv_def occ' by (simp add: s'_def)
  show "kv_num_slots s' = kv_num_slots s" by (simp add: s'_def)
  have S: "65536 \<le> unat (slot_size (kv_config s))" using inv by (simp add: kv_inv_def)
  have len: "length bs \<le> 65536" using sz valid_size_bounds by simp
  have small: "unat (ent_value_size (ent_at s i)) \<le> 65536" if "i \<in> occ s" for i
    using inv that valid_size_bounds by (auto simp: kv_inv_def)
  have st: "kv_storage s' = stored (slot_base s (ent_slot_index e)) bs (kv_storage s)" "kv_config s' = kv_config s"
    by (simp_all add: s'_def)
  note vs = value_of_stored [OF st S len]
  show "kv_abs s' = (kv_abs s)(ent_key e \<mapsto> bs)"
  proof (rule kv_abs_eqI [OF ok ok'])
    show "(\<lambda>j. ent_key (ent_at s' j)) ` occ s' = insert (ent_key e) ((\<lambda>j. ent_key (ent_at s j)) ` occ s)"
      using sl(2) j by (auto simp: occ' e_def)
    show "j \<in> occ s'" "ent_key (ent_at s' j) = ent_key e" using j sl(2) by (simp_all add: occ' e_def)
    show "value_of s' (ent_at s' j) = bs"
      using vs(2) [of "ent_at s' j"] sz len at' [OF j] by simp
    fix i assume i: "i \<in> occ s'" "i \<noteq> j"
    then have "ent_slot_index (ent_at s i) \<noteq> ent_slot_index e"
      using inv j unfolding kv_inv_def e_def inj_on_def occ' by blast
    then show "i \<in> occ s \<and> ent_at s' i = ent_at s i \<and> value_of s' (ent_at s i) = value_of s (ent_at s i)"
      using vs(1) [of "ent_at s i"] i at' small by (simp add: occ')
  qed
qed

lemma store_insert:
  assumes inv: "kv_inv s" and key: "key \<notin> (\<lambda>j. ent_key (ent_at s j)) ` occ s" and free: "kv_free_slots s \<noteq> []"
    and d: "d < length (kv_table s)" "\<not> ent_occupied (ent_at s (probe key s d))"
      "\<And>x. x < d \<Longrightarrow> ent_occupied (ent_at s (probe key s x))"
    and sz: "IsValidValueSize sz" "length bs = unat sz"
  defines "j \<equiv> probe key s d" and "f \<equiv> last (kv_free_slots s)"
  defines "e \<equiv> \<lparr>ent_key = key, ent_slot_index = f, ent_value_size = sz, ent_occupied = True, ent_deleted = False\<rparr>"
  defines "s' \<equiv> s\<lparr>kv_storage := stored (slot_base s f) bs (kv_storage s),
      kv_free_slots := butlast (kv_free_slots s), kv_table := (kv_table s)[j := e], kv_used_slots := kv_used_slots s + 1,
      kv_used_bytes := kv_used_bytes s + ucast sz\<rparr>"
  shows "kv_inv s'" and "kv_abs s' = (kv_abs s)(key \<mapsto> bs)" and "kv_num_slots s' = kv_num_slots s"
proof -
  have ok: "probing_ok s" using inv by (simp add: kv_inv_def)
  then have t: "table_ok s" by (simp add: probing_ok_def)
  have lt: "j < length (kv_table s)" using probe_lt [OF t] by (simp add: j_def)
  have nj: "j \<notin> occ s" using d(2) by (simp add: occ_def j_def)
  have at: "ent_at s' i = (if i = j then e else ent_at s i)" if "i < length (kv_table s)" for i
    using that by (simp add: ent_at_def s'_def)
  have occ': "occ s' = insert j (occ s)" using at lt by (auto simp: occ_def s'_def e_def split: if_splits)
  have at': "ent_at s' i = ent_at s i" "i \<noteq> j" if "i \<in> occ s" for i using that at nj by (auto simp: occ_def)
  have atj: "ent_at s' j = e" using at [OF lt] by simp
  have new: "\<not> holds_key key (ent_at s i)" if "i < length (kv_table s)" for i
    using key that ok by (auto simp: holds_key_occ)
  have ok': "probing_ok s'"
    by (rule probing_ok_insert [OF ok d(1) j_def [THEN meta_eq_to_obj_eq] _ _ _ _ _ new, of e]) (use d in \<open>simp_all add: s'_def e_def j_def\<close>)
  have pop: "set (butlast (kv_free_slots s)) = set (kv_free_slots s) - {f}" "distinct (butlast (kv_free_slots s))"
    using stack_pop [OF free] inv by (simp_all add: kv_inv_def f_def)
  have f: "f \<in> set (kv_free_slots s)" using free by (simp add: f_def)
  have fs: "ent_slot_index (ent_at s i) \<noteq> f" if "i \<in> occ s" for i using inv that f by (auto simp: kv_inv_def)
  have "Suc (card (occ s)) \<le> unat (kv_num_slots s)" using inv free by (cases "kv_free_slots s") (simp_all add: kv_inv_def)
  then have "Suc (card (occ s)) < 2 ^ 64" using unat_u64_lt [of "kv_num_slots s"] by simp
  then have "unat (kv_used_slots s + 1) = Suc (card (occ s))"
    using inv by (simp add: kv_inv_def unat_word_ariths)
  moreover have "card (insert j (occ s)) + length (butlast (kv_free_slots s)) = unat (kv_num_slots s)"
    using inv nj free by (cases "kv_free_slots s" rule: rev_cases) (simp_all add: kv_inv_def)
  moreover have "(\<Sum>i\<in>insert j (occ s). ucast (ent_value_size (ent_at s' i)) :: u64) = kv_used_bytes s + ucast sz"
    using inv nj atj at'(1) by (simp add: kv_inv_def e_def add.commute)
  moreover have "inj_on (\<lambda>i. ent_slot_index (ent_at s' i)) (insert j (occ s))"
    using inv at' atj fs nj by (auto simp: kv_inv_def inj_on_def e_def)
  moreover have "\<forall>i\<in>insert j (occ s). unat (ent_slot_index (ent_at s' i)) < unat (kv_num_slots s) \<and>
      ent_slot_index (ent_at s' i) \<notin> set (butlast (kv_free_slots s)) \<and> IsValidValueSize (ent_value_size (ent_at s' i))"
    using inv at' atj f sz(1) pop(1) by (auto simp: kv_inv_def e_def)
  ultimately show "kv_inv s'"
    using inv ok' pop nj unfolding kv_inv_def occ' by (simp add: s'_def)
  show "kv_num_slots s' = kv_num_slots s" by (simp add: s'_def)
  have S: "65536 \<le> unat (slot_size (kv_config s))" using inv by (simp add: kv_inv_def)
  have len: "length bs \<le> 65536" using sz valid_size_bounds by simp
  have small: "unat (ent_value_size (ent_at s i)) \<le> 65536" if "i \<in> occ s" for i
    using inv that valid_size_bounds by (auto simp: kv_inv_def)
  have st: "kv_storage s' = stored (slot_base s f) bs (kv_storage s)" "kv_config s' = kv_config s"
    by (simp_all add: s'_def)
  note vs = value_of_stored [OF st S len]
  show "kv_abs s' = (kv_abs s)(key \<mapsto> bs)"
  proof (rule kv_abs_eqI [OF ok ok'])
    show "(\<lambda>j. ent_key (ent_at s' j)) ` occ s' = insert key ((\<lambda>j. ent_key (ent_at s j)) ` occ s)"
      using at' atj by (auto simp: occ' e_def)
    show "j \<in> occ s'" "ent_key (ent_at s' j) = key" using atj by (simp_all add: occ' e_def)
    show "value_of s' (ent_at s' j) = bs" using vs(2) [of e] sz len by (simp add: atj) (simp add: e_def)
    fix i assume i: "i \<in> occ s'" "i \<noteq> j"
    then have i': "i \<in> occ s" by (simp add: occ')
    then show "i \<in> occ s \<and> ent_at s' i = ent_at s i \<and> value_of s' (ent_at s i) = value_of s (ent_at s i)"
      using vs(1) [of "ent_at s i"] at' [OF i'] small [OF i'] fs [OF i'] i' by simp
  qed
qed

section \<open>What the operations do to the map\<close>

lemma IsValidValueSize_iff: "IsValidValueSize sz \<longleftrightarrow> 4096 \<le> unat sz \<and> unat sz \<le> 65536 \<and> 4096 dvd unat sz"
  by (auto simp: IsValidValueSize_def kv_sizes word_le_nat_alt word_unat_eq_iff unat_mod)

text \<open>
  The abstract store: a finite map with a capacity. A full store refuses every insertion, also the
  update of a key it holds.
\<close>

definition kv_spec_put :: "nat \<Rightarrow> u64 \<Rightarrow> u8 list \<Rightarrow> (u64 \<Rightarrow> u8 list option) \<Rightarrow> KvStatus \<times> (u64 \<Rightarrow> u8 list option)" where
  "kv_spec_put cap key v m =
     (if \<not> (4096 \<le> length v \<and> length v \<le> 65536 \<and> 4096 dvd length v) then (KV_INVALID_REQUEST, m)
      else if cap \<le> card (dom m) then (KV_NO_SPACE, m)
      else (KV_OK, m(key \<mapsto> v)))"

definition kv_spec_get :: "u64 \<Rightarrow> nat \<Rightarrow> (u64 \<Rightarrow> u8 list option) \<Rightarrow> KvStatus \<times> u8 list" where
  "kv_spec_get key room m =
     (case m key of None \<Rightarrow> (KV_NOT_FOUND, [])
      | Some v \<Rightarrow> if room < length v then (KV_INVALID_REQUEST, []) else (KV_OK, v))"

lemma free_iff_room:
  assumes "kv_inv s"
  shows "kv_free_slots s = [] \<longleftrightarrow> unat (kv_num_slots s) \<le> card (dom (kv_abs s))"
proof -
  have "probing_ok s" "card (occ s) + length (kv_free_slots s) = unat (kv_num_slots s)" using assms by (simp_all add: kv_inv_def)
  then show ?thesis by (simp add: card_dom_kv_abs flip: length_0_conv) linarith
qed

text \<open>A store with room finds a free position for a key it does not hold.\<close>

lemma FindFree_room:
  assumes inv: "kv_inv s" and free: "kv_free_slots s \<noteq> []"
  shows "\<exists>i d. FindFree key s = Inr (Some i) \<and> unat i = probe key s d \<and> d < length (kv_table s) \<and>
     \<not> ent_occupied (ent_at s (probe key s d)) \<and> (\<forall>x<d. ent_occupied (ent_at s (probe key s x)))"
proof -
  have "card (occ s) < length (kv_table s)"
    using inv free by (cases "kv_free_slots s") (simp_all add: kv_inv_def)
  then have "\<exists>j<length (kv_table s). \<not> ent_occupied (ent_at s j)"
  proof (rule contrapos_pp)
    assume "\<not> (\<exists>j<length (kv_table s). \<not> ent_occupied (ent_at s j))"
    then have "occ s = {..<length (kv_table s)}" by (auto simp: occ_def)
    then show "\<not> card (occ s) < length (kv_table s)" by simp
  qed
  then show ?thesis using FindFree_finds [of s] inv unfolding kv_inv_def by metis
qed

lemma Put_refines:
  assumes inv: "kv_inv s" and len: "length data = unat sz"
  shows "\<exists>st s'. Put key data sz s = Inr (st, s') \<and> kv_inv s' \<and> kv_num_slots s' = kv_num_slots s \<and>
    (st, kv_abs s') = kv_spec_put (unat (kv_num_slots s)) key data (kv_abs s)"
proof -
  have ok: "probing_ok s" using inv by (simp add: kv_inv_def)
  have valid: "IsValidValueSize sz \<longleftrightarrow> 4096 \<le> length data \<and> length data \<le> 65536 \<and> 4096 dvd length data"
    by (simp add: IsValidValueSize_iff len)
  show ?thesis
  proof (cases "IsValidValueSize sz \<and> kv_free_slots s \<noteq> []")
    case False
    then show ?thesis using inv valid free_iff_room [OF inv] by (auto simp: Put_def kv_spec_put_def)
  next
    case True
    then have sz: "IsValidValueSize sz" and free: "kv_free_slots s \<noteq> []" by simp_all
    have spec: "kv_spec_put (unat (kv_num_slots s)) key data (kv_abs s) = (KV_OK, (kv_abs s)(key \<mapsto> data))"
      using valid sz free free_iff_room [OF inv] by (simp add: kv_spec_put_def)
    have small: "length data \<le> 65536" using valid sz by simp
    show ?thesis
    proof (cases "key \<in> (\<lambda>j. ent_key (ent_at s j)) ` occ s")
      case True
      then obtain j i where j: "j \<in> occ s" "ent_key (ent_at s j) = key" "FindEntry key s = Inr (Some i)" "unat i = j"
        using FindEntry_occ [OF ok] by blast
      have n: "unat (ent_slot_index (ent_at s j)) < unat (kv_num_slots s)" using inv j(1) by (simp add: kv_inv_def)
      have at: "kv_table s ! j = ent_at s j" by (simp add: ent_at_def)
      note upd = store_update [OF inv j(1) sz len]
      show ?thesis
        using upd spec by (simp add: Put_def sz free j(3) at len GetSlotPtr_base(1) [OF inv n]
            pool_write_slot [OF inv n small] j(2,4) Let_def)
    next
      case False
      have fe: "FindEntry key s = Inr None" using kv_abs_absent(2) [OF ok False] .
      obtain i d where d: "FindFree key s = Inr (Some i)" "unat i = probe key s d" "d < length (kv_table s)"
        "\<not> ent_occupied (ent_at s (probe key s d))" "\<And>x. x < d \<Longrightarrow> ent_occupied (ent_at s (probe key s x))"
        using FindFree_room [OF inv free] by blast
      have n: "unat (last (kv_free_slots s)) < unat (kv_num_slots s)" using inv free by (simp add: kv_inv_def)
      note ins = store_insert [OF inv False free d(3,4,5) sz len]
      have gp: "GetSlotPtr f (s\<lparr>kv_free_slots := a, kv_table := b, kv_used_slots := c\<rparr>) = GetSlotPtr f s" for f a b c
        by (simp add: GetSlotPtr_def)
      have pw: "pool_write p bs (s\<lparr>kv_free_slots := a, kv_table := b, kv_used_slots := c\<rparr>) =
          bind_chk (pool_write p bs s) (\<lambda>s1. Inr (s1\<lparr>kv_free_slots := a, kv_table := b, kv_used_slots := c\<rparr>))" for p bs a b c
        by (simp add: pool_write_def cong: if_cong)
      show ?thesis
        using ins spec by (simp add: Put_def sz free fe d(1,2) len insert_entry_def gp pw GetSlotPtr_base(1) [OF inv n]
            pool_write_slot [OF inv n small] Let_def)
    qed
  qed
qed

lemma Get_refines:
  assumes inv: "kv_inv s"
  shows "Get key room s = Inr (kv_spec_get key (unat room) (kv_abs s))"
proof -
  have ok: "probing_ok s" using inv by (simp add: kv_inv_def)
  show ?thesis
  proof (cases "key \<in> (\<lambda>j. ent_key (ent_at s j)) ` occ s")
    case True
    then obtain j i where j: "j \<in> occ s" "ent_key (ent_at s j) = key" "FindEntry key s = Inr (Some i)" "unat i = j"
      using FindEntry_occ [OF ok] by blast
    have n: "unat (ent_slot_index (ent_at s j)) < unat (kv_num_slots s)"
      and v: "unat (ent_value_size (ent_at s j)) \<le> 65536" using inv j(1) valid_size_bounds by (simp_all add: kv_inv_def)
    have at: "kv_table s ! j = ent_at s j" by (simp add: ent_at_def)
    have ab: "kv_abs s key = Some (value_of s (ent_at s j))" using kv_abs_present [OF ok j(1)] j(2) by simp
    have "pool_read (slot_base s (ent_slot_index (ent_at s j))) (unat (ent_value_size (ent_at s j))) s = Inr (value_of s (ent_at s j))"
      using GetSlotPtr_base(2) [OF inv n] v inv by (simp add: pool_read_def value_of_def kv_inv_def)
    moreover have "length (value_of s (ent_at s j)) = unat (ent_value_size (ent_at s j))" by (simp add: value_of_def)
    ultimately show ?thesis
      by (simp add: Get_def j(3,4) at ab kv_spec_get_def GetSlotPtr_base(1) [OF inv n] word_less_nat_alt Let_def)
  next
    case False
    then show ?thesis
      using kv_abs_absent [OF ok False] by (simp add: Get_def kv_spec_get_def)
  qed
qed

text \<open>Copying the segments one after the other is copying their concatenation.\<close>

lemma pool_write_stored: "pool_write p bs s =
    (if p + length bs \<le> unat (total_storage_size (kv_config s)) then Inr (s\<lparr>kv_storage := stored p bs (kv_storage s)\<rparr>)
     else Inl Out_Of_Bounds)"
  by (simp add: pool_write_def stored_def)

lemma copy_segments_concat: "copy_segments p segs s =
    (if segs = [] then Inr s else pool_write p (concat segs) s)"
proof (induction segs arbitrary: p s)
  case (Cons b segs)
  have st: "stored (p + length b) c (stored p b m) = stored p (b @ c) m" for c m
    by (rule ext) (auto simp: stored_def nth_append)
  show ?case
  proof (cases "segs = []")
    case True
    then show ?thesis by (simp add: pool_write_stored)
  next
    case False
    then show ?thesis
      using Cons.IH [of "p + length b"] by (simp add: pool_write_stored st add.assoc)
  qed
qed simp

text \<open>
  A scattered insertion is the insertion of the concatenation, as long as the lengths of the
  segments add up to less than \<open>2 ^ 32\<close>.
\<close>

lemma PutSGL_eq_Put:
  assumes inv: "kv_inv s" and len: "length (concat segs) = unat sz"
  shows "PutSGL key segs sz s = Put key (concat segs) sz s"
proof -
  have ok: "probing_ok s" using inv by (simp add: kv_inv_def)
  have sum: "of_nat (sum_list (map length segs)) = sz" using len by (simp add: length_concat)
  show ?thesis
  proof (cases "IsValidValueSize sz \<and> kv_free_slots s \<noteq> []")
    case False
    then show ?thesis using sum by (auto simp: PutSGL_def Put_def IsValidValueSize_iff)
  next
    case True
    then have sz: "IsValidValueSize sz" and free: "kv_free_slots s \<noteq> []" by simp_all
    then have segs: "segs \<noteq> []" and small: "length (concat segs) \<le> 65536" using len by (auto simp: IsValidValueSize_iff)
    note simps = PutSGL_def Put_def sz free segs sum len copy_segments_concat Let_def
    show ?thesis
    proof (cases "key \<in> (\<lambda>j. ent_key (ent_at s j)) ` occ s")
      case True
      then obtain j i where j: "j \<in> occ s" "ent_key (ent_at s j) = key" "FindEntry key s = Inr (Some i)" "unat i = j"
        using FindEntry_occ [OF ok] by blast
      have n: "unat (ent_slot_index (ent_at s j)) < unat (kv_num_slots s)" using inv j(1) by (simp add: kv_inv_def)
      have at: "kv_table s ! j = ent_at s j" by (simp add: ent_at_def)
      have gp: "GetSlotPtr f (s\<lparr>kv_used_bytes := a, kv_table := b\<rparr>) = GetSlotPtr f s" for f a b
        by (simp add: GetSlotPtr_def)
      have pw: "pool_write p bs (s\<lparr>kv_used_bytes := a, kv_table := b\<rparr>) =
          bind_chk (pool_write p bs s) (\<lambda>s1. Inr (s1\<lparr>kv_used_bytes := a, kv_table := b\<rparr>))" for p bs a b
        by (simp add: pool_write_def cong: if_cong)
      show ?thesis
        by (simp add: simps j(3,4) at gp pw GetSlotPtr_base(1) [OF inv n] pool_write_slot [OF inv n small])
    next
      case False
      obtain i d where d: "FindFree key s = Inr (Some i)" "unat i = probe key s d" using FindFree_room [OF inv free] by blast
      have "FindEntry key s = Inr None" using kv_abs_absent(2) [OF ok False] .
      then show ?thesis by (simp add: simps d insert_entry_def)
    qed
  qed
qed

text \<open>When they add up to more, the size check does not see it and the copy leaves the storage pool.\<close>

lemma PutSGL_sum_wraps:
  assumes inv: "kv_inv s" and len: "length (concat segs) = unat sz + 2 ^ 32"
    and sz: "IsValidValueSize sz" "kv_free_slots s \<noteq> []" and room: "unat (total_storage_size (kv_config s)) \<le> 2 ^ 32"
  shows "PutSGL key segs sz s = Inl Out_Of_Bounds"
proof -
  have ok: "probing_ok s" using inv by (simp add: kv_inv_def)
  have segs: "segs \<noteq> []" using len by auto
  have sum: "of_nat (sum_list (map length segs)) = sz"
  proof -
    have "(of_nat (unat sz + 2 ^ 32) :: u32) = sz" by simp
    then show ?thesis using len by (simp add: length_concat)
  qed
  have "0 < unat sz" using sz(1) by (simp add: IsValidValueSize_iff)
  then have out: "pool_write p (concat segs) s' = Inl Out_Of_Bounds" if "kv_config s' = kv_config s" for p s'
    using room len that by (simp add: pool_write_def)
  from FindEntry_occ [OF ok, of key] show ?thesis
  proof (elim disjE exE conjE)
    fix i assume "FindEntry key s = Inr (Some i)"
    then show ?thesis by (simp add: PutSGL_def sz segs sum copy_segments_concat Let_def out)
  next
    assume "FindEntry key s = Inr None"
    moreover obtain i where "FindFree key s = Inr (Some i)" using FindFree_room [OF inv sz(2)] by blast
    ultimately show ?thesis by (simp add: PutSGL_def sz segs sum copy_segments_concat Let_def insert_entry_def out)
  qed
qed

section \<open>Initialisation\<close>

lemma Store_Initialize_ok:
  assumes slot: "65536 \<le> unat (slot_size c)" and total: "unat (slot_size c) \<le> unat (total_storage_size c)"
      "unat (total_storage_size c) < 2 ^ 48"
    and table: "sc_hash_table_size c = 0 \<or> 2 * (unat (total_storage_size c) div unat (slot_size c)) \<le> unat (sc_hash_table_size c) \<and>
        unat (sc_hash_table_size c) \<le> 2 ^ 63"
    and mem: "alloc (total_storage_size c) = Some m"
  shows "\<exists>s. Store_Initialize alloc c = Inr (Some s) \<and> kv_inv s \<and> kv_abs s = Map.empty \<and>
    unat (kv_num_slots s) = unat (total_storage_size c) div unat (slot_size c)"
proof -
  define n where "n = total_storage_size c div slot_size c"
  have un: "unat n = unat (total_storage_size c) div unat (slot_size c)" by (simp add: n_def unat_div)
  have n1: "1 \<le> unat n" using slot total(1) unfolding un by (simp add: div_greater_zero_iff Suc_le_eq)
  have "unat n \<le> unat (total_storage_size c) div 65536" unfolding un using slot by (intro div_le_mono2) simp_all
  with total(2) have n32: "unat n \<le> 2 ^ 32" by simp
  then have n2: "unat (n * 2) = 2 * unat n" by (simp add: unat_word_ariths)
  define h where "h = (if sc_hash_table_size c = 0 then n * 2 else sc_hash_table_size c)"
  have h: "2 * unat n \<le> unat h" "unat h \<le> 2 ^ 63" using table n2 n32 by (auto simp: h_def un)
  obtain b where b: "b \<le> 63" "unat (NextPowerOfTwo h) = 2 ^ b" "unat h \<le> 2 ^ b" "NextPowerOfTwo h - 1 = mask b"
    using NextPowerOfTwo_correct [of h] n1 h by auto
  define s where "s = \<lparr>kv_config = c, kv_storage = m, kv_table = replicate (unat (NextPowerOfTwo h)) Entry_empty,
      kv_free_slots = stack_init (unat n), kv_num_slots = n, kv_table_size = NextPowerOfTwo h,
      kv_hash_mask = NextPowerOfTwo h - 1, kv_used_slots = 0, kv_used_bytes = 0\<rparr>"
  have "slot_size c \<noteq> 0" using slot by auto
  moreover have "n \<noteq> 0" using n1 by auto
  ultimately have init: "Store_Initialize alloc c = Inr (Some s)"
    by (simp add: Store_Initialize_def Let_def h_def mem s_def flip: n_def)
  have occ: "occ s = {}" by (auto simp: occ_def ent_at_def s_def Entry_empty_def)
  have "table_ok s" using b by (auto simp: table_ok_def s_def)
  then have ok: "probing_ok s" by (simp add: probing_ok_def ent_at_def s_def Entry_empty_def)
  have fs: "distinct (kv_free_slots s)" "unat ` set (kv_free_slots s) = {..<unat n}" "length (kv_free_slots s) = unat n"
    using stack_init_props [of "unat n", where 'a = 32] n32 by (simp_all add: s_def)
  have "unat n * unat (slot_size c) \<le> unat (total_storage_size c)" by (simp add: un)
  with slot ok fs h(1) b(2,3) have "kv_inv s" by (auto simp: kv_inv_def occ) (auto simp: s_def)
  moreover have "kv_abs s = Map.empty" using kv_abs_absent(1) [OF ok] by (auto simp: occ)
  ultimately show ?thesis using init un by (simp add: s_def)
qed

text \<open>A full store refuses the update of a key it holds, although an update takes no new slot.\<close>

lemma full_store_refuses_update:
  assumes "kv_inv s" and "kv_free_slots s = []" and "key \<in> dom (kv_abs s)"
    and "length v = unat sz" and "IsValidValueSize sz"
  shows "Put key v sz s = Inr (KV_NO_SPACE, s) \<and> kv_abs s key \<noteq> None"
  using assms by (auto simp: Put_def)

section \<open>Histories\<close>

datatype kv_op = Op_Put u64 "u8 list" | Op_PutSGL u64 "u8 list list" | Op_Get u64 u32

fun kv_step :: "kv_op \<Rightarrow> KVStore \<Rightarrow> ((KvStatus \<times> u8 list) \<times> KVStore) chk" where
  "kv_step (Op_Put key v) s = bind_chk (Put key v (of_nat (length v)) s) (\<lambda>(st, s'). Inr ((st, []), s'))"
| "kv_step (Op_PutSGL key vs) s =
     bind_chk (PutSGL key vs (of_nat (length (concat vs))) s) (\<lambda>(st, s'). Inr ((st, []), s'))"
| "kv_step (Op_Get key room) s = bind_chk (Get key room s) (\<lambda>r. Inr (r, s))"

fun kv_spec :: "kv_op \<Rightarrow> nat \<times> (u64 \<Rightarrow> u8 list option) \<Rightarrow> (KvStatus \<times> u8 list) \<times> nat \<times> (u64 \<Rightarrow> u8 list option)" where
  "kv_spec (Op_Put key v) (cap, m) = (let (st, m') = kv_spec_put cap key v m in ((st, []), cap, m'))"
| "kv_spec (Op_PutSGL key vs) (cap, m) = (let (st, m') = kv_spec_put cap key (concat vs) m in ((st, []), cap, m'))"
| "kv_spec (Op_Get key room) (cap, m) = (kv_spec_get key (unat room) m, cap, m)"

fun kv_op_ok :: "kv_op \<Rightarrow> bool" where
  "kv_op_ok (Op_Put key v) \<longleftrightarrow> length v < 2 ^ 32"
| "kv_op_ok (Op_PutSGL key vs) \<longleftrightarrow> length (concat vs) < 2 ^ 32"
| "kv_op_ok (Op_Get key room) \<longleftrightarrow> True"

interpretation kv_machine: refined_machine kv_step kv_spec "\<lambda>s. (unat (kv_num_slots s), kv_abs s)" kv_inv kv_op_ok
proof
  fix s x assume inv: "kv_inv s" and ok: "kv_op_ok x"
  have put: "\<exists>r s'. bind_chk (Put key v (of_nat (length v)) s) (\<lambda>(st, s'). Inr ((st, []), s')) = Inr (r, s') \<and> kv_inv s' \<and>
      (r, unat (kv_num_slots s'), kv_abs s') =
        (let (st, m') = kv_spec_put (unat (kv_num_slots s)) key v (kv_abs s) in ((st, []), unat (kv_num_slots s), m'))"
    if "length v < 2 ^ 32" for key v
    using Put_refines [OF inv, of v "of_nat (length v)" key] that by (auto simp: unat_of_nat_less split: prod.splits)
  show "\<exists>r s'. kv_step x s = Inr (r, s') \<and> kv_inv s' \<and>
      (r, unat (kv_num_slots s'), kv_abs s') = kv_spec x (unat (kv_num_slots s), kv_abs s)"
  proof (cases x)
    case (Op_Put key v)
    with put [of v key] ok show ?thesis by simp
  next
    case (Op_PutSGL key vs)
    moreover from this ok have "unat (of_nat (length (concat vs)) :: u32) = length (concat vs)" by (simp add: unat_of_nat_less)
    ultimately show ?thesis using put [of "concat vs" key] ok by (simp add: PutSGL_eq_Put [OF inv])
  next
    case (Op_Get key room)
    with inv show ?thesis by (simp add: Get_refines)
  qed
qed

lemma kv_spec_cap: "fst (snd (kv_spec x a)) = fst a"
  by (cases x; cases a) (simp_all add: split_def Let_def)

text \<open>
  C4. A store initialised with slots of at least the largest value size (64 KiB; values in smaller slots
  overlap), fewer than \<open>2^48\<close> bytes in all and a hash table that is left to it or has at least two
  entries per slot behaves, for every sequence of insertions, scattered insertions and lookups of values
  below 4 GiB, as a finite map of the capacity of its pool: every operation returns without undefined behaviour, every status and every
  value read is the one the map gives, and the final contents are the final map. An insertion of a
  size that is not a multiple of 4096 between 4096 and 65536 is refused as invalid, any insertion into
  a full store for lack of space.
\<close>

theorem kv_history_refines_map:
  assumes "65536 \<le> unat (slot_size c)" and "unat (slot_size c) \<le> unat (total_storage_size c)"
    and "unat (total_storage_size c) < 2 ^ 48"
    and "sc_hash_table_size c = 0 \<or> 2 * (unat (total_storage_size c) div unat (slot_size c)) \<le> unat (sc_hash_table_size c) \<and>
        unat (sc_hash_table_size c) \<le> 2 ^ 63"
    and "alloc (total_storage_size c) = Some m" and "list_all kv_op_ok xs"
  shows "\<exists>s rs s'. Store_Initialize alloc c = Inr (Some s) \<and> run_ops kv_step xs s = Inr (rs, s') \<and> kv_inv s' \<and>
    (rs, unat (total_storage_size c) div unat (slot_size c), kv_abs s') =
      run_spec kv_spec xs (unat (total_storage_size c) div unat (slot_size c), Map.empty)"
proof -
  from Store_Initialize_ok [of c alloc m, OF assms(1-5)] obtain s where s: "Store_Initialize alloc c = Inr (Some s)" "kv_inv s"
    "kv_abs s = Map.empty" "unat (kv_num_slots s) = unat (total_storage_size c) div unat (slot_size c)"
    by blast
  from kv_machine.run_refines [OF s(2) assms(6)] obtain rs s' where r: "run_ops kv_step xs s = Inr (rs, s')" "kv_inv s'"
    "(rs, unat (kv_num_slots s'), kv_abs s') = run_spec kv_spec xs (unat (kv_num_slots s), kv_abs s)"
    by blast
  then have "unat (kv_num_slots s') = unat (kv_num_slots s)" 
    using run_spec_keeps [of fst kv_spec xs "(unat (kv_num_slots s), kv_abs s)", OF kv_spec_cap] by (metis fst_conv snd_conv)
  with s r show ?thesis by auto
qed

theorem kv_history_refines_map_witness:
  "\<exists>s rs s'. Store_Initialize (\<lambda>_. Some (\<lambda>_. 0)) StoreConfig_default = Inr (Some s) \<and>
     run_ops kv_step [Op_Put 7 (replicate 4096 1), Op_Get 8 4096, Op_Get 7 4096] s = Inr (rs, s') \<and>
     rs = [(KV_OK, []), (KV_NOT_FOUND, []), (KV_OK, replicate 4096 1)]"
proof -
  have c: "unat (slot_size StoreConfig_default) = 65536" "unat (total_storage_size StoreConfig_default) = 1073741824"
    "sc_hash_table_size StoreConfig_default = 0"
    by (simp_all add: StoreConfig_default_def kv_sizes)
  have "\<exists>s rs s'. Store_Initialize (\<lambda>_. Some (\<lambda>_. 0)) StoreConfig_default = Inr (Some s) \<and>
      run_ops kv_step [Op_Put 7 (replicate 4096 1), Op_Get 8 4096, Op_Get 7 4096] s = Inr (rs, s') \<and> kv_inv s' \<and>
      (rs, 16384, kv_abs s') = run_spec kv_spec [Op_Put 7 (replicate 4096 1), Op_Get 8 4096, Op_Get 7 4096] (16384, Map.empty)"
    using kv_history_refines_map [of StoreConfig_default "\<lambda>_. Some (\<lambda>_. 0)" "\<lambda>_. 0"
        "[Op_Put 7 (replicate 4096 1), Op_Get 8 4096, Op_Get 7 4096]"] by (simp add: c)
  moreover have "run_spec kv_spec [Op_Put 7 (replicate 4096 1), Op_Get 8 4096, Op_Get 7 4096] (16384, Map.empty) =
      ([(KV_OK, []), (KV_NOT_FOUND, []), (KV_OK, replicate 4096 1)], 16384, [7 \<mapsto> replicate 4096 1])"
    by (simp add: kv_spec_put_def kv_spec_get_def)
  ultimately show ?thesis by auto
qed

end
