(* ===== verification/Registered_Memory.thy ===== *)
theory Registered_Memory
  imports Buffer_View
begin

text \<open>
  The bytes behind a \<open>Buffer\<close>: a memory maps addresses to bytes, and a write through a buffer that
  leaves its \<open>length\<close> bytes is \<open>Inl Out_Of_Bounds\<close>. The services that copy into and out of
  registered buffers share these accesses.
\<close>

type_synonym memory = "ptr \<Rightarrow> u8"

definition mem_read :: "ptr \<Rightarrow> nat \<Rightarrow> memory \<Rightarrow> u8 list" where
  "mem_read p n m = map (\<lambda>i. m (p + of_nat i)) [0..<n]"

definition mem_write :: "ptr \<Rightarrow> u8 list \<Rightarrow> memory \<Rightarrow> memory" where
  "mem_write p bs m = (\<lambda>a. if unat (a - p) < length bs then bs ! unat (a - p) else m a)"

definition buf_write :: "Buffer \<Rightarrow> nat \<Rightarrow> u8 list \<Rightarrow> memory \<Rightarrow> memory chk" where
  "buf_write b off bs m =
     (if off + length bs \<le> unat (buf_length b) then Inr (mem_write (buf_addr b + of_nat off) bs m)
      else Inl Out_Of_Bounds)"

lemma length_mem_read [simp]: "length (mem_read p n m) = n"
  by (simp add: mem_read_def)

lemma mem_read_append: "mem_read p (a + b) m = mem_read p a m @ mem_read (p + of_nat a) b m"
  by (rule nth_equalityI) (auto simp: mem_read_def nth_append of_nat_diff algebra_simps)

lemma mem_write_at:
  assumes "i < 2 ^ 64"
  shows "mem_write p bs m (p + of_nat i) = (if i < length bs then bs ! i else m (p + of_nat i))"
proof -
  have "unat (of_nat i :: u64) = i" using assms by (intro unat_of_nat_less) simp
  then show ?thesis by (simp add: mem_write_def)
qed

lemma mem_read_written:
  assumes "length bs \<le> 2 ^ 64"
  shows "mem_read p (length bs) (mem_write p bs m) = bs"
  by (rule nth_equalityI) (use assms in \<open>simp_all add: mem_read_def mem_write_at\<close>)

text \<open>A header written in front of a body that is already there.\<close>

lemma mem_read_two_writes:
  assumes "length h + length v \<le> 2 ^ 64"
  shows "mem_read p (length h + length v) (mem_write p h (mem_write (p + of_nat (length h)) v m)) = h @ v"
proof (rule nth_equalityI)
  fix i assume "i < length (mem_read p (length h + length v) (mem_write p h (mem_write (p + of_nat (length h)) v m)))"
  then have i: "i < length h + length v" by simp
  then have small: "i < 2 ^ 64" "i - length h < 2 ^ 64" using assms by simp_all
  show "mem_read p (length h + length v) (mem_write p h (mem_write (p + of_nat (length h)) v m)) ! i = (h @ v) ! i"
  proof (cases "i < length h")
    case True
    then show ?thesis using i small by (simp add: mem_read_def mem_write_at nth_append)
  next
    case False
    then have lt: "i - length h < length v" using i by linarith
    have eq: "p + of_nat i = p + of_nat (length h) + of_nat (i - length h)" using False by (simp add: of_nat_diff)
    have "mem_write (p + of_nat (length h)) v m (p + of_nat i) = v ! (i - length h)"
      unfolding eq by (subst mem_write_at) (use lt small in simp_all)
    then show ?thesis using False i small by (simp add: mem_read_def mem_write_at nth_append)
  qed
qed simp

text \<open>Writes outside a range leave it as it is.\<close>

lemma mem_read_other:
  assumes "\<And>i. i < n \<Longrightarrow> length bs \<le> unat (p + of_nat i - q)"
  shows "mem_read p n (mem_write q bs m) = mem_read p n m"
  unfolding mem_read_def mem_write_def by (rule map_cong) (use assms in \<open>auto simp: not_less [symmetric]\<close>)

text \<open>A block written right behind one that is already there.\<close>

lemma mem_read_append_write:
  assumes "n + length bs \<le> 2 ^ 64"
  shows "mem_read p (n + length bs) (mem_write (p + of_nat n) bs m) = mem_read p n m @ bs"
proof (cases "bs = []")
  case False
  then have n: "n < 2 ^ 64" using assms by (cases bs) auto
  have "length bs \<le> unat (p + of_nat i - (p + of_nat n))" if "i < n" for i
  proof -
    have "unat (of_nat i :: u64) = i" "unat (of_nat n :: u64) = n" using n that by (simp_all add: unat_of_nat_less)
    then have "unat (of_nat i - of_nat n :: u64) = i + 2 ^ 64 - n" using that by (simp add: unat_sub_if')
    moreover have "p + of_nat i - (p + of_nat n) = of_nat i - of_nat n" by simp
    ultimately show ?thesis using assms by simp
  qed
  then have "mem_read p n (mem_write (p + of_nat n) bs m) = mem_read p n m" by (rule mem_read_other)
  moreover have "mem_read (p + of_nat n) (length bs) (mem_write (p + of_nat n) bs m) = bs"
    using assms by (intro mem_read_written) simp
  ultimately show ?thesis by (simp add: mem_read_append)
qed (simp add: mem_read_def mem_write_def)

text \<open>The slice a message is sent from.\<close>

lemma Buffer_Slice_prefix:
  assumes "0 < len" and "len \<le> unat (buf_length b)"
  shows "Buffer_Slice 0 (of_nat len) b = Buffer_new (buf_addr b) (of_nat len) (buf_lkey b)"
proof -
  have "unat (of_nat len :: u64) = len" using assms unat_u64_lt [of "buf_length b"] by (intro unat_of_nat_less) simp
  then show ?thesis using assms by (simp add: Buffer_Slice_def word_le_nat_alt word_less_nat_alt)
qed

end
