(* ===== verification/Tcp_Handshake.thy ===== *)
theory Tcp_Handshake
  imports Status Raii Rdma_Types
begin

text \<open>
  \<open>include/rdma/transport/handshake_channel.h\<close>, \<open>include/rdma/transport/tcp_handshake.h\<close> and
  \<open>src/transport/tcp_handshake.cpp\<close>: the socket over which both sides exchange their queue-pair
  parameters. The outcomes of the system calls are arguments: for the loops that call one repeatedly,
  the list of the outcomes of successive calls, and a loop that needs more calls than listed has not
  returned (\<open>None\<close>). Open descriptors are recorded in the ledger. A message travels as its object
  representation on a little-endian machine with the usual alignment, padding included; what the
  padding bytes hold is an argument. Socket options and logging are left out.
\<close>

section \<open>Messages\<close>

record HandshakeMessage =
  hm_qp_params :: QpConnParams
  hm_recv_buffer_info :: RemoteMemoryInfo
  hm_conn_id :: u16
  hm_version :: u16
  hm_flags :: u32
  hm_hostname :: "u8 list"

definition HandshakeMessage_zero :: HandshakeMessage where
  "HandshakeMessage_zero =
     \<lparr>hm_qp_params = QpConnParams_zero, hm_recv_buffer_info = \<lparr>rmi_addr = 0, rmi_rkey = 0, rmi_length = 0\<rparr>,
      hm_conn_id = 0, hm_version = 0, hm_flags = 0, hm_hostname = replicate 64 0\<rparr>"

definition sizeof_HandshakeMessage :: nat where
  "sizeof_HandshakeMessage = 128"

text \<open>The arrays have their declared lengths.\<close>

definition Handshake_wf :: "HandshakeMessage \<Rightarrow> bool" where
  "Handshake_wf msg \<longleftrightarrow> length (gid (hm_qp_params msg)) = 16 \<and> length (hm_hostname msg) = 64"

definition Handshake_bytes :: "u16 \<Rightarrow> u8 \<Rightarrow> u32 \<Rightarrow> HandshakeMessage \<Rightarrow> u8 list" where
  "Handshake_bytes pad1 pad2 pad3 msg =
     (let q = hm_qp_params msg; r = hm_recv_buffer_info msg
      in le_bytes 2 (lid q) @ le_bytes 2 pad1 @ le_bytes 4 (qp_num q) @ le_bytes 4 (psn q) @ gid q @
         le_bytes 2 (port_num q) @ [gid_index q, pad2] @ le_bytes 4 (mtu q) @ le_bytes 4 pad3 @
         le_bytes 8 (rmi_addr r) @ le_bytes 4 (rmi_rkey r) @ le_bytes 4 (rmi_length r) @
         le_bytes 2 (hm_conn_id msg) @ le_bytes 2 (hm_version msg) @ le_bytes 4 (hm_flags msg) @ hm_hostname msg)"

definition field :: "nat \<Rightarrow> nat \<Rightarrow> u8 list \<Rightarrow> 'a::len word" where
  "field at n bs = le_word (take n (drop at bs))"

definition Handshake_of :: "u8 list \<Rightarrow> HandshakeMessage" where
  "Handshake_of bs =
     \<lparr>hm_qp_params =
        \<lparr>lid = field 0 2 bs, qp_num = field 4 4 bs, psn = field 8 4 bs, gid = take 16 (drop 12 bs),
         port_num = field 28 2 bs, gid_index = bs ! 30, mtu = field 32 4 bs\<rparr>,
      hm_recv_buffer_info = \<lparr>rmi_addr = field 40 8 bs, rmi_rkey = field 48 4 bs, rmi_length = field 52 4 bs\<rparr>,
      hm_conn_id = field 56 2 bs, hm_version = field 58 2 bs, hm_flags = field 60 4 bs,
      hm_hostname = take 64 (drop 64 bs)\<rparr>"

section \<open>Channels\<close>

record TcpChannel =
  ch_fd :: int
  ch_peer_address :: string

text \<open>The outcome of one system call: the number of bytes moved, or \<open>errno\<close>.\<close>

datatype sys_ret = Moved nat | Failed int

definition EINTR :: int where "EINTR = 4"
definition EINPROGRESS :: int where "EINPROGRESS = 115"

fun send_loop :: "sys_ret list \<Rightarrow> u8 list \<Rightarrow> u8 list \<Rightarrow> (Status \<times> u8 list) option" where
  "send_loop rs [] out = Some (Status_OK, out)"
| "send_loop [] data out = None"
| "send_loop (Failed e # rs) data out =
     (if e = EINTR then send_loop rs data out else Some (Status_IOError ''write failed'' e, out))"
| "send_loop (Moved n # rs) data out = send_loop rs (drop n data) (out @ take n data)"

text \<open>\<open>out\<close> is what has been written to the socket so far.\<close>

definition Channel_Send :: "sys_ret list \<Rightarrow> u8 list \<Rightarrow> TcpChannel \<Rightarrow> u8 list \<Rightarrow> (Status \<times> u8 list) option" where
  "Channel_Send rs msg c out =
     (if ch_fd c < 0 then Some (Status_InvalidArgument ''Channel not connected'', out)
      else send_loop rs msg out)"

text \<open>
  A \<open>read\<close> of up to \<open>todo\<close> bytes takes them from the stream \<open>inp\<close>; it returns 0 when the peer has
  closed the connection. The bytes received so far are \<open>got\<close>.
\<close>

fun recv_loop :: "sys_ret list \<Rightarrow> nat \<Rightarrow> u8 list \<Rightarrow> u8 list \<Rightarrow> (Status \<times> u8 list \<times> u8 list) option" where
  "recv_loop rs 0 got inp = Some (Status_OK, got, inp)"
| "recv_loop [] todo got inp = None"
| "recv_loop (Failed e # rs) todo got inp =
     (if e = EINTR then recv_loop rs todo got inp else Some (Status_IOError ''read failed'' e, got, inp))"
| "recv_loop (Moved n # rs) todo got inp =
     (let k = min (min n todo) (length inp)
      in if k = 0 then Some (Status_ConnectionReset ''Connection closed'', got, inp)
         else recv_loop rs (todo - k) (got @ take k inp) (drop k inp))"

definition Channel_Receive :: "sys_ret list \<Rightarrow> TcpChannel \<Rightarrow> u8 list \<Rightarrow> (Status \<times> u8 list \<times> u8 list) option" where
  "Channel_Receive rs c inp =
     (if ch_fd c < 0 then Some (Status_InvalidArgument ''Channel not connected'', [], inp)
      else recv_loop rs sizeof_HandshakeMessage [] inp)"

definition Channel_Close :: "TcpChannel \<Rightarrow> ledger \<Rightarrow> TcpChannel \<times> ledger" where
  "Channel_Close c L =
     (if ch_fd c \<ge> 0 then (c\<lparr>ch_fd := -1\<rparr>, give_back (R_Fd (ch_fd c)) L) else (c, L))"

definition Channel_dtor :: "TcpChannel \<Rightarrow> ledger \<Rightarrow> ledger" where
  "Channel_dtor c L = snd (Channel_Close c L)"

definition Channel_IsConnected :: "TcpChannel \<Rightarrow> bool" where
  "Channel_IsConnected c \<longleftrightarrow> ch_fd c \<ge> 0"

section \<open>Connecting\<close>

text \<open>
  One candidate address: what \<open>socket\<close> returns, the \<open>errno\<close> of \<open>connect\<close> (\<open>None\<close> for success),
  what \<open>poll\<close> returns and the pending socket error.
\<close>

record candidate =
  ca_socket :: int
  ca_connect :: "int option"
  ca_poll :: int
  ca_so_error :: int

fun connect_loop :: "candidate list \<Rightarrow> ledger \<Rightarrow> int \<times> ledger" where
  "connect_loop [] L = (-1, L)"
| "connect_loop (a # as) L =
     (if ca_socket a < 0 then connect_loop as L
      else
        let fd = ca_socket a; L1 = acquire (R_Fd fd) L
        in case ca_connect a of
             None \<Rightarrow> (fd, L1)
           | Some e \<Rightarrow>
               if e \<noteq> EINPROGRESS then connect_loop as (give_back (R_Fd fd) L1)
               else if ca_poll a \<le> 0 then connect_loop as (give_back (R_Fd fd) L1)
               else if ca_so_error a \<noteq> 0 then connect_loop as (give_back (R_Fd fd) L1)
               else (fd, L1))"

text \<open>\<open>addrs\<close> is the result of \<open>getaddrinfo\<close>.\<close>

definition Channel_Connect :: "candidate list option \<Rightarrow> string \<Rightarrow> u16 \<Rightarrow> ledger \<Rightarrow> TcpChannel Result \<times> ledger" where
  "Channel_Connect addrs host port L =
     (case addrs of
        None \<Rightarrow> (Inl (Status_IOError ''Failed to resolve host'' 0), L)
      | Some as \<Rightarrow>
          let (fd, L1) = connect_loop as L
          in if fd < 0 then (Inl (Status_ConnectionRefused ''Failed to connect''), L1)
             else (Inr \<lparr>ch_fd = fd, ch_peer_address = host @ '':'' @ int_to_string (uint port)\<rparr>, L1))"

text \<open>\<open>poll_ret\<close> and \<open>accept_ret\<close> carry \<open>errno\<close> on failure; \<open>peer\<close> is what \<open>getnameinfo\<close> gives.\<close>

definition Channel_Accept ::
  "int + nat \<Rightarrow> int + int \<Rightarrow> (string \<times> string) option \<Rightarrow> ledger \<Rightarrow> TcpChannel Result \<times> ledger" where
  "Channel_Accept poll_ret accept_ret peer L =
     (case poll_ret of
        Inl e \<Rightarrow> (Inl (Status_IOError ''poll failed'' e), L)
      | Inr n \<Rightarrow>
          if n = 0 then (Inl (Status_Timeout ''Accept timeout''), L)
          else case accept_ret of
            Inl e \<Rightarrow> (Inl (Status_IOError ''accept failed'' e), L)
          | Inr fd \<Rightarrow>
              (Inr \<lparr>ch_fd = fd, ch_peer_address = (case peer of None \<Rightarrow> '''' | Some (h, s) \<Rightarrow> h @ '':'' @ s)\<rparr>,
               acquire (R_Fd fd) L))"

section \<open>Listening\<close>

text \<open>A candidate of the listener: what \<open>socket\<close> returns and whether \<open>bind\<close> succeeds.\<close>

fun bind_loop :: "(int \<times> bool) list \<Rightarrow> ledger \<Rightarrow> int \<times> ledger" where
  "bind_loop [] L = (-1, L)"
| "bind_loop ((fd, ok) # as) L =
     (if fd < 0 then bind_loop as L
      else
        let L1 = acquire (R_Fd fd) L
        in if ok then (fd, L1) else bind_loop as (give_back (R_Fd fd) L1))"

definition CreateListenSocket :: "(int \<times> bool) list option \<Rightarrow> int option \<Rightarrow> ledger \<Rightarrow> int Result \<times> ledger" where
  "CreateListenSocket addrs listen_err L =
     (case addrs of
        None \<Rightarrow> (Inl (Status_IOError ''Failed to resolve bind address'' 0), L)
      | Some as \<Rightarrow>
          let (fd, L1) = bind_loop as L
          in if fd < 0 then (Inl (Status_IOError ''Failed to bind socket'' 0), L1)
             else case listen_err of
               Some e \<Rightarrow> (Inl (Status_IOError ''Failed to listen'' e), give_back (R_Fd fd) L1)
             | None \<Rightarrow> (Inr fd, L1))"

record TcpServer =
  ts_listen_fd :: int
  ts_port :: u16

definition Server_Create :: "(int \<times> bool) list option \<Rightarrow> int option \<Rightarrow> u16 \<Rightarrow> ledger \<Rightarrow> TcpServer Result \<times> ledger" where
  "Server_Create addrs listen_err port L =
     (case CreateListenSocket addrs listen_err L of
        (Inl st, L1) \<Rightarrow> (Inl st, L1)
      | (Inr fd, L1) \<Rightarrow> (Inr \<lparr>ts_listen_fd = fd, ts_port = port\<rparr>, L1))"

definition Server_Accept ::
  "(int \<Rightarrow> int + nat) \<Rightarrow> (int \<Rightarrow> int + int) \<Rightarrow> (string \<times> string) option \<Rightarrow> TcpServer \<Rightarrow> ledger \<Rightarrow> TcpChannel Result \<times> ledger" where
  "Server_Accept poll accept peer t L = Channel_Accept (poll (ts_listen_fd t)) (accept (ts_listen_fd t)) peer L"

definition Server_Close :: "TcpServer \<Rightarrow> ledger \<Rightarrow> TcpServer \<times> ledger" where
  "Server_Close t L =
     (if ts_listen_fd t \<ge> 0 then (t\<lparr>ts_listen_fd := -1\<rparr>, give_back (R_Fd (ts_listen_fd t)) L) else (t, L))"

definition Server_dtor :: "TcpServer \<Rightarrow> ledger \<Rightarrow> ledger" where
  "Server_dtor t L = snd (Server_Close t L)"

section \<open>Messages survive partial transfers\<close>

lemma length_Handshake_bytes:
  "Handshake_wf msg \<Longrightarrow> length (Handshake_bytes pad1 pad2 pad3 msg) = sizeof_HandshakeMessage"
  by (simp add: Handshake_wf_def Handshake_bytes_def sizeof_HandshakeMessage_def Let_def)

lemma field_append:
  "field at n (xs @ ys) = (if length xs \<le> at then field (at - length xs) n ys else le_word (take n (drop at (xs @ ys))))"
  by (simp add: field_def)

lemma field_Cons: "0 < at \<Longrightarrow> field at n (x # xs) = field (at - 1) n xs"
  by (cases at) (simp_all add: field_def)

lemma field_here: "n = length xs \<Longrightarrow> field 0 n (xs @ ys) = le_word xs"
  by (simp add: field_def)

lemma Handshake_of_bytes:
  assumes "Handshake_wf msg"
  shows "Handshake_of (Handshake_bytes pad1 pad2 pad3 msg) = msg"
  using assms
  by (simp add: Handshake_wf_def Handshake_of_def Handshake_bytes_def Let_def field_append field_Cons field_here le_word_le_bytes nth_append)

text \<open>The calls of a script that move something; all others are interrupted.\<close>

fun moves :: "sys_ret list \<Rightarrow> nat" where
  "moves [] = 0"
| "moves (Moved n # rs) = (if 0 < n then 1 else 0) + moves rs"
| "moves (Failed e # rs) = moves rs"

fun benign :: "sys_ret list \<Rightarrow> bool" where
  "benign [] \<longleftrightarrow> True"
| "benign (Moved n # rs) \<longleftrightarrow> 0 < n \<and> benign rs"
| "benign (Failed e # rs) \<longleftrightarrow> e = EINTR \<and> benign rs"

lemma send_loop_result:
  "send_loop rs data out = Some (st, out') \<Longrightarrow> \<exists>k. out' = out @ take k data \<and> (Status_ok st \<longrightarrow> out' = out @ data)"
proof (induction rs data out rule: send_loop.induct)
  case (3 e rs d data out)
  then show ?case by (auto simp: Status_IOError_def Status_new_def Status_ok_def split: if_splits intro: exI [of _ 0])
next
  case (4 n rs d data out)
  then obtain k where "out' = (out @ take n (d # data)) @ take k (drop n (d # data))"
    "Status_ok st \<longrightarrow> out' = (out @ take n (d # data)) @ drop n (d # data)" by auto
  then show ?case by (intro exI [of _ "n + k"]) (simp add: take_add)
qed auto

lemma send_loop_returns:
  "benign rs \<Longrightarrow> length data \<le> moves rs \<Longrightarrow> send_loop rs data out = Some (Status_OK, out @ data)"
proof (induction rs data out rule: send_loop.induct)
  case (4 n rs d data out)
  then have "send_loop rs (drop n (d # data)) (out @ take n (d # data)) =
      Some (Status_OK, (out @ take n (d # data)) @ drop n (d # data))" by (intro "4.IH") auto
  then show ?case by simp
qed auto

lemma recv_loop_result:
  "recv_loop rs todo got inp = Some (st, got', rest) \<Longrightarrow>
     \<exists>k. got' = got @ take k inp \<and> rest = drop k inp \<and> k \<le> todo \<and> k \<le> length inp \<and> (Status_ok st \<longrightarrow> k = todo)"
proof (induction rs todo got inp rule: recv_loop.induct)
  case (3 e rs todo got inp)
  then show ?case by (auto simp: Status_IOError_def Status_new_def Status_ok_def split: if_splits intro: exI [of _ 0])
next
  case (4 n rs todo got inp)
  define m where "m = min (min n (Suc todo)) (length inp)"
  show ?case
  proof (cases "m = 0")
    case True
    then show ?thesis using "4.prems"
      by (auto simp: Let_def m_def [symmetric] Status_ConnectionReset_def Status_new_def Status_ok_def intro: exI [of _ 0])
  next
    case False
    then obtain k where "got' = (got @ take m inp) @ take k (drop m inp)" "rest = drop k (drop m inp)" "k \<le> Suc todo - m"
      "k \<le> length (drop m inp)" "Status_ok st \<longrightarrow> k = Suc todo - m"
      using "4.IH" [OF m_def] "4.prems" by (auto simp: Let_def m_def [symmetric])
    moreover have "m \<le> Suc todo" "m \<le> length inp" by (simp_all add: m_def)
    ultimately show ?thesis by (intro exI [of _ "m + k"]) (auto simp: take_add intro: arg_cong [of _ _ "\<lambda>j. drop j inp"])
  qed
qed auto

lemma recv_loop_returns:
  "benign rs \<Longrightarrow> todo \<le> moves rs \<Longrightarrow> todo \<le> length inp \<Longrightarrow>
     recv_loop rs todo got inp = Some (Status_OK, got @ take todo inp, drop todo inp)"
proof (induction rs todo got inp rule: recv_loop.induct)
  case (4 n rs todo got inp)
  define m where "m = min (min n (Suc todo)) (length inp)"
  have m: "0 < m" "m \<le> Suc todo" "m \<le> length inp" using "4.prems" by (auto simp: m_def)
  then have "recv_loop rs (Suc todo - m) (got @ take m inp) (drop m inp) =
      Some (Status_OK, (got @ take m inp) @ take (Suc todo - m) (drop m inp), drop (Suc todo - m) (drop m inp))"
    using "4.prems" by (intro "4.IH" [OF m_def]) auto
  moreover have "take m inp @ take (Suc todo - m) (drop m inp) = take (Suc todo) inp"
    using m by (simp flip: take_add)
  ultimately show ?case using m by (simp add: Let_def m_def [symmetric])
qed auto

text \<open>
  The calls end: \<open>k\<close> of them move something, or one fails for another reason than an interruption. A peer
  that keeps silent is a script that does not end.
\<close>

fun finishes :: "nat \<Rightarrow> sys_ret list \<Rightarrow> bool" where
  "finishes 0 rs \<longleftrightarrow> True"
| "finishes (Suc k) [] \<longleftrightarrow> False"
| "finishes (Suc k) (Failed e # rs) \<longleftrightarrow> e \<noteq> EINTR \<or> finishes (Suc k) rs"
| "finishes (Suc k) (Moved n # rs) \<longleftrightarrow> finishes (if n = 0 then Suc k else k) rs"

lemma finishes_mono: "finishes k rs \<Longrightarrow> j \<le> k \<Longrightarrow> finishes j rs"
proof (induction k rs arbitrary: j rule: finishes.induct)
  case (4 k n rs)
  show ?case
  proof (cases j)
    case (Suc i)
    with 4 have "finishes (if n = 0 then Suc i else i) rs" by (cases "n = 0") auto
    with Suc show ?thesis by simp
  qed simp
next
  case (3 k e rs)
  then show ?case by (cases j) auto
qed auto

lemma finishes_moves: "benign rs \<Longrightarrow> k \<le> moves rs \<Longrightarrow> finishes k rs"
proof (induction k rs rule: finishes.induct)
  case (4 k n rs)
  then show ?case by (cases "n = 0") auto
qed auto

lemma send_loop_finishes: "finishes (length data) rs \<Longrightarrow> send_loop rs data out \<noteq> None"
proof (induction rs data out rule: send_loop.induct)
  case (4 n rs d data out)
  have "length (drop n (d # data)) \<le> (if n = 0 then Suc (length data) else length data)" by (cases n) simp_all
  with "4.prems" have "finishes (length (drop n (d # data))) rs" by (auto intro: finishes_mono)
  from "4.IH" [OF this] show ?case by simp
qed auto

lemma recv_loop_finishes: "finishes todo rs \<Longrightarrow> recv_loop rs todo got inp \<noteq> None"
proof (induction rs todo got inp rule: recv_loop.induct)
  case (4 n rs todo got inp)
  define m where "m = min (min n (Suc todo)) (length inp)"
  show ?case
  proof (cases "m = 0")
    case False
    then have "0 < n" by (simp add: m_def)
    with "4.prems" have "finishes todo rs" by simp
    then have "finishes (Suc todo - m) rs" using False by (auto intro: finishes_mono)
    with "4.IH" [OF m_def] False show ?thesis by (simp add: Let_def m_def [symmetric])
  qed (simp add: Let_def m_def [symmetric])
qed auto

lemma Channel_Send_finishes: "finishes (length data) ws \<Longrightarrow> Channel_Send ws data c out \<noteq> None"
  using send_loop_finishes by (simp add: Channel_Send_def)

lemma Channel_Receive_finishes: "finishes 128 rs \<Longrightarrow> Channel_Receive rs c inp \<noteq> None"
  using recv_loop_finishes by (simp add: Channel_Receive_def sizeof_HandshakeMessage_def)

lemma Channel_Send_all:
  "ch_fd c \<ge> 0 \<Longrightarrow> benign ws \<Longrightarrow> length data \<le> moves ws \<Longrightarrow> Channel_Send ws data c [] = Some (Status_OK, data)"
  using send_loop_returns [of ws data "[]"] by (simp add: Channel_Send_def)

lemma Channel_Receive_message:
  "ch_fd d \<ge> 0 \<Longrightarrow> benign rs \<Longrightarrow> 128 \<le> moves rs \<Longrightarrow> length data = 128 \<Longrightarrow>
     Channel_Receive rs d (data @ later) = Some (Status_OK, data, later)"
  using recv_loop_returns [of rs 128 "data @ later" "[]"] by (simp add: Channel_Receive_def sizeof_HandshakeMessage_def)

text \<open>
  C18. The handshake delivers: over sockets whose calls are only interrupted or move at least one
  byte, in whatever portions, enough calls make \<open>Send\<close> and \<open>Receive\<close> return OK, the stream carries
  exactly the message, the receiver decodes the message that was sent, whatever the padding held,
  and leaves what follows it in the stream unread.
\<close>

theorem handshake_delivers:
  assumes "Handshake_wf msg" and "ch_fd c \<ge> 0" and "ch_fd d \<ge> 0"
    and "benign ws" and "128 \<le> moves ws" and "benign rs" and "128 \<le> moves rs"
  shows "\<exists>bytes got. Channel_Send ws (Handshake_bytes pad1 pad2 pad3 msg) c [] = Some (Status_OK, bytes) \<and>
    Channel_Receive rs d (bytes @ later) = Some (Status_OK, got, later) \<and> Handshake_of got = msg"
proof -
  note len = length_Handshake_bytes [OF assms(1), of pad1 pad2 pad3, unfolded sizeof_HandshakeMessage_def]
  have "Channel_Send ws (Handshake_bytes pad1 pad2 pad3 msg) c [] = Some (Status_OK, Handshake_bytes pad1 pad2 pad3 msg)"
    using assms(2,4,5) by (simp add: Channel_Send_all len)
  moreover have "Channel_Receive rs d (Handshake_bytes pad1 pad2 pad3 msg @ later) =
      Some (Status_OK, Handshake_bytes pad1 pad2 pad3 msg, later)"
    using assms(3,6,7) by (simp add: Channel_Receive_message len)
  ultimately show ?thesis using Handshake_of_bytes [OF assms(1)] by blast
qed

text \<open>A script of calls that move a few bytes each.\<close>

lemma moves_benign_replicate: "0 < n \<Longrightarrow> moves (replicate k (Moved n)) = k \<and> benign (replicate k (Moved n))"
  by (induction k) simp_all

theorem handshake_delivers_witness:
  "\<exists>bytes got. Channel_Send (Failed EINTR # replicate 128 (Moved 3)) (Handshake_bytes 7 7 7 HandshakeMessage_zero)
       \<lparr>ch_fd = 5, ch_peer_address = ''''\<rparr> [] = Some (Status_OK, bytes) \<and>
     Channel_Receive (replicate 128 (Moved 50)) \<lparr>ch_fd = 6, ch_peer_address = ''''\<rparr> (bytes @ [1, 2]) =
       Some (Status_OK, got, [1, 2]) \<and> Handshake_of got = HandshakeMessage_zero"
  by (rule handshake_delivers)
    (simp_all only: Handshake_wf_def HandshakeMessage_zero_def QpConnParams_zero_def moves_benign_replicate moves.simps
      benign.simps, simp_all)

text \<open>
  A call that does not succeed leaves a prefix of the message in the stream, and a receiver that
  reports success has consumed exactly one message.
\<close>

lemma handshake_errors:
  "Channel_Send ws data c [] = Some (st, out) \<Longrightarrow> \<exists>k. out = take k data \<and> (Status_ok st \<longrightarrow> out = data)"
  "Channel_Receive rs d inp = Some (st, got, rest) \<Longrightarrow> Status_ok st \<Longrightarrow>
     got = take 128 inp \<and> rest = drop 128 inp \<and> 128 \<le> length inp"
proof -
  show "Channel_Send ws data c [] = Some (st, out) \<Longrightarrow> \<exists>k. out = take k data \<and> (Status_ok st \<longrightarrow> out = data)"
    using send_loop_result [of ws data "[]" st out]
    by (auto simp: Channel_Send_def Status_InvalidArgument_def Status_new_def Status_ok_def split: if_splits intro: exI [of _ 0])
  show "Channel_Receive rs d inp = Some (st, got, rest) \<Longrightarrow> Status_ok st \<Longrightarrow>
     got = take 128 inp \<and> rest = drop 128 inp \<and> 128 \<le> length inp"
    using recv_loop_result [of rs 128 "[]" inp st got rest]
    by (auto simp: Channel_Receive_def sizeof_HandshakeMessage_def Status_InvalidArgument_def Status_new_def Status_ok_def
        split: if_splits)
qed

section \<open>Descriptors\<close>

definition Channel_owns :: "TcpChannel \<Rightarrow> res list" where
  "Channel_owns c = (if ch_fd c \<ge> 0 then [R_Fd (ch_fd c)] else [])"

definition Server_owns :: "TcpServer \<Rightarrow> res list" where
  "Server_owns t = (if ts_listen_fd t \<ge> 0 then [R_Fd (ts_listen_fd t)] else [])"

lemma connect_loop_ledger:
  assumes "\<forall>a\<in>set as. R_Fd (ca_socket a) \<notin> lg_live L"
  shows "connect_loop as L = (fd, L') \<Longrightarrow>
    if fd < 0 then L' = L else L' = acquire (R_Fd fd) L \<and> R_Fd fd \<notin> lg_live L"
  using assms by (induction as) (auto simp: Let_def simp del: give_back_live split: if_splits option.splits)

lemma bind_loop_ledger:
  assumes "\<forall>a\<in>set as. R_Fd (fst a) \<notin> lg_live L"
  shows "bind_loop as L = (fd, L') \<Longrightarrow>
    if fd < 0 then L' = L else L' = acquire (R_Fd fd) L \<and> R_Fd fd \<notin> lg_live L"
  using assms by (induction as) (auto simp: Let_def simp del: give_back_live split: if_splits)

text \<open>
  No descriptor is leaked or closed twice: whatever the candidate addresses, the calls and their
  errors, a \<open>Connect\<close> or \<open>Create\<close> that fails has closed every socket it opened, one that succeeds
  owns exactly one open descriptor, and the destructor closes it.
\<close>

theorem handshake_no_descriptor_leak:
  assumes "\<forall>a\<in>set as. R_Fd (ca_socket a) \<notin> lg_live L" and "\<forall>a\<in>set bs. R_Fd (fst a) \<notin> lg_live L"
  shows "(case Channel_Connect (Some as) host port L of
            (Inl st, L') \<Rightarrow> L' = L | (Inr c, L') \<Rightarrow> Channel_owns c \<noteq> [] \<and> Channel_dtor c L' = L) \<and>
         (case Server_Create (Some bs) err port L of
            (Inl st, L') \<Rightarrow> L' = L | (Inr t, L') \<Rightarrow> Server_owns t \<noteq> [] \<and> Server_dtor t L' = L)"
proof
  show "case Channel_Connect (Some as) host port L of
          (Inl st, L') \<Rightarrow> L' = L | (Inr c, L') \<Rightarrow> Channel_owns c \<noteq> [] \<and> Channel_dtor c L' = L"
    using connect_loop_ledger [OF assms(1)]
    by (cases "connect_loop as L")
      (auto simp: Channel_Connect_def Channel_owns_def Channel_dtor_def Channel_Close_def Let_def acquire_def split: if_splits)
  show "case Server_Create (Some bs) err port L of
          (Inl st, L') \<Rightarrow> L' = L | (Inr t, L') \<Rightarrow> Server_owns t \<noteq> [] \<and> Server_dtor t L' = L"
    using bind_loop_ledger [OF assms(2)]
    by (cases "bind_loop bs L") (auto simp: Server_Create_def CreateListenSocket_def Server_owns_def Server_dtor_def
        Server_Close_def Let_def acquire_def split: if_splits option.splits prod.splits sum.splits)
qed

definition sample_candidates :: "candidate list" where
  "sample_candidates =
     [\<lparr>ca_socket = -1, ca_connect = None, ca_poll = 0, ca_so_error = 0\<rparr>,
      \<lparr>ca_socket = 7, ca_connect = Some 115, ca_poll = 1, ca_so_error = 111\<rparr>,
      \<lparr>ca_socket = 8, ca_connect = Some 115, ca_poll = 1, ca_so_error = 0\<rparr>]"

theorem handshake_no_descriptor_leak_witness:
  "\<exists>c L'. Channel_Connect (Some sample_candidates) ''host'' 7777 ledger_empty = (Inr c, L') \<and> ch_fd c = 8 \<and>
     Channel_dtor c L' = ledger_empty"
proof -
  have "fst (Channel_Connect (Some sample_candidates) ''host'' 7777 ledger_empty) =
      Inr \<lparr>ch_fd = 8, ch_peer_address = ''host:'' @ int_to_string 7777\<rparr>"
    by (simp add: Channel_Connect_def sample_candidates_def EINPROGRESS_def Let_def)
  then show ?thesis
    using handshake_no_descriptor_leak [of sample_candidates ledger_empty "[]" "''host''" 7777 None]
    by (cases "Channel_Connect (Some sample_candidates) ''host'' 7777 ledger_empty") (auto simp: ledger_empty_def)
qed

end
