(* ===== verification/Reactor.thy ===== *)
theory Reactor
  imports Complex_Main Completion_Dispatcher Core_Objects Timing_Wheel
begin

text \<open>
  \<open>include/rdma/reactor/reactor.h\<close> and \<open>src/reactor/reactor.cpp\<close>: the event loop. A reactor polls
  its completion queues into one buffer and dispatches what it gets, runs the tasks other threads
  have queued, ticks the timing wheel and calls its pollers. Everything these calls do happens in a
  world \<open>'w\<close>, which the record \<open>rx_env\<close> interprets. A dispatcher is an index into a table of
  dispatchers, since several queues may share one. More completions than the buffer holds are
  \<open>Inl Out_Of_Bounds\<close>. The task queue is the list of its tasks, newest first, as \<open>PopAll\<close> returns it.
  Floating-point results are rounded by \<open>rnd\<close>. Handlers, tasks and pollers do not call back into the
  reactor or a dispatcher; thread pinning, pauses and logging are left out.
\<close>


section \<open>State\<close>

record ReactorConfig =
  rc_batch_mode :: BatchMode
  rc_latency_batch_size :: int
  rc_throughput_batch_size :: int
  rc_max_batch_size :: int
  rc_max_spin_count :: u32
  rc_cpu_core :: int
  rc_numa_node :: int

definition ReactorConfig_default :: ReactorConfig where
  "ReactorConfig_default =
     \<lparr>rc_batch_mode = THROUGHPUT, rc_latency_batch_size = 16, rc_throughput_batch_size = 64, rc_max_batch_size = 128,
      rc_max_spin_count = 1000, rc_cpu_core = -1, rc_numa_node = -1\<rparr>"

text \<open>A task: its function and context.\<close>

type_synonym task = "ptr \<times> ptr"

record Reactor =
  rx_config :: ReactorConfig
  rx_running :: bool
  rx_cq_entries :: "(CompletionQueue \<times> nat) list"
  rx_pollers :: "(ptr \<times> ptr) list"
  rx_wheel :: TimingWheel
  rx_tasks :: "task list"
  rx_wc_buffer :: ptr
  rx_wc_buffer_size :: int
  rx_batch_size :: int
  rx_poll_count :: u64
  rx_total_wc_count :: u64
  rx_idle_spin_count :: u32

definition initial_batch_size :: "ReactorConfig \<Rightarrow> int" where
  "initial_batch_size config =
     (case rc_batch_mode config of
        LATENCY \<Rightarrow> rc_latency_batch_size config
      | THROUGHPUT \<Rightarrow> rc_throughput_batch_size config
      | ADAPTIVE \<Rightarrow> 32)"

text \<open>\<open>alloc n\<close> is the pointer of \<open>aligned_alloc\<close> for \<open>n\<close> completions, \<open>entries\<close> the memory of the wheel's pool.\<close>

definition Reactor_Create :: "(ledger \<Rightarrow> int \<Rightarrow> ptr) \<Rightarrow> entry_heap \<Rightarrow> ReactorConfig \<Rightarrow> ledger \<Rightarrow> Reactor Result \<times> ledger" where
  "Reactor_Create alloc entries config L =
     (let wc_buffer = alloc L (rc_max_batch_size config)
      in if wc_buffer = nullptr then (Inl (Status_ResourceExhausted ''Failed to allocate WC buffer''), L)
         else (Inr \<lparr>rx_config = config, rx_running = False, rx_cq_entries = [], rx_pollers = [],
                    rx_wheel = TimingWheel_new entries, rx_tasks = [], rx_wc_buffer = wc_buffer,
                    rx_wc_buffer_size = rc_max_batch_size config, rx_batch_size = initial_batch_size config,
                    rx_poll_count = 0, rx_total_wc_count = 0, rx_idle_spin_count = 0\<rparr>,
               acquire (R_Mem wc_buffer) L))"

definition Reactor_dtor :: "Reactor \<Rightarrow> ledger \<Rightarrow> ledger" where
  "Reactor_dtor r L = (if rx_wc_buffer r \<noteq> nullptr then give_back (R_Mem (rx_wc_buffer r)) L else L)"

definition RegisterCQ :: "CompletionQueue \<Rightarrow> nat \<Rightarrow> Reactor \<Rightarrow> Reactor" where
  "RegisterCQ cq d r = r\<lparr>rx_cq_entries := rx_cq_entries r @ [(cq, d)]\<rparr>"

definition RegisterPoller :: "ptr \<Rightarrow> ptr \<Rightarrow> Reactor \<Rightarrow> Reactor" where
  "RegisterPoller fn ctx r = r\<lparr>rx_pollers := rx_pollers r @ [(fn, ctx)]\<rparr>"

definition ScheduleTimeout :: "u32 \<Rightarrow> u8 \<Rightarrow> u32 \<Rightarrow> Reactor \<Rightarrow> Reactor" where
  "ScheduleTimeout slot_index generation timeout_ms r =
     r\<lparr>rx_wheel := snd (TimingWheel_Schedule slot_index generation timeout_ms (rx_wheel r))\<rparr>"

definition Execute :: "task \<Rightarrow> Reactor \<Rightarrow> Reactor" where
  "Execute t r = r\<lparr>rx_tasks := t # rx_tasks r\<rparr>"

definition Reactor_Stop :: "Reactor \<Rightarrow> Reactor" where
  "Reactor_Stop r = r\<lparr>rx_running := False\<rparr>"

section \<open>One round\<close>

text \<open>
  \<open>ibv_poll_cq\<close> (the completions it writes, or an error code), the call of a completion or error
  handler, of a task and of a poller. A call through a null function pointer is \<open>Inl Null_Call\<close>.
\<close>

record 'w rx_env =
  rxe_poll_cq :: "ptr \<Rightarrow> int \<Rightarrow> 'w \<Rightarrow> (int + ibv_wc list) \<times> 'w"
  rxe_handle :: "disp_call \<Rightarrow> 'w \<Rightarrow> 'w chk"
  rxe_task :: "ptr \<Rightarrow> ptr \<Rightarrow> 'w \<Rightarrow> 'w chk"
  rxe_poller :: "ptr \<Rightarrow> ptr \<Rightarrow> 'w \<Rightarrow> (int \<times> 'w) chk"

fun handle_calls :: "'w rx_env \<Rightarrow> disp_call list \<Rightarrow> 'w \<Rightarrow> 'w chk" where
  "handle_calls E [] w = Inr w"
| "handle_calls E (c # cs) w = bind_chk (rxe_handle E c w) (handle_calls E cs)"

fun poll_cqs ::
  "'w rx_env \<Rightarrow> (CompletionQueue \<times> nat) list \<Rightarrow> Reactor \<Rightarrow> (nat \<Rightarrow> CompletionDispatcher) \<Rightarrow> 'w
     \<Rightarrow> (int \<times> Reactor \<times> (nat \<Rightarrow> CompletionDispatcher) \<times> 'w) chk" where
  "poll_cqs E [] r ds w = Inr (0, r, ds, w)"
| "poll_cqs E ((cq, d) # es) r ds w =
     (case rxe_poll_cq E (cq_raw cq) (rx_batch_size r) w of
        (Inl e, w1) \<Rightarrow> poll_cqs E es r ds w1
      | (Inr wcs, w1) \<Rightarrow>
          if int (length wcs) > rx_wc_buffer_size r then Inl Out_Of_Bounds
          else if wcs = [] then poll_cqs E es r ds w1
          else bind_chk (DispatchBatch wcs (ds d)) (\<lambda>(cs, d1).
               bind_chk (handle_calls E cs w1) (\<lambda>w2.
               bind_chk (poll_cqs E es (r\<lparr>rx_total_wc_count := rx_total_wc_count r + of_nat (length wcs)\<rparr>) (ds(d := d1)) w2)
                 (\<lambda>(k, rest). Inr (int (length wcs) + k, rest)))))"

fun run_tasks :: "'w rx_env \<Rightarrow> task list \<Rightarrow> 'w \<Rightarrow> 'w chk" where
  "run_tasks E [] w = Inr w"
| "run_tasks E ((fn, ctx) # ts) w =
     (if fn = nullptr then Inl Null_Call else bind_chk (rxe_task E fn ctx w) (run_tasks E ts))"

definition ProcessTasks :: "'w rx_env \<Rightarrow> Reactor \<Rightarrow> 'w \<Rightarrow> (int \<times> Reactor \<times> 'w) chk" where
  "ProcessTasks E r w =
     bind_chk (run_tasks E (rx_tasks r) w) (\<lambda>w1. Inr (int (length (rx_tasks r)), r\<lparr>rx_tasks := []\<rparr>, w1))"

text \<open>The expired entries are counted and dropped; \<open>None\<close> is a wheel whose chain does not end.\<close>

definition ProcessTimeouts :: "Reactor \<Rightarrow> (int \<times> Reactor) option" where
  "ProcessTimeouts r =
     (case TimingWheel_Tick (rx_wheel r) of
        None \<Rightarrow> None
      | Some (expired, t) \<Rightarrow> Some (int (length expired), r\<lparr>rx_wheel := t\<rparr>))"

fun run_pollers :: "'w rx_env \<Rightarrow> (ptr \<times> ptr) list \<Rightarrow> 'w \<Rightarrow> (int \<times> 'w) chk" where
  "run_pollers E [] w = Inr (0, w)"
| "run_pollers E ((fn, ctx) # ps) w =
     (if fn = nullptr then Inl Null_Call
      else bind_chk (rxe_poller E fn ctx w) (\<lambda>(a, w1).
           bind_chk (run_pollers E ps w1) (\<lambda>(k, w2). Inr (a + k, w2))))"


text \<open>
  The batch sizes are \<open>int\<close> in the code; the product does not overflow as long as \<open>max_batch_size\<close>
  is at most \<open>2^30\<close>, and a completion buffer of so many entries takes 48 GiB.
\<close>

definition AdaptBatchSize :: "(real \<Rightarrow> real) \<Rightarrow> Reactor \<Rightarrow> Reactor" where
  "AdaptBatchSize rnd r =
     (if rc_batch_mode (rx_config r) \<noteq> ADAPTIVE then r
      else
        let avg_wc = rnd (rnd (real (unat (rx_total_wc_count r))) / rnd (real (unat (rx_poll_count r))));
            batch = rx_batch_size r;
            batch' = (if avg_wc > rnd (rnd (real_of_int batch) * rnd (8 / 10))
                      then min (batch * 2) (rc_max_batch_size (rx_config r))
                      else if avg_wc < rnd (rnd (real_of_int batch) * rnd (2 / 10)) \<and>
                              batch > rc_latency_batch_size (rx_config r)
                      then max (if batch < 0 then - (- batch div 2) else batch div 2) (rc_latency_batch_size (rx_config r))
                      else batch)
        in r\<lparr>rx_batch_size := batch', rx_total_wc_count := 0, rx_poll_count := 0\<rparr>)"

definition AdaptiveBackoff :: "Reactor \<Rightarrow> Reactor" where
  "AdaptiveBackoff r =
     (let idle = rx_idle_spin_count r + 1
      in if idle < 100 \<or> idle < 1000 \<or> idle < rc_max_spin_count (rx_config r) then r\<lparr>rx_idle_spin_count := idle\<rparr>
         else r\<lparr>rx_idle_spin_count := rc_max_spin_count (rx_config r)\<rparr>)"

text \<open>Steps 5 and 6 of a round.\<close>

definition finish_round :: "(real \<Rightarrow> real) \<Rightarrow> int \<Rightarrow> Reactor \<Rightarrow> Reactor" where
  "finish_round rnd total_events r =
     (let r1 = r\<lparr>rx_poll_count := rx_poll_count r + 1\<rparr>;
          r2 = (if rx_poll_count r1 mod 1000 = 0 then AdaptBatchSize rnd r1 else r1)
      in if total_events > 0 then r2\<lparr>rx_idle_spin_count := 0\<rparr> else AdaptiveBackoff r2)"

definition Poll ::
  "(real \<Rightarrow> real) \<Rightarrow> 'w rx_env \<Rightarrow> Reactor \<Rightarrow> (nat \<Rightarrow> CompletionDispatcher) \<Rightarrow> 'w
     \<Rightarrow> (int \<times> Reactor \<times> (nat \<Rightarrow> CompletionDispatcher) \<times> 'w) chk option" where
  "Poll rnd E r ds w =
     (case bind_chk (poll_cqs E (rx_cq_entries r) r ds w) (\<lambda>(k1, r1, ds1, w1).
             bind_chk (ProcessTasks E r1 w1) (\<lambda>(k2, r2, w2). Inr (k1 + k2, r2, ds1, w2))) of
        Inl u \<Rightarrow> Some (Inl u)
      | Inr (k, r2, ds1, w2) \<Rightarrow>
          (case ProcessTimeouts r2 of
             None \<Rightarrow> None
           | Some (k3, r3) \<Rightarrow>
               Some (bind_chk (run_pollers E (rx_pollers r3) w2) (\<lambda>(k4, w4).
                       Inr (k + k3 + k4, finish_round rnd (k + k3 + k4) r3, ds1, w4)))))"


text \<open>
  \<open>Run\<close> polls until another thread or a handler has stopped the reactor, which \<open>stopped\<close> reads off
  the world; \<open>None\<close> when it runs for ever.
\<close>

partial_function (option) run_loop ::
  "(real \<Rightarrow> real) \<Rightarrow> 'w rx_env \<Rightarrow> ('w \<Rightarrow> bool) \<Rightarrow> Reactor \<Rightarrow> (nat \<Rightarrow> CompletionDispatcher) \<Rightarrow> 'w
     \<Rightarrow> (Reactor \<times> (nat \<Rightarrow> CompletionDispatcher) \<times> 'w) chk option"
where
  "run_loop rnd E stopped r ds w =
     (if stopped w then Some (Inr (Reactor_Stop r, ds, w))
      else Option.bind (Poll rnd E r ds w) (\<lambda>out.
        case out of Inl u \<Rightarrow> Some (Inl u) | Inr (k, r', ds', w') \<Rightarrow> run_loop rnd E stopped r' ds' w'))"

definition Reactor_Run ::
  "(real \<Rightarrow> real) \<Rightarrow> 'w rx_env \<Rightarrow> ('w \<Rightarrow> bool) \<Rightarrow> Reactor \<Rightarrow> (nat \<Rightarrow> CompletionDispatcher) \<Rightarrow> 'w
     \<Rightarrow> (Reactor \<times> (nat \<Rightarrow> CompletionDispatcher) \<times> 'w) chk option" where
  "Reactor_Run rnd E stopped r ds w = run_loop rnd E stopped (r\<lparr>rx_running := True\<rparr>) ds w"

text \<open>\<open>set_affinity\<close> is \<open>pthread_setaffinity_np\<close>. A failure to pin is only logged.\<close>

definition PinThread :: "(int \<Rightarrow> int) \<Rightarrow> int \<Rightarrow> Status" where
  "PinThread set_affinity cpu_core =
     (if set_affinity cpu_core \<noteq> 0 then Status_IOError ''Failed to set CPU affinity'' (set_affinity cpu_core) else Status_OK)"

definition Reactor_Initialize :: "(int \<Rightarrow> int) \<Rightarrow> Reactor \<Rightarrow> Status" where
  "Reactor_Initialize set_affinity r =
     (let ignored = (if rc_cpu_core (rx_config r) \<ge> 0 then PinThread set_affinity (rc_cpu_core (rx_config r)) else Status_OK)
      in Status_OK)"

section \<open>The buffer is large enough\<close>

text \<open>
  The configurations for which the batch size and the buffer agree. Nothing in \<open>Create\<close> tests this.
\<close>

definition batch_config_ok :: "ReactorConfig \<Rightarrow> bool" where
  "batch_config_ok c \<longleftrightarrow>
     1 \<le> rc_latency_batch_size c \<and> rc_latency_batch_size c \<le> rc_max_batch_size c \<and>
     1 \<le> initial_batch_size c \<and> initial_batch_size c \<le> rc_max_batch_size c"

definition batch_ok :: "Reactor \<Rightarrow> bool" where
  "batch_ok r \<longleftrightarrow> batch_config_ok (rx_config r) \<and> rx_wc_buffer_size r = rc_max_batch_size (rx_config r) \<and>
     1 \<le> rx_batch_size r \<and> rx_batch_size r \<le> rx_wc_buffer_size r"

lemma batch_ok_Create: "Reactor_Create alloc entries c L = (Inr r, L') \<Longrightarrow> batch_config_ok c \<Longrightarrow> batch_ok r"
  by (auto simp: Reactor_Create_def batch_ok_def batch_config_ok_def Let_def split: if_splits)

lemma batch_ok_Adapt: "batch_ok r \<Longrightarrow> batch_ok (AdaptBatchSize rnd r)"
  by (auto simp: batch_ok_def batch_config_ok_def AdaptBatchSize_def Let_def min_def max_def)

lemma batch_ok_finish: "batch_ok r \<Longrightarrow> batch_ok (finish_round rnd k r)"
proof -
  assume "batch_ok r"
  then have "batch_ok (r\<lparr>rx_poll_count := rx_poll_count r + 1\<rparr>)" by (simp add: batch_ok_def)
  from this batch_ok_Adapt [OF this, of rnd] show ?thesis
    by (auto simp: finish_round_def Let_def AdaptiveBackoff_def batch_ok_def)
qed

text \<open>
  What \<open>ibv_poll_cq\<close> promises, no more completions than asked for, and callees that do not
  themselves write out of bounds.
\<close>

definition env_conforms :: "'w rx_env \<Rightarrow> bool" where
  "env_conforms E \<longleftrightarrow>
     (\<forall>cq k w wcs w'. rxe_poll_cq E cq k w = (Inr wcs, w') \<longrightarrow> int (length wcs) \<le> max 0 k) \<and>
     (\<forall>c w. rxe_handle E c w \<noteq> Inl Out_Of_Bounds) \<and> (\<forall>f c w. rxe_task E f c w \<noteq> Inl Out_Of_Bounds) \<and>
     (\<forall>f c w. rxe_poller E f c w \<noteq> Inl Out_Of_Bounds)"

lemma Dispatch_in_bounds: "Dispatch wc d \<noteq> Inl Out_Of_Bounds"
  by (auto simp: Dispatch_def DispatchFromL2_def l0_hit_def call_handler_def Let_def bind_chk_eq_Inl_conv
      split: if_splits option.splits)

lemma DispatchBatch_in_bounds: "DispatchBatch wcs d \<noteq> Inl Out_Of_Bounds"
proof (induction wcs arbitrary: d)
  case (Cons wc wcs)
  then show ?case by (auto simp: bind_chk_eq_Inl_conv Dispatch_in_bounds split: prod.splits)
qed simp

lemma handle_calls_in_bounds: "env_conforms E \<Longrightarrow> handle_calls E cs w \<noteq> Inl Out_Of_Bounds"
  by (induction cs arbitrary: w) (auto simp: bind_chk_eq_Inl_conv env_conforms_def)

lemma run_tasks_in_bounds: "env_conforms E \<Longrightarrow> run_tasks E ts w \<noteq> Inl Out_Of_Bounds"
  by (induction E ts w rule: run_tasks.induct) (auto simp: bind_chk_eq_Inl_conv env_conforms_def)

lemma run_pollers_in_bounds: "env_conforms E \<Longrightarrow> run_pollers E ps w \<noteq> Inl Out_Of_Bounds"
  by (induction E ps w rule: run_pollers.induct) (auto simp: bind_chk_eq_Inl_conv env_conforms_def split: prod.splits)

lemma poll_cqs_bounded:
  assumes "env_conforms E" and "batch_ok r"
  shows "poll_cqs E es r ds w \<noteq> Inl Out_Of_Bounds \<and>
    (\<forall>k r' rest. poll_cqs E es r ds w = Inr (k, r', rest) \<longrightarrow> batch_ok r')"
  using assms(2)
proof (induction es arbitrary: r ds w)
  case (Cons e es)
  obtain cq d where e: "e = (cq, d)" by (cases e)
  obtain out w1 where out: "rxe_poll_cq E (cq_raw cq) (rx_batch_size r) w = (out, w1)"
    by (cases "rxe_poll_cq E (cq_raw cq) (rx_batch_size r) w")
  show ?case
  proof (cases out)
    case (Inl c)
    with Cons.IH [OF Cons.prems, of ds w1] out e show ?thesis by simp
  next
    case (Inr wcs)
    let ?r = "r\<lparr>rx_total_wc_count := rx_total_wc_count r + of_nat (length wcs)\<rparr>"
    have "int (length wcs) \<le> max 0 (rx_batch_size r)" using assms(1) out Inr unfolding env_conforms_def by blast
    then have fits: "\<not> int (length wcs) > rx_wc_buffer_size r" using Cons.prems by (simp add: batch_ok_def)
    have "batch_ok ?r" using Cons.prems by (simp add: batch_ok_def)
    note ih = Cons.IH [OF this] and ih0 = Cons.IH [OF Cons.prems, of ds w1]
    show ?thesis
    proof (cases "wcs = []")
      case True
      with ih0 out Inr e fits show ?thesis by simp
    next
      case False
      then have eq: "poll_cqs E (e # es) r ds w =
          bind_chk (DispatchBatch wcs (ds d)) (\<lambda>(cs, d1). bind_chk (handle_calls E cs w1) (\<lambda>w2.
            bind_chk (poll_cqs E es ?r (ds(d := d1)) w2) (\<lambda>(k, rest). Inr (int (length wcs) + k, rest))))"
        using fits out e Inr by simp
      have last: "bind_chk m (\<lambda>(k, rest). Inr (int (length wcs) + k, rest)) \<noteq> Inl Out_Of_Bounds \<and>
          (\<forall>k r' rest. bind_chk m (\<lambda>(k, rest). Inr (int (length wcs) + k, rest)) = Inr (k, r', rest) \<longrightarrow> batch_ok r')"
        if "m \<noteq> Inl Out_Of_Bounds \<and> (\<forall>k r' rest. m = Inr (k, r', rest) \<longrightarrow> batch_ok r')"
        for m :: "(int \<times> Reactor \<times> (nat \<Rightarrow> CompletionDispatcher) \<times> 'a) chk"
        using that by (cases m) auto
      show ?thesis
      proof (cases "DispatchBatch wcs (ds d)")
        case (Inl u)
        with eq DispatchBatch_in_bounds [of wcs "ds d"] show ?thesis by simp
      next
        case (Inr p)
        obtain cs d1 where p: "p = (cs, d1)" by (cases p)
        show ?thesis
        proof (cases "handle_calls E cs w1")
          case (Inl u)
          with eq \<open>DispatchBatch wcs (ds d) = Inr p\<close> p handle_calls_in_bounds [OF assms(1), of cs w1] show ?thesis by simp
        next
          case (Inr w2)
          with eq \<open>DispatchBatch wcs (ds d) = Inr p\<close> p have "poll_cqs E (e # es) r ds w =
              bind_chk (poll_cqs E es ?r (ds(d := d1)) w2) (\<lambda>(k, rest). Inr (int (length wcs) + k, rest))" by simp
          then show ?thesis using last [OF ih [of "ds(d := d1)" w2]] by metis
        qed
      qed
    qed
  qed
qed simp

lemma Poll_bounded:
  assumes "env_conforms E" and "batch_ok r"
  shows "Poll rnd E r ds w \<noteq> Some (Inl Out_Of_Bounds)"
    and "Poll rnd E r ds w = Some (Inr (k, r', rest)) \<Longrightarrow> batch_ok r'"
proof -
  note b = poll_cqs_bounded [OF assms, of "rx_cq_entries r" ds w]
  have keep: "batch_ok (q\<lparr>rx_tasks := []\<rparr>)" "batch_ok (q\<lparr>rx_wheel := t\<rparr>)" if "batch_ok q" for q t
    using that by (simp_all add: batch_ok_def)
  show "Poll rnd E r ds w \<noteq> Some (Inl Out_Of_Bounds)"
    using b run_tasks_in_bounds [OF assms(1)] run_pollers_in_bounds [OF assms(1)]
    by (auto simp: Poll_def ProcessTasks_def bind_chk_eq_Inl_conv bind_chk_eq_Inr_conv
        split: sum.splits option.splits prod.splits)
  show "Poll rnd E r ds w = Some (Inr (k, r', rest)) \<Longrightarrow> batch_ok r'"
    using b by (auto simp: Poll_def ProcessTasks_def ProcessTimeouts_def bind_chk_eq_Inr_conv
        split: sum.splits option.splits prod.splits intro!: batch_ok_finish keep)
qed

section \<open>The life of a reactor\<close>

inductive rx_step ::
  "(real \<Rightarrow> real) \<Rightarrow> 'w rx_env \<Rightarrow> Reactor \<times> (nat \<Rightarrow> CompletionDispatcher) \<times> 'w
     \<Rightarrow> Reactor \<times> (nat \<Rightarrow> CompletionDispatcher) \<times> 'w \<Rightarrow> bool" for rnd E where
  poll: "Poll rnd E r ds w = Some (Inr (k, r', ds', w')) \<Longrightarrow> rx_step rnd E (r, ds, w) (r', ds', w')"
| register_cq: "rx_step rnd E (r, ds, w) (RegisterCQ cq d r, ds, w)"
| register_poller: "rx_step rnd E (r, ds, w) (RegisterPoller fn ctx r, ds, w)"
| schedule: "rx_step rnd E (r, ds, w) (ScheduleTimeout slot gen ms r, ds, w)"
| execute: "rx_step rnd E (r, ds, w) (Execute t r, ds, w)"
| outside: "rx_step rnd E (r, ds, w) (r, ds', w')"

lemma rx_step_batch:
  assumes "env_conforms E"
  shows "rx_step rnd E x y \<Longrightarrow> batch_ok (fst x) \<Longrightarrow> batch_ok (fst y)"
proof (induction rule: rx_step.induct)
  case (poll r ds w k r' ds' w')
  then show ?case using Poll_bounded(2) [OF assms, of r] by auto
qed (simp_all add: RegisterCQ_def RegisterPoller_def ScheduleTimeout_def Execute_def batch_ok_def)

lemma rx_run_batch:
  assumes "env_conforms E" and "(rx_step rnd E)\<^sup>*\<^sup>* x y" and "batch_ok (fst x)"
  shows "batch_ok (fst y)"
proof -
  have "kept_invariant (rx_step rnd E) (\<lambda>x. batch_ok (fst x))"
    by unfold_locales (rule rx_step_batch [OF assms(1)])
  from kept_invariant.run_keeps [OF this assms(2,3)] show ?thesis .
qed

text \<open>
  C17. A reactor whose configured batch sizes fit its completion buffer polls inside the buffer for
  ever: whatever is registered, scheduled and dispatched, and however the floating-point results of
  the adaptation are rounded, the batch size stays between one and the size of the buffer, and no
  round writes a completion outside it.
\<close>

theorem reactor_polls_inside_buffer:
  assumes "Reactor_Create alloc entries c L = (Inr r0, L')" and "batch_config_ok c" and "env_conforms E"
    and "(rx_step rnd E)\<^sup>*\<^sup>* (r0, ds0, w0) (r, ds, w)"
  shows "1 \<le> rx_batch_size r \<and> rx_batch_size r \<le> rx_wc_buffer_size r \<and> Poll rnd E r ds w \<noteq> Some (Inl Out_Of_Bounds)"
proof -
  have ok: "batch_ok r" using rx_run_batch [OF assms(3,4)] batch_ok_Create [OF assms(1,2)] by simp
  with Poll_bounded(1) [OF assms(3) ok, of rnd ds w] show ?thesis by (auto simp: batch_ok_def)
qed

text \<open>A world that is the list of pending completions.\<close>

definition sample_rx_env :: "ibv_wc list rx_env" where
  "sample_rx_env =
     \<lparr>rxe_poll_cq = (\<lambda>cq k w. (Inr (take (nat k) w), drop (nat k) w)), rxe_handle = (\<lambda>c w. Inr w),
      rxe_task = (\<lambda>f c w. Inr w), rxe_poller = (\<lambda>f c w. Inr (0, w))\<rparr>"

lemma sample_rx_env_conforms: "env_conforms sample_rx_env"
  by (auto simp: env_conforms_def sample_rx_env_def)

definition sample_entries :: entry_heap where
  "sample_entries = (\<lambda>_. \<lparr>te_slot_index = 0, te_generation = 0, te_next = None\<rparr>)"

definition sample_reactor :: "ReactorConfig \<Rightarrow> Reactor" where
  "sample_reactor c = projr (fst (Reactor_Create (\<lambda>_ _. 4096) sample_entries c ledger_empty))"

lemma sample_reactor_created:
  "\<exists>L'. Reactor_Create (\<lambda>_ _. 4096) sample_entries c ledger_empty = (Inr (sample_reactor c), L')"
  by (simp add: sample_reactor_def Reactor_Create_def Let_def)

theorem reactor_polls_inside_buffer_witness:
  "Poll (\<lambda>x. x) sample_rx_env (sample_reactor ReactorConfig_default) (\<lambda>_. Dispatcher_new) [sample_wc 3] \<noteq>
     Some (Inl Out_Of_Bounds)"
proof -
  obtain L' where "Reactor_Create (\<lambda>_ _. 4096) sample_entries ReactorConfig_default ledger_empty =
      (Inr (sample_reactor ReactorConfig_default), L')" using sample_reactor_created by blast
  from reactor_polls_inside_buffer [OF this _ sample_rx_env_conforms rtranclp.rtrancl_refl] show ?thesis
    by (simp add: batch_config_ok_def ReactorConfig_default_def initial_batch_size_def)
qed

text \<open>
  Without that agreement the buffer overflows: a reactor created in adaptive mode starts with a
  batch of 32 whatever its maximum, so with a maximum below 32 its first round writes past the buffer
  as soon as a completion queue has 32 completions.
\<close>

theorem reactor_adaptive_overflow:
  assumes "Reactor_Create alloc entries c L = (Inr r, L')" and "rc_batch_mode c = ADAPTIVE" and "rc_max_batch_size c < 32"
    and "rxe_poll_cq E (cq_raw cq) 32 w = (Inr wcs, w')" and "length wcs = 32"
  shows "Poll rnd E (RegisterCQ cq d r) ds w = Some (Inl Out_Of_Bounds)"
proof -
  have "rx_batch_size (RegisterCQ cq d r) = 32" "rx_wc_buffer_size (RegisterCQ cq d r) < 32"
    "rx_cq_entries (RegisterCQ cq d r) = [(cq, d)]"
    using assms(1-3) by (auto simp: Reactor_Create_def RegisterCQ_def initial_batch_size_def Let_def split: if_splits)
  with assms(4,5) show ?thesis by (simp add: Poll_def)
qed

theorem reactor_adaptive_overflow_witness:
  "\<exists>c. rc_max_batch_size c = 16 \<and>
     Poll (\<lambda>x. x) sample_rx_env
       (RegisterCQ \<lparr>cq_raw = 5, cq_channel = 0, cq_device = None, cq_depth = 64, cq_outstanding = 0\<rparr> 0 (sample_reactor c))
       (\<lambda>_. Dispatcher_new) (replicate 32 (sample_wc 3)) = Some (Inl Out_Of_Bounds)"
proof -
  let ?c = "ReactorConfig_default\<lparr>rc_batch_mode := ADAPTIVE, rc_max_batch_size := 16\<rparr>"
  obtain L' where "Reactor_Create (\<lambda>_ _. 4096) sample_entries ?c ledger_empty = (Inr (sample_reactor ?c), L')"
    using sample_reactor_created by blast
  from reactor_adaptive_overflow [OF this, of sample_rx_env _ "replicate 32 (sample_wc 3)" "replicate 32 (sample_wc 3)" "[]"]
  show ?thesis by (intro exI [of _ ?c]) (simp add: sample_rx_env_def)
qed

text \<open>Every queued task runs once, the newest first.\<close>

lemma ProcessTasks_newest_first:
  assumes "rx_tasks r = []"
  shows "ProcessTasks E (fold Execute ts r) w =
    bind_chk (run_tasks E (rev ts) w) (\<lambda>w1. Inr (int (length ts), r\<lparr>rx_tasks := []\<rparr>, w1))"
proof -
  have "fold Execute ts q = q\<lparr>rx_tasks := rev ts @ rx_tasks q\<rparr>" for q
    by (induction ts arbitrary: q) (simp_all add: Execute_def)
  with assms show ?thesis by (simp add: ProcessTasks_def)
qed

end
