(* ===== verification/Kv_Server.thy ===== *)
theory Kv_Server
  imports Kv_Store Registered_Memory Connection_Manager Buffer_Pool Tcp_Handshake Reactor
begin

text \<open>
  \<open>examples/kv_server.h\<close> and \<open>examples/kv_server.cpp\<close>: the key-value server. Its record holds the
  store, the buffer pool, the connection manager, the contexts of the connections, the two tables of
  posted buffers, the bytes of the registered memory, the device and the ledger of handles. A pointer
  to a connection is its id in the manager's table, and following one that is no longer there is
  \<open>Inl Null_Deref\<close>. A request is the list of the \<open>request_len\<close> bytes at \<open>request_data\<close>: the receive
  buffer they lie in is not in the pool while the request is processed. Console output is left out.
\<close>

section \<open>State\<close>

record ConnectionContext =
  ctx_conn :: u16
  ctx_requests_processed :: u64
  ctx_gets_processed :: u64
  ctx_puts_processed :: u64

record 'n KVServer =
  sv_device :: RdmaDevice
  sv_pd :: ProtectionDomain
  sv_send_cq :: CompletionQueue
  sv_recv_cq :: CompletionQueue
  sv_store :: KVStore
  sv_pool :: LocalBufferPool
  sv_manager :: ConnectionManager
  sv_contexts :: "u16 \<Rightarrow> ConnectionContext option"
  sv_posted_recv :: "u64 \<Rightarrow> (Buffer \<times> u16) option"
  sv_posted_send :: "u64 \<Rightarrow> Buffer option"
  sv_dispatcher :: CompletionDispatcher
  sv_self :: ptr
  sv_reactor :: Reactor
  sv_handshake :: TcpServer
  sv_port :: u16
  sv_mem :: memory
  sv_net :: 'n
  sv_ledger :: ledger

text \<open>The two lambdas registered with the dispatcher.\<close>

definition kHandleCompletion :: nat where
  "kHandleCompletion = 0"

definition kOnError :: nat where
  "kOnError = 1"

definition conn_at :: "u16 \<Rightarrow> 'n KVServer \<Rightarrow> Connection chk" where
  "conn_at i s = (case GetConnection i (sv_manager s) of None \<Rightarrow> Inl Null_Deref | Some c \<Rightarrow> Inr c)"

definition set_conn :: "u16 \<Rightarrow> Connection \<Rightarrow> 'n KVServer \<Rightarrow> 'n KVServer" where
  "set_conn i c s =
     s\<lparr>sv_manager := (sv_manager s)\<lparr>cm_connections := (cm_connections (sv_manager s))[unat i := Some c]\<rparr>\<rparr>"

definition update_ctx :: "(ConnectionContext \<Rightarrow> ConnectionContext) \<Rightarrow> u16 \<Rightarrow> 'n KVServer \<Rightarrow> 'n KVServer" where
  "update_ctx f cid s = s\<lparr>sv_contexts := (sv_contexts s)(cid := map_option f (sv_contexts s cid))\<rparr>"

definition free_buffer :: "Buffer \<Rightarrow> 'n KVServer \<Rightarrow> 'n KVServer chk" where
  "free_buffer b s = bind_chk (Pool_Free b (sv_pool s)) (\<lambda>p. Inr (s\<lparr>sv_pool := p\<rparr>))"

section \<open>Receive buffers\<close>

definition recv_wr_id :: "u16 \<Rightarrow> Buffer \<Rightarrow> u64" where
  "recv_wr_id conn_id buf = WrId_Encode conn_id RECV 0 (ucast (buf_addr buf AND 0xFFFFFFFF))"

primrec PostRecvBuffers :: "'n qp_verbs \<Rightarrow> u16 \<Rightarrow> nat \<Rightarrow> 'n KVServer \<Rightarrow> 'n KVServer chk" where
  "PostRecvBuffers V conn 0 s = Inr s"
| "PostRecvBuffers V conn (Suc count) s =
     bind_chk (Pool_Allocate (sv_pool s)) (\<lambda>(buf, p).
       let s1 = s\<lparr>sv_pool := p\<rparr>
       in if Buffer_IsValid buf
          then bind_chk (conn_at conn s1) (\<lambda>c.
                 let wr_id = recv_wr_id (conn_id_of c) buf
                 in PostRecvBuffers V conn count
                      (s1\<lparr>sv_posted_recv := (sv_posted_recv s1)(wr_id \<mapsto> (buf, conn_id_of c)),
                          sv_net := snd (Conn_PostRecv V buf wr_id c (sv_net s1))\<rparr>))
          else PostRecvBuffers V conn count s1)"

section \<open>Requests\<close>

text \<open>The end of the three operations that answer: the buffer is tracked and its first bytes are sent.\<close>

definition send_response :: "'n qp_verbs \<Rightarrow> u16 \<Rightarrow> Buffer \<Rightarrow> nat \<Rightarrow> u32 \<Rightarrow> 'n KVServer \<Rightarrow> 'n KVServer chk" where
  "send_response V conn response_buf response_len seq s =
     bind_chk (conn_at conn s) (\<lambda>c.
       let wr_id = WrId_Encode (conn_id_of c) REQUEST_SEND 0 seq;
           (_, c', n') = Conn_Send V (Buffer_Slice 0 (of_nat response_len) response_buf) wr_id c (sv_net s)
       in Inr (set_conn conn c' (s\<lparr>sv_posted_send := (sv_posted_send s)(wr_id \<mapsto> response_buf), sv_net := n'\<rparr>)))"

definition SendErrorResponse :: "'n qp_verbs \<Rightarrow> u16 \<Rightarrow> u64 \<Rightarrow> KvStatus \<Rightarrow> 'n KVServer \<Rightarrow> 'n KVServer chk" where
  "SendErrorResponse V conn key status s =
     bind_chk (Pool_Allocate (sv_pool s)) (\<lambda>(response_buf, p).
       let s1 = s\<lparr>sv_pool := p\<rparr>
       in if \<not> Buffer_IsValid response_buf then Inr s1
          else bind_chk (buf_write response_buf 0 (Response_bytes (SetPutResponse key status)) (sv_mem s1)) (\<lambda>m.
                 send_response V conn response_buf sizeof_ResponseHeader 0 (s1\<lparr>sv_mem := m\<rparr>)))"

text \<open>\<open>cid\<close> is the key of the context in the table.\<close>

definition ProcessGet :: "'n qp_verbs \<Rightarrow> RequestHeader \<Rightarrow> u16 \<Rightarrow> ConnectionContext \<Rightarrow> 'n KVServer \<Rightarrow> 'n KVServer chk" where
  "ProcessGet V header cid ctx s =
     bind_chk (Pool_Allocate (sv_pool s)) (\<lambda>(response_buf, p).
       let s1 = s\<lparr>sv_pool := p\<rparr>
       in if \<not> Buffer_IsValid response_buf then Inr s1
          else
            bind_chk (Get (rq_key header) MAX_VALUE_SIZE (sv_store s1)) (\<lambda>(status, v).
            bind_chk (buf_write response_buf sizeof_ResponseHeader v (sv_mem s1)) (\<lambda>m1.
            bind_chk (buf_write response_buf 0
                (Response_bytes (SetGetResponse (rq_key header) status (if status = KV_OK then of_nat (length v) else 0))) m1) (\<lambda>m2.
            bind_chk (send_response V (ctx_conn ctx) response_buf
                (sizeof_ResponseHeader + (if status = KV_OK then length v else 0))
                (ucast (ctx_gets_processed ctx AND 0xFFFFFFFF)) (s1\<lparr>sv_mem := m2\<rparr>)) (\<lambda>s2.
              Inr (update_ctx (\<lambda>c. c\<lparr>ctx_gets_processed := ctx_gets_processed c + 1\<rparr>) cid s2))))))"

text \<open>The store operation of a PUT: the offset of the value in the request depends on the descriptors.\<close>

definition put_request :: "RequestHeader \<Rightarrow> u8 list \<Rightarrow> KVStore \<Rightarrow> (KvStatus \<times> KVStore) chk" where
  "put_request header request st =
     (if rq_segment_count header = 0
      then (if length request < sizeof_RequestHeader + unat (rq_value_size header) then Inr (KV_INVALID_REQUEST, st)
            else Put (rq_key header) (drop sizeof_RequestHeader request) (rq_value_size header) st)
      else let desc_size = unat (rq_segment_count header) * sizeof_SegmentDescriptor
           in if length request < sizeof_RequestHeader + desc_size + unat (rq_value_size header)
              then Inr (KV_INVALID_REQUEST, st)
              else Put (rq_key header) (drop (sizeof_RequestHeader + desc_size) request) (rq_value_size header) st)"

definition ProcessPut ::
  "'n qp_verbs \<Rightarrow> RequestHeader \<Rightarrow> u8 list \<Rightarrow> u16 \<Rightarrow> ConnectionContext \<Rightarrow> 'n KVServer \<Rightarrow> 'n KVServer chk" where
  "ProcessPut V header request cid ctx s =
     bind_chk (put_request header request (sv_store s)) (\<lambda>(status, st).
     bind_chk (Pool_Allocate (sv_pool s)) (\<lambda>(response_buf, p).
       let s1 = s\<lparr>sv_store := st, sv_pool := p\<rparr>
       in if \<not> Buffer_IsValid response_buf then Inr s1
          else
            bind_chk (buf_write response_buf 0 (Response_bytes (SetPutResponse (rq_key header) status)) (sv_mem s1)) (\<lambda>m.
            bind_chk (send_response V (ctx_conn ctx) response_buf sizeof_ResponseHeader
                (ucast (ctx_puts_processed ctx AND 0xFFFFFFFF)) (s1\<lparr>sv_mem := m\<rparr>)) (\<lambda>s2.
              Inr (update_ctx (\<lambda>c. c\<lparr>ctx_puts_processed := ctx_puts_processed c + 1\<rparr>) cid s2)))))"

definition ProcessRequest :: "'n qp_verbs \<Rightarrow> u8 list \<Rightarrow> u16 \<Rightarrow> ConnectionContext \<Rightarrow> 'n KVServer \<Rightarrow> 'n KVServer chk" where
  "ProcessRequest V request cid ctx s =
     (case Request_of request of
        None \<Rightarrow> SendErrorResponse V (ctx_conn ctx) 0 KV_INVALID_REQUEST s
      | Some header \<Rightarrow>
          if rq_op_type header = OpType_code GET then ProcessGet V header cid ctx s
          else if rq_op_type header = OpType_code PUT then ProcessPut V header request cid ctx s
          else SendErrorResponse V (ctx_conn ctx) (rq_key header) KV_INVALID_REQUEST s)"

section \<open>Completions\<close>

text \<open>
  The length of a request is the one the device reports; like the code, \<open>HandleRequest\<close> does not compare
  it with the length of the buffer, which the device has been told.
\<close>

definition HandleRequest :: "'n qp_verbs \<Rightarrow> u16 \<Rightarrow> ibv_wc \<Rightarrow> 'n KVServer \<Rightarrow> 'n KVServer chk" where
  "HandleRequest V conn_id wc s =
     (case sv_contexts s conn_id of
        None \<Rightarrow> Inr s
      | Some ctx \<Rightarrow>
          (case sv_posted_recv s (wc_wr_id wc) of
             None \<Rightarrow> Inr s
           | Some (recv_buf, _) \<Rightarrow>
               let s1 = s\<lparr>sv_posted_recv := (sv_posted_recv s)(wc_wr_id wc := None)\<rparr>
               in if unat (wc_byte_len wc) < sizeof_RequestHeader
                  then bind_chk (free_buffer recv_buf s1) (PostRecvBuffers V (ctx_conn ctx) 1)
                  else
                    bind_chk (ProcessRequest V (mem_read (buf_addr recv_buf) (unat (wc_byte_len wc)) (sv_mem s1)) conn_id ctx s1) (\<lambda>s2.
                    bind_chk (free_buffer recv_buf s2) (\<lambda>s3.
                    bind_chk (PostRecvBuffers V (ctx_conn ctx) 1 s3) (\<lambda>s4.
                      Inr (update_ctx (\<lambda>c. c\<lparr>ctx_requests_processed := ctx_requests_processed c + 1\<rparr>) conn_id s4))))))"

definition HandleCompletion :: "'n qp_verbs \<Rightarrow> ibv_wc \<Rightarrow> 'n KVServer \<Rightarrow> 'n KVServer chk" where
  "HandleCompletion V wc s =
     (if wc_status wc \<noteq> IBV_WC_SUCCESS then Inr s
      else if WrId_GetOpcode (wc_wr_id wc) = Some RECV then HandleRequest V (WrId_GetConnId (wc_wr_id wc)) wc s
      else if WrId_GetOpcode (wc_wr_id wc) = Some REQUEST_SEND
      then (case sv_posted_send s (wc_wr_id wc) of
              None \<Rightarrow> Inr s
            | Some b \<Rightarrow>
                bind_chk (free_buffer b s) (\<lambda>s1.
                  Inr (s1\<lparr>sv_posted_send := (sv_posted_send s1)(wc_wr_id wc := None)\<rparr>)))
      else Inr s)"

definition OnError :: "'n qp_verbs \<Rightarrow> u16 \<Rightarrow> 'n KVServer \<Rightarrow> 'n KVServer" where
  "OnError V conn_id s =
     (let (m, n, L) = RemoveConnection V conn_id (sv_manager s) (sv_net s) (sv_ledger s)
      in s\<lparr>sv_contexts := (sv_contexts s)(conn_id := None), sv_manager := m, sv_net := n, sv_ledger := L\<rparr>)"

section \<open>Accepting connections\<close>

text \<open>
  What the environment contributes to one call of \<open>AcceptConnections\<close>: the outcomes of the socket
  calls, the bytes the client sends, the padding of the message, \<open>Connection::Create\<close> with the
  default configuration and the port queries.
\<close>

record accept_env =
  ae_poll :: "int + nat"
  ae_accept :: "int + int"
  ae_peer :: "(string \<times> string) option"
  ae_create :: "ProtectionDomain option \<Rightarrow> CompletionQueue option \<Rightarrow> CompletionQueue option \<Rightarrow> ConnectionConfig \<Rightarrow> ledger
      \<Rightarrow> Connection Result \<times> ledger"
  ae_config :: ConnectionConfig
  ae_query_port :: "ptr \<Rightarrow> u8 \<Rightarrow> int + u16 \<times> u32"
  ae_query_gid :: "ptr \<Rightarrow> u8 \<Rightarrow> int \<Rightarrow> int + u8 list"
  ae_padding :: "u16 \<times> u8 \<times> u32"
  ae_writes :: "sys_ret list"
  ae_reads :: "sys_ret list"
  ae_stream :: "u8 list"

definition remove_conn :: "'n qp_verbs \<Rightarrow> u16 \<Rightarrow> 'n KVServer \<Rightarrow> 'n KVServer" where
  "remove_conn V conn_id s =
     (let (m, n, L) = RemoveConnection V conn_id (sv_manager s) (sv_net s) (sv_ledger s)
      in s\<lparr>sv_manager := m, sv_net := n, sv_ledger := L\<rparr>)"

text \<open>The exchange of parameters on the channel; \<open>None\<close> while a socket call blocks, \<open>Some None\<close> on failure.\<close>

definition exchange_params :: "accept_env \<Rightarrow> TcpChannel \<Rightarrow> HandshakeMessage \<Rightarrow> HandshakeMessage option option" where
  "exchange_params E channel msg =
     (case ae_padding E of (p1, p2, p3) \<Rightarrow>
        (case Channel_Send (ae_writes E) (Handshake_bytes p1 p2 p3 msg) channel [] of
           None \<Rightarrow> None
         | Some (st, _) \<Rightarrow>
             if \<not> Status_ok st then Some None
             else case Channel_Receive (ae_reads E) channel (ae_stream E) of
               None \<Rightarrow> None
             | Some (st, got, _) \<Rightarrow> if \<not> Status_ok st then Some None else Some (Some (Handshake_of got))))"

definition establish ::
  "'n qp_verbs \<Rightarrow> u16 \<Rightarrow> HandshakeMessage \<Rightarrow> Connection \<Rightarrow> 'n KVServer \<Rightarrow> 'n KVServer chk" where
  "establish V conn remote_msg c s =
     (let (status, c', n') = Connect V (hm_qp_params remote_msg) c (sv_net s);
          s1 = set_conn conn c' (s\<lparr>sv_net := n'\<rparr>)
      in if \<not> Status_ok status then Inr (remove_conn V (conn_id_of c') s1)
         else PostRecvBuffers V conn 32
                (s1\<lparr>sv_contexts := (sv_contexts s1)(conn_id_of c' \<mapsto>
                      \<lparr>ctx_conn = conn, ctx_requests_processed = 0, ctx_gets_processed = 0, ctx_puts_processed = 0\<rparr>),
                    sv_dispatcher := RegisterConnection (conn_id_of c') (sv_self s1) (Some kHandleCompletion) (sv_dispatcher s1)\<rparr>))"

definition accept_on :: "'n qp_verbs \<Rightarrow> accept_env \<Rightarrow> TcpChannel \<Rightarrow> 'n KVServer \<Rightarrow> 'n KVServer chk option" where
  "accept_on V E channel s =
     (case CreateConnection (ae_create E) (ae_config E) (sv_manager s) (sv_ledger s) of
        Inl u \<Rightarrow> Some (Inl u)
      | Inr (Inl st, m, L) \<Rightarrow> Some (Inr (s\<lparr>sv_manager := m, sv_ledger := L\<rparr>))
      | Inr (Inr conn, m, L) \<Rightarrow>
          let s1 = s\<lparr>sv_manager := m, sv_ledger := L\<rparr>
          in (case conn_at conn s1 of
                Inl u \<Rightarrow> Some (Inl u)
              | Inr c \<Rightarrow>
                  (case Conn_GetLocalParams (ae_query_port E) (ae_query_gid E) c of
                     Inl u \<Rightarrow> Some (Inl u)
                   | Inr (Inl st) \<Rightarrow> Some (Inr (remove_conn V (conn_id_of c) s1))
                   | Inr (Inr params) \<Rightarrow>
                       (case exchange_params E channel
                               (HandshakeMessage_zero\<lparr>hm_qp_params := params, hm_conn_id := conn_id_of c, hm_version := 1\<rparr>) of
                          None \<Rightarrow> None
                        | Some None \<Rightarrow> Some (Inr (remove_conn V (conn_id_of c) s1))
                        | Some (Some remote_msg) \<Rightarrow> Some (establish V conn remote_msg c s1)))))"

text \<open>The channel is destroyed at the end of the call.\<close>

definition AcceptConnections :: "'n qp_verbs \<Rightarrow> accept_env \<Rightarrow> 'n KVServer \<Rightarrow> 'n KVServer chk option" where
  "AcceptConnections V E s =
     (case Channel_Accept (ae_poll E) (ae_accept E) (ae_peer E) (sv_ledger s) of
        (Inl st, L) \<Rightarrow> Some (Inr (s\<lparr>sv_ledger := L\<rparr>))
      | (Inr channel, L) \<Rightarrow>
          map_option (\<lambda>r. bind_chk r (\<lambda>s'. Inr (s'\<lparr>sv_ledger := Channel_dtor channel (sv_ledger s')\<rparr>)))
            (accept_on V E channel (s\<lparr>sv_ledger := L\<rparr>)))"

section \<open>Initialisation\<close>

text \<open>
  What the environment contributes: the allocation of the store, the device, the memory, the buffer
  of the reactor, the listening socket, and the rounding of the default configuration. A member
  created before a failure stays in the object, which \<open>main\<close> destroys as soon as \<open>Initialize\<close> has
  failed: the ledger returned with \<open>None\<close> is the one after that.
\<close>

record server_env =
  se_alloc :: "size_t \<Rightarrow> (nat \<Rightarrow> u8) option"
  se_dev :: dev_verbs
  se_relaxed_ordering :: bool
  se_mem :: mem_env
  se_wc_alloc :: "ledger \<Rightarrow> int \<Rightarrow> ptr"
  se_entries :: entry_heap
  se_addrs :: "(int \<times> bool) list option"
  se_listen_err :: "int option"
  se_rnd :: "real \<Rightarrow> real"

definition server_store_config :: StoreConfig where
  "server_store_config = StoreConfig_default\<lparr>total_storage_size := 1024 * 1024 * 1024, slot_size := ucast MAX_VALUE_SIZE\<rparr>"

definition server_pool_config :: BufferPoolConfig where
  "server_pool_config =
     BufferPoolConfig_default\<lparr>bpc_buffer_size := MAX_REQUEST_SIZE, bpc_buffer_count := 512, bpc_use_hugepage := False\<rparr>"

text \<open>
  The early return on the error of a factory, which leaves what exists to the destructors \<open>dtor\<close> of the
  members, in reverse order.
\<close>

definition try_make ::
  "'a Result \<times> ledger \<Rightarrow> ('a \<Rightarrow> ledger \<Rightarrow> ledger) \<Rightarrow> ('a \<Rightarrow> ledger \<Rightarrow> 'b option \<times> ledger) \<Rightarrow> 'b option \<times> ledger" where
  "try_make r dtor f =
     (case r of
        (Inl _, L) \<Rightarrow> (None, L)
      | (Inr x, L) \<Rightarrow> (case f x L of (None, L') \<Rightarrow> (None, dtor x L') | (Some y, L') \<Rightarrow> (Some y, L')))"

text \<open>Both results are locals: when one queue fails the other is destroyed on return.\<close>

definition create_cqs ::
  "dev_verbs \<Rightarrow> RdmaDevice \<Rightarrow> u32 \<Rightarrow> ledger \<Rightarrow> (CompletionQueue \<times> CompletionQueue) Result \<times> ledger" where
  "create_cqs V device depth L =
     (let config = CompletionQueueConfig_default\<lparr>cqc_cq_depth := depth\<rparr>;
          (send_cq, L1) = CQ_Create V (Some device) config L;
          (recv_cq, L2) = CQ_Create V (Some device) config L1
      in case (send_cq, recv_cq) of
           (Inr s, Inr r) \<Rightarrow> (Inr (s, r), L2)
         | (Inr s, Inl st) \<Rightarrow> (Inl st, CQ_dtor s L2)
         | (Inl st, Inr r) \<Rightarrow> (Inl st, CQ_dtor r L2)
         | (Inl st, Inl _) \<Rightarrow> (Inl st, L2))"

definition cq_pair_dtor :: "CompletionQueue \<times> CompletionQueue \<Rightarrow> ledger \<Rightarrow> ledger" where
  "cq_pair_dtor cqs L = CQ_dtor (fst cqs) (CQ_dtor (snd cqs) L)"

text \<open>The factories in order, once the store is there. A manager without connections has nothing to give back.\<close>

definition make_members ::
  "server_env \<Rightarrow> u16 \<Rightarrow> ptr \<Rightarrow> memory \<Rightarrow> 'n \<Rightarrow> KVStore \<Rightarrow> ledger \<Rightarrow> 'n KVServer option \<times> ledger" where
  "make_members E port this mem net store L =
     try_make (Device_Open (se_dev E) None L) Device_dtor (\<lambda>device L1.
     try_make (PD_Create (se_dev E) (Some device) L1) PD_dtor (\<lambda>pd L2.
     try_make (create_cqs (se_dev E) device 8192 L2) cq_pair_dtor (\<lambda>cqs L3.
     try_make (Pool_Create (se_dev E) (se_relaxed_ordering E) (se_mem E) (Some pd) server_pool_config L3) Pool_dtor (\<lambda>pool L4.
     try_make (Manager_Create (Some pd) (Some (fst cqs)) (Some (snd cqs))
                 ((ConnectionManagerConfig_default (se_rnd E))\<lparr>cmc_max_connections := 256\<rparr>), L4) (\<lambda>_ L. L) (\<lambda>manager L5.
     try_make (Reactor_Create (se_wc_alloc E) (se_entries E)
                 (ReactorConfig_default\<lparr>rc_batch_mode := THROUGHPUT\<rparr>) L5) Reactor_dtor (\<lambda>reactor L6.
     try_make (Server_Create (se_addrs E) (se_listen_err E) port L6) Server_dtor (\<lambda>handshake L7.
       (Some \<lparr>sv_device = device, sv_pd = pd, sv_send_cq = fst cqs, sv_recv_cq = snd cqs, sv_store = store, sv_pool = pool, sv_manager = manager, sv_contexts = Map.empty,
          sv_posted_recv = Map.empty, sv_posted_send = Map.empty,
          sv_dispatcher = SetErrorHandler this (Some kOnError) Dispatcher_new, sv_self = this,
          sv_reactor = RegisterCQ (snd cqs) 0 (RegisterCQ (fst cqs) 0 reactor),
          sv_handshake = handshake, sv_port = port, sv_mem = mem, sv_net = net, sv_ledger = L7\<rparr>, L7))))))))"

definition Server_Initialize ::
  "server_env \<Rightarrow> u16 \<Rightarrow> ptr \<Rightarrow> memory \<Rightarrow> 'n \<Rightarrow> ledger \<Rightarrow> ('n KVServer option \<times> ledger) chk" where
  "Server_Initialize E port this mem net L =
     bind_chk (Store_Initialize (se_alloc E) server_store_config) (\<lambda>st.
       Inr (case st of None \<Rightarrow> (None, L) | Some store \<Rightarrow> make_members E port this mem net store L))"

text \<open>The members in reverse order of their declaration.\<close>

definition KVServer_dtor :: "'n qp_verbs \<Rightarrow> 'n KVServer \<Rightarrow> ledger" where
  "KVServer_dtor V s =
     (let L1 = Reactor_dtor (sv_reactor s) (Server_dtor (sv_handshake s) (sv_ledger s));
          L2 = Pool_dtor (sv_pool s) (snd (Manager_dtor V (sv_manager s) (sv_net s) L1))
      in Device_dtor (sv_device s) (PD_dtor (sv_pd s) (cq_pair_dtor (sv_send_cq s, sv_recv_cq s) L2)))"

section \<open>The main loop\<close>

text \<open>The two lambdas call back into the server; no tasks or pollers are registered with the reactor.\<close>

definition server_handle :: "'n qp_verbs \<Rightarrow> disp_call \<Rightarrow> 'n KVServer \<Rightarrow> 'n KVServer chk" where
  "server_handle V call s =
     (case call of
        Call_Wc f ctx wc \<Rightarrow> HandleCompletion V wc s
      | Call_Error f ctx conn_id st \<Rightarrow> Inr (OnError V conn_id s))"

definition server_rx_env ::
  "(ptr \<Rightarrow> int \<Rightarrow> 'n \<Rightarrow> (int + ibv_wc list) \<times> 'n) \<Rightarrow> 'n qp_verbs \<Rightarrow> 'n KVServer rx_env" where
  "server_rx_env poll_cq V =
     \<lparr>rxe_poll_cq = (\<lambda>cq k s. case poll_cq cq k (sv_net s) of (out, n) \<Rightarrow> (out, s\<lparr>sv_net := n\<rparr>)),
      rxe_handle = server_handle V, rxe_task = (\<lambda>f c s. Inr s), rxe_poller = (\<lambda>f c s. Inr (0, s))\<rparr>"

text \<open>One iteration of \<open>Run\<close>.\<close>

definition server_round ::
  "(real \<Rightarrow> real) \<Rightarrow> (ptr \<Rightarrow> int \<Rightarrow> 'n \<Rightarrow> (int + ibv_wc list) \<times> 'n) \<Rightarrow> 'n qp_verbs \<Rightarrow> accept_env \<Rightarrow> 'n KVServer
     \<Rightarrow> 'n KVServer chk option" where
  "server_round rnd poll_cq V E s =
     (case AcceptConnections V E s of
        None \<Rightarrow> None
      | Some (Inl u) \<Rightarrow> Some (Inl u)
      | Some (Inr s1) \<Rightarrow>
          (case Poll rnd (server_rx_env poll_cq V) (sv_reactor s1) (\<lambda>_. sv_dispatcher s1) s1 of
             None \<Rightarrow> None
           | Some (Inl u) \<Rightarrow> Some (Inl u)
           | Some (Inr (k, r, ds, s2)) \<Rightarrow> Some (Inr (s2\<lparr>sv_reactor := r, sv_dispatcher := ds 0\<rparr>))))"

end
