(* ===== verification/Buffer_Tracking.thy ===== *)
theory Buffer_Tracking
  imports Buffer_Pool
begin

text \<open>
  Who owns the buffers of a pool. The key-value server and its client keep two maps of posted buffers
  beside their pool, one for receives and one for sends. Here is the invariant of such a triple
  (no buffer has two owners) with the lemmas by which allocating, posting, completing and freeing keep
  it, and what becomes of it over a FIFO pool, which never takes a buffer back.
\<close>

section \<open>Ownership over a pool that is not FIFO\<close>

text \<open>
  The buffers of the pool that are neither available nor lost are those of the two maps and those in
  \<open>X\<close>, which the running code holds; no buffer has two of these owners.
\<close>

definition tracking_ok ::
  "LocalBufferPool \<Rightarrow> ('k \<rightharpoonup> Buffer) \<Rightarrow> ('l \<rightharpoonup> Buffer) \<Rightarrow> Buffer set \<Rightarrow> bool" where
  "tracking_ok p R S X \<longleftrightarrow>
     lifo_invar p \<and> ran R \<union> ran S \<union> X \<subseteq> pool_univ p - pool_avail p \<and>
     ran R \<inter> ran S = {} \<and> ran R \<inter> X = {} \<and> ran S \<inter> X = {} \<and> inj_on R (dom R) \<and> inj_on S (dom S)"

lemma tracking_empty: "lifo_invar p \<Longrightarrow> tracking_ok p Map.empty Map.empty {}"
  by (simp add: tracking_ok_def)

lemma tracking_swap: "tracking_ok p R S X \<longleftrightarrow> tracking_ok p S R X"
  by (auto simp: tracking_ok_def)

lemma tracking_track:
  assumes "tracking_ok p R S X" and "b \<in> X"
  shows "tracking_ok p (R(w \<mapsto> b)) S (X - {b})"
proof -
  have "b \<notin> ran R" using assms by (auto simp: tracking_ok_def)
  then have "inj_on (R(w \<mapsto> b)) (dom (R(w \<mapsto> b)))"
    using assms(1) by (auto simp: tracking_ok_def inj_on_def ran_def)
  moreover have "ran (R(w \<mapsto> b)) \<subseteq> insert b (ran R)" by (auto simp: ran_def)
  ultimately show ?thesis using assms by (auto simp: tracking_ok_def)
qed

lemma tracking_untrack:
  assumes "tracking_ok p R S X" and "R w = Some b"
  shows "tracking_ok p (R(w := None)) S (insert b X)"
proof -
  have inj: "inj_on R (dom R)" and b: "b \<in> ran R" using assms by (auto simp: tracking_ok_def ran_def)
  have "b \<notin> ran (R(w := None))"
  proof
    assume "b \<in> ran (R(w := None))"
    then obtain w' where "w' \<noteq> w" "R w' = Some b" by (auto simp: ran_def split: if_splits)
    with inj_onD [OF inj, of w w'] assms(2) show False by auto
  qed
  moreover have "ran (R(w := None)) \<subseteq> ran R" by (auto simp: ran_def split: if_splits)
  moreover have "inj_on (R(w := None)) (dom (R(w := None)))" using inj by (auto simp: inj_on_def)
  ultimately show ?thesis using assms(1) b by (auto simp: tracking_ok_def)
qed

text \<open>The same for the second map.\<close>

lemma tracking_track2: "tracking_ok p R S X \<Longrightarrow> b \<in> X \<Longrightarrow> tracking_ok p R (S(w \<mapsto> b)) (X - {b})"
  using tracking_track tracking_swap by metis

lemma tracking_untrack2: "tracking_ok p R S X \<Longrightarrow> S w = Some b \<Longrightarrow> tracking_ok p R (S(w := None)) (insert b X)"
  using tracking_untrack tracking_swap by metis

lemma tracking_recv:
  assumes "tracking_ok p R S X" and "R w = Some b"
  shows "b \<notin> pool_avail p" and "S w' \<noteq> Some b" and "R w'' = Some b \<Longrightarrow> w = w''"
proof -
  have "b \<in> ran R" using assms(2) by (auto simp: ran_def)
  moreover from this have "b \<notin> ran S" using assms(1) by (auto simp: tracking_ok_def)
  ultimately show "b \<notin> pool_avail p" "S w' \<noteq> Some b" using assms(1) by (auto simp: tracking_ok_def ran_def)
  have "inj_on R (dom R)" using assms(1) by (simp add: tracking_ok_def)
  then show "R w'' = Some b \<Longrightarrow> w = w''" using assms(2) by (metis domI inj_onD)
qed

text \<open>Every posted buffer has one owner: it is not available, is posted under one id, and not both ways.\<close>

definition one_owner :: "LocalBufferPool \<Rightarrow> ('k \<rightharpoonup> Buffer) \<Rightarrow> ('l \<rightharpoonup> Buffer) \<Rightarrow> bool" where
  "one_owner p R S \<longleftrightarrow>
     (\<forall>w b. R w = Some b \<longrightarrow> b \<notin> pool_avail p \<and> (\<forall>w'. S w' \<noteq> Some b) \<and> (\<forall>w'. R w' = Some b \<longrightarrow> w = w')) \<and>
     (\<forall>w b. S w = Some b \<longrightarrow> b \<notin> pool_avail p \<and> (\<forall>w'. S w' = Some b \<longrightarrow> w = w'))"

lemma tracking_owned: "tracking_ok p R S X \<Longrightarrow> one_owner p R S"
  using tracking_recv [of p R S X] tracking_recv(1,3) [of p S R X] by (auto simp: one_owner_def tracking_swap [of p S R X])

lemma Pool_Allocate_size: "Pool_Allocate p = Inr (b, p') \<Longrightarrow> bp_buffer_size p' = bp_buffer_size p \<and>
    (Buffer_IsValid b \<longrightarrow> buf_length b = bp_buffer_size p)"
  by (auto simp: Pool_Allocate_def ring_read_def Buffer_new_def Buffer_null_def Buffer_IsValid_def Let_def
      split: if_splits)

lemma Pool_Free_size: "Pool_Free b p = Inr p' \<Longrightarrow> bp_buffer_size p' = bp_buffer_size p"
  by (auto simp: Pool_Free_def ring_write_def split: if_splits)

lemma tracking_alloc:
  assumes "tracking_ok p R S X"
  obtains (none) "Pool_Allocate p = Inr (Buffer_null, p)" "pool_avail p = {}" "\<not> Buffer_IsValid Buffer_null"
  | (some) b p' where "Pool_Allocate p = Inr (b, p')" "Buffer_IsValid b" "buf_length b = bp_buffer_size p"
      "tracking_ok p' R S (insert b X)" "bp_buffer_size p' = bp_buffer_size p" "b \<notin> X"
proof (cases "bp_count p = 0")
  case True
  moreover have inv: "lifo_invar p" using assms by (simp add: tracking_ok_def)
  ultimately show ?thesis using lifo_pool.alloc_None [OF inv]
    by (intro none) (simp_all add: Pool_Allocate_def pool_alloc_def Buffer_IsValid_def Buffer_null_def)
next
  case False
  have inv: "lifo_invar p" using assms by (simp add: tracking_ok_def)
  from lifo_Allocate [OF inv False] obtain b p' where b: "Pool_Allocate p = Inr (b, p')" by blast
  have "pool_alloc p \<noteq> Inr None"
    using False lifo_pool.alloc_None [OF inv] lifo_avail_card [OF inv] by (auto simp: unat_eq_0)
  then have al: "pool_alloc p = Inr (Some (b, p'))" and v: "Buffer_IsValid b"
    using b by (auto simp: pool_alloc_def split: if_splits)
  note a = lifo_pool.alloc_Some [OF inv al] and sz = Pool_Allocate_size [OF b]
  have "b \<in> pool_univ p'" using a lifo_avail_univ [OF inv] by auto
  then have "tracking_ok p' R S (insert b X)" using assms a by (auto simp: tracking_ok_def)
  moreover have "b \<notin> X" using assms a by (auto simp: tracking_ok_def)
  ultimately show ?thesis using some [OF b v] sz v by blast
qed

lemma tracking_free:
  assumes "tracking_ok p R S X" and "b \<in> X"
  obtains p' where "Pool_Free b p = Inr p'" "tracking_ok p' R S (X - {b})" "bp_buffer_size p' = bp_buffer_size p"
proof -
  have "lifo_invar p" "b \<in> pool_univ p" "b \<notin> pool_avail p" using assms by (auto simp: tracking_ok_def)
  from lifo_Free [OF this] obtain p' where p: "Pool_Free b p = Inr p'" "lifo_invar p'"
    "pool_univ p' = pool_univ p" "pool_avail p' = insert b (pool_avail p)" by blast
  then have "tracking_ok p' R S (X - {b})" using assms by (auto simp: tracking_ok_def)
  with that p(1) Pool_Free_size show ?thesis by blast
qed

section \<open>The FIFO pool\<close>

text \<open>
  The default allocation policy is FIFO, and a FIFO pool that has not got a buffer back cannot get one.
\<close>

definition fifo_unfreed :: "LocalBufferPool \<Rightarrow> bool" where
  "fifo_unfreed p \<longleftrightarrow> bp_policy p = FIFO \<and> bp_tail p = bp_buffer_count p \<and> length (bp_offset_ring p) = unat (bp_buffer_count p)"

lemma fifo_unfreed_Allocate: "fifo_unfreed p \<Longrightarrow> Pool_Allocate p = Inr (b, p') \<Longrightarrow> fifo_unfreed p'"
  by (auto simp: fifo_unfreed_def Pool_Allocate_def bind_chk_eq_Inr_conv Let_def split: if_splits)

lemma fifo_unfreed_Free: "fifo_unfreed p \<Longrightarrow> Pool_Free b p = Inl Out_Of_Bounds"
  by (simp add: fifo_unfreed_def Pool_Free_def ring_write_def)

text \<open>Before anything is freed such a pool hands out buffers of its size until it is empty.\<close>

definition fifo_ready :: "size_t \<Rightarrow> LocalBufferPool \<Rightarrow> bool" where
  "fifo_ready sz p \<longleftrightarrow> bp_policy p = FIFO \<and> length (bp_offset_ring p) = unat (bp_buffer_count p) \<and>
     unat (bp_head p) < unat (bp_buffer_count p) \<and> bp_buffer_size p = sz"

lemma fifo_ready_Allocate:
  assumes "fifo_ready sz p"
  shows "\<exists>b p'. Pool_Allocate p = Inr (b, p') \<and> fifo_ready sz p' \<and> (Buffer_IsValid b \<longrightarrow> buf_length b = sz)"
proof (cases "bp_count p = 0")
  case True
  with assms show ?thesis by (simp add: Pool_Allocate_def Buffer_IsValid_def Buffer_null_def)
next
  case False
  let ?p = "p\<lparr>bp_head := (bp_head p + 1) mod bp_buffer_count p, bp_count := bp_count p - 1\<rparr>"
  have "Pool_Allocate p = Inr (Buffer_new (Pool_GetBufferPtr (bp_offset_ring p ! unat (bp_head p)) ?p) sz (bp_lkey p), ?p)"
    using False assms by (simp add: fifo_ready_def Pool_Allocate_def ring_read_def Let_def)
  moreover have "fifo_ready sz ?p" using assms by (auto simp: fifo_ready_def unat_mod)
  ultimately show ?thesis by (simp add: Buffer_new_def)
qed

end
