(* ===== verification/Kv_Serving.thy ===== *)
theory Kv_Serving
  imports Kv_Server Buffer_Tracking
begin

text \<open>
  What the key-value server of \<open>Kv_Server\<close> does. Its invariant \<open>sv_ok\<close> accounts for every buffer of the
  pool and every connection context and is kept by all the server's steps; an answered request is
  related to the abstract map of the store by \<open>kv_reply\<close>; and the FIFO pool that \<open>Initialize\<close>
  configures is followed from initialisation to the fault of the first request.
\<close>

section \<open>What the server keeps\<close>

text \<open>The buffers posted for receiving, without their contexts.\<close>

definition sv_recvs :: "'n KVServer \<Rightarrow> u64 \<rightharpoonup> Buffer" where
  "sv_recvs s w = map_option fst (sv_posted_recv s w)"

definition sv_buffers :: "'n KVServer \<Rightarrow> Buffer set \<Rightarrow> bool" where
  "sv_buffers s X \<longleftrightarrow> bp_buffer_size (sv_pool s) = MAX_REQUEST_SIZE \<and>
     tracking_ok (sv_pool s) (sv_recvs s) (sv_posted_send s) X"

definition sv_ok :: "'n KVServer \<Rightarrow> Buffer set \<Rightarrow> bool" where
  "sv_ok s X \<longleftrightarrow> kv_inv (sv_store s) \<and> mgr_inv (sv_manager s) \<and>
     (\<forall>cid ctx. sv_contexts s cid = Some ctx \<longrightarrow> ctx_conn ctx = cid \<and> GetConnection cid (sv_manager s) \<noteq> None) \<and>
     sv_buffers s X"

lemma sv_recvs_frame [simp]:
  "sv_recvs (s\<lparr>sv_net := n\<rparr>) = sv_recvs s" "sv_recvs (s\<lparr>sv_mem := m\<rparr>) = sv_recvs s"
  "sv_recvs (s\<lparr>sv_ledger := L\<rparr>) = sv_recvs s" "sv_recvs (s\<lparr>sv_dispatcher := d\<rparr>) = sv_recvs s"
  "sv_recvs (s\<lparr>sv_pool := p\<rparr>) = sv_recvs s" "sv_recvs (s\<lparr>sv_store := st\<rparr>) = sv_recvs s"
  "sv_recvs (s\<lparr>sv_manager := cm\<rparr>) = sv_recvs s" "sv_recvs (s\<lparr>sv_contexts := ctxs\<rparr>) = sv_recvs s"
  "sv_recvs (s\<lparr>sv_posted_send := ps\<rparr>) = sv_recvs s"
  "sv_recvs (s\<lparr>sv_posted_recv := (sv_posted_recv s)(w \<mapsto> (b, c))\<rparr>) = (sv_recvs s)(w \<mapsto> b)"
  "sv_recvs (s\<lparr>sv_posted_recv := (sv_posted_recv s)(w := None)\<rparr>) = (sv_recvs s)(w := None)"
  by (auto simp: sv_recvs_def)

lemma sv_recvs_empty: "sv_posted_recv s = Map.empty \<Longrightarrow> sv_recvs s = Map.empty"
  by (auto simp: sv_recvs_def)

lemma sv_frame [simp]:
  "sv_ok (s\<lparr>sv_net := n\<rparr>) X = sv_ok s X" "sv_ok (s\<lparr>sv_mem := m\<rparr>) X = sv_ok s X"
  "sv_ok (s\<lparr>sv_ledger := L\<rparr>) X = sv_ok s X" "sv_ok (s\<lparr>sv_dispatcher := d\<rparr>) X = sv_ok s X"
  "conn_at i (s\<lparr>sv_net := n\<rparr>) = conn_at i s" "conn_at i (s\<lparr>sv_mem := m\<rparr>) = conn_at i s"
  "conn_at i (s\<lparr>sv_pool := p\<rparr>) = conn_at i s" "conn_at i (s\<lparr>sv_store := st\<rparr>) = conn_at i s"
  by (simp_all add: sv_ok_def sv_buffers_def conn_at_def)

lemma sv_alloc:
  assumes "sv_ok s X"
  obtains (none) "Pool_Allocate (sv_pool s) = Inr (Buffer_null, sv_pool s)"
  | (some) b p where "Pool_Allocate (sv_pool s) = Inr (b, p)" "Buffer_IsValid b" "unat (buf_length b) = 65680"
      "sv_ok (s\<lparr>sv_pool := p\<rparr>) (insert b X)" "b \<notin> X"
proof -
  have "tracking_ok (sv_pool s) (sv_recvs s) (sv_posted_send s) X" using assms by (simp add: sv_ok_def sv_buffers_def)
  then show ?thesis
  proof (cases rule: tracking_alloc)
    case none
    then show ?thesis using that(1) by simp
  next
    case (some b p)
    with assms that(2) show ?thesis by (simp add: sv_ok_def sv_buffers_def MAX_REQUEST_SIZE_def kv_sizes)
  qed
qed

lemma sv_track_send: "sv_ok s X \<Longrightarrow> b \<in> X \<Longrightarrow> sv_ok (s\<lparr>sv_posted_send := (sv_posted_send s)(w \<mapsto> b)\<rparr>) (X - {b})"
  by (simp add: sv_ok_def sv_buffers_def tracking_track2)

lemma sv_track_recv: "sv_ok s X \<Longrightarrow> b \<in> X \<Longrightarrow> sv_ok (s\<lparr>sv_posted_recv := (sv_posted_recv s)(w \<mapsto> (b, c))\<rparr>) (X - {b})"
  by (simp add: sv_ok_def sv_buffers_def tracking_track)

lemma sv_untrack_recv:
  "sv_ok s X \<Longrightarrow> sv_posted_recv s w = Some (b, c) \<Longrightarrow> sv_ok (s\<lparr>sv_posted_recv := (sv_posted_recv s)(w := None)\<rparr>) (insert b X)"
  using tracking_untrack [of "sv_pool s" "sv_recvs s" "sv_posted_send s" X w b] by (simp add: sv_ok_def sv_buffers_def sv_recvs_def)

lemma sv_untrack_send:
  "sv_ok s X \<Longrightarrow> sv_posted_send s w = Some b \<Longrightarrow> sv_ok (s\<lparr>sv_posted_send := (sv_posted_send s)(w := None)\<rparr>) (insert b X)"
  by (simp add: sv_ok_def sv_buffers_def tracking_untrack2)

lemma sv_free:
  assumes "sv_ok s X" and "b \<in> X"
  shows "\<exists>p. Pool_Free b (sv_pool s) = Inr p \<and> free_buffer b s = Inr (s\<lparr>sv_pool := p\<rparr>) \<and> sv_ok (s\<lparr>sv_pool := p\<rparr>) (X - {b})"
proof -
  have "tracking_ok (sv_pool s) (sv_recvs s) (sv_posted_send s) X" using assms(1) by (simp add: sv_ok_def sv_buffers_def)
  then obtain p where "Pool_Free b (sv_pool s) = Inr p" "tracking_ok p (sv_recvs s) (sv_posted_send s) (X - {b})"
    "bp_buffer_size p = bp_buffer_size (sv_pool s)" using assms(2) by (rule tracking_free)
  with assms(1) show ?thesis by (simp add: sv_ok_def sv_buffers_def free_buffer_def)
qed

lemma sv_set_conn:
  assumes ok: "sv_ok s X" and c: "GetConnection i (sv_manager s) = Some c" and same: "conn_id_of c' = conn_id_of c"
  shows "sv_ok (set_conn i c' s) X"
proof -
  have "GetConnection j ((sv_manager s)\<lparr>cm_connections := (cm_connections (sv_manager s))[unat i := Some c']\<rparr>) =
      (if j = i then Some c' else GetConnection j (sv_manager s))" for j
    using c by (auto simp: GetConnection_def nth_list_update word_unat_eq_iff split: if_splits)
  moreover have "mgr_inv ((sv_manager s)\<lparr>cm_connections := (cm_connections (sv_manager s))[unat i := Some c']\<rparr>)"
    using ok c same by (intro mgr_inv_use) (simp_all add: sv_ok_def)
  ultimately show ?thesis using ok by (auto simp: sv_ok_def sv_buffers_def set_conn_def)
qed

lemma sv_update_ctx:
  "sv_ok s X \<Longrightarrow> (\<And>c. ctx_conn (f c) = ctx_conn c) \<Longrightarrow> sv_ok (update_ctx f cid s) X"
  by (auto simp: sv_ok_def sv_buffers_def update_ctx_def)

lemma Conn_Send_id: "Conn_Send V b w c n = (st, c', n') \<Longrightarrow> conn_id_of c' = conn_id_of c"
  using conn_step_id [OF conn_step.send] by fastforce

section \<open>Answering\<close>

text \<open>
  The server answered \<open>resp\<close> on a connection: the bytes lie in a tracked buffer, and the device got a
  send of exactly these bytes under the id the buffer is tracked by.
\<close>

definition answered :: "'n qp_verbs \<Rightarrow> u16 \<Rightarrow> u8 list \<Rightarrow> 'n KVServer \<Rightarrow> 'n KVServer \<Rightarrow> bool" where
  "answered V conn resp s s' \<longleftrightarrow>
     (\<exists>b c seq. GetConnection conn (sv_manager s) = Some c \<and>
        mem_read (buf_addr b) (length resp) (sv_mem s') = resp \<and>
        sv_posted_send s' (WrId_Encode conn REQUEST_SEND 0 seq) = Some b \<and>
        sv_net s' = snd (snd (Conn_Send V (Buffer_new (buf_addr b) (of_nat (length resp)) (buf_lkey b))
                                (WrId_Encode conn REQUEST_SEND 0 seq) c (sv_net s))))"

lemma send_response_ok:
  assumes ok: "sv_ok s X" and b: "b \<in> X" and c: "GetConnection conn (sv_manager s) = Some c"
    and len: "0 < length resp" "length resp \<le> unat (buf_length b)" "n = length resp"
    and mem: "mem_read (buf_addr b) (length resp) (sv_mem s) = resp"
  shows "\<exists>s'. send_response V conn b n seq s = Inr s' \<and> sv_ok s' (X - {b}) \<and> answered V conn resp s s' \<and>
    sv_contexts s' = sv_contexts s \<and> sv_store s' = sv_store s"
proof -
  let ?w = "WrId_Encode conn REQUEST_SEND 0 seq"
  obtain st c' n' where cs: "Conn_Send V (Buffer_new (buf_addr b) (of_nat (length resp)) (buf_lkey b)) ?w c (sv_net s) = (st, c', n')"
    by (cases "Conn_Send V (Buffer_new (buf_addr b) (of_nat (length resp)) (buf_lkey b)) ?w c (sv_net s)")
  define s1 where "s1 = s\<lparr>sv_posted_send := (sv_posted_send s)(?w \<mapsto> b), sv_net := n'\<rparr>"
  have idc: "conn_id_of c = conn" using ok c by (simp add: sv_ok_def mgr_inv_def)
  have "sv_ok s1 (X - {b})" using sv_track_send [OF ok b, of ?w] by (simp add: s1_def)
  moreover have "GetConnection conn (sv_manager s1) = Some c" using c by (simp add: s1_def)
  ultimately have "sv_ok (set_conn conn c' s1) (X - {b})" by (rule sv_set_conn) (rule Conn_Send_id [OF cs])
  moreover have "send_response V conn b n seq s = Inr (set_conn conn c' s1)"
    using cs by (simp add: send_response_def conn_at_def c idc len(3) Buffer_Slice_prefix [OF len(1,2)] s1_def)
  moreover have "answered V conn resp s (set_conn conn c' s1)"
    unfolding answered_def using c cs mem
    by (intro exI [of _ b] exI [of _ c] exI [of _ seq]) (simp add: set_conn_def s1_def)
  ultimately show ?thesis by (auto simp: set_conn_def s1_def)
qed

lemma answered_pool:
  "answered V conn resp (s\<lparr>sv_pool := p\<rparr>) s' = answered V conn resp s s'"
  "answered V conn resp (s\<lparr>sv_mem := m\<rparr>) s' = answered V conn resp s s'"
  "answered V conn resp (s\<lparr>sv_store := st\<rparr>) s' = answered V conn resp s s'"
  "answered V conn resp s (update_ctx f cid s') = answered V conn resp s s'"
  by (simp_all add: answered_def update_ctx_def)

text \<open>The reply a request gets and what it does to the map.\<close>

definition request_value :: "RequestHeader \<Rightarrow> u8 list \<Rightarrow> u8 list option" where
  "request_value h req =
     (let off = 16 + unat (rq_segment_count h) * 8
      in if length req < off + unat (rq_value_size h) then None else Some (take (unat (rq_value_size h)) (drop off req)))"

definition kv_put_result ::
  "nat \<Rightarrow> RequestHeader \<Rightarrow> u8 list \<Rightarrow> (u64 \<Rightarrow> u8 list option) \<Rightarrow> KvStatus \<times> (u64 \<Rightarrow> u8 list option)" where
  "kv_put_result cap h req m =
     (case request_value h req of None \<Rightarrow> (KV_INVALID_REQUEST, m) | Some v \<Rightarrow> kv_spec_put cap (rq_key h) v m)"

definition kv_reply :: "nat \<Rightarrow> u8 list \<Rightarrow> (u64 \<Rightarrow> u8 list option) \<Rightarrow> u8 list \<times> (u64 \<Rightarrow> u8 list option)" where
  "kv_reply cap req m =
     (case Request_of req of
        None \<Rightarrow> (Response_bytes (SetPutResponse 0 KV_INVALID_REQUEST), m)
      | Some h \<Rightarrow>
          if rq_op_type h = OpType_code GET
          then let (st, v) = kv_spec_get (rq_key h) 65536 m
               in (Response_bytes (SetGetResponse (rq_key h) st (of_nat (length v))) @ v, m)
          else if rq_op_type h = OpType_code PUT
          then let (st, m') = kv_put_result cap h req m in (Response_bytes (SetPutResponse (rq_key h) st), m')
          else (Response_bytes (SetPutResponse (rq_key h) KV_INVALID_REQUEST), m))"

lemma Put_take: "unat sz \<le> length data \<Longrightarrow> Put key data sz s = Put key (take (unat sz) data) sz s"
  by (simp add: Put_def min_def cong: if_cong)

lemma put_request_refines:
  assumes "kv_inv st"
  shows "\<exists>status st'. put_request h req st = Inr (status, st') \<and> kv_inv st' \<and> kv_num_slots st' = kv_num_slots st \<and>
    (status, kv_abs st') = kv_put_result (unat (kv_num_slots st)) h req (kv_abs st)"
proof (cases "request_value h req")
  case None
  then have "put_request h req st = Inr (KV_INVALID_REQUEST, st)"
    by (auto simp: put_request_def request_value_def Let_def kv_sizes split: if_splits)
  with None assms show ?thesis by (simp add: kv_put_result_def)
next
  case (Some v)
  then have v: "v = take (unat (rq_value_size h)) (drop (16 + unat (rq_segment_count h) * 8) req)"
    "16 + unat (rq_segment_count h) * 8 + unat (rq_value_size h) \<le> length req"
    by (auto simp: request_value_def Let_def split: if_splits)
  then have "put_request h req st = Put (rq_key h) v (rq_value_size h) st"
    using Put_take [of "rq_value_size h" "drop (16 + unat (rq_segment_count h) * 8) req" "rq_key h" st]
    by (auto simp: put_request_def Let_def kv_sizes)
  moreover have "length v = unat (rq_value_size h)" using v by simp
  ultimately show ?thesis using Put_refines [OF assms, of v "rq_value_size h" "rq_key h"] Some by (simp add: kv_put_result_def)
qed

text \<open>Contexts are updated in place.\<close>

definition ctx_kept :: "'n KVServer \<Rightarrow> 'n KVServer \<Rightarrow> bool" where
  "ctx_kept s s' \<longleftrightarrow> dom (sv_contexts s') = dom (sv_contexts s)"

lemma ctx_kept_update [simp]: "ctx_kept s (update_ctx f cid s') = ctx_kept s s'"
  by (auto simp: ctx_kept_def update_ctx_def dom_def)

lemma SendErrorResponse_ok:
  assumes ok: "sv_ok s X" and c: "GetConnection conn (sv_manager s) = Some c"
  shows "\<exists>s'. SendErrorResponse V conn key st s = Inr s' \<and> sv_ok s' X \<and> ctx_kept s s' \<and> sv_store s' = sv_store s \<and>
    (pool_avail (sv_pool s) \<noteq> {} \<longrightarrow> answered V conn (Response_bytes (SetPutResponse key st)) s s')"
proof -
  have inv: "lifo_invar (sv_pool s)" using ok by (simp add: sv_ok_def sv_buffers_def tracking_ok_def)
  from ok show ?thesis
  proof (cases rule: sv_alloc)
    case none
    moreover have "pool_avail (sv_pool s) = {}"
      using lifo_pool.alloc_None [OF inv] none by (simp add: pool_alloc_def Buffer_IsValid_def Buffer_null_def)
    ultimately show ?thesis using ok by (simp add: SendErrorResponse_def Let_def Buffer_IsValid_def Buffer_null_def ctx_kept_def)
  next
    case (some b p)
    let ?r = "Response_bytes (SetPutResponse key st)"
    define s1 where "s1 = s\<lparr>sv_pool := p, sv_mem := mem_write (buf_addr b) ?r (sv_mem s)\<rparr>"
    have "sv_ok s1 (insert b X)" using some(4) by (simp add: s1_def)
    moreover have "mem_read (buf_addr b) (length ?r) (sv_mem s1) = ?r"
      using mem_read_written [of ?r "buf_addr b" "sv_mem s"] by (simp add: s1_def)
    ultimately have "\<exists>s'. send_response V conn b 16 0 s1 = Inr s' \<and> sv_ok s' (insert b X - {b}) \<and> answered V conn ?r s1 s' \<and>
        sv_contexts s' = sv_contexts s1 \<and> sv_store s' = sv_store s1"
      using c some(3) by (intro send_response_ok) (simp_all add: s1_def)
    then show ?thesis using some
      by (auto simp: SendErrorResponse_def buf_write_def kv_sizes Let_def s1_def answered_pool ctx_kept_def)
  qed
qed

lemma no_buffer:
  assumes "sv_ok s X" and "Pool_Allocate (sv_pool s) = Inr (Buffer_null, sv_pool s)"
  shows "pool_avail (sv_pool s) = {}" and "\<not> Buffer_IsValid Buffer_null"
proof -
  have "lifo_invar (sv_pool s)" using assms(1) by (simp add: sv_ok_def sv_buffers_def tracking_ok_def)
  from lifo_pool.alloc_None [OF this] assms(2) show "pool_avail (sv_pool s) = {}"
    by (simp add: pool_alloc_def Buffer_IsValid_def Buffer_null_def)
qed (simp add: Buffer_IsValid_def Buffer_null_def)

lemma Get_result_size:
  assumes "kv_inv st" and "kv_spec_get key 65536 (kv_abs st) = (status, v)"
  shows "length v \<le> 65536" and "status \<noteq> KV_OK \<Longrightarrow> v = []"
  using assms(2) by (auto simp: kv_spec_get_def split: option.splits if_splits)

lemma ProcessGet_ok:
  assumes ok: "sv_ok s X" and c: "GetConnection (ctx_conn ctx) (sv_manager s) = Some c"
    and g: "kv_spec_get (rq_key h) 65536 (kv_abs (sv_store s)) = (status, v)"
  shows "\<exists>s'. ProcessGet V h cid ctx s = Inr s' \<and> sv_ok s' X \<and> ctx_kept s s' \<and> sv_store s' = sv_store s \<and>
    (pool_avail (sv_pool s) \<noteq> {} \<longrightarrow>
       answered V (ctx_conn ctx) (Response_bytes (SetGetResponse (rq_key h) status (of_nat (length v))) @ v) s s')"
  using ok
proof (cases rule: sv_alloc)
  case none
  with no_buffer [OF ok none] ok show ?thesis by (simp add: ProcessGet_def Let_def ctx_kept_def)
next
  case (some b p)
  have inv: "kv_inv (sv_store s)" using ok by (simp add: sv_ok_def)
  note sz = Get_result_size [OF inv g]
  have get: "Get (rq_key h) MAX_VALUE_SIZE (sv_store s) = Inr (status, v)"
    using Get_refines [OF inv, of "rq_key h" MAX_VALUE_SIZE] g by (simp add: kv_sizes)
  let ?h = "Response_bytes (SetGetResponse (rq_key h) status (of_nat (length v)))"
  define s1 where "s1 = s\<lparr>sv_pool := p, sv_mem := mem_write (buf_addr b) ?h (mem_write (buf_addr b + 16) v (sv_mem s))\<rparr>"
  have "sv_ok s1 (insert b X)" using some(4) by (simp add: s1_def)
  moreover have "mem_read (buf_addr b) (length (?h @ v)) (sv_mem s1) = ?h @ v"
    using mem_read_two_writes [of ?h v "buf_addr b" "sv_mem s"] sz(1) by (simp add: s1_def)
  ultimately have "\<exists>s'. send_response V (ctx_conn ctx) b (16 + length v) (ucast (ctx_gets_processed ctx AND 0xFFFFFFFF)) s1 = Inr s' \<and>
      sv_ok s' (insert b X - {b}) \<and> answered V (ctx_conn ctx) (?h @ v) s1 s' \<and>
      sv_contexts s' = sv_contexts s1 \<and> sv_store s' = sv_store s1"
    using c some(3) sz(1) by (intro send_response_ok) (simp_all add: s1_def)
  then obtain s' where s': "send_response V (ctx_conn ctx) b (16 + length v) (ucast (ctx_gets_processed ctx AND 0xFFFFFFFF)) s1 = Inr s'"
    "sv_ok s' (insert b X - {b})" "answered V (ctx_conn ctx) (?h @ v) s1 s'" "sv_contexts s' = sv_contexts s1" "sv_store s' = sv_store s1"
    by blast
  have len: "(if status = KV_OK then length v else 0) = length v"
    "(if status = KV_OK then of_nat (length v) else 0 :: u32) = of_nat (length v)" using sz(2) by auto
  have "ProcessGet V h cid ctx s = Inr (update_ctx (\<lambda>c. c\<lparr>ctx_gets_processed := ctx_gets_processed c + 1\<rparr>) cid s')"
    using some(1-3) s'(1) sz(1)
    by (simp add: ProcessGet_def Let_def get [unfolded MAX_VALUE_SIZE_def] len buf_write_def kv_sizes s1_def)
  moreover have "sv_ok (update_ctx (\<lambda>c. c\<lparr>ctx_gets_processed := ctx_gets_processed c + 1\<rparr>) cid s') X"
    using s'(2) some(5) by (intro sv_update_ctx) simp_all
  ultimately show ?thesis using s' by (simp add: s1_def answered_pool) (simp add: ctx_kept_def update_ctx_def)
qed

lemma ProcessPut_ok:
  assumes ok: "sv_ok s X" and c: "GetConnection (ctx_conn ctx) (sv_manager s) = Some c"
    and g: "kv_put_result (unat (kv_num_slots (sv_store s))) h req (kv_abs (sv_store s)) = (status, m')"
  shows "\<exists>s'. ProcessPut V h req cid ctx s = Inr s' \<and> sv_ok s' X \<and> ctx_kept s s' \<and> kv_abs (sv_store s') = m' \<and>
    kv_num_slots (sv_store s') = kv_num_slots (sv_store s) \<and>
    (pool_avail (sv_pool s) \<noteq> {} \<longrightarrow> answered V (ctx_conn ctx) (Response_bytes (SetPutResponse (rq_key h) status)) s s')"
proof -
  have inv: "kv_inv (sv_store s)" using ok by (simp add: sv_ok_def)
  from put_request_refines [OF inv, of h req] g obtain st where st: "put_request h req (sv_store s) = Inr (status, st)"
    "kv_inv st" "kv_num_slots st = kv_num_slots (sv_store s)" "kv_abs st = m'" by auto
  have okst: "sv_ok (t\<lparr>sv_store := st\<rparr>) Y" if "sv_ok t Y" for t :: "'a KVServer" and Y
    using that st(2) by (simp add: sv_ok_def sv_buffers_def)
  from ok show ?thesis
  proof (cases rule: sv_alloc)
    case none
    with no_buffer [OF ok none] st okst [OF ok] show ?thesis by (simp add: ProcessPut_def Let_def ctx_kept_def)
  next
    case (some b p)
    let ?r = "Response_bytes (SetPutResponse (rq_key h) status)"
    define s1 where "s1 = s\<lparr>sv_store := st, sv_pool := p, sv_mem := mem_write (buf_addr b) ?r (sv_mem s)\<rparr>"
    have "sv_ok s1 (insert b X)" using okst [OF some(4)] by (simp add: s1_def sv_ok_def sv_buffers_def)
    moreover have "mem_read (buf_addr b) (length ?r) (sv_mem s1) = ?r"
      using mem_read_written [of ?r "buf_addr b" "sv_mem s"] by (simp add: s1_def)
    ultimately have "\<exists>s'. send_response V (ctx_conn ctx) b 16 (ucast (ctx_puts_processed ctx AND 0xFFFFFFFF)) s1 = Inr s' \<and>
        sv_ok s' (insert b X - {b}) \<and> answered V (ctx_conn ctx) ?r s1 s' \<and>
        sv_contexts s' = sv_contexts s1 \<and> sv_store s' = sv_store s1"
      using c some(3) by (intro send_response_ok) (simp_all add: s1_def)
    then obtain s' where s': "send_response V (ctx_conn ctx) b 16 (ucast (ctx_puts_processed ctx AND 0xFFFFFFFF)) s1 = Inr s'"
      "sv_ok s' (insert b X - {b})" "answered V (ctx_conn ctx) ?r s1 s'" "sv_contexts s' = sv_contexts s1" "sv_store s' = sv_store s1"
      by blast
    have "ProcessPut V h req cid ctx s = Inr (update_ctx (\<lambda>c. c\<lparr>ctx_puts_processed := ctx_puts_processed c + 1\<rparr>) cid s')"
      using some(1-3) s'(1) by (simp add: ProcessPut_def Let_def st(1) buf_write_def kv_sizes s1_def)
    moreover have "sv_ok (update_ctx (\<lambda>c. c\<lparr>ctx_puts_processed := ctx_puts_processed c + 1\<rparr>) cid s') X"
      using s'(2) some(5) by (intro sv_update_ctx) simp_all
    ultimately show ?thesis using s' st by (simp add: s1_def answered_pool) (simp add: ctx_kept_def update_ctx_def)
  qed
qed

lemma ProcessRequest_ok:
  assumes ok: "sv_ok s X" and ctx: "sv_contexts s cid = Some ctx"
    and g: "kv_reply (unat (kv_num_slots (sv_store s))) req (kv_abs (sv_store s)) = (resp, m')"
  shows "\<exists>s'. ProcessRequest V req cid ctx s = Inr s' \<and> sv_ok s' X \<and> ctx_kept s s' \<and> kv_abs (sv_store s') = m' \<and>
    kv_num_slots (sv_store s') = kv_num_slots (sv_store s) \<and> (pool_avail (sv_pool s) \<noteq> {} \<longrightarrow> answered V cid resp s s')"
proof -
  have cid: "ctx_conn ctx = cid" and "GetConnection cid (sv_manager s) \<noteq> None" using ok ctx by (auto simp: sv_ok_def)
  then obtain c where c: "GetConnection cid (sv_manager s) = Some c" by auto
  show ?thesis
  proof (cases "Request_of req")
    case None
    with SendErrorResponse_ok [OF ok c, of V 0 KV_INVALID_REQUEST] g cid show ?thesis
      by (auto simp: ProcessRequest_def kv_reply_def)
  next
    case (Some h)
    obtain st v where sv: "kv_spec_get (rq_key h) 65536 (kv_abs (sv_store s)) = (st, v)"
      by (cases "kv_spec_get (rq_key h) 65536 (kv_abs (sv_store s))")
    obtain st2 m2 where sm: "kv_put_result (unat (kv_num_slots (sv_store s))) h req (kv_abs (sv_store s)) = (st2, m2)"
      by (cases "kv_put_result (unat (kv_num_slots (sv_store s))) h req (kv_abs (sv_store s))")
    show ?thesis
      using Some g cid ProcessGet_ok [OF ok _ sv, of ctx c V cid] ProcessPut_ok [OF ok _ sm, of ctx c V cid]
        SendErrorResponse_ok [OF ok c, of V "rq_key h" KV_INVALID_REQUEST] c
      by (auto simp: ProcessRequest_def kv_reply_def sv sm split: if_splits)
  qed
qed

section \<open>The server never goes wrong\<close>

lemma conn_at_live: "GetConnection i (sv_manager s) = Some c \<Longrightarrow> conn_at i s = Inr c"
  by (simp add: conn_at_def)

lemma PostRecvBuffers_ok:
  assumes "sv_ok s X" and "GetConnection conn (sv_manager s) = Some c"
  shows "\<exists>s'. PostRecvBuffers V conn n s = Inr s' \<and> sv_ok s' X \<and> sv_contexts s' = sv_contexts s \<and> sv_store s' = sv_store s \<and>
    sv_manager s' = sv_manager s"
  using assms
proof (induction n arbitrary: s)
  case (Suc n)
  note ok = Suc.prems(1)
  from ok show ?case
  proof (cases rule: sv_alloc)
    case none
    with no_buffer(2) [OF ok none] Suc.IH [OF Suc.prems] show ?thesis by (simp add: Let_def)
  next
    case (some b p)
    let ?w = "recv_wr_id (conn_id_of c) b"
    let ?s = "s\<lparr>sv_pool := p, sv_posted_recv := (sv_posted_recv s)(?w \<mapsto> (b, conn_id_of c)),
      sv_net := snd (Conn_PostRecv V b ?w c (sv_net s))\<rparr>"
    have "sv_ok ?s X" using sv_track_recv [OF some(4), of b ?w "conn_id_of c"] some(5) by simp
    moreover have "GetConnection conn (sv_manager ?s) = Some c" using Suc.prems(2) by simp
    ultimately obtain s' where "PostRecvBuffers V conn n ?s = Inr s' \<and> sv_ok s' X \<and> sv_contexts s' = sv_contexts ?s \<and>
        sv_store s' = sv_store ?s \<and> sv_manager s' = sv_manager ?s"
      using Suc.IH by blast
    then show ?thesis using some(1,2) by (simp add: Let_def conn_at_live [OF Suc.prems(2)])
  qed
qed simp

text \<open>
  The request a completion carries: the bytes of the tracked receive buffer, when the connection is
  known and the bytes make up at least a header.
\<close>

definition carried :: "u16 \<Rightarrow> ibv_wc \<Rightarrow> 'n KVServer \<Rightarrow> u8 list option" where
  "carried cid wc s =
     (if sv_contexts s cid = None \<or> unat (wc_byte_len wc) < sizeof_RequestHeader then None
      else map_option (\<lambda>(b, _). mem_read (buf_addr b) (unat (wc_byte_len wc)) (sv_mem s)) (sv_posted_recv s (wc_wr_id wc)))"

text \<open>What a request does to a key-value map of bounded size, and what it leaves of one that is absent.\<close>

definition kv_effect :: "u8 list option \<Rightarrow> nat \<times> (u64 \<rightharpoonup> u8 list) \<Rightarrow> nat \<times> (u64 \<rightharpoonup> u8 list)" where
  "kv_effect req = (\<lambda>(cap, m). (cap, case req of None \<Rightarrow> m | Some bytes \<Rightarrow> snd (kv_reply cap bytes m)))"

abbreviation sv_view :: "'n KVServer \<Rightarrow> nat \<times> (u64 \<rightharpoonup> u8 list)" where
  "sv_view s \<equiv> (unat (kv_num_slots (sv_store s)), kv_abs (sv_store s))"

lemma HandleRequest_ok:
  assumes ok: "sv_ok s {}"
  shows "\<exists>s'. HandleRequest V cid wc s = Inr s' \<and> sv_ok s' {} \<and> sv_view s' = kv_effect (carried cid wc s) (sv_view s)"
proof (cases "sv_contexts s cid")
  case None
  with ok show ?thesis by (simp add: HandleRequest_def carried_def kv_effect_def)
next
  case (Some ctx)
  show ?thesis
  proof (cases "sv_posted_recv s (wc_wr_id wc)")
    case None
    with Some ok show ?thesis by (simp add: HandleRequest_def carried_def kv_effect_def)
  next
    case w: (Some bc)
    obtain b c0 where bc: "bc = (b, c0)" by (cases bc)
    let ?s = "s\<lparr>sv_posted_recv := (sv_posted_recv s)(wc_wr_id wc := None)\<rparr>"
    have ok1: "sv_ok ?s {b}" using sv_untrack_recv [OF ok] w bc by auto
    have ctx: "sv_contexts ?s cid = Some ctx" "ctx_conn ctx = cid" using Some ok by (auto simp: sv_ok_def)
    have finish: "\<exists>s'. bind_chk (free_buffer b t) (PostRecvBuffers V cid 1) = Inr s' \<and> sv_ok s' {} \<and>
        sv_store s' = sv_store t" if t: "sv_ok t {b}" "sv_contexts t cid \<noteq> None" for t :: "'a KVServer"
    proof -
      from sv_free [OF t(1), of b] obtain p where p: "free_buffer b t = Inr (t\<lparr>sv_pool := p\<rparr>)" "sv_ok (t\<lparr>sv_pool := p\<rparr>) {}" by auto
      from t obtain c where "GetConnection cid (sv_manager (t\<lparr>sv_pool := p\<rparr>)) = Some c" by (auto simp: sv_ok_def)
      from PostRecvBuffers_ok [OF p(2) this, of V 1] p(1) show ?thesis by auto
    qed
    show ?thesis
    proof (cases "unat (wc_byte_len wc) < 16")
      case True
      with finish [OF ok1] Some w bc ctx show ?thesis by (auto simp: HandleRequest_def Let_def kv_sizes carried_def kv_effect_def)
    next
      case False
      let ?req = "mem_read (buf_addr b) (unat (wc_byte_len wc)) (sv_mem ?s)"
      obtain resp m' where g: "kv_reply (unat (kv_num_slots (sv_store ?s))) ?req (kv_abs (sv_store ?s)) = (resp, m')"
        by (cases "kv_reply (unat (kv_num_slots (sv_store ?s))) ?req (kv_abs (sv_store ?s))")
      from ProcessRequest_ok [OF ok1 ctx(1) g, of V] obtain s2 where
        s2: "ProcessRequest V ?req cid ctx ?s = Inr s2" "sv_ok s2 {b}" "ctx_kept ?s s2"
          "sv_view s2 = (unat (kv_num_slots (sv_store s)), m')" by auto
      from s2(3) ctx(1) have "sv_contexts s2 cid \<noteq> None" unfolding ctx_kept_def by (metis domIff option.distinct(1))
      from finish [OF s2(2) this] obtain s4 where
        s4: "bind_chk (free_buffer b s2) (PostRecvBuffers V cid 1) = Inr s4" "sv_ok s4 {}" "sv_store s4 = sv_store s2" by blast
      then obtain s3 where s3: "free_buffer b s2 = Inr s3" "PostRecvBuffers V cid 1 s3 = Inr s4"
        by (cases "free_buffer b s2") auto
      have "HandleRequest V cid wc s =
          Inr (update_ctx (\<lambda>c. c\<lparr>ctx_requests_processed := ctx_requests_processed c + 1\<rparr>) cid s4)"
        using Some w bc False s2(1) s3 ctx(2) by (simp add: HandleRequest_def Let_def kv_sizes)
      moreover have "kv_effect (carried cid wc s) (sv_view s) = sv_view s4"
        using Some w bc False g s2(4) s4(3) by (simp add: carried_def kv_effect_def kv_sizes)
      moreover have "sv_store (update_ctx f cid s4) = sv_store s4" for f by (simp add: update_ctx_def)
      ultimately show ?thesis using sv_update_ctx [OF s4(2)] by auto
    qed
  qed
qed

definition handled :: "ibv_wc \<Rightarrow> 'n KVServer \<Rightarrow> u8 list option" where
  "handled wc s =
     (if wc_status wc = IBV_WC_SUCCESS \<and> WrId_GetOpcode (wc_wr_id wc) = Some RECV
      then carried (WrId_GetConnId (wc_wr_id wc)) wc s else None)"

lemma HandleCompletion_ok:
  assumes ok: "sv_ok s {}"
  shows "\<exists>s'. HandleCompletion V wc s = Inr s' \<and> sv_ok s' {} \<and> sv_view s' = kv_effect (handled wc s) (sv_view s)"
proof (cases "wc_status wc = IBV_WC_SUCCESS \<and> WrId_GetOpcode (wc_wr_id wc) = Some REQUEST_SEND \<and>
    sv_posted_send s (wc_wr_id wc) \<noteq> None")
  case True
  then obtain b where b: "sv_posted_send s (wc_wr_id wc) = Some b" by auto
  let ?f = "\<lambda>t. t\<lparr>sv_posted_send := (sv_posted_send s)(wc_wr_id wc := None)\<rparr>"
  from sv_untrack_send [OF ok b] have "sv_ok (?f s) {b}" .
  from sv_free [OF this, of b] obtain p where p: "Pool_Free b (sv_pool (?f s)) = Inr p" "sv_ok ((?f s)\<lparr>sv_pool := p\<rparr>) {}"
    by auto
  then have "free_buffer b s = Inr (s\<lparr>sv_pool := p\<rparr>)" by (simp add: free_buffer_def)
  moreover have "sv_ok (s\<lparr>sv_pool := p, sv_posted_send := (sv_posted_send s)(wc_wr_id wc := None)\<rparr>) {}"
    using p(2) by (simp add: sv_ok_def sv_buffers_def)
  ultimately show ?thesis using True b by (simp add: HandleCompletion_def handled_def kv_effect_def)
next
  case False
  with ok HandleRequest_ok [OF ok, of V "WrId_GetConnId (wc_wr_id wc)" wc] show ?thesis
    by (auto simp: HandleCompletion_def handled_def kv_effect_def)
qed

lemma RemoveConnection_live:
  assumes "RemoveConnection V i m n L = (m', n', L')" and "j \<noteq> i"
  shows "GetConnection j m' = GetConnection j m"
  using assms by (auto simp: RemoveConnection_def FreeConnId_def GetConnection_def word_unat_eq_iff split: if_splits option.splits prod.splits)

lemma remove_conn_ok:
  assumes ok: "sv_ok s X" and free: "sv_contexts s i = None"
  shows "sv_ok (remove_conn V i s) X"
proof -
  obtain m n L where r: "RemoveConnection V i (sv_manager s) (sv_net s) (sv_ledger s) = (m, n, L)"
    by (cases "RemoveConnection V i (sv_manager s) (sv_net s) (sv_ledger s)")
  have "mgr_inv m" using mgr_inv_Remove [OF _ r] ok by (simp add: sv_ok_def)
  moreover have "GetConnection j m \<noteq> None" if "sv_contexts s j = Some ctx" for j ctx
    using that ok free RemoveConnection_live [OF r, of j] by (cases "j = i") (auto simp: sv_ok_def)
  ultimately show ?thesis using ok by (auto simp: remove_conn_def r sv_ok_def sv_buffers_def)
qed

lemma OnError_ok:
  assumes "sv_ok s X"
  shows "sv_ok (OnError V i s) X"
proof -
  have "sv_ok (s\<lparr>sv_contexts := (sv_contexts s)(i := None)\<rparr>) X"
    using assms by (auto simp: sv_ok_def sv_buffers_def split: if_splits)
  from remove_conn_ok [OF this, of i V] show ?thesis
    by (auto simp: OnError_def remove_conn_def sv_ok_def sv_buffers_def split: prod.splits)
qed

lemma Connect_id: "Connect V rp c n = (st, c', n') \<Longrightarrow> conn_id_of c' = conn_id_of c"
  using conn_step_id [OF conn_step.connect] by fastforce

lemma sv_ok_manager:
  assumes "sv_ok s X" and "mgr_inv m" and "\<And>j. sv_contexts s j \<noteq> None \<Longrightarrow> GetConnection j m \<noteq> None"
  shows "sv_ok (s\<lparr>sv_manager := m\<rparr>) X"
  using assms by (auto simp: sv_ok_def sv_buffers_def)

lemma establish_ok:
  assumes ok: "sv_ok s X" and c: "GetConnection i (sv_manager s) = Some c" and new: "sv_contexts s i = None"
  shows "\<exists>s'. establish V i remote c s = Inr s' \<and> sv_ok s' X \<and>
    (Status_ok (fst (Connect V (hm_qp_params remote) c (sv_net s))) \<longrightarrow> sv_contexts s' i \<noteq> None)"
proof -
  obtain st c' n' where con: "Connect V (hm_qp_params remote) c (sv_net s) = (st, c', n')"
    by (cases "Connect V (hm_qp_params remote) c (sv_net s)")
  define s1 where "s1 = set_conn i c' (s\<lparr>sv_net := n'\<rparr>)"
  have idc: "conn_id_of c' = i" using Connect_id [OF con] ok c by (simp add: sv_ok_def mgr_inv_def)
  have ok1: "sv_ok s1 X" unfolding s1_def by (rule sv_set_conn [where c = c]) (use ok c Connect_id [OF con] in simp_all)
  have c1: "GetConnection i (sv_manager s1) = Some c'"
    using c by (auto simp: s1_def set_conn_def GetConnection_def split: if_splits)
  show ?thesis
  proof (cases "Status_ok st")
    case False
    moreover have "sv_ok (remove_conn V i s1) X" using new by (intro remove_conn_ok [OF ok1]) (simp add: s1_def set_conn_def)
    ultimately show ?thesis using con idc by (simp add: establish_def s1_def)
  next
    case True
    let ?s2 = "s1\<lparr>sv_contexts := (sv_contexts s1)(i \<mapsto> \<lparr>ctx_conn = i, ctx_requests_processed = 0, ctx_gets_processed = 0, ctx_puts_processed = 0\<rparr>),
      sv_dispatcher := RegisterConnection i (sv_self s1) (Some kHandleCompletion) (sv_dispatcher s1)\<rparr>"
    have "sv_ok (s1\<lparr>sv_contexts := (sv_contexts s1)(i \<mapsto> \<lparr>ctx_conn = i, ctx_requests_processed = 0, ctx_gets_processed = 0, ctx_puts_processed = 0\<rparr>)\<rparr>) X"
      using ok1 c1 by (auto simp: sv_ok_def sv_buffers_def)
    then have "sv_ok ?s2 X" by simp
    moreover have "GetConnection i (sv_manager ?s2) = Some c'" using c1 by simp
    ultimately obtain s' where "PostRecvBuffers V i 32 ?s2 = Inr s'" "sv_ok s' X" "sv_contexts s' = sv_contexts ?s2"
      using PostRecvBuffers_ok by blast
    then show ?thesis using con idc True by (simp add: establish_def s1_def)
  qed
qed

lemma accept_on_ok:
  assumes ok: "sv_ok s X" and r: "accept_on V E channel s = Some (Inr s')"
  shows "sv_ok s' X"
proof -
  have inv: "mgr_inv (sv_manager s)" using ok by (simp add: sv_ok_def)
  have live: "sv_contexts s j \<noteq> None \<Longrightarrow> GetConnection j (sv_manager s) \<noteq> None" for j using ok by (auto simp: sv_ok_def)
  show ?thesis
  proof (cases "CreateConnection (ae_create E) (ae_config E) (sv_manager s) (sv_ledger s)")
    case (Inl u)
    with r show ?thesis by (simp add: accept_on_def)
  next
    case (Inr p)
    obtain res m L where p: "p = (res, m, L)" by (cases p)
    let ?s1 = "s\<lparr>sv_manager := m, sv_ledger := L\<rparr>"
    obtain out L0 where mk: "ae_create E (Some (cm_pd (sv_manager s))) (Some (cm_send_cq (sv_manager s)))
        (Some (cm_recv_cq (sv_manager s))) (ae_config E) (sv_ledger s) = (out, L0)" by fastforce
    from CreateConnection_outcome [OF inv, of "ae_create E" "ae_config E" "sv_ledger s"] Inr p consider
      (err) st where "res = Inl st" "m = sv_manager s"
    | (new) i m1 conn where "res = Inr i" "conn_alloc (sv_manager s) = Some (i, m1)" "unat i < length (cm_connections (sv_manager s))"
        "m = m1\<lparr>cm_connections := (cm_connections (sv_manager s))[unat i := Some (SetConnId i conn)],
                cm_active_count := cm_active_count (sv_manager s) + 1\<rparr>"
      by (cases out) (auto simp: mk)
    then show ?thesis
    proof cases
      case err
      with r Inr p ok show ?thesis by (auto simp: accept_on_def)
    next
      case new
      let ?c = "SetConnId i conn"
      have ins: "mgr_inv m" "GetConnection i (sv_manager s) = None" "GetConnection i m = Some ?c"
        "\<And>j. j \<noteq> i \<Longrightarrow> GetConnection j m = GetConnection j (sv_manager s)"
        using mgr_inv_insert [OF inv new(2,3), of ?c] new(4) by (simp_all add: SetConnId_def)
      have free: "sv_contexts s i = None" using live [of i] ins(2) by blast
      have "sv_contexts s j \<noteq> None \<Longrightarrow> GetConnection j m \<noteq> None" for j using live ins(4) free by (cases "j = i") auto
      then have ok1: "sv_ok ?s1 X" using sv_ok_manager [OF ok ins(1)] by simp
      have c1: "conn_at i ?s1 = Inr ?c" using ins(3) by (simp add: conn_at_def)
      have idc: "conn_id_of ?c = i" by (simp add: SetConnId_def)
      have rm: "sv_ok (remove_conn V i ?s1) X" using free by (intro remove_conn_ok [OF ok1]) simp
      have est: "establish V i remote ?c ?s1 = Inr t \<Longrightarrow> sv_ok t X" for remote t
        using establish_ok [OF ok1, of i ?c V remote] ins(3) free by auto
      from r Inr p new(1) c1 idc show ?thesis
        using rm est by (auto simp: accept_on_def Let_def split: sum.splits option.splits)
    qed
  qed
qed

lemma AcceptConnections_ok:
  assumes "sv_ok s X" and "AcceptConnections V E s = Some (Inr s')"
  shows "sv_ok s' X"
proof -
  obtain res L where ch: "Channel_Accept (ae_poll E) (ae_accept E) (ae_peer E) (sv_ledger s) = (res, L)"
    by (cases "Channel_Accept (ae_poll E) (ae_accept E) (ae_peer E) (sv_ledger s)")
  have ok: "sv_ok (s\<lparr>sv_ledger := L\<rparr>) X" using assms(1) by simp
  show ?thesis
  proof (cases res)
    case (Inl st)
    with assms ch ok show ?thesis by (auto simp: AcceptConnections_def)
  next
    case (Inr channel)
    with assms(2) ch obtain t where "accept_on V E channel (s\<lparr>sv_ledger := L\<rparr>) = Some (Inr t)"
      "s' = t\<lparr>sv_ledger := Channel_dtor channel (sv_ledger t)\<rparr>"
      by (auto simp: AcceptConnections_def bind_chk_eq_Inr_conv)
    with accept_on_ok [OF ok] show ?thesis by simp
  qed
qed

section \<open>The life of a server\<close>

text \<open>
  The steps of a server: a connection is accepted, a completion or an error is handled, the device
  writes to registered memory or changes its own state.
\<close>

inductive sv_step :: "'n qp_verbs \<Rightarrow> 'n KVServer \<Rightarrow> 'n KVServer \<Rightarrow> bool" for V where
  accept: "AcceptConnections V E s = Some (Inr s') \<Longrightarrow> sv_step V s s'"
| completion: "HandleCompletion V wc s = Inr s' \<Longrightarrow> sv_step V s s'"
| error: "sv_step V s (OnError V cid s)"
| device: "sv_step V s (s\<lparr>sv_mem := m, sv_net := n\<rparr>)"

lemma sv_step_ok: "sv_step V s s' \<Longrightarrow> sv_ok s {} \<Longrightarrow> sv_ok s' {}"
proof (induction rule: sv_step.induct)
  case (completion wc s s')
  then show ?case using HandleCompletion_ok [of s V wc] by auto
qed (auto intro: AcceptConnections_ok OnError_ok)

interpretation server: kept_invariant "sv_step V" "\<lambda>s. sv_ok s {}" for V
  by unfold_locales (rule sv_step_ok)

text \<open>
  C6. A server over a pool that is not FIFO never goes wrong: in every state it can reach from an
  initialised one, however connections, requests, completions and errors interleave and whatever
  bytes the clients send, the handler of any completion returns without undefined behaviour (no
  access outside the ring, a buffer or the store, no dangling connection), no buffer of the pool is
  available, posted for receiving or posted for sending at the same time, and every context belongs
  to a live connection.
\<close>

theorem kv_server_never_faults:
  assumes "kv_inv (sv_store s0)" and "mgr_inv (sv_manager s0)" and "lifo_invar (sv_pool s0)"
    and "bp_buffer_size (sv_pool s0) = MAX_REQUEST_SIZE"
    and "sv_contexts s0 = Map.empty" and "sv_posted_recv s0 = Map.empty" and "sv_posted_send s0 = Map.empty"
    and "(sv_step V)\<^sup>*\<^sup>* s0 s"
  shows "(\<exists>s'. HandleCompletion V wc s = Inr s') \<and>
    (\<forall>w b c. sv_posted_recv s w = Some (b, c) \<longrightarrow> b \<notin> pool_avail (sv_pool s) \<and> (\<forall>w'. sv_posted_send s w' \<noteq> Some b)) \<and>
    (\<forall>w w' b c c'. sv_posted_recv s w = Some (b, c) \<and> sv_posted_recv s w' = Some (b, c') \<longrightarrow> w = w') \<and>
    (\<forall>w b. sv_posted_send s w = Some b \<longrightarrow> b \<notin> pool_avail (sv_pool s) \<and> (\<forall>w'. sv_posted_send s w' = Some b \<longrightarrow> w = w')) \<and>
    (\<forall>cid ctx. sv_contexts s cid = Some ctx \<longrightarrow> GetConnection cid (sv_manager s) \<noteq> None)"
proof -
  have "sv_ok s0 {}" using assms(1-7) by (simp add: sv_ok_def sv_buffers_def sv_recvs_empty tracking_empty)
  from server.run_keeps [OF assms(8) this] have ok: "sv_ok s {}" .
  then have t: "tracking_ok (sv_pool s) (sv_recvs s) (sv_posted_send s) {}" by (simp add: sv_ok_def sv_buffers_def)
  have r: "sv_posted_recv s w = Some (b, c) \<Longrightarrow> sv_recvs s w = Some b" for w b c by (simp add: sv_recvs_def)
  have "b \<notin> pool_avail (sv_pool s) \<and> (\<forall>w'. sv_posted_send s w' \<noteq> Some b)" if "sv_posted_recv s w = Some (b, c)" for w b c
    using tracking_recv [OF t r [OF that]] by simp
  moreover have "sv_posted_recv s w = Some (b, c) \<and> sv_posted_recv s w' = Some (b, c') \<Longrightarrow> w = w'" for w w' b c c'
    using tracking_recv(3) [OF t] r by blast
  moreover have "b \<notin> pool_avail (sv_pool s) \<and> (\<forall>w'. sv_posted_send s w' = Some b \<longrightarrow> w = w')" if "sv_posted_send s w = Some b" for w b
    using tracking_recv(1,3) [OF t [THEN tracking_swap [THEN iffD1]] that] by blast
  moreover have "sv_contexts s cid = Some ctx \<Longrightarrow> GetConnection cid (sv_manager s) \<noteq> None" for cid ctx
    using ok by (auto simp: sv_ok_def)
  ultimately show ?thesis using HandleCompletion_ok [OF ok, of V wc] by blast
qed

text \<open>Serving a request does not touch the posted receives.\<close>

lemma send_response_recvs: "send_response V conn b n seq s = Inr s' \<Longrightarrow> sv_posted_recv s' = sv_posted_recv s"
  by (cases "conn_at conn s") (auto simp: send_response_def set_conn_def Let_def split: prod.splits)

lemma ProcessRequest_recvs: "ProcessRequest V req cid ctx s = Inr s' \<Longrightarrow> sv_posted_recv s' = sv_posted_recv s"
  by (auto simp: ProcessRequest_def ProcessGet_def ProcessPut_def SendErrorResponse_def update_ctx_def Let_def bind_chk_eq_Inr_conv
      dest!: send_response_recvs split: option.splits if_splits prod.splits)

text \<open>Serving a request takes one buffer from the pool, for the answer.\<close>

lemma send_response_pool: "send_response V conn b n seq s = Inr s' \<Longrightarrow> sv_pool s' = sv_pool s"
  by (cases "conn_at conn s") (auto simp: send_response_def set_conn_def Let_def split: prod.splits)

lemma ProcessRequest_pool:
  "ProcessRequest V req cid ctx s = Inr s' \<Longrightarrow> \<exists>b. Pool_Allocate (sv_pool s) = Inr (b, sv_pool s')"
  by (auto simp: ProcessRequest_def ProcessGet_def ProcessPut_def SendErrorResponse_def update_ctx_def Let_def bind_chk_eq_Inr_conv
      dest!: send_response_pool split: option.splits if_splits prod.splits)

lemma ProcessRequest_leaves:
  assumes "ProcessRequest V req cid ctx s = Inr s'" and "sv_ok s X" and "2 \<le> card (pool_avail (sv_pool s))"
  shows "pool_avail (sv_pool s') \<noteq> {}"
  using ProcessRequest_pool [OF assms(1)] lifo_one_left assms(2,3) by (fastforce simp: sv_ok_def sv_buffers_def tracking_ok_def)

lemma ProcessRequest_silent:
  assumes "ProcessRequest V req cid ctx s = Inr s'" and "sv_ok s X" and "pool_avail (sv_pool s) = {}"
  shows "sv_net s' = sv_net s"
proof -
  have "lifo_invar (sv_pool s)" using assms(2) by (simp add: sv_ok_def sv_buffers_def tracking_ok_def)
  from lifo_avail_card [OF this] assms(3) have "Pool_Allocate (sv_pool s) = Inr (Buffer_null, sv_pool s)"
    by (simp add: Pool_Allocate_def unat_eq_0)
  moreover have "\<not> Buffer_IsValid Buffer_null" by (simp add: Buffer_IsValid_def Buffer_null_def)
  ultimately show ?thesis using assms(1)
    by (auto simp: ProcessRequest_def ProcessGet_def ProcessPut_def SendErrorResponse_def Let_def bind_chk_eq_Inr_conv
        split: option.splits if_splits)
qed

lemma recv_wr_id_parts [simp]:
  "WrId_GetOpcode (recv_wr_id cid b) = Some RECV" "WrId_GetConnId (recv_wr_id cid b) = cid"
  by (simp_all add: recv_wr_id_def)


section \<open>Responses that share an id\<close>

text \<open>
  GET and PUT responses take their work-request ids from two counters. The answer to a GET and the
  answer to a PUT are tracked under the same id as soon as the counters agree, and the buffer of the
  first answer then belongs to nobody.
\<close>

lemma send_response_tracks:
  assumes "send_response V conn b n seq s = Inr s'" and "sv_ok t X" and "sv_manager t = sv_manager s"
  shows "sv_posted_send s' = (sv_posted_send s)(WrId_Encode conn REQUEST_SEND 0 seq \<mapsto> b)" and "sv_pool s' = sv_pool s"
    and "sv_posted_recv s' = sv_posted_recv s"
proof -
  from assms(1) obtain c where c: "GetConnection conn (sv_manager s) = Some c"
    by (auto simp: send_response_def conn_at_def split: option.splits)
  have idc: "conn_id_of c = conn" using assms(2,3) c by (simp add: sv_ok_def mgr_inv_def)
  obtain st c' n' where "Conn_Send V (Buffer_Slice 0 (of_nat n) b) (WrId_Encode conn REQUEST_SEND 0 seq) c (sv_net s) = (st, c', n')"
    by (cases "Conn_Send V (Buffer_Slice 0 (of_nat n) b) (WrId_Encode conn REQUEST_SEND 0 seq) c (sv_net s)")
  then have "s' = set_conn conn c' (s\<lparr>sv_posted_send := (sv_posted_send s)(WrId_Encode conn REQUEST_SEND 0 seq \<mapsto> b), sv_net := n'\<rparr>)"
    using assms(1) c idc by (simp add: send_response_def conn_at_def)
  then show "sv_posted_send s' = (sv_posted_send s)(WrId_Encode conn REQUEST_SEND 0 seq \<mapsto> b)" "sv_pool s' = sv_pool s"
    "sv_posted_recv s' = sv_posted_recv s" by (simp_all add: set_conn_def)
qed

lemma ProcessGet_tracks:
  assumes "ProcessGet V h cid ctx s = Inr s'" and "sv_ok s X" and "Pool_Allocate (sv_pool s) = Inr (b, p)" and "Buffer_IsValid b"
  shows "sv_posted_send s' = (sv_posted_send s)(WrId_Encode (ctx_conn ctx) REQUEST_SEND 0 (ucast (ctx_gets_processed ctx AND 0xFFFFFFFF)) \<mapsto> b)"
    and "sv_pool s' = p" and "sv_posted_recv s' = sv_posted_recv s"
proof -
  from assms(1,3,4) obtain m n t where
    t: "send_response V (ctx_conn ctx) b n (ucast (ctx_gets_processed ctx AND 0xFFFFFFFF)) (s\<lparr>sv_pool := p, sv_mem := m\<rparr>) = Inr t"
    and s': "s' = update_ctx (\<lambda>c. c\<lparr>ctx_gets_processed := ctx_gets_processed c + 1\<rparr>) cid t"
    by (auto simp: ProcessGet_def Let_def bind_chk_eq_Inr_conv)
  from send_response_tracks [OF t assms(2)] s'
  show "sv_posted_send s' = (sv_posted_send s)(WrId_Encode (ctx_conn ctx) REQUEST_SEND 0 (ucast (ctx_gets_processed ctx AND 0xFFFFFFFF)) \<mapsto> b)"
    "sv_pool s' = p" "sv_posted_recv s' = sv_posted_recv s" by (simp_all add: update_ctx_def)
qed

lemma ProcessPut_tracks:
  assumes "ProcessPut V h req cid ctx s = Inr s'" and "sv_ok s X" and "Pool_Allocate (sv_pool s) = Inr (b, p)" and "Buffer_IsValid b"
  shows "sv_posted_send s' = (sv_posted_send s)(WrId_Encode (ctx_conn ctx) REQUEST_SEND 0 (ucast (ctx_puts_processed ctx AND 0xFFFFFFFF)) \<mapsto> b)"
    and "sv_pool s' = p" and "sv_posted_recv s' = sv_posted_recv s"
proof -
  from assms(1,3,4) obtain st m t where
    t: "send_response V (ctx_conn ctx) b sizeof_ResponseHeader (ucast (ctx_puts_processed ctx AND 0xFFFFFFFF))
          (s\<lparr>sv_store := st, sv_pool := p, sv_mem := m\<rparr>) = Inr t"
    and s': "s' = update_ctx (\<lambda>c. c\<lparr>ctx_puts_processed := ctx_puts_processed c + 1\<rparr>) cid t"
    by (auto simp: ProcessPut_def Let_def bind_chk_eq_Inr_conv)
  from send_response_tracks [OF t assms(2)] s'
  show "sv_posted_send s' = (sv_posted_send s)(WrId_Encode (ctx_conn ctx) REQUEST_SEND 0 (ucast (ctx_puts_processed ctx AND 0xFFFFFFFF)) \<mapsto> b)"
    "sv_pool s' = p" "sv_posted_recv s' = sv_posted_recv s" by (simp_all add: update_ctx_def)
qed

lemma kv_response_ids_collide:
  assumes ok: "sv_ok s {}" and ctx: "sv_contexts s cid = Some ctx"
    and get: "ProcessGet V h cid ctx s = Inr s1" and avail: "pool_avail (sv_pool s) \<noteq> {}"
    and put: "ProcessPut V h' req cid ctx' s1 = Inr s2" and avail1: "pool_avail (sv_pool s1) \<noteq> {}"
    and same: "ctx_conn ctx' = ctx_conn ctx" "ctx_puts_processed ctx' = ctx_gets_processed ctx"
  shows "\<exists>b w. sv_posted_send s1 w = Some b \<and> b \<in> pool_univ (sv_pool s2) - pool_avail (sv_pool s2) \<and>
    b \<notin> ran (sv_posted_send s2) \<and> b \<notin> ran (sv_recvs s2)"
proof -
  have live: "ctx_conn ctx = cid" "GetConnection cid (sv_manager s) \<noteq> None" using ok ctx by (auto simp: sv_ok_def)
  from live(2) obtain c where c: "GetConnection (ctx_conn ctx) (sv_manager s) = Some c" using live(1) by auto
  obtain status v where "kv_spec_get (rq_key h) 65536 (kv_abs (sv_store s)) = (status, v)" by fastforce
  from ProcessGet_ok [OF ok c this, of V cid] get have ok1: "sv_ok s1 {}" by auto
  have t: "tracking_ok (sv_pool s) (sv_recvs s) (sv_posted_send s) {}" using ok by (simp add: sv_ok_def sv_buffers_def)
  have t1: "tracking_ok (sv_pool s1) (sv_recvs s1) (sv_posted_send s1) {}" using ok1 by (simp add: sv_ok_def sv_buffers_def)
  obtain b p where b: "Pool_Allocate (sv_pool s) = Inr (b, p)" "Buffer_IsValid b" "tracking_ok p (sv_recvs s) (sv_posted_send s) {b}"
    using t avail by (cases rule: tracking_alloc) simp_all
  obtain b' p' where b': "Pool_Allocate (sv_pool s1) = Inr (b', p')" "Buffer_IsValid b'"
    "tracking_ok p' (sv_recvs s1) (sv_posted_send s1) {b'}"
    using t1 avail1 by (cases rule: tracking_alloc) simp_all
  note g = ProcessGet_tracks [OF get ok b(1,2)] and q = ProcessPut_tracks [OF put ok1 b'(1,2)]
  let ?w = "WrId_Encode (ctx_conn ctx) REQUEST_SEND 0 (ucast (ctx_gets_processed ctx AND 0xFFFFFFFF))"
  have s2: "sv_posted_send s2 = (sv_posted_send s)(?w \<mapsto> b')" using g(1) q(1) same by simp
  have r: "sv_recvs s1 = sv_recvs s" "sv_recvs s2 = sv_recvs s" using g(3) q(3) by (simp_all add: sv_recvs_def fun_eq_iff)
  have tr: "b \<in> ran (sv_posted_send s1)" by (auto simp: g(1) ran_def)
  with b'(3) have new: "b \<noteq> b'" "b \<in> pool_univ p' - pool_avail p'" by (auto simp: tracking_ok_def)
  have old: "b \<notin> ran (sv_posted_send s)" "b \<notin> ran (sv_recvs s)" using b(3) by (auto simp: tracking_ok_def)
  then have "b \<notin> ran (sv_posted_send s2)" using new(1) by (auto simp: s2 ran_def split: if_splits)
  with tr new old q(2) r show ?thesis by (auto simp: ran_def)
qed

section \<open>The pool the server really has\<close>

text \<open>\<open>Initialize\<close> leaves the allocation policy of its pool at the default, FIFO.\<close>

lemma fifo_free_buffer: "fifo_unfreed (sv_pool s) \<Longrightarrow> free_buffer b s = Inl Out_Of_Bounds"
  by (simp add: free_buffer_def fifo_unfreed_Free)

lemma fifo_PostRecv: "PostRecvBuffers V conn n s = Inr s' \<Longrightarrow> fifo_unfreed (sv_pool s) \<Longrightarrow> fifo_unfreed (sv_pool s')"
proof (induction n arbitrary: s)
  case (Suc n)
  obtain b p where a: "Pool_Allocate (sv_pool s) = Inr (b, p)" using Suc.prems(1) by (cases "Pool_Allocate (sv_pool s)") auto
  have p: "fifo_unfreed p" using fifo_unfreed_Allocate [OF Suc.prems(2) a] .
  show ?case
  proof (cases "Buffer_IsValid b")
    case True
    with Suc.prems(1) a obtain t where "PostRecvBuffers V conn n t = Inr s'" "sv_pool t = p"
      by (auto simp: Let_def bind_chk_eq_Inr_conv)
    with Suc.IH p show ?thesis by blast
  next
    case False
    with Suc.prems(1) a Suc.IH [of "s\<lparr>sv_pool := p\<rparr>"] p show ?thesis by (simp add: Let_def)
  qed
qed simp

lemma fifo_send_response:
  assumes "send_response V conn b n seq s = Inr s'"
  shows "sv_pool s' = sv_pool s"
proof -
  obtain c where c: "conn_at conn s = Inr c" using assms by (cases "conn_at conn s") (auto simp: send_response_def)
  obtain st c' n' where "Conn_Send V (Buffer_Slice 0 (of_nat n) b) (WrId_Encode (conn_id_of c) REQUEST_SEND 0 seq) c (sv_net s) = (st, c', n')"
    by (cases "Conn_Send V (Buffer_Slice 0 (of_nat n) b) (WrId_Encode (conn_id_of c) REQUEST_SEND 0 seq) c (sv_net s)")
  with c assms show ?thesis by (auto simp: send_response_def set_conn_def)
qed

lemma fifo_ProcessRequest:
  "ProcessRequest V req cid ctx s = Inr s' \<Longrightarrow> fifo_unfreed (sv_pool s) \<Longrightarrow> fifo_unfreed (sv_pool s')"
  by (auto simp: ProcessRequest_def ProcessGet_def ProcessPut_def SendErrorResponse_def bind_chk_eq_Inr_conv Let_def update_ctx_def
      split: option.splits if_splits dest!: fifo_send_response dest: fifo_unfreed_Allocate)

lemma fifo_establish:
  "establish V i remote c s = Inr s' \<Longrightarrow> fifo_unfreed (sv_pool s) \<Longrightarrow> fifo_unfreed (sv_pool s')"
  by (auto simp: establish_def Let_def remove_conn_def set_conn_def split: prod.splits if_splits dest!: fifo_PostRecv)

lemma fifo_accept:
  assumes "AcceptConnections V E s = Some (Inr s')" and "fifo_unfreed (sv_pool s)"
  shows "fifo_unfreed (sv_pool s')"
proof -
  have rm: "sv_pool (remove_conn V j t) = sv_pool t" for j and t :: "'a KVServer"
    by (simp add: remove_conn_def split: prod.splits)
  have "fifo_unfreed (sv_pool t')" if "accept_on V E ch t = Some (Inr t')" "fifo_unfreed (sv_pool t)" for ch t t'
    using that by (auto simp: accept_on_def Let_def rm split: sum.splits prod.splits option.splits dest!: fifo_establish)
  then show ?thesis using assms
    by (fastforce simp: AcceptConnections_def bind_chk_eq_Inr_conv split: prod.splits sum.splits)
qed

lemma fifo_HandleCompletion:
  assumes "fifo_unfreed (sv_pool s)"
  shows "HandleCompletion V wc s = Inr s' \<Longrightarrow> fifo_unfreed (sv_pool s')"
    and "wc_status wc = IBV_WC_SUCCESS \<Longrightarrow> WrId_GetOpcode (wc_wr_id wc) = Some RECV \<Longrightarrow>
      sv_contexts s (WrId_GetConnId (wc_wr_id wc)) \<noteq> None \<Longrightarrow> sv_posted_recv s (wc_wr_id wc) \<noteq> None \<Longrightarrow>
      \<exists>u. HandleCompletion V wc s = Inl u"
proof -
  let ?cid = "WrId_GetConnId (wc_wr_id wc)"
  have fault: "\<exists>u. HandleRequest V ?cid wc s = Inl u" if "sv_contexts s ?cid = Some ctx" "sv_posted_recv s (wc_wr_id wc) = Some bc" for ctx bc
  proof -
    obtain b c where bc: "bc = (b, c)" by (cases bc)
    let ?s = "s\<lparr>sv_posted_recv := (sv_posted_recv s)(wc_wr_id wc := None)\<rparr>"
    let ?p = "ProcessRequest V (mem_read (buf_addr b) (unat (wc_byte_len wc)) (sv_mem ?s)) ?cid ctx ?s"
    have f: "free_buffer b ?s = Inl Out_Of_Bounds" using assms by (intro fifo_free_buffer) simp
    have g: "free_buffer b s2 = Inl Out_Of_Bounds" if "?p = Inr s2" for s2
      using fifo_ProcessRequest [OF that] assms by (intro fifo_free_buffer) simp
    show ?thesis using that bc f g by (cases ?p) (simp_all add: HandleRequest_def Let_def)
  qed
  show "wc_status wc = IBV_WC_SUCCESS \<Longrightarrow> WrId_GetOpcode (wc_wr_id wc) = Some RECV \<Longrightarrow>
      sv_contexts s ?cid \<noteq> None \<Longrightarrow> sv_posted_recv s (wc_wr_id wc) \<noteq> None \<Longrightarrow> \<exists>u. HandleCompletion V wc s = Inl u"
    using fault by (auto simp: HandleCompletion_def)
  show "HandleCompletion V wc s = Inr s' \<Longrightarrow> fifo_unfreed (sv_pool s')"
  proof -
    assume h: "HandleCompletion V wc s = Inr s'"
    have "t = s" if r: "HandleRequest V ?cid wc s = Inr t" for t
    proof (cases "sv_contexts s ?cid = None \<or> sv_posted_recv s (wc_wr_id wc) = None")
      case True
      with r show ?thesis by (auto simp: HandleRequest_def split: option.splits)
    next
      case False
      with fault r show ?thesis by fastforce
    qed
    then show ?thesis using h assms fifo_free_buffer [OF assms]
      by (auto simp: HandleCompletion_def split: if_splits option.splits)
  qed
qed

lemma fifo_step: "sv_step V s s' \<Longrightarrow> fifo_unfreed (sv_pool s) \<Longrightarrow> fifo_unfreed (sv_pool s')"
  by (cases rule: sv_step.cases) (auto simp: OnError_def split: prod.splits intro: fifo_accept fifo_HandleCompletion(1))

interpretation fifo_server: kept_invariant "sv_step V" "\<lambda>s. fifo_unfreed (sv_pool s)" for V
  by unfold_locales (rule fifo_step)

lemma try_make_Some: "try_make r dtor f = (Some y, L') \<longleftrightarrow> (\<exists>x L. r = (Inr x, L) \<and> f x L = (Some y, L'))"
  by (cases r) (auto simp: try_make_def split: sum.splits prod.splits option.splits)

lemma make_members_pool:
  assumes "make_members E port this mem net store L = (Some s, L')"
  shows "\<exists>pd La Lb. Pool_Create (se_dev E) (se_relaxed_ordering E) (se_mem E) (Some pd) server_pool_config La = (Inr (sv_pool s), Lb)"
proof -
  from assms obtain device L1 pd L2 cqs L3 pool L4 where
    pool: "Pool_Create (se_dev E) (se_relaxed_ordering E) (se_mem E) (Some pd) server_pool_config L3 = (Inr pool, L4)"
    and rest: "try_make (Manager_Create (Some pd) (Some (fst cqs)) (Some (snd cqs))
                 ((ConnectionManagerConfig_default (se_rnd E))\<lparr>cmc_max_connections := 256\<rparr>), L4) (\<lambda>_ L. L) (\<lambda>manager L5.
     try_make (Reactor_Create (se_wc_alloc E) (se_entries E)
                 (ReactorConfig_default\<lparr>rc_batch_mode := THROUGHPUT\<rparr>) L5) Reactor_dtor (\<lambda>reactor L6.
     try_make (Server_Create (se_addrs E) (se_listen_err E) port L6) Server_dtor (\<lambda>handshake L7.
       (Some \<lparr>sv_device = device, sv_pd = pd, sv_send_cq = fst cqs, sv_recv_cq = snd cqs, sv_store = store, sv_pool = pool, sv_manager = manager, sv_contexts = Map.empty,
          sv_posted_recv = Map.empty, sv_posted_send = Map.empty,
          sv_dispatcher = SetErrorHandler this (Some kOnError) Dispatcher_new, sv_self = this,
          sv_reactor = RegisterCQ (snd cqs) 0 (RegisterCQ (fst cqs) 0 reactor),
          sv_handshake = handshake, sv_port = port, sv_mem = mem, sv_net = net, sv_ledger = L7\<rparr>, L7)))) = (Some s, L')"
    unfolding make_members_def try_make_Some by blast
  from rest have "sv_pool s = pool" unfolding try_make_Some by auto
  with pool show ?thesis by blast
qed

lemma Server_Initialize_made:
  assumes "Server_Initialize E port this mem net L = Inr (Some s, L')"
  shows "\<exists>store. Store_Initialize (se_alloc E) server_store_config = Inr (Some store) \<and>
    make_members E port this mem net store L = (Some s, L')"
  using assms by (auto simp: Server_Initialize_def bind_chk_eq_Inr_conv split: option.splits)

lemma Server_Initialize_pool:
  assumes "Server_Initialize E port this mem net L = Inr (Some s, L')"
  shows "fifo_unfreed (sv_pool s)"
proof -
  from Server_Initialize_made [OF assms] obtain store where "make_members E port this mem net store L = (Some s, L')" by blast
  from make_members_pool [OF this] obtain pd La Lb where
    "Pool_Create (se_dev E) (se_relaxed_ordering E) (se_mem E) (Some pd) server_pool_config La = (Inr (sv_pool s), Lb)" by blast
  from Pool_Create_fields [OF this] show ?thesis
    by (simp add: fifo_unfreed_def server_pool_config_def BufferPoolConfig_default_def)
qed

text \<open>
  C9. The server as it is configured faults at its first request: in every state an initialised
  server can reach no buffer can be given back, because \<open>Free\<close> on its FIFO pool writes outside the
  ring, and so the handler of a received request on a live connection ends in undefined behaviour.
\<close>

theorem kv_server_first_request_faults:
  assumes "Server_Initialize E port this mem net L = Inr (Some s0, L')" and "(sv_step V)\<^sup>*\<^sup>* s0 s"
  shows "Pool_Free b (sv_pool s) = Inl Out_Of_Bounds \<and>
    (sv_contexts s (WrId_GetConnId (wc_wr_id wc)) \<noteq> None \<and> sv_posted_recv s (wc_wr_id wc) \<noteq> None \<and>
     wc_status wc = IBV_WC_SUCCESS \<and> WrId_GetOpcode (wc_wr_id wc) = Some RECV \<longrightarrow> (\<exists>u. HandleCompletion V wc s = Inl u))"
proof -
  have f: "fifo_unfreed (sv_pool s)" by (rule fifo_server.run_keeps [OF assms(2) Server_Initialize_pool [OF assms(1)]])
  then show ?thesis using fifo_unfreed_Free [OF f, of b] fifo_HandleCompletion(2) [OF f, of wc V] by blast
qed

section \<open>Sample servers\<close>

definition sample_server_env :: server_env where
  "sample_server_env =
     \<lparr>se_alloc = (\<lambda>_. Some (\<lambda>_. 0)),
      se_dev = sample_verbs\<lparr>v_query_device := (\<lambda>_. Inr \<lparr>da_vendor_id = 1, da_vendor_part_id = 2, da_phys_port_cnt = 1, da_max_qp = 1024, da_max_cq = 1024, da_max_mr = 1024, da_max_qp_wr = 4096, da_max_sge = 16, da_max_cqe = 65536\<rparr>),
                            v_create_cq := (\<lambda>L _ _ _ _. pick R_CQ [12, 13] L)\<rparr>,
      se_relaxed_ordering = False, se_mem = sample_mem, se_wc_alloc = (\<lambda>L _. case pick R_Mem [8192] L of Inl e \<Rightarrow> nullptr | Inr p \<Rightarrow> p), se_entries = sample_entries,
      se_addrs = Some [(3, True)], se_listen_err = None, se_rnd = id\<rparr>"

lemma server_store:
  obtains store where "Store_Initialize (\<lambda>_. Some (\<lambda>_. 0)) server_store_config = Inr (Some store)" "kv_inv store"
    "kv_abs store = Map.empty" "unat (kv_num_slots store) = 16384"
proof -
  have "unat (slot_size server_store_config) = 65536" "unat (total_storage_size server_store_config) = 1073741824"
    "sc_hash_table_size server_store_config = 0"
    by (simp_all add: server_store_config_def StoreConfig_default_def kv_sizes)
  with Store_Initialize_ok [of server_store_config "\<lambda>_. Some (\<lambda>_. 0)" "\<lambda>_. 0"] that show ?thesis by auto
qed

lemma sample_server_initialized:
  "\<exists>s L'. Server_Initialize sample_server_env 7 9 mem net ledger_empty = Inr (Some s, L')"
proof -
  obtain store where "Store_Initialize (\<lambda>_. Some (\<lambda>_. 0)) server_store_config = Inr (Some store)" by (rule server_store)
  then show ?thesis
    by (simp add: Server_Initialize_def make_members_def try_make_def create_cqs_def sample_server_env_def sample_verbs_def
        Device_Open_def PD_Create_def CQ_Create_def CompletionQueueConfig_default_def Pool_Create_def MR_Register_def Let_def
        server_pool_config_def BufferPoolConfig_default_def DefaultAllocator_Allocate_def sample_mem_def Manager_Create_def
        Reactor_Create_def Server_Create_def CreateListenSocket_def kv_sizes MAX_REQUEST_SIZE_def)
qed

theorem kv_server_first_request_faults_witness:
  "\<exists>s L'. Server_Initialize sample_server_env 7 9 (\<lambda>_. 0) (\<lambda>_::ptr. QP_RESET) ledger_empty = Inr (Some s, L') \<and>
     Pool_Free (pool_buffer (sv_pool s) 0) (sv_pool s) = Inl Out_Of_Bounds"
proof -
  obtain s L' where s: "Server_Initialize sample_server_env 7 9 (\<lambda>_. 0) (\<lambda>_::ptr. QP_RESET) ledger_empty = Inr (Some s, L')"
    using sample_server_initialized [of "\<lambda>_. 0" "\<lambda>_::ptr. QP_RESET"] by (elim exE)
  from kv_server_first_request_faults [OF s rtranclp.rtrancl_refl [of "sv_step table_verbs"]] s show ?thesis by blast
qed

text \<open>A running server over a LIFO pool, with one connection and no request in flight.\<close>

definition sample_manager :: ConnectionManager where
  "sample_manager = \<lparr>cm_pd = sample_pd, cm_send_cq = sample_cq, cm_recv_cq = sample_cq,
     cm_config = \<lparr>cmc_max_connections = 1, cmc_default_conn_config = ConnectionConfig_default id\<rparr>,
     cm_connections = [Some (sample_conn CONNECTED)], cm_free_conn_ids = [], cm_active_count = 1\<rparr>"

definition sample_server :: "KVStore \<Rightarrow> LocalBufferPool \<Rightarrow> (ptr \<Rightarrow> QpState) KVServer" where
  "sample_server store pool = \<lparr>sv_device = \<lparr>dev_context = 11, dev_attr = None, dev_name = ''mlx5_0'', dev_numa_node = 0\<rparr>,
     sv_pd = sample_pd, sv_send_cq = sample_cq, sv_recv_cq = sample_cq, sv_store = store, sv_pool = pool, sv_manager = sample_manager,
     sv_contexts = Map.empty, sv_posted_recv = Map.empty, sv_posted_send = Map.empty, sv_dispatcher = Dispatcher_new,
     sv_self = 9, sv_reactor = sample_reactor ReactorConfig_default, sv_handshake = \<lparr>ts_listen_fd = 3, ts_port = 7\<rparr>,
     sv_port = 7, sv_mem = (\<lambda>_. 0), sv_net = (\<lambda>_. QP_RTS), sv_ledger = ledger_empty\<rparr>"

definition sample_ctx :: ConnectionContext where
  "sample_ctx = \<lparr>ctx_conn = 0, ctx_requests_processed = 0, ctx_gets_processed = 0, ctx_puts_processed = 0\<rparr>"

text \<open>A client that connects and is refused because no queue pair can be created.\<close>

definition sample_refusal :: accept_env where
  "sample_refusal =
     \<lparr>ae_poll = Inr 1, ae_accept = Inr 8, ae_peer = None, ae_create = (\<lambda>_ _ _ _ L. (Inl (Status_IOError ''no queue pair'' 12), L)),
      ae_config = ConnectionConfig_default id, ae_query_port = (\<lambda>_ _. Inl 5), ae_query_gid = (\<lambda>_ _ _. Inl 5),
      ae_padding = (0, 0, 0), ae_writes = [], ae_reads = [], ae_stream = []\<rparr>"

lemma sample_manager_inv: "mgr_inv sample_manager" "GetConnection 0 sample_manager = Some (sample_conn CONNECTED)"
proof -
  have "conn_live sample_manager = {0}" by (auto simp: conn_live_def sample_manager_def)
  moreover have "GetConnection i sample_manager = Some c \<Longrightarrow> conn_id_of c = i" for i c
    by (cases "i = 0") (auto simp: GetConnection_def sample_manager_def sample_conn_def unat_eq_0 Suc_le_eq unat_gt_0
        word_gt_0 split: if_splits)
  ultimately show "mgr_inv sample_manager"
    by (simp add: mgr_inv_def conn_ids_ok_def conn_avail_def) (simp add: sample_manager_def lessThan_Suc)
qed (simp add: GetConnection_def sample_manager_def)

lemma server_lifo_pool:
  obtains pool where "lifo_invar pool" "pool_avail pool = pool_univ pool" "bp_buffer_size pool = MAX_REQUEST_SIZE"
    "pool_avail pool \<noteq> {}" "card (pool_avail pool) = 512"
proof -
  let ?r = "Pool_Create sample_verbs False sample_mem (Some sample_pd) (server_pool_config\<lparr>bpc_policy := LIFO\<rparr>) ledger_empty"
  define pool where "pool = projr (fst ?r)"
  have r: "fst ?r = Inr pool" "bp_base_addr pool = 4096"
    by (simp_all add: pool_def Pool_Create_def MR_Register_def Let_def sample_verbs_def sample_pd_def MAX_REQUEST_SIZE_def
        server_pool_config_def BufferPoolConfig_default_def DefaultAllocator_Allocate_def sample_mem_def kv_sizes)
  then have p: "?r = (Inr pool, snd ?r)" by (metis prod.collapse)
  note f = Pool_Create_fields [OF p]
  have base: "bp_base_addr pool = 4096" "bp_count pool = 512" "bp_buffer_size pool = MAX_REQUEST_SIZE"
    using r f by (simp_all add: server_pool_config_def)
  have "lifo_invar pool" "pool_avail pool = pool_univ pool"
    by (rule lifo_invar_Create [OF p]; simp add: base server_pool_config_def kv_sizes MAX_REQUEST_SIZE_def)+
  moreover from this have "card (pool_avail pool) = 512" using lifo_avail_card [of pool] base(2) by simp
  moreover from this have "pool_avail pool \<noteq> {}" by auto
  ultimately show ?thesis using that base(3) by blast
qed

lemma sample_server_ok:
  obtains store pool where "sv_ok (sample_server store pool) {}" "pool_avail pool \<noteq> {}" "kv_abs store = Map.empty"
    "unat (kv_num_slots store) = 16384" "card (pool_avail pool) = 512"
proof -
  obtain store where "kv_inv store" "kv_abs store = Map.empty" "unat (kv_num_slots store) = 16384" by (rule server_store)
  moreover obtain pool where "lifo_invar pool" "pool_avail pool = pool_univ pool" "bp_buffer_size pool = MAX_REQUEST_SIZE"
    "pool_avail pool \<noteq> {}" "card (pool_avail pool) = 512" by (rule server_lifo_pool)
  ultimately show ?thesis using sample_manager_inv that [of store pool]
    by (simp add: sv_ok_def sv_buffers_def sv_recvs_empty tracking_empty sample_server_def)
qed

theorem kv_server_never_faults_witness:
  "\<exists>store pool s'. HandleCompletion table_verbs (sample_wc 3) (OnError table_verbs 3 (sample_server store pool)) = Inr s'"
proof -
  obtain store pool where s: "sv_ok (sample_server store pool) {}" by (rule sample_server_ok)
  let ?s = "sample_server store pool"
  have f: "kv_inv (sv_store ?s)" "mgr_inv (sv_manager ?s)" "lifo_invar (sv_pool ?s)" "bp_buffer_size (sv_pool ?s) = MAX_REQUEST_SIZE"
    using s by (simp_all add: sv_ok_def sv_buffers_def tracking_ok_def)
  have g: "sv_contexts ?s = Map.empty" "sv_posted_recv ?s = Map.empty" "sv_posted_send ?s = Map.empty"
    by (simp_all add: sample_server_def)
  have "(sv_step table_verbs)\<^sup>*\<^sup>* ?s (OnError table_verbs 3 ?s)" by (rule r_into_rtranclp [of "sv_step table_verbs", OF sv_step.error])
  from kv_server_never_faults [OF f g this, of "sample_wc 3"] show ?thesis by blast
qed


end
