(* ===== verification/Kv_History.thy ===== *)
theory Kv_History
  imports Kv_Serving
begin

text \<open>
  What a run of the key-value server (\<open>examples/kv_server.cpp\<close>) does to its store.
  The steps of the server are labelled with the request they process, if they process one; the lemmas
  show that every step moves the contents of the store as its label says, so that the locale of traced
  machines gives the contents after any run.
\<close>

section \<open>Labelled steps\<close>

inductive sv_event :: "'n qp_verbs \<Rightarrow> 'n KVServer \<Rightarrow> u8 list option \<Rightarrow> 'n KVServer \<Rightarrow> bool" for V where
  accept: "AcceptConnections V E s = Some (Inr s') \<Longrightarrow> sv_event V s None s'"
| completion: "HandleCompletion V wc s = Inr s' \<Longrightarrow> sv_event V s (handled wc s) s'"
| error: "sv_event V s None (OnError V cid s)"
| device: "sv_event V s None (s\<lparr>sv_mem := m, sv_net := n\<rparr>)"

inductive_cases sv_stepE: "sv_step V s s'"
inductive_cases sv_eventE: "sv_event V s l s'"

lemma sv_step_event: "sv_step V s s' \<longleftrightarrow> (\<exists>l. sv_event V s l s')"
proof
  assume "sv_step V s s'"
  then show "\<exists>l. sv_event V s l s'" by (rule sv_stepE) (auto intro: sv_event.intros)
next
  assume "\<exists>l. sv_event V s l s'"
  then show "sv_step V s s'" by (auto elim!: sv_eventE intro: sv_step.intros)
qed

section \<open>What the steps leave of the store\<close>

lemma PostRecvBuffers_store: "PostRecvBuffers V conn n s = Inr s' \<Longrightarrow> sv_store s' = sv_store s"
proof (induction n arbitrary: s)
  case (Suc n)
  obtain b p where a: "Pool_Allocate (sv_pool s) = Inr (b, p)" using Suc.prems(1) by (cases "Pool_Allocate (sv_pool s)") auto
  show ?case
  proof (cases "Buffer_IsValid b")
    case True
    with Suc.prems(1) a obtain t where "PostRecvBuffers V conn n t = Inr s'" "sv_store t = sv_store s"
      by (auto simp: Let_def bind_chk_eq_Inr_conv)
    with Suc.IH show ?thesis by metis
  next
    case False
    with Suc.prems(1) a Suc.IH [of "s\<lparr>sv_pool := p\<rparr>"] show ?thesis by (simp add: Let_def)
  qed
qed simp

lemma remove_conn_store: "sv_store (remove_conn V i s) = sv_store s"
  by (simp add: remove_conn_def split: prod.splits)

lemma establish_store: "establish V i remote c s = Inr s' \<Longrightarrow> sv_store s' = sv_store s"
  by (auto simp: establish_def Let_def remove_conn_store set_conn_def split: prod.splits if_splits dest!: PostRecvBuffers_store)

lemma AcceptConnections_store:
  assumes "AcceptConnections V E s = Some (Inr s')"
  shows "sv_store s' = sv_store s"
proof -
  have "sv_store t' = sv_store t" if "accept_on V E ch t = Some (Inr t')" for ch t t'
    using that by (auto simp: accept_on_def Let_def remove_conn_store split: sum.splits prod.splits option.splits dest!: establish_store)
  then show ?thesis using assms
    by (fastforce simp: AcceptConnections_def bind_chk_eq_Inr_conv split: prod.splits sum.splits)
qed

lemma OnError_store: "sv_store (OnError V cid s) = sv_store s"
  by (simp add: OnError_def split: prod.splits)

lemma kv_effect_None: "kv_effect None x = x"
  by (simp add: kv_effect_def split: prod.splits)

lemma sv_event_effect:
  assumes "sv_event V s l s'" and "sv_ok s {}"
  shows "sv_view s' = kv_effect l (sv_view s)"
  using assms
proof (induction rule: sv_event.induct)
  case (completion wc s s')
  with HandleCompletion_ok [of s V wc] show ?case by auto
qed (simp_all add: AcceptConnections_store OnError_store kv_effect_None)

interpretation server_trace: traced_machine "sv_event V" "\<lambda>s. sv_ok s {}" "\<lambda>s. sv_view s" kv_effect for V
  by unfold_locales (use sv_step_event sv_step_ok sv_event_effect in blast)+

section \<open>The history of requests determines every answer\<close>

text \<open>
  C3. A running server over a pool that is not FIFO refines a map: after any run, however accepted
  connections, requests, completions and errors interleave, the contents of its store are what the
  requests processed so far, in their order, make of the initial map; the next request on any of its
  connections is answered as that map says, and no connection, error or malformed message in between
  changes an answer.
\<close>

theorem server_history_refines_map:
  assumes "sv_ok s0 {}" and "labelled_run (sv_event V) s0 history s"
    and "fold kv_effect history (unat (kv_num_slots (sv_store s0)), kv_abs (sv_store s0)) = (cap, m)"
  shows "unat (kv_num_slots (sv_store s)) = cap \<and> kv_abs (sv_store s) = m \<and>
    (\<forall>cid ctx req. sv_contexts s cid = Some ctx \<longrightarrow>
       (\<exists>s'. ProcessRequest V req cid ctx s = Inr s' \<and> kv_abs (sv_store s') = snd (kv_reply cap req m) \<and>
          (pool_avail (sv_pool s) \<noteq> {} \<longrightarrow> answered V cid (fst (kv_reply cap req m)) s s')))"
proof -
  from server_trace.trace_refines [OF assms(2,1)] assms(3)
  have ok: "sv_ok s {}" and v: "unat (kv_num_slots (sv_store s)) = cap" "kv_abs (sv_store s) = m" by auto
  have "\<exists>s'. ProcessRequest V req cid ctx s = Inr s' \<and> kv_abs (sv_store s') = snd (kv_reply cap req m) \<and>
      (pool_avail (sv_pool s) \<noteq> {} \<longrightarrow> answered V cid (fst (kv_reply cap req m)) s s')"
    if "sv_contexts s cid = Some ctx" for cid ctx req
    using ProcessRequest_ok [OF ok that, of req "fst (kv_reply cap req m)" "snd (kv_reply cap req m)" V] v by auto
  with v show ?thesis by blast
qed

text \<open>
  A PUT of one block under key 5 that arrives at the sample server leaves the map with that binding: the
  run has one step, the completion of the receive that carried the request.
\<close>

definition sample_put :: "u8 list" where
  "sample_put = Request_bytes (SetPut 5 4096 0) @ replicate 4096 42"

theorem server_history_refines_map_witness:
  "\<exists>s0 s. kv_abs (sv_store s0) = Map.empty \<and> labelled_run (sv_event table_verbs) s0 [Some sample_put] s \<and>
     kv_abs (sv_store s) = [5 \<mapsto> replicate 4096 42]"
proof -
  obtain store pool where s: "sv_ok (sample_server store pool) {}" "pool_avail pool \<noteq> {}" "kv_abs store = Map.empty"
    "unat (kv_num_slots store) = 16384"
    by (rule sample_server_ok)
  let ?s = "(sample_server store pool)\<lparr>sv_contexts := [0 \<mapsto> sample_ctx]\<rparr>"
  have pl: "sv_pool ?s = pool" "sv_manager ?s = sample_manager" by (simp_all add: sample_server_def)
  have ok: "sv_ok ?s {}" using s(1) sample_manager_inv(2) pl(2)
    by (auto simp: sv_ok_def sv_buffers_def sample_ctx_def split: if_splits)
  from ok show ?thesis
  proof (cases rule: sv_alloc)
    case none
    from no_buffer(1) [OF ok this] show ?thesis using s(2) pl(1) by simp
  next
    case (some b p)
    let ?w = "recv_wr_id 0 b"
    let ?s0 = "?s\<lparr>sv_pool := p, sv_posted_recv := (sv_posted_recv ?s)(?w \<mapsto> (b, 0)), sv_mem := mem_write (buf_addr b) sample_put (sv_mem ?s)\<rparr>"
    let ?wc = "(sample_wc 0)\<lparr>wc_wr_id := ?w, wc_status := IBV_WC_SUCCESS, wc_byte_len := 4112\<rparr>"
    have ok0: "sv_ok ?s0 {}" using sv_track_recv [OF some(4), of b ?w 0] some(5) by simp
    have len: "length sample_put = 4112" by (simp add: sample_put_def)
    have h: "handled ?wc ?s0 = Some sample_put"
      using mem_read_written [of sample_put "buf_addr b" "\<lambda>_. 0"] len
      by (simp add: handled_def carried_def recv_wr_id_def kv_sizes sample_server_def)
    obtain s' where s': "HandleCompletion table_verbs ?wc ?s0 = Inr s'" using HandleCompletion_ok [OF ok0] by blast
    have run: "labelled_run (sv_event table_verbs) ?s0 [Some sample_put] s'"
      using run_snoc [where step = "sv_event table_verbs", OF run_nil [of _ ?s0] sv_event.completion [OF s']] h by simp
    have "fold kv_effect [Some sample_put] (unat (kv_num_slots (sv_store ?s0)), kv_abs (sv_store ?s0)) = (16384, [5 \<mapsto> replicate 4096 42])"
      using s(3,4) Request_of_bytes [of "SetPut 5 4096 0" "replicate 4096 42"]
      by (simp add: kv_effect_def kv_reply_def sample_server_def sample_put_def SetPut_def request_value_def kv_put_result_def kv_spec_put_def)
    from server_history_refines_map [OF ok0 run this] run s(3) show ?thesis
      by (intro exI [of _ ?s0] exI [of _ s']) (simp add: sample_server_def)
  qed
qed

end
