(* ===== verification/Kv_Client.thy ===== *)
theory Kv_Client
  imports Kv_Serving "HOL-Library.AList"
begin

text \<open>
  \<open>examples/kv_client.h\<close> and \<open>examples/kv_client.cpp\<close>: the benchmark client of the key-value service.
  The two \<open>unordered_map\<close>s of posted buffers are association lists, so that their size computes. The
  random draws, the stop flag and the completion queues are parameters of the benchmark; console
  output and the timing statistics are left out.
\<close>

section \<open>State\<close>

record 'n KVClient =
  cl_device :: RdmaDevice
  cl_pd :: ProtectionDomain
  cl_send_cq :: CompletionQueue
  cl_recv_cq :: CompletionQueue
  cl_pool :: LocalBufferPool
  cl_conn :: Connection
  cl_posted_recv :: "(u64 \<times> Buffer) list"
  cl_posted_send :: "(u64 \<times> Buffer) list"
  cl_mem :: memory
  cl_net :: 'n

primrec Client_PostRecvBuffers :: "'n qp_verbs \<Rightarrow> nat \<Rightarrow> 'n KVClient \<Rightarrow> 'n KVClient chk" where
  "Client_PostRecvBuffers V 0 c = Inr c"
| "Client_PostRecvBuffers V (Suc count) c =
     bind_chk (Pool_Allocate (cl_pool c)) (\<lambda>(buf, p).
       let c1 = c\<lparr>cl_pool := p\<rparr>; wr_id = recv_wr_id (conn_id_of (cl_conn c)) buf
       in Client_PostRecvBuffers V count
            (if Buffer_IsValid buf
             then c1\<lparr>cl_posted_recv := AList.update wr_id buf (cl_posted_recv c1),
                     cl_net := snd (Conn_PostRecv V buf wr_id (cl_conn c1) (cl_net c1))\<rparr>
             else c1))"

section \<open>Requests\<close>

text \<open>The end of the three operations that send: the buffer is tracked and its first bytes are sent.\<close>

definition post_request :: "'n qp_verbs \<Rightarrow> Buffer \<Rightarrow> size_t \<Rightarrow> u32 \<Rightarrow> 'n KVClient \<Rightarrow> 'n KVClient" where
  "post_request V send_buf total_size seq c =
     (let wr_id = WrId_Encode (conn_id_of (cl_conn c)) REQUEST_SEND 0 seq;
          (_, conn', n') = Conn_Send V (Buffer_Slice 0 total_size send_buf) wr_id (cl_conn c) (cl_net c)
      in c\<lparr>cl_conn := conn', cl_posted_send := AList.update wr_id send_buf (cl_posted_send c), cl_net := n'\<rparr>)"

definition SendGet :: "'n qp_verbs \<Rightarrow> u64 \<Rightarrow> u32 \<Rightarrow> 'n KVClient \<Rightarrow> 'n KVClient chk" where
  "SendGet V key seq c =
     bind_chk (Pool_Allocate (cl_pool c)) (\<lambda>(send_buf, p).
       let c1 = c\<lparr>cl_pool := p\<rparr>
       in if \<not> Buffer_IsValid send_buf then Inr c1
          else bind_chk (buf_write send_buf 0 (Request_bytes (SetGet key)) (cl_mem c1)) (\<lambda>m.
                 Inr (post_request V send_buf (of_nat sizeof_RequestHeader) seq (c1\<lparr>cl_mem := m\<rparr>))))"

text \<open>The bytes \<open>memset\<close> writes as the value.\<close>

definition value_pattern :: "u64 \<Rightarrow> u32 \<Rightarrow> u8 list" where
  "value_pattern key value_size = replicate (unat value_size) (ucast (key AND 0xFF))"

definition SendPut :: "'n qp_verbs \<Rightarrow> u64 \<Rightarrow> u32 \<Rightarrow> u32 \<Rightarrow> 'n KVClient \<Rightarrow> 'n KVClient chk" where
  "SendPut V key value_size seq c =
     bind_chk (Pool_Allocate (cl_pool c)) (\<lambda>(send_buf, p).
       let c1 = c\<lparr>cl_pool := p\<rparr>
       in if \<not> Buffer_IsValid send_buf then Inr c1
          else
            bind_chk (buf_write send_buf 0 (Request_bytes (SetPut key value_size 0)) (cl_mem c1)) (\<lambda>m1.
            bind_chk (buf_write send_buf sizeof_RequestHeader (value_pattern key value_size) m1) (\<lambda>m2.
              Inr (post_request V send_buf (of_nat sizeof_RequestHeader + ucast value_size) seq (c1\<lparr>cl_mem := m2\<rparr>)))))"

definition Descriptor_bytes :: "u32 \<Rightarrow> u32 \<Rightarrow> u8 list" where
  "Descriptor_bytes off len = le_bytes 4 off @ le_bytes 4 len"

text \<open>The loop over the segments from index \<open>i\<close>, with \<open>k\<close> segments to go.\<close>

primrec write_descriptors :: "Buffer \<Rightarrow> u32 \<Rightarrow> int \<Rightarrow> nat \<Rightarrow> nat \<Rightarrow> u32 \<Rightarrow> memory \<Rightarrow> memory chk" where
  "write_descriptors buf base_size remainder 0 i off m = Inr m"
| "write_descriptors buf base_size remainder (Suc k) i off m =
     (let seg_size = base_size + (if int i < remainder then 1 else 0)
      in bind_chk (buf_write buf (sizeof_RequestHeader + i * sizeof_SegmentDescriptor) (Descriptor_bytes off seg_size) m)
           (write_descriptors buf base_size remainder k (Suc i) (off + seg_size)))"

text \<open>The vectors \<open>segment_buffers\<close> and \<open>iovs\<close> of the source are never read.\<close>

definition SendPutSGL :: "'n qp_verbs \<Rightarrow> u64 \<Rightarrow> u32 \<Rightarrow> int \<Rightarrow> u32 \<Rightarrow> 'n KVClient \<Rightarrow> 'n KVClient chk" where
  "SendPutSGL V key value_size num_segments seq c =
     bind_chk (Pool_Allocate (cl_pool c)) (\<lambda>(header_buf, p).
       let c1 = c\<lparr>cl_pool := p\<rparr>
       in if \<not> Buffer_IsValid header_buf then Inr c1
          else if (of_int num_segments :: u32) = 0 then Inl Div_By_Zero
          else
            let base_segment_size = value_size div of_int num_segments;
                remainder = value_size mod of_int num_segments;
                header_total = of_nat sizeof_RequestHeader + of_int num_segments * of_nat sizeof_SegmentDescriptor
            in bind_chk (buf_write header_buf 0 (Request_bytes (SetPut key value_size (of_int num_segments))) (cl_mem c1)) (\<lambda>m1.
               bind_chk (write_descriptors header_buf base_segment_size (sint remainder) (nat num_segments) 0 0 m1) (\<lambda>m2.
               bind_chk (buf_write header_buf (unat header_total) (value_pattern key value_size) m2) (\<lambda>m3.
                 Inr (post_request V header_buf (header_total + ucast value_size) seq (c1\<lparr>cl_mem := m3\<rparr>))))))"

section \<open>The benchmark\<close>

record Bench =
  bn_sent :: int
  bn_completed :: int
  bn_gets_sent :: int
  bn_puts_sent :: int
  bn_gets_success :: int
  bn_puts_success :: int
  bn_gets_not_found :: int

definition Bench_zero :: Bench where
  "Bench_zero = \<lparr>bn_sent = 0, bn_completed = 0, bn_gets_sent = 0, bn_puts_sent = 0, bn_gets_success = 0,
     bn_puts_success = 0, bn_gets_not_found = 0\<rparr>"

definition MAX_OUTSTANDING :: int where
  "MAX_OUTSTANDING = 64"

text \<open>
  The arguments of \<open>RunBenchmark\<close>, with its draws: whether request \<open>i\<close> is a PUT, and its key.
\<close>

record bench_args =
  ba_num_operations :: int
  ba_value_size :: u32
  ba_use_sgl :: bool
  ba_num_segments :: int
  ba_draw :: "int \<Rightarrow> bool \<times> u64"

definition send_one :: "'n qp_verbs \<Rightarrow> bench_args \<Rightarrow> int \<Rightarrow> 'n KVClient \<Rightarrow> 'n KVClient chk" where
  "send_one V A sent c =
     (let (do_put, key) = ba_draw A sent
      in if do_put
         then if ba_use_sgl A \<and> ba_num_segments A > 1
              then SendPutSGL V key (ba_value_size A) (ba_num_segments A) (of_int sent) c
              else SendPut V key (ba_value_size A) (of_int sent) c
         else SendGet V key (of_int sent) c)"

definition count_sent :: "bench_args \<Rightarrow> Bench \<Rightarrow> Bench" where
  "count_sent A b =
     (if fst (ba_draw A (bn_sent b)) then b\<lparr>bn_sent := bn_sent b + 1, bn_puts_sent := bn_puts_sent b + 1\<rparr>
      else b\<lparr>bn_sent := bn_sent b + 1, bn_gets_sent := bn_gets_sent b + 1\<rparr>)"

function send_requests :: "'n qp_verbs \<Rightarrow> bench_args \<Rightarrow> Bench \<Rightarrow> 'n KVClient \<Rightarrow> (Bench \<times> 'n KVClient) chk" where
  "send_requests V A b c =
     (if bn_sent b < ba_num_operations A \<and> bn_sent b - bn_completed b < MAX_OUTSTANDING
      then (case send_one V A (bn_sent b) c of
              Inl u \<Rightarrow> Inl u
            | Inr c' \<Rightarrow> send_requests V A (count_sent A b) c')
      else Inr (b, c))"
  by pat_completeness auto
termination
  by (relation "measure (\<lambda>(V, A, b, c). nat (ba_num_operations A - bn_sent b))") (auto simp: count_sent_def)

declare send_requests.simps [simp del]

definition free_posted :: "Buffer \<Rightarrow> 'n KVClient \<Rightarrow> 'n KVClient chk" where
  "free_posted buf c = bind_chk (Pool_Free buf (cl_pool c)) (\<lambda>p. Inr (c\<lparr>cl_pool := p\<rparr>))"

primrec send_completions :: "ibv_wc list \<Rightarrow> 'n KVClient \<Rightarrow> 'n KVClient chk" where
  "send_completions [] c = Inr c"
| "send_completions (wc # wcs) c =
     (case map_of (cl_posted_send c) (wc_wr_id wc) of
        None \<Rightarrow> send_completions wcs c
      | Some buf \<Rightarrow>
          bind_chk (free_posted buf c) (\<lambda>c1.
            send_completions wcs (c1\<lparr>cl_posted_send := AList.delete (wc_wr_id wc) (cl_posted_send c1)\<rparr>)))"

definition count_response :: "ResponseHeader \<Rightarrow> Bench \<Rightarrow> Bench" where
  "count_response r b =
     (if OpType_of (rs_op_type r) = Some GET_RESPONSE
      then if rs_status r = KvStatus_code KV_OK then b\<lparr>bn_gets_success := bn_gets_success b + 1\<rparr>
           else if rs_status r = KvStatus_code KV_NOT_FOUND then b\<lparr>bn_gets_not_found := bn_gets_not_found b + 1\<rparr>
           else b
      else if OpType_of (rs_op_type r) = Some PUT_RESPONSE \<and> rs_status r = KvStatus_code KV_OK
      then b\<lparr>bn_puts_success := bn_puts_success b + 1\<rparr>
      else b)"

text \<open>The header is read where the buffer lies, however many bytes arrived.\<close>

definition response_at :: "Buffer \<Rightarrow> memory \<Rightarrow> ResponseHeader" where
  "response_at buf m = the (Response_of (mem_read (buf_addr buf) sizeof_ResponseHeader m))"

primrec recv_completions :: "ibv_wc list \<Rightarrow> Bench \<Rightarrow> 'n KVClient \<Rightarrow> (Bench \<times> 'n KVClient) chk" where
  "recv_completions [] b c = Inr (b, c)"
| "recv_completions (wc # wcs) b c =
     (if wc_status wc \<noteq> IBV_WC_SUCCESS then recv_completions wcs b c
      else case map_of (cl_posted_recv c) (wc_wr_id wc) of
        None \<Rightarrow> recv_completions wcs (b\<lparr>bn_completed := bn_completed b + 1\<rparr>) c
      | Some buf \<Rightarrow>
          let b1 = count_response (response_at buf (cl_mem c)) b
          in bind_chk (free_posted buf c) (\<lambda>c1.
               recv_completions wcs (b1\<lparr>bn_completed := bn_completed b1 + 1\<rparr>)
                 (c1\<lparr>cl_posted_recv := AList.delete (wc_wr_id wc) (cl_posted_recv c1)\<rparr>)))"

text \<open>\<open>CompletionQueue::Poll\<close> into the vector of 64 completions; a negative result runs no iteration.\<close>

definition poll_into ::
  "(ptr \<Rightarrow> int \<Rightarrow> 'n \<Rightarrow> (int + ibv_wc list) \<times> 'n) \<Rightarrow> CompletionQueue \<Rightarrow> 'n KVClient \<Rightarrow> (ibv_wc list \<times> 'n KVClient) chk" where
  "poll_into poll_cq cq c =
     (case poll_cq (cq_raw cq) 64 (cl_net c) of
        (Inl e, n) \<Rightarrow> Inr ([], c\<lparr>cl_net := n\<rparr>)
      | (Inr wcs, n) \<Rightarrow> if 64 < length wcs then Inl Out_Of_Bounds else Inr (wcs, c\<lparr>cl_net := n\<rparr>))"

definition bench_round ::
  "'n qp_verbs \<Rightarrow> (ptr \<Rightarrow> int \<Rightarrow> 'n \<Rightarrow> (int + ibv_wc list) \<times> 'n) \<Rightarrow> bench_args \<Rightarrow> Bench \<Rightarrow> 'n KVClient
     \<Rightarrow> (Bench \<times> 'n KVClient) chk" where
  "bench_round V poll_cq A b c =
     bind_chk (send_requests V A b c) (\<lambda>(b1, c1).
     bind_chk (poll_into poll_cq (cl_send_cq c1) c1) (\<lambda>(wcs, c2).
     bind_chk (send_completions wcs c2) (\<lambda>c3.
     bind_chk (poll_into poll_cq (cl_recv_cq c3) c3) (\<lambda>(wcs', c4).
     bind_chk (recv_completions wcs' b1 c4) (\<lambda>(b2, c5).
       if length (cl_posted_recv c5) < 32
       then bind_chk (Client_PostRecvBuffers V (32 - length (cl_posted_recv c5)) c5) (\<lambda>c6. Inr (b2, c6))
       else Inr (b2, c5))))))"

text \<open>
  The loop for at most \<open>fuel\<close> rounds, \<open>None\<close> when it has not ended by then; \<open>running i\<close> is the stop
  flag as round \<open>i\<close> reads it.
\<close>

primrec bench_loop ::
  "nat \<Rightarrow> (nat \<Rightarrow> bool) \<Rightarrow> 'n qp_verbs \<Rightarrow> (ptr \<Rightarrow> int \<Rightarrow> 'n \<Rightarrow> (int + ibv_wc list) \<times> 'n) \<Rightarrow> bench_args \<Rightarrow> nat \<Rightarrow> Bench
     \<Rightarrow> 'n KVClient \<Rightarrow> (Bench \<times> 'n KVClient) chk option" where
  "bench_loop 0 running V poll_cq A i b c = None"
| "bench_loop (Suc fuel) running V poll_cq A i b c =
     (if running i \<and> bn_completed b < ba_num_operations A
      then (case bench_round V poll_cq A b c of
              Inl u \<Rightarrow> Some (Inl u)
            | Inr (b1, c1) \<Rightarrow> bench_loop fuel running V poll_cq A (Suc i) b1 c1)
      else Some (Inr (b, c)))"

text \<open>No counters when the value size is refused.\<close>

definition RunBenchmark ::
  "nat \<Rightarrow> (nat \<Rightarrow> bool) \<Rightarrow> 'n qp_verbs \<Rightarrow> (ptr \<Rightarrow> int \<Rightarrow> 'n \<Rightarrow> (int + ibv_wc list) \<times> 'n) \<Rightarrow> bench_args \<Rightarrow> 'n KVClient
     \<Rightarrow> (Bench option \<times> 'n KVClient) chk option" where
  "RunBenchmark fuel running V poll_cq A c =
     (if \<not> IsValidValueSize (ba_value_size A) then Some (Inr (None, c))
      else map_option (\<lambda>r. bind_chk r (\<lambda>(b, c'). Inr (Some b, c'))) (bench_loop fuel running V poll_cq A 0 Bench_zero c))"

section \<open>Connecting\<close>

text \<open>
  What the environment contributes to \<open>Connect\<close>. The objects created before a failure stay members
  of the client until its destruction; the channel is a local and is closed on every return.
\<close>

record client_env =
  ce_dev :: dev_verbs
  ce_relaxed_ordering :: bool
  ce_mem :: mem_env
  ce_addrs :: "candidate list option"
  ce_create :: "ProtectionDomain option \<Rightarrow> CompletionQueue option \<Rightarrow> CompletionQueue option \<Rightarrow> ConnectionConfig \<Rightarrow> ledger
      \<Rightarrow> Connection Result \<times> ledger"
  ce_config :: ConnectionConfig
  ce_query_port :: "ptr \<Rightarrow> u8 \<Rightarrow> int + u16 \<times> u32"
  ce_query_gid :: "ptr \<Rightarrow> u8 \<Rightarrow> int \<Rightarrow> int + u8 list"
  ce_padding :: "u16 \<times> u8 \<times> u32"
  ce_writes :: "sys_ret list"
  ce_reads :: "sys_ret list"
  ce_stream :: "u8 list"

definition client_pool_config :: BufferPoolConfig where
  "client_pool_config =
     BufferPoolConfig_default\<lparr>bpc_buffer_size := MAX_RESPONSE_SIZE, bpc_buffer_count := 256, bpc_use_hugepage := False\<rparr>"

text \<open>Receive first, then send; \<open>None\<close> while a socket call blocks, \<open>Some None\<close> on failure.\<close>

definition client_exchange :: "client_env \<Rightarrow> TcpChannel \<Rightarrow> QpConnParams \<Rightarrow> HandshakeMessage option option" where
  "client_exchange E channel params =
     (case Channel_Receive (ce_reads E) channel (ce_stream E) of
        None \<Rightarrow> None
      | Some (st, got, _) \<Rightarrow>
          if \<not> Status_ok st then Some None
          else case ce_padding E of (p1, p2, p3) \<Rightarrow>
            (case Channel_Send (ce_writes E) (Handshake_bytes p1 p2 p3 (HandshakeMessage_zero\<lparr>hm_qp_params := params, hm_version := 1\<rparr>))
                    channel [] of
               None \<Rightarrow> None
             | Some (st', _) \<Rightarrow> if \<not> Status_ok st' then Some None else Some (Some (Handshake_of got))))"

lemma client_exchange_delivers:
  assumes "ch_fd ch \<ge> 0" and "benign (ce_reads E)" and "128 \<le> moves (ce_reads E)" and "benign (ce_writes E)" and "128 \<le> moves (ce_writes E)"
    and "ce_stream E = Handshake_bytes p1 p2 p3 msg @ later" and "Handshake_wf msg" and "length (gid params) = 16"
  shows "client_exchange E ch params = Some (Some msg)"
proof -
  have "Handshake_wf (HandshakeMessage_zero\<lparr>hm_qp_params := params, hm_version := 1\<rparr>)"
    using assms(8) by (simp add: Handshake_wf_def HandshakeMessage_zero_def)
  note len = this [THEN length_Handshake_bytes, unfolded sizeof_HandshakeMessage_def]
  note msg = assms(7) [THEN length_Handshake_bytes, unfolded sizeof_HandshakeMessage_def]
  from assms(1-6) show ?thesis
    by (simp add: client_exchange_def Channel_Receive_message Channel_Send_all msg len Handshake_of_bytes [OF assms(7)] split: prod.splits)
qed

definition client_establish ::
  "'n qp_verbs \<Rightarrow> client_env \<Rightarrow> TcpChannel \<Rightarrow> 'n KVClient \<Rightarrow> 'n KVClient option chk option" where
  "client_establish V E channel c =
     (case Conn_GetLocalParams (ce_query_port E) (ce_query_gid E) (cl_conn c) of
        Inl u \<Rightarrow> Some (Inl u)
      | Inr (Inl st) \<Rightarrow> Some (Inr None)
      | Inr (Inr params) \<Rightarrow>
          (case client_exchange E channel params of
             None \<Rightarrow> None
           | Some None \<Rightarrow> Some (Inr None)
           | Some (Some remote_msg) \<Rightarrow>
               let (status, conn', n') = Connect V (hm_qp_params remote_msg) (cl_conn c) (cl_net c)
               in if \<not> Status_ok status then Some (Inr None)
                  else Some (bind_chk (Client_PostRecvBuffers V 64 (c\<lparr>cl_conn := conn', cl_net := n'\<rparr>)) (\<lambda>c'. Inr (Some c')))))"

definition client_members ::
  "client_env \<Rightarrow> string \<Rightarrow> u16 \<Rightarrow> memory \<Rightarrow> 'n \<Rightarrow> ledger \<Rightarrow> (TcpChannel \<times> 'n KVClient) option \<times> ledger" where
  "client_members E host port mem net L =
     try_make (Device_Open (ce_dev E) None L) Device_dtor (\<lambda>device L1.
     try_make (PD_Create (ce_dev E) (Some device) L1) PD_dtor (\<lambda>pd L2.
     try_make (create_cqs (ce_dev E) device 4096 L2) cq_pair_dtor (\<lambda>cqs L3.
     try_make (Pool_Create (ce_dev E) (ce_relaxed_ordering E) (ce_mem E) (Some pd) client_pool_config L3) Pool_dtor (\<lambda>pool L4.
     try_make (Channel_Connect (ce_addrs E) host port L4) Channel_dtor (\<lambda>channel L5.
       (case ce_create E (Some pd) (Some (fst cqs)) (Some (snd cqs)) (ce_config E) L5 of
          (Inl st, L6) \<Rightarrow> (None, L6)
        | (Inr conn, L6) \<Rightarrow>
            (Some (channel, \<lparr>cl_device = device, cl_pd = pd, cl_send_cq = fst cqs, cl_recv_cq = snd cqs, cl_pool = pool,
               cl_conn = conn, cl_posted_recv = [], cl_posted_send = [], cl_mem = mem, cl_net = net\<rparr>), L6)))))))"

text \<open>
  The members in reverse order of their declaration. As with the server, \<open>main\<close> destroys the client as
  soon as \<open>Connect\<close> has failed, and the ledger returned with \<open>None\<close> is the one after that.
\<close>

definition KVClient_dtor :: "'n qp_verbs \<Rightarrow> 'n KVClient \<Rightarrow> ledger \<Rightarrow> ledger" where
  "KVClient_dtor V c L =
     Device_dtor (cl_device c) (PD_dtor (cl_pd c) (cq_pair_dtor (cl_send_cq c, cl_recv_cq c)
       (Pool_dtor (cl_pool c) (snd (Connection_dtor V (cl_conn c) (cl_net c) L)))))"

definition Client_Connect ::
  "'n qp_verbs \<Rightarrow> client_env \<Rightarrow> string \<Rightarrow> u16 \<Rightarrow> memory \<Rightarrow> 'n \<Rightarrow> ledger \<Rightarrow> ('n KVClient option \<times> ledger) chk option" where
  "Client_Connect V E host port mem net L =
     (case client_members E host port mem net L of
        (None, L') \<Rightarrow> Some (Inr (None, L'))
      | (Some (channel, c), L') \<Rightarrow>
          map_option (\<lambda>r. bind_chk r (\<lambda>c'. Inr (c', case c' of
              None \<Rightarrow> KVClient_dtor V c (Channel_dtor channel L') | Some _ \<Rightarrow> Channel_dtor channel L'))) (client_establish V E channel c))"

section \<open>The messages of the client\<close>

text \<open>
  The client posted \<open>msg\<close>: the bytes lie in a tracked buffer, and the device got a send of exactly
  these bytes under the id the buffer is tracked by.
\<close>

definition posted :: "'n qp_verbs \<Rightarrow> u8 list \<Rightarrow> 'n KVClient \<Rightarrow> 'n KVClient \<Rightarrow> bool" where
  "posted V msg c c' \<longleftrightarrow>
     (\<exists>b w. mem_read (buf_addr b) (length msg) (cl_mem c') = msg \<and> map_of (cl_posted_send c') w = Some b \<and>
        cl_net c' = snd (snd (Conn_Send V (Buffer_new (buf_addr b) (of_nat (length msg)) (buf_lkey b)) w (cl_conn c) (cl_net c))))"

lemma post_request_posted:
  assumes "0 < length msg" and "length msg \<le> unat (buf_length b)" and "n = of_nat (length msg)"
    and "mem_read (buf_addr b) (length msg) (cl_mem c1) = msg" and "cl_conn c1 = cl_conn c" and "cl_net c1 = cl_net c"
  shows "posted V msg c (post_request V b n seq c1)"
  unfolding posted_def
  using assms Buffer_Slice_prefix [OF assms(1,2)]
  by (intro exI [of _ b] exI [of _ "WrId_Encode (conn_id_of (cl_conn c1)) REQUEST_SEND 0 seq"])
    (simp add: post_request_def Let_def AList.update_conv' split: prod.splits)

text \<open>The client has a free buffer of the size it configures.\<close>

definition has_buffer :: "'n KVClient \<Rightarrow> bool" where
  "has_buffer c \<longleftrightarrow> (\<exists>b p. Pool_Allocate (cl_pool c) = Inr (b, p) \<and> Buffer_IsValid b \<and> buf_length b = MAX_RESPONSE_SIZE)"

lemma SendGet_posts:
  assumes "has_buffer c"
  shows "\<exists>c'. SendGet V key seq c = Inr c' \<and> posted V (Request_bytes (SetGet key)) c c'"
proof -
  from assms obtain b p where b: "Pool_Allocate (cl_pool c) = Inr (b, p)" "Buffer_IsValid b" "unat (buf_length b) = 65552"
    by (auto simp: has_buffer_def MAX_RESPONSE_SIZE_def kv_sizes)
  let ?m = "Request_bytes (SetGet key)"
  let ?c = "c\<lparr>cl_pool := p, cl_mem := mem_write (buf_addr b) ?m (cl_mem c)\<rparr>"
  have "mem_read (buf_addr b) (length ?m) (cl_mem ?c) = ?m" using mem_read_written [of ?m "buf_addr b" "cl_mem c"] by simp
  then have "posted V ?m c (post_request V b 16 seq ?c)" using b by (intro post_request_posted) simp_all
  with b show ?thesis by (simp add: SendGet_def Let_def buf_write_def kv_sizes)
qed

lemma SendPut_posts:
  assumes "has_buffer c" and "unat sz \<le> 65536"
  shows "\<exists>c'. SendPut V key sz seq c = Inr c' \<and> posted V (Request_bytes (SetPut key sz 0) @ value_pattern key sz) c c'"
proof -
  from assms obtain b p where b: "Pool_Allocate (cl_pool c) = Inr (b, p)" "Buffer_IsValid b" "unat (buf_length b) = 65552"
    by (auto simp: has_buffer_def MAX_RESPONSE_SIZE_def kv_sizes)
  let ?h = "Request_bytes (SetPut key sz 0)" and ?v = "value_pattern key sz"
  let ?c = "c\<lparr>cl_pool := p, cl_mem := mem_write (buf_addr b + 16) ?v (mem_write (buf_addr b) ?h (cl_mem c))\<rparr>"
  have lv: "length ?v = unat sz" by (simp add: value_pattern_def)
  have "mem_read (buf_addr b) (16 + unat sz) (cl_mem ?c) = ?h @ ?v"
    using mem_read_append_write [of 16 ?v "buf_addr b" "mem_write (buf_addr b) ?h (cl_mem c)"]
      mem_read_written [of ?h "buf_addr b" "cl_mem c"] assms(2) lv by simp
  then have "posted V (?h @ ?v) c (post_request V b (of_nat (16 + unat sz)) seq ?c)"
    using b assms(2) lv by (intro post_request_posted) simp_all
  moreover have "(of_nat (16 + unat sz) :: u64) = 16 + ucast sz" by simp
  ultimately show ?thesis using b assms(2) lv by (simp add: SendPut_def Let_def buf_write_def kv_sizes)
qed

lemma write_descriptors_ok:
  assumes "16 + 8 * (i + k) \<le> unat (buf_length b)"
  shows "\<exists>m' ds. write_descriptors b base rem k i off m = Inr m' \<and> length ds = 8 * k \<and>
    mem_read (buf_addr b) (16 + 8 * (i + k)) m' = mem_read (buf_addr b) (16 + 8 * i) m @ ds"
  using assms
proof (induction k arbitrary: i off m)
  case (Suc k)
  let ?s = "base + (if int i < rem then 1 else 0)" and ?d = "Descriptor_bytes off (base + (if int i < rem then 1 else 0))"
  let ?m = "mem_write (buf_addr b + of_nat (16 + 8 * i)) ?d m"
  have ld: "length ?d = 8" by (simp add: Descriptor_bytes_def)
  from Suc.IH [of "Suc i" "off + ?s" ?m] Suc.prems obtain m' ds where
    ih: "write_descriptors b base rem k (Suc i) (off + ?s) ?m = Inr m'" "length ds = 8 * k"
      "mem_read (buf_addr b) (16 + 8 * (Suc i + k)) m' = mem_read (buf_addr b) (16 + 8 * Suc i) ?m @ ds" by auto
  have "mem_read (buf_addr b) (16 + 8 * i + 8) ?m = mem_read (buf_addr b) (16 + 8 * i) m @ ?d"
    using mem_read_append_write [of "16 + 8 * i" ?d "buf_addr b" m] ld Suc.prems unat_u64_lt [of "buf_length b"] by simp
  moreover have "write_descriptors b base rem (Suc k) i off m = Inr m'"
    using ih(1) Suc.prems ld by (simp add: Let_def buf_write_def kv_sizes mult.commute)
  ultimately show ?case using ih(2,3) ld by (intro exI [of _ m'] exI [of _ "?d @ ds"]) simp
qed simp

lemma SendPutSGL_posts:
  assumes "has_buffer c" and "1 \<le> n" "n < 256" and "16 + 8 * n + unat sz \<le> 65552"
  shows "\<exists>c' ds. SendPutSGL V key sz (int n) seq c = Inr c' \<and> length ds = 8 * n \<and>
    posted V (Request_bytes (SetPut key sz (of_nat n)) @ ds @ value_pattern key sz) c c'"
proof -
  from assms(1) obtain b p where b: "Pool_Allocate (cl_pool c) = Inr (b, p)" "Buffer_IsValid b" "unat (buf_length b) = 65552"
    by (auto simp: has_buffer_def MAX_RESPONSE_SIZE_def kv_sizes)
  let ?h = "Request_bytes (SetPut key sz (of_nat n))" and ?v = "value_pattern key sz"
  let ?m1 = "mem_write (buf_addr b) ?h (cl_mem c)"
  have n32: "unat (of_nat n :: u32) = n" and n64: "unat (16 + of_nat n * 8 :: u64) = 16 + 8 * n"
    using assms(3) by (simp_all add: unat_of_nat_less unat_word_ariths unat_of_nat)
  then have nz: "(of_nat n :: u32) \<noteq> 0" using assms(2) by (metis not_one_le_zero unat_0)
  from write_descriptors_ok [of 0 n b "sz div of_nat n" "sint (sz mod of_nat n)" 0 ?m1] b(3) assms(4) obtain m2 ds where
    d: "write_descriptors b (sz div of_nat n) (sint (sz mod of_nat n)) n 0 0 ?m1 = Inr m2" "length ds = 8 * n"
      "mem_read (buf_addr b) (16 + 8 * n) m2 = mem_read (buf_addr b) 16 ?m1 @ ds" by auto
  have lv: "length ?v = unat sz" by (simp add: value_pattern_def)
  let ?c = "c\<lparr>cl_pool := p, cl_mem := mem_write (buf_addr b + of_nat (16 + 8 * n)) ?v m2\<rparr>"
  have "mem_read (buf_addr b) (16 + 8 * n + unat sz) (cl_mem ?c) = ?h @ ds @ ?v"
    using mem_read_append_write [of "16 + 8 * n" ?v "buf_addr b" m2] d(3) mem_read_written [of ?h "buf_addr b" "cl_mem c"]
      assms(4) lv by simp
  then have "posted V (?h @ ds @ ?v) c (post_request V b (of_nat (16 + 8 * n + unat sz)) seq ?c)"
    using b assms(4) lv d(2) by (intro post_request_posted) (simp_all add: add.assoc)
  moreover have "(of_nat (16 + 8 * n + unat sz) :: u64) = 16 + of_nat n * 8 + ucast sz" by (simp add: mult.commute)
  moreover have "buf_write b (16 + 8 * n) ?v m2 = Inr (cl_mem ?c)" using b(3) assms(4) lv by (simp add: buf_write_def)
  moreover have "(16 + of_nat n * 8 + ucast sz :: u64) = 16 + 8 * of_nat n + ucast sz" by (simp add: mult.commute)
  ultimately show ?thesis using b d(1,2) nz n64 assms(4) lv
    by (intro exI [of _ "post_request V b (of_nat (16 + 8 * n + unat sz)) seq ?c"] exI [of _ ds])
      (simp add: SendPutSGL_def Let_def buf_write_def kv_sizes mult.commute [of _ 8])
qed

section \<open>The client and the protocol\<close>

lemma value_pattern_bytes [simp]: "length (value_pattern key sz) = unat sz"
  by (simp add: value_pattern_def)

lemma kv_reply_put:
  assumes "length ds = 8 * n" and "n < 256" and "length v = unat sz"
  shows "kv_reply cap (Request_bytes (SetPut key sz (of_nat n)) @ ds @ v) M =
    (let (st, M') = kv_spec_put cap key v M in (Response_bytes (SetPutResponse key st), M'))"
proof -
  have "unat (of_nat n :: u8) = n" using assms(2) by (simp add: unat_of_nat_less)
  then have "request_value (SetPut key sz (of_nat n)) (Request_bytes (SetPut key sz (of_nat n)) @ ds @ v) = Some v"
    using assms(1,3) by (simp add: request_value_def SetPut_def Let_def)
  then show ?thesis by (simp add: kv_reply_def kv_put_result_def) (simp add: SetPut_def)
qed

lemma kv_reply_get:
  "kv_reply cap (Request_bytes (SetGet key)) M =
    (let (st, v) = kv_spec_get key 65536 M in (Response_bytes (SetGetResponse key st (of_nat (length v))) @ v, M))"
  using Request_of_bytes [of "SetGet key" "[]"] by (simp add: kv_reply_def) (simp add: SetGet_def)

text \<open>
  Put, then get: a client with a free buffer posts a PUT and then a GET of the key it wrote, in
  one piece or with descriptors for up to 255 segments that leave the value room in the buffer. To
  a server with room the two messages mean: store the value, and answer with exactly this value.
\<close>

lemma kv_put_then_get:
  assumes "has_buffer c" and "IsValidValueSize sz" and "n < 256" and "8 * n + unat sz \<le> 65536"
    and "card (dom M) < cap"
    and "has_buffer c2"
  shows "\<exists>c1 c3 put.
    (if n = 0 then SendPut V key sz seq c else SendPutSGL V key sz (int n) seq c) = Inr c1 \<and> posted V put c c1 \<and>
    kv_reply cap put M = (Response_bytes (SetPutResponse key KV_OK), M(key \<mapsto> value_pattern key sz)) \<and>
    SendGet V key seq' c2 = Inr c3 \<and> posted V (Request_bytes (SetGet key)) c2 c3 \<and>
    kv_reply cap (Request_bytes (SetGet key)) (M(key \<mapsto> value_pattern key sz)) =
      (Response_bytes (SetGetResponse key KV_OK sz) @ value_pattern key sz, M(key \<mapsto> value_pattern key sz))"
proof -
  have v: "4096 \<le> unat sz" "unat sz \<le> 65536" "4096 dvd unat sz" using assms(2) by (simp_all add: IsValidValueSize_iff)
  obtain c1 ds where put: "(if n = 0 then SendPut V key sz seq c else SendPutSGL V key sz (int n) seq c) = Inr c1"
    "length ds = 8 * n" "posted V (Request_bytes (SetPut key sz (of_nat n)) @ ds @ value_pattern key sz) c c1"
  proof (cases "n = 0")
    case True
    with SendPut_posts [OF assms(1) v(2), of V key seq] that [of _ "[]"] show ?thesis by auto
  next
    case False
    with SendPutSGL_posts [OF assms(1), of n sz V key seq] assms(3,4) that show ?thesis by auto
  qed
  have "kv_spec_put cap key (value_pattern key sz) M = (KV_OK, M(key \<mapsto> value_pattern key sz))"
    using v assms(5) by (simp add: kv_spec_put_def)
  then have "kv_reply cap (Request_bytes (SetPut key sz (of_nat n)) @ ds @ value_pattern key sz) M =
      (Response_bytes (SetPutResponse key KV_OK), M(key \<mapsto> value_pattern key sz))"
    using kv_reply_put [OF put(2) assms(3), of "value_pattern key sz" sz] by simp
  moreover have "kv_reply cap (Request_bytes (SetGet key)) (M(key \<mapsto> value_pattern key sz)) =
      (Response_bytes (SetGetResponse key KV_OK sz) @ value_pattern key sz, M(key \<mapsto> value_pattern key sz))"
    using v(2) by (simp add: kv_reply_get kv_spec_get_def)
  moreover obtain c3 where "SendGet V key seq' c2 = Inr c3" "posted V (Request_bytes (SetGet key)) c2 c3"
    using SendGet_posts [OF assms(6), of V key seq'] by blast
  ultimately show ?thesis using put by blast
qed

text \<open>
  A scattered PUT of the largest value does not fit: the client's buffers have the size of a
  response, which has no room for descriptors, so for every number of segments a value that is larger
  than the room the descriptors leave is written past the end of the buffer.
\<close>

lemma client_sgl_overflow:
  assumes "has_buffer c" and "1 \<le> n" and "n \<le> 16" and "65536 < 8 * n + unat sz"
  shows "SendPutSGL V key sz (int n) seq c = Inl Out_Of_Bounds"
proof -
  from assms(1) obtain b p where b: "Pool_Allocate (cl_pool c) = Inr (b, p)" "Buffer_IsValid b" "unat (buf_length b) = 65552"
    by (auto simp: has_buffer_def MAX_RESPONSE_SIZE_def kv_sizes)
  let ?m1 = "mem_write (buf_addr b) (Request_bytes (SetPut key sz (of_nat n))) (cl_mem c)"
  have n32: "unat (of_nat n :: u32) = n" and n64: "unat (16 + of_nat n * 8 :: u64) = 16 + 8 * n"
    using assms(3) by (simp_all add: unat_of_nat_less unat_word_ariths unat_of_nat)
  then have nz: "(of_nat n :: u32) \<noteq> 0" using assms(2) by (metis not_one_le_zero unat_0)
  from write_descriptors_ok [of 0 n b "sz div of_nat n" "sint (sz mod of_nat n)" 0 ?m1] b(3) assms(3) obtain m2 where
    "write_descriptors b (sz div of_nat n) (sint (sz mod of_nat n)) n 0 0 ?m1 = Inr m2" by auto
  then show ?thesis using b nz n64 assms(4)
    by (simp add: SendPutSGL_def Let_def buf_write_def kv_sizes mult.commute [of _ 8])
qed

section \<open>The counters of the benchmark\<close>

definition bench_ok :: "Bench \<Rightarrow> bool" where
  "bench_ok b \<longleftrightarrow> bn_gets_sent b + bn_puts_sent b = bn_sent b \<and> 0 \<le> bn_gets_sent b \<and> 0 \<le> bn_puts_sent b \<and>
     0 \<le> bn_gets_success b \<and> 0 \<le> bn_gets_not_found b \<and> 0 \<le> bn_puts_success b \<and>
     bn_gets_success b + bn_gets_not_found b + bn_puts_success b \<le> bn_completed b"

text \<open>The window: never more than 64 requests are sent beyond the completed ones.\<close>

definition window_ok :: "bench_args \<Rightarrow> Bench \<Rightarrow> bool" where
  "window_ok A b \<longleftrightarrow> bn_sent b \<le> max 0 (ba_num_operations A) \<and> bn_sent b - bn_completed b \<le> 64"

lemma send_requests_counts:
  "send_requests V A b c = Inr (b', c') \<Longrightarrow> bench_ok b \<and> window_ok A b \<Longrightarrow> bench_ok b' \<and> window_ok A b' \<and>
     bn_completed b' = bn_completed b \<and> (bn_sent b' \<ge> ba_num_operations A \<or> bn_sent b' - bn_completed b' \<ge> 64)"
proof (induction V A b c rule: send_requests.induct)
  case (1 V A b c)
  show ?case
  proof (cases "bn_sent b < ba_num_operations A \<and> bn_sent b - bn_completed b < MAX_OUTSTANDING")
    case True
    with "1.prems"(1) obtain c1 where s: "send_one V A (bn_sent b) c = Inr c1" "send_requests V A (count_sent A b) c1 = Inr (b', c')"
      by (subst (asm) send_requests.simps) (auto split: sum.splits)
    have "bench_ok (count_sent A b) \<and> window_ok A (count_sent A b) \<and> bn_completed (count_sent A b) = bn_completed b"
      using True "1.prems"(2) by (auto simp: bench_ok_def window_ok_def count_sent_def MAX_OUTSTANDING_def)
    with "1.IH" [OF True s] show ?thesis by auto
  next
    case False
    with "1.prems" show ?thesis by (subst (asm) send_requests.simps) (auto simp: MAX_OUTSTANDING_def)
  qed
qed

lemma recv_completions_counts:
  "recv_completions wcs b c = Inr (b', c') \<Longrightarrow> bench_ok b \<and> window_ok A b \<Longrightarrow> bench_ok b' \<and> window_ok A b'"
proof (induction wcs arbitrary: b c)
  case (Cons wc wcs)
  let ?inc = "\<lambda>b. b\<lparr>bn_completed := bn_completed b + 1\<rparr>"
  have step: "bench_ok (?inc b) \<and> window_ok A (?inc b)" "bench_ok (?inc (count_response r b)) \<and> window_ok A (?inc (count_response r b))"
    for r using Cons.prems(2) by (auto simp: bench_ok_def window_ok_def count_response_def)
  show ?case
  proof (cases "wc_status wc \<noteq> IBV_WC_SUCCESS \<or> map_of (cl_posted_recv c) (wc_wr_id wc) = None")
    case True
    with Cons.prems Cons.IH [of "?inc b" c] Cons.IH [of b c] step(1) show ?thesis by (auto split: if_splits)
  next
    case False
    then obtain buf where "map_of (cl_posted_recv c) (wc_wr_id wc) = Some buf" "wc_status wc = IBV_WC_SUCCESS" by auto
    with Cons.prems(1) obtain c1 where
      "recv_completions wcs (?inc (count_response (response_at buf (cl_mem c)) b)) c1 = Inr (b', c')"
      by (auto simp: Let_def bind_chk_eq_Inr_conv)
    with Cons.IH step(2) show ?thesis by blast
  qed
qed simp

lemma bench_round_counts:
  fixes c :: "'n KVClient"
  assumes "bench_round V poll_cq A b c = Inr (b', c')" and "bench_ok b \<and> window_ok A b"
  shows "bench_ok b' \<and> window_ok A b'"
proof -
  have "\<exists>b1 c1 wcs' (c4 :: 'n KVClient) c5. send_requests V A b c = Inr (b1, c1) \<and> recv_completions wcs' b1 c4 = Inr (b', c5)"
    using assms(1) by (auto simp: bench_round_def bind_chk_eq_Inr_conv split: if_splits)
  with send_requests_counts assms(2) recv_completions_counts show ?thesis by metis
qed

lemma bench_loop_counts:
  "bench_loop fuel running V poll_cq A i b c = Some (Inr (b', c')) \<Longrightarrow> bench_ok b \<and> window_ok A b \<Longrightarrow>
     bench_ok b' \<and> window_ok A b' \<and> (bn_completed b' \<ge> ba_num_operations A \<or> (\<exists>j. \<not> running j))"
proof (induction fuel arbitrary: i b c)
  case (Suc fuel)
  show ?case
  proof (cases "running i \<and> bn_completed b < ba_num_operations A")
    case True
    with Suc.prems(1) obtain b1 c1 where r: "bench_round V poll_cq A b c = Inr (b1, c1)"
      "bench_loop fuel running V poll_cq A (Suc i) b1 c1 = Some (Inr (b', c'))" by (auto split: sum.splits)
    with Suc.IH [OF r(2)] bench_round_counts [OF r(1) Suc.prems(2)] show ?thesis by simp
  next
    case False
    with Suc.prems show ?thesis by auto
  qed
qed simp

text \<open>
  C40. The counters of a benchmark that ends are consistent: every request is counted as a GET or a
  PUT, the answers that are classified are not more than the completed ones, no more requests than
  asked for were sent and never more than 64 beyond the completed ones; and it ends only with enough
  completions or when it is stopped.
\<close>

theorem benchmark_counters:
  assumes "RunBenchmark fuel running V poll_cq A c = Some (Inr (Some b, c'))"
  shows "bn_gets_sent b + bn_puts_sent b = bn_sent b \<and> bn_sent b \<le> max 0 (ba_num_operations A) \<and>
    bn_sent b - bn_completed b \<le> 64 \<and> bn_gets_success b + bn_gets_not_found b + bn_puts_success b \<le> bn_completed b \<and>
    (ba_num_operations A \<le> bn_completed b \<or> (\<exists>j. \<not> running j)) \<and> IsValidValueSize (ba_value_size A)"
proof -
  have valid: "IsValidValueSize (ba_value_size A)" using assms by (auto simp: RunBenchmark_def split: if_splits)
  then have "bench_loop fuel running V poll_cq A 0 Bench_zero c = Some (Inr (b, c'))"
    using assms by (auto simp: RunBenchmark_def bind_chk_eq_Inr_conv split: if_splits)
  from bench_loop_counts [OF this] have "bench_ok b \<and> window_ok A b \<and> (bn_completed b \<ge> ba_num_operations A \<or> (\<exists>j. \<not> running j))"
    by (simp add: bench_ok_def window_ok_def Bench_zero_def)
  with valid show ?thesis by (auto simp: bench_ok_def window_ok_def)
qed

section \<open>A sample client\<close>

definition sample_client_pool :: LocalBufferPool where
  "sample_client_pool = projr (fst (Pool_Create sample_verbs False sample_mem (Some sample_pd) client_pool_config ledger_empty))"

definition sample_client :: "(ptr \<Rightarrow> QpState) KVClient" where
  "sample_client =
     \<lparr>cl_device = \<lparr>dev_context = 11, dev_attr = None, dev_name = ''mlx5_0'', dev_numa_node = 0\<rparr>, cl_pd = sample_pd,
      cl_send_cq = sample_cq, cl_recv_cq = sample_cq\<lparr>cq_raw := 5\<rparr>, cl_pool = sample_client_pool,
      cl_conn = sample_conn CONNECTED, cl_posted_recv = map (\<lambda>i. (of_nat i, Buffer_null)) [0..<32], cl_posted_send = [],
      cl_mem = (\<lambda>_. 0), cl_net = (\<lambda>_. QP_RTS)\<rparr>"

lemma sample_client_buffer: "has_buffer sample_client"
proof -
  let ?r = "Pool_Create sample_verbs False sample_mem (Some sample_pd) client_pool_config ledger_empty"
  have r: "fst ?r = Inr sample_client_pool" "bp_base_addr sample_client_pool = 4096"
    by (simp_all add: sample_client_pool_def Pool_Create_def MR_Register_def Let_def sample_verbs_def sample_pd_def
        MAX_RESPONSE_SIZE_def client_pool_config_def BufferPoolConfig_default_def DefaultAllocator_Allocate_def sample_mem_def
        kv_sizes)
  then have p: "?r = (Inr sample_client_pool, snd ?r)" by (metis prod.collapse)
  note f = Pool_Create_fields [OF p]
  have cfg: "bpc_policy client_pool_config = FIFO" "bpc_buffer_count client_pool_config = 256"
    "bpc_buffer_size client_pool_config = MAX_RESPONSE_SIZE"
    by (simp_all add: client_pool_config_def BufferPoolConfig_default_def)
  have "ring_read 0 sample_client_pool = Inr 0" by (simp add: ring_read_def f cfg)
  then have "Pool_Allocate sample_client_pool = Inr (Buffer_new (bp_base_addr sample_client_pool) MAX_RESPONSE_SIZE (bp_lkey sample_client_pool),
      sample_client_pool\<lparr>bp_head := 1 mod bp_buffer_count sample_client_pool, bp_count := bp_count sample_client_pool - 1\<rparr>)"
    using f cfg by (simp add: Pool_Allocate_def Let_def Pool_GetBufferPtr_def)
  then show ?thesis using r(2)
    by (simp add: has_buffer_def sample_client_def Buffer_IsValid_def Buffer_new_def MAX_RESPONSE_SIZE_def kv_sizes)
qed

text \<open>One GET, answered by a completion of the receive queue.\<close>

definition sample_poll :: "ptr \<Rightarrow> int \<Rightarrow> 'n \<Rightarrow> (int + ibv_wc list) \<times> 'n" where
  "sample_poll cq n net = (Inr (if cq = 5 then [sample_wc 3] else []), net)"

definition sample_args :: bench_args where
  "sample_args = \<lparr>ba_num_operations = 1, ba_value_size = 4096, ba_use_sgl = False, ba_num_segments = 1, ba_draw = (\<lambda>_. (False, 7))\<rparr>"

lemma sample_round:
  "\<exists>c'. bench_round table_verbs sample_poll sample_args Bench_zero sample_client =
     Inr (Bench_zero\<lparr>bn_sent := 1, bn_gets_sent := 1, bn_completed := 1\<rparr>, c')"
proof -
  obtain b p where b: "Pool_Allocate (cl_pool sample_client) = Inr (b, p)" "Buffer_IsValid b" "unat (buf_length b) = 65552"
    using sample_client_buffer by (auto simp: has_buffer_def MAX_RESPONSE_SIZE_def kv_sizes)
  let ?c = "post_request table_verbs b 16 0
    (sample_client\<lparr>cl_pool := p, cl_mem := mem_write (buf_addr b) (Request_bytes (SetGet 7)) (cl_mem sample_client)\<rparr>)"
  have "SendGet table_verbs 7 0 sample_client = Inr ?c" using b by (simp add: SendGet_def Let_def buf_write_def kv_sizes)
  then have "send_requests table_verbs sample_args Bench_zero sample_client =
      Inr (Bench_zero\<lparr>bn_sent := 1, bn_gets_sent := 1\<rparr>, ?c)"
    by (simp add: send_requests.simps send_one_def count_sent_def sample_args_def Bench_zero_def MAX_OUTSTANDING_def)
  moreover have "cl_send_cq ?c = sample_cq" "cl_recv_cq ?c = sample_cq\<lparr>cq_raw := 5\<rparr>"
    "cl_posted_recv ?c = cl_posted_recv sample_client"
    by (simp_all add: post_request_def Let_def sample_client_def split: prod.splits)
  moreover have "map_of (cl_posted_recv sample_client) (wc_wr_id (sample_wc 3)) = None" "length (cl_posted_recv sample_client) = 32"
    "wc_status (sample_wc 3) = IBV_WC_SUCCESS"
    by (simp_all add: sample_client_def sample_wc_def IBV_WC_SUCCESS_def upt_rec)
  ultimately show ?thesis
    by (simp add: bench_round_def poll_into_def sample_poll_def sample_cq_def Bench_zero_def)
qed

theorem benchmark_counters_witness:
  "\<exists>b c'. RunBenchmark 2 (\<lambda>_. True) table_verbs sample_poll sample_args sample_client = Some (Inr (Some b, c')) \<and>
     bn_completed b = 1 \<and> bn_gets_sent b + bn_puts_sent b = bn_sent b"
proof -
  let ?b = "Bench_zero\<lparr>bn_sent := 1, bn_gets_sent := 1, bn_completed := 1\<rparr>"
  have valid: "IsValidValueSize (ba_value_size sample_args)" by (simp add: sample_args_def IsValidValueSize_def kv_sizes)
  obtain c' where "bench_round table_verbs sample_poll sample_args Bench_zero sample_client = Inr (?b, c')"
    using sample_round by blast
  then have run: "RunBenchmark 2 (\<lambda>_. True) table_verbs sample_poll sample_args sample_client = Some (Inr (Some ?b, c'))"
    by (simp add: RunBenchmark_def valid numeral_2_eq_2) (simp add: sample_args_def Bench_zero_def)
  from benchmark_counters [OF run] run show ?thesis by (auto simp: Bench_zero_def)
qed

end
