(* ===== verification/Echo_Programs.thy ===== *)
theory Echo_Programs
  imports Kv_Client
begin

text \<open>
  The command-line programs: \<open>examples/server.cpp\<close> and \<open>examples/client.cpp\<close>, the smallest users of the
  library, and the flag validation of \<open>examples/kv_client_main.cpp\<close>. What the handlers print is the list
  of outputs of the program. The locals of \<open>main\<close> are destroyed in reverse order on every return.
\<close>

section \<open>The handlers\<close>

datatype echo_out = Out_Wc_Error nat | Out_Received u32 | Out_Send_Completed | Out_Conn_Error u16 nat

definition Echo_OnCompletion :: "ibv_wc \<Rightarrow> echo_out list" where
  "Echo_OnCompletion wc =
     (if wc_status wc \<noteq> IBV_WC_SUCCESS then [Out_Wc_Error (wc_status wc)]
      else case WrId_GetOpcode (wc_wr_id wc) of
        Some RECV \<Rightarrow> [Out_Received (wc_byte_len wc)]
      | Some REQUEST_SEND \<Rightarrow> [Out_Send_Completed]
      | Some RESPONSE_SEND \<Rightarrow> [Out_Send_Completed]
      | _ \<Rightarrow> [])"

definition Echo_OnError :: "u16 \<Rightarrow> nat \<Rightarrow> echo_out list" where
  "Echo_OnError conn_id status = [Out_Conn_Error conn_id status]"

definition kEcho_OnCompletion :: nat where
  "kEcho_OnCompletion = 0"

definition kEcho_OnError :: nat where
  "kEcho_OnError = 1"

definition echo_call :: "disp_call \<Rightarrow> echo_out list" where
  "echo_call call = (case call of Call_Wc f ctx wc \<Rightarrow> Echo_OnCompletion wc | Call_Error f ctx i st \<Rightarrow> Echo_OnError i st)"

section \<open>Opening the device\<close>

record rdma_stack =
  stk_device :: RdmaDevice
  stk_pd :: ProtectionDomain
  stk_send_cq :: CompletionQueue
  stk_recv_cq :: CompletionQueue
  stk_pool :: LocalBufferPool

definition echo_pool_config :: BufferPoolConfig where
  "echo_pool_config =
     BufferPoolConfig_default\<lparr>bpc_buffer_size := 4096, bpc_buffer_count := 256, bpc_use_hugepage := False\<rparr>"

definition open_stack :: "dev_verbs \<Rightarrow> bool \<Rightarrow> mem_env \<Rightarrow> ledger \<Rightarrow> rdma_stack option \<times> ledger" where
  "open_stack V ro E L =
     (case Device_Open V None L of
        (Inl _, L1) \<Rightarrow> (None, L1)
      | (Inr device, L1) \<Rightarrow>
          (case PD_Create V (Some device) L1 of
             (Inl _, L2) \<Rightarrow> (None, Device_dtor device L2)
           | (Inr pd, L2) \<Rightarrow>
               (case create_cqs V device 4096 L2 of
                  (Inl _, L3) \<Rightarrow> (None, Device_dtor device (PD_dtor pd L3))
                | (Inr (send_cq, recv_cq), L3) \<Rightarrow>
                    (case Pool_Create V ro E (Some pd) echo_pool_config L3 of
                       (Inl _, L4) \<Rightarrow> (None, Device_dtor device (PD_dtor pd (CQ_dtor send_cq (CQ_dtor recv_cq L4))))
                     | (Inr pool, L4) \<Rightarrow>
                         (Some \<lparr>stk_device = device, stk_pd = pd, stk_send_cq = send_cq, stk_recv_cq = recv_cq,
                            stk_pool = pool\<rparr>, L4)))))"

definition close_stack :: "rdma_stack \<Rightarrow> ledger \<Rightarrow> ledger" where
  "close_stack k L =
     Device_dtor (stk_device k) (PD_dtor (stk_pd k) (CQ_dtor (stk_send_cq k) (CQ_dtor (stk_recv_cq k) (Pool_dtor (stk_pool k) L))))"

section \<open>Polling and posting\<close>

primrec dispatch_each :: "ibv_wc list \<Rightarrow> CompletionDispatcher \<Rightarrow> echo_out list \<Rightarrow> (CompletionDispatcher \<times> echo_out list) chk" where
  "dispatch_each [] d out = Inr (d, out)"
| "dispatch_each (wc # wcs) d out =
     bind_chk (Dispatch wc d) (\<lambda>(calls, d1). dispatch_each wcs d1 (out @ concat (map echo_call calls)))"

text \<open>One queue is polled into the vector of 32 completions, and each of them is dispatched.\<close>

definition echo_poll ::
  "(ptr \<Rightarrow> int \<Rightarrow> 'n \<Rightarrow> (int + ibv_wc list) \<times> 'n) \<Rightarrow> CompletionQueue \<Rightarrow> CompletionDispatcher \<Rightarrow> 'n \<Rightarrow> echo_out list
     \<Rightarrow> (CompletionDispatcher \<times> 'n \<times> echo_out list) chk" where
  "echo_poll poll_cq cq d n out =
     (case poll_cq (cq_raw cq) 32 n of
        (Inl e, n1) \<Rightarrow> Inr (d, n1, out)
      | (Inr wcs, n1) \<Rightarrow>
          if 32 < length wcs then Inl Out_Of_Bounds
          else bind_chk (dispatch_each wcs d out) (\<lambda>(d1, out1). Inr (d1, n1, out1)))"

text \<open>The receive buffers with the numbers from \<open>i\<close> on, \<open>k\<close> of them; nothing keeps them.\<close>

primrec post_receives :: "'n qp_verbs \<Rightarrow> Connection \<Rightarrow> nat \<Rightarrow> nat \<Rightarrow> LocalBufferPool \<Rightarrow> 'n \<Rightarrow> (LocalBufferPool \<times> 'n) chk" where
  "post_receives V conn 0 i p n = Inr (p, n)"
| "post_receives V conn (Suc k) i p n =
     bind_chk (Pool_Allocate p) (\<lambda>(buf, p1).
       post_receives V conn k (Suc i) p1
         (if Buffer_IsValid buf
          then snd (Conn_PostRecv V buf (WrId_Encode (conn_id_of conn) RECV 0 (of_nat i)) conn n) else n))"

section \<open>The server\<close>

record 'n EchoServer =
  eo_stack :: rdma_stack
  eo_dispatcher :: CompletionDispatcher
  eo_listener :: TcpServer
  eo_net :: 'n
  eo_out :: "echo_out list"
  eo_ledger :: ledger

text \<open>\<open>main\<close> up to its loop; \<open>None\<close> for exit code 1.\<close>

definition Echo_Server_start ::
  "dev_verbs \<Rightarrow> bool \<Rightarrow> mem_env \<Rightarrow> (int \<times> bool) list option \<Rightarrow> int option \<Rightarrow> u16 \<Rightarrow> 'n \<Rightarrow> ledger
     \<Rightarrow> 'n EchoServer option \<times> ledger" where
  "Echo_Server_start V ro E addrs listen_err port net L =
     (case open_stack V ro E L of
        (None, L1) \<Rightarrow> (None, L1)
      | (Some k, L1) \<Rightarrow>
          (case Server_Create addrs listen_err port L1 of
             (Inl st, L2) \<Rightarrow> (None, close_stack k L2)
           | (Inr server, L2) \<Rightarrow>
               (Some \<lparr>eo_stack = k, eo_dispatcher = SetErrorHandler nullptr (Some kEcho_OnError) Dispatcher_new,
                  eo_listener = server, eo_net = net, eo_out = [], eo_ledger = L2\<rparr>, L2)))"

text \<open>The loop over the completions of one connection, \<open>None\<close> when it has not ended after \<open>fuel\<close> rounds.\<close>

primrec message_loop ::
  "nat \<Rightarrow> (nat \<Rightarrow> bool) \<Rightarrow> (ptr \<Rightarrow> int \<Rightarrow> 'n \<Rightarrow> (int + ibv_wc list) \<times> 'n) \<Rightarrow> Connection \<Rightarrow> nat \<Rightarrow> 'n EchoServer
     \<Rightarrow> 'n EchoServer chk option" where
  "message_loop 0 running poll_cq conn i s = None"
| "message_loop (Suc fuel) running poll_cq conn i s =
     (if running i \<and> conn_state conn = CONNECTED
      then (case bind_chk (echo_poll poll_cq (stk_send_cq (eo_stack s)) (eo_dispatcher s) (eo_net s) (eo_out s)) (\<lambda>(d, n, out).
                 echo_poll poll_cq (stk_recv_cq (eo_stack s)) d n out) of
              Inl u \<Rightarrow> Some (Inl u)
            | Inr (d, n, out) \<Rightarrow>
                message_loop fuel running poll_cq conn (Suc i) (s\<lparr>eo_dispatcher := d, eo_net := n, eo_out := out\<rparr>))
      else Some (Inr s))"

definition drop_conn :: "'n qp_verbs \<Rightarrow> Connection \<Rightarrow> 'n EchoServer \<Rightarrow> 'n EchoServer" where
  "drop_conn V conn s =
     (let (n, L) = Connection_dtor V conn (eo_net s) (eo_ledger s) in s\<lparr>eo_net := n, eo_ledger := L\<rparr>)"

text \<open>The connection is set up and served; it is destroyed when the iteration ends.\<close>

definition serve_connected ::
  "nat \<Rightarrow> (nat \<Rightarrow> bool) \<Rightarrow> (ptr \<Rightarrow> int \<Rightarrow> 'n \<Rightarrow> (int + ibv_wc list) \<times> 'n) \<Rightarrow> 'n qp_verbs \<Rightarrow> ptr \<Rightarrow> Connection \<Rightarrow> 'n EchoServer
     \<Rightarrow> 'n EchoServer chk option" where
  "serve_connected fuel running poll_cq V conn_ptr conn s =
     (let s1 = s\<lparr>eo_dispatcher := RegisterConnection (conn_id_of conn) conn_ptr (Some kEcho_OnCompletion) (eo_dispatcher s)\<rparr>
      in case post_receives V conn 16 0 (stk_pool (eo_stack s1)) (eo_net s1) of
           Inl u \<Rightarrow> Some (Inl u)
         | Inr (p, n) \<Rightarrow>
             map_option (\<lambda>r. bind_chk r (\<lambda>s'. Inr (drop_conn V conn s')))
               (message_loop fuel running poll_cq conn 0 (s1\<lparr>eo_stack := (eo_stack s1)\<lparr>stk_pool := p\<rparr>, eo_net := n\<rparr>)))"

definition serve_client ::
  "nat \<Rightarrow> (nat \<Rightarrow> bool) \<Rightarrow> (ptr \<Rightarrow> int \<Rightarrow> 'n \<Rightarrow> (int + ibv_wc list) \<times> 'n) \<Rightarrow> 'n qp_verbs \<Rightarrow> accept_env \<Rightarrow> ptr \<Rightarrow> TcpChannel
     \<Rightarrow> 'n EchoServer \<Rightarrow> 'n EchoServer chk option" where
  "serve_client fuel running poll_cq V E conn_ptr channel s =
     (case ae_create E (Some (stk_pd (eo_stack s))) (Some (stk_send_cq (eo_stack s))) (Some (stk_recv_cq (eo_stack s)))
             (ae_config E) (eo_ledger s) of
        (Inl st, L) \<Rightarrow> Some (Inr (s\<lparr>eo_ledger := L\<rparr>))
      | (Inr conn, L) \<Rightarrow>
          let s1 = s\<lparr>eo_ledger := L\<rparr>
          in (case Conn_GetLocalParams (ae_query_port E) (ae_query_gid E) conn of
                Inl u \<Rightarrow> Some (Inl u)
              | Inr (Inl st) \<Rightarrow> Some (Inr (drop_conn V conn s1))
              | Inr (Inr params) \<Rightarrow>
                  (case exchange_params E channel (HandshakeMessage_zero\<lparr>hm_qp_params := params, hm_version := 1\<rparr>) of
                     None \<Rightarrow> None
                   | Some None \<Rightarrow> Some (Inr (drop_conn V conn s1))
                   | Some (Some remote_msg) \<Rightarrow>
                       let (status, conn', n') = Connect V (hm_qp_params remote_msg) conn (eo_net s1);
                           s2 = s1\<lparr>eo_net := n'\<rparr>
                       in if \<not> Status_ok status then Some (Inr (drop_conn V conn' s2))
                          else serve_connected fuel running poll_cq V conn_ptr conn' s2)))"

text \<open>One iteration of the outer loop; the channel is destroyed at its end.\<close>

definition echo_iteration ::
  "nat \<Rightarrow> (nat \<Rightarrow> bool) \<Rightarrow> (ptr \<Rightarrow> int \<Rightarrow> 'n \<Rightarrow> (int + ibv_wc list) \<times> 'n) \<Rightarrow> 'n qp_verbs \<Rightarrow> accept_env \<Rightarrow> ptr
     \<Rightarrow> 'n EchoServer \<Rightarrow> 'n EchoServer chk option" where
  "echo_iteration fuel running poll_cq V E conn_ptr s =
     (case Channel_Accept (ae_poll E) (ae_accept E) (ae_peer E) (eo_ledger s) of
        (Inl st, L) \<Rightarrow> Some (Inr (s\<lparr>eo_ledger := L\<rparr>))
      | (Inr channel, L) \<Rightarrow>
          map_option (\<lambda>r. bind_chk r (\<lambda>s'. Inr (s'\<lparr>eo_ledger := Channel_dtor channel (eo_ledger s')\<rparr>)))
            (serve_client fuel running poll_cq V E conn_ptr channel (s\<lparr>eo_ledger := L\<rparr>)))"

section \<open>The client\<close>

record 'n HelloClient =
  hc_stack :: rdma_stack
  hc_channel :: TcpChannel
  hc_conn :: Connection
  hc_dispatcher :: CompletionDispatcher
  hc_mem :: memory
  hc_count :: nat
  hc_net :: 'n
  hc_out :: "echo_out list"

definition hello_message :: "u8 list" where
  "hello_message = map of_char ''Hello, RDMA!'' @ [0]"

text \<open>
  \<open>main\<close> from the connected queue pair to the loop. The connection itself is set up as by the key-value
  client (\<open>client_exchange\<close>).
\<close>

definition Hello_start ::
  "'n qp_verbs \<Rightarrow> client_env \<Rightarrow> string \<Rightarrow> u16 \<Rightarrow> ptr \<Rightarrow> memory \<Rightarrow> 'n \<Rightarrow> ledger \<Rightarrow> ('n HelloClient option \<times> ledger) chk option" where
  "Hello_start V E host port conn_ptr mem net L =
     (case open_stack (ce_dev E) (ce_relaxed_ordering E) (ce_mem E) L of
        (None, L1) \<Rightarrow> Some (Inr (None, L1))
      | (Some k, L1) \<Rightarrow>
          (case Channel_Connect (ce_addrs E) host port L1 of
             (Inl st, L2) \<Rightarrow> Some (Inr (None, close_stack k L2))
           | (Inr channel, L2) \<Rightarrow>
               (case ce_create E (Some (stk_pd k)) (Some (stk_send_cq k)) (Some (stk_recv_cq k)) (ce_config E) L2 of
                  (Inl st, L3) \<Rightarrow> Some (Inr (None, close_stack k (Channel_dtor channel L3)))
                | (Inr conn, L3) \<Rightarrow>
                    let stop = (\<lambda>c n. Some (Inr (None, close_stack k (Channel_dtor channel (snd (Connection_dtor V c n L3))))))
                    in (case Conn_GetLocalParams (ce_query_port E) (ce_query_gid E) conn of
                          Inl u \<Rightarrow> Some (Inl u)
                        | Inr (Inl st) \<Rightarrow> stop conn net
                        | Inr (Inr params) \<Rightarrow>
                            (case client_exchange E channel params of
                               None \<Rightarrow> None
                             | Some None \<Rightarrow> stop conn net
                             | Some (Some remote_msg) \<Rightarrow>
                                 let (status, conn', n') = Connect V (hm_qp_params remote_msg) conn net
                                 in if \<not> Status_ok status then stop conn' n'
                                    else Some (bind_chk (post_receives V conn' 16 0 (stk_pool k) n') (\<lambda>(p, n2).
                                      Inr (Some \<lparr>hc_stack = k\<lparr>stk_pool := p\<rparr>, hc_channel = channel, hc_conn = conn',
                                        hc_dispatcher = RegisterConnection (conn_id_of conn') conn_ptr (Some kEcho_OnCompletion)
                                          (SetErrorHandler nullptr (Some kEcho_OnError) Dispatcher_new),
                                        hc_mem = mem, hc_count = 0, hc_net = n2, hc_out = []\<rparr>, L3))))))))"

text \<open>The whole buffer is sent, not only the message.\<close>

definition send_hello :: "'n qp_verbs \<Rightarrow> 'n HelloClient \<Rightarrow> 'n HelloClient chk" where
  "send_hello V c =
     bind_chk (Pool_Allocate (stk_pool (hc_stack c))) (\<lambda>(buf, p).
       let c1 = c\<lparr>hc_stack := (hc_stack c)\<lparr>stk_pool := p\<rparr>\<rparr>
       in if \<not> Buffer_IsValid buf then Inr c1
          else bind_chk (buf_write buf 0 hello_message (hc_mem c1)) (\<lambda>m.
                 let wr_id = WrId_Encode (conn_id_of (hc_conn c1)) REQUEST_SEND 0 (of_nat (hc_count c1));
                     (_, conn', n') = Conn_Send V buf wr_id (hc_conn c1) (hc_net c1)
                 in Inr (c1\<lparr>hc_mem := m, hc_conn := conn', hc_net := n', hc_count := hc_count c1 + 1\<rparr>)))"

text \<open>\<open>due i\<close>: a second has passed since the last send when round \<open>i\<close> reads the clock.\<close>

definition hello_round ::
  "(ptr \<Rightarrow> int \<Rightarrow> 'n \<Rightarrow> (int + ibv_wc list) \<times> 'n) \<Rightarrow> 'n qp_verbs \<Rightarrow> bool \<Rightarrow> 'n HelloClient \<Rightarrow> 'n HelloClient chk" where
  "hello_round poll_cq V due c =
     bind_chk (if due then send_hello V c else Inr c) (\<lambda>c1.
     bind_chk (echo_poll poll_cq (stk_send_cq (hc_stack c1)) (hc_dispatcher c1) (hc_net c1) (hc_out c1)) (\<lambda>(d, n, out).
     bind_chk (echo_poll poll_cq (stk_recv_cq (hc_stack c1)) d n out) (\<lambda>(d', n', out').
       Inr (c1\<lparr>hc_dispatcher := d', hc_net := n', hc_out := out'\<rparr>))))"

primrec hello_loop ::
  "nat \<Rightarrow> (nat \<Rightarrow> bool) \<Rightarrow> (nat \<Rightarrow> bool) \<Rightarrow> (ptr \<Rightarrow> int \<Rightarrow> 'n \<Rightarrow> (int + ibv_wc list) \<times> 'n) \<Rightarrow> 'n qp_verbs \<Rightarrow> nat \<Rightarrow> 'n HelloClient
     \<Rightarrow> 'n HelloClient chk option" where
  "hello_loop 0 running due poll_cq V i c = None"
| "hello_loop (Suc fuel) running due poll_cq V i c =
     (if running i \<and> conn_state (hc_conn c) = CONNECTED
      then (case hello_round poll_cq V (due i) c of
              Inl u \<Rightarrow> Some (Inl u)
            | Inr c1 \<Rightarrow> hello_loop fuel running due poll_cq V (Suc i) c1)
      else Some (Inr c))"

section \<open>The flags of the key-value client\<close>

text \<open>\<open>main\<close> refuses the flags with exit code 1 or goes on to \<open>Connect\<close> and \<open>RunBenchmark\<close>.\<close>

definition kv_client_flags_ok :: "string \<Rightarrow> real \<Rightarrow> int \<Rightarrow> int \<Rightarrow> bool" where
  "kv_client_flags_ok host put_ratio value_size segments \<longleftrightarrow>
     host \<noteq> [] \<and> \<not> (put_ratio < 0 \<or> put_ratio > 1) \<and> IsValidValueSize (of_int value_size) \<and>
     \<not> (segments < 1 \<or> segments > int (unat MAX_SEGMENTS))"

section \<open>One client at a time\<close>

lemma Connect_ok_state: "Connect V rp c n = (st, c', n') \<Longrightarrow> Status_ok st \<Longrightarrow> conn_state c' = CONNECTED"
  by (auto simp: Connect_def Let_def Status_InvalidArgument_def Status_new_def Status_ok_def split: if_splits prod.splits)

lemma message_loop_stays:
  assumes "\<And>j. running j" and "conn_state conn = CONNECTED"
  shows "message_loop fuel running poll_cq conn i s \<noteq> Some (Inr s')"
proof (induction fuel arbitrary: i s)
  case (Suc fuel)
  then show ?case using assms by (auto split: sum.splits prod.splits)
qed simp

text \<open>
  The example server never comes back from a client: as long as the process is not stopped, an
  iteration of its loop that returns has not connected anybody. Nothing in the inner loop changes the
  state of the connection it waits for, so after the first client no other is accepted.
\<close>

theorem echo_server_serves_one_client:
  assumes "\<And>j. running j" and "echo_iteration fuel running poll_cq V E conn_ptr s = Some (Inr s')"
  shows "eo_dispatcher s' = eo_dispatcher s \<and> eo_stack s' = eo_stack s \<and> eo_out s' = eo_out s"
proof -
  have drop: "eo_dispatcher (drop_conn V c t) = eo_dispatcher t" "eo_stack (drop_conn V c t) = eo_stack t"
    "eo_out (drop_conn V c t) = eo_out t" for c and t :: "'a EchoServer"
    by (simp_all add: drop_conn_def split: prod.splits)
  have stuck: "serve_connected fuel running poll_cq V conn_ptr c t \<noteq> Some (Inr t')" if "conn_state c = CONNECTED" for c t t'
    using message_loop_stays [of running c fuel poll_cq, OF assms(1) that] by (auto simp: serve_connected_def Let_def bind_chk_eq_Inr_conv split: sum.splits)
  have "eo_dispatcher t' = eo_dispatcher t \<and> eo_stack t' = eo_stack t \<and> eo_out t' = eo_out t"
    if "serve_client fuel running poll_cq V E conn_ptr ch t = Some (Inr t')" for ch t t'
    using that by (auto simp: serve_client_def Let_def drop stuck dest: Connect_ok_state
        split: prod.splits sum.splits option.splits if_splits)
  with assms(2) show ?thesis
    by (fastforce simp: echo_iteration_def bind_chk_eq_Inr_conv split: prod.splits sum.splits)
qed

section \<open>The client runs dry\<close>

lemma Pool_Allocate_count:
  assumes "Pool_Allocate p = Inr (b, p')"
  shows "unat (bp_count p') = unat (bp_count p) - 1" and "bp_count p = 0 \<Longrightarrow> \<not> Buffer_IsValid b"
proof -
  show "unat (bp_count p') = unat (bp_count p) - 1"
    using assms by (auto simp: Pool_Allocate_def bind_chk_eq_Inr_conv Let_def unat_minus_one split: if_splits)
  show "bp_count p = 0 \<Longrightarrow> \<not> Buffer_IsValid b" using assms by (auto simp: Pool_Allocate_def Buffer_IsValid_def Buffer_null_def)
qed

lemma post_receives_count: "post_receives V conn k i p n = Inr (p', n') \<Longrightarrow> unat (bp_count p') = unat (bp_count p) - k"
proof (induction k arbitrary: i p n)
  case (Suc k)
  from Suc.prems obtain b p1 n1 where "Pool_Allocate p = Inr (b, p1)" "post_receives V conn k (Suc i) p1 n1 = Inr (p', n')"
    by (auto simp: bind_chk_eq_Inr_conv)
  with Suc.IH Pool_Allocate_count(1) show ?case by (metis diff_diff_left plus_1_eq_Suc)
qed simp

abbreviation hc_buffers :: "'n HelloClient \<Rightarrow> nat" where
  "hc_buffers c \<equiv> unat (bp_count (stk_pool (hc_stack c)))"

lemma send_hello_count:
  assumes "send_hello V c = Inr c'"
  shows "hc_count c' + hc_buffers c' \<le> hc_count c + hc_buffers c"
proof -
  from assms obtain b p where p: "Pool_Allocate (stk_pool (hc_stack c)) = Inr (b, p)" by (auto simp: send_hello_def bind_chk_eq_Inr_conv)
  have "Buffer_IsValid b \<Longrightarrow> 1 \<le> hc_buffers c" using Pool_Allocate_count(2) [OF p] by (auto simp: Suc_le_eq unat_gt_0)
  moreover obtain st c1 n1 where "Conn_Send V b (WrId_Encode (conn_id_of (hc_conn c)) REQUEST_SEND 0 (of_nat (hc_count c)))
      (hc_conn c) (hc_net c) = (st, c1, n1)" using prod_cases3 by blast
  ultimately show ?thesis using assms p Pool_Allocate_count(1) [OF p]
    by (auto simp: send_hello_def bind_chk_eq_Inr_conv Let_def split: if_splits)
qed

lemma hello_loop_count:
  "hello_loop fuel running due poll_cq V i c = Some (Inr c') \<Longrightarrow> hc_count c' + hc_buffers c' \<le> hc_count c + hc_buffers c"
proof (induction fuel arbitrary: i c)
  case (Suc fuel)
  show ?case
  proof (cases "running i \<and> conn_state (hc_conn c) = CONNECTED")
    case True
    with Suc.prems obtain c1 where c1: "hello_round poll_cq V (due i) c = Inr c1" "hello_loop fuel running due poll_cq V (Suc i) c1 = Some (Inr c')"
      by (auto split: sum.splits)
    from c1(1) obtain c2 where c2: "(if due i then send_hello V c else Inr c) = Inr c2" "hc_count c1 = hc_count c2" "hc_stack c1 = hc_stack c2"
      by (auto simp: hello_round_def bind_chk_eq_Inr_conv)
    from c2(1) send_hello_count have "hc_count c2 + hc_buffers c2 \<le> hc_count c + hc_buffers c" by (auto split: if_splits)
    with Suc.IH [OF c1(2)] c2(2,3) show ?thesis by simp
  next
    case False
    with Suc.prems show ?thesis by auto
  qed
qed simp

lemma Hello_start_buffers:
  fixes V :: "'n qp_verbs"
  assumes "Hello_start V E host port conn_ptr mem net L = Some (Inr (Some c, L'))"
  shows "hc_buffers c = 240" and "hc_count c = 0"
proof -
  obtain k L1 where k: "open_stack (ce_dev E) (ce_relaxed_ordering E) (ce_mem E) L = (Some k, L1)"
    using assms by (auto simp: Hello_start_def split: prod.splits option.splits)
  have "unat (bp_count (stk_pool k)) = 256"
    using k by (auto simp: open_stack_def echo_pool_config_def split: sum.splits prod.splits dest!: Pool_Create_fields(4))
  then have "hc_buffers c = 240 \<and> hc_count c = 0"
    using assms k by (auto simp: Hello_start_def Let_def bind_chk_eq_Inr_conv split: sum.splits prod.splits option.splits if_splits
        dest!: post_receives_count)
  then show "hc_buffers c = 240" "hc_count c = 0" by simp_all
qed

text \<open>
  The example client stops sending for ever: nothing gives a buffer back, so of the 256 buffers of
  its pool 16 go to the receive queue and each message takes another one; however long it runs, it
  sends at most 240 messages.
\<close>

theorem hello_client_runs_dry:
  assumes "Hello_start V E host port conn_ptr mem net L = Some (Inr (Some c, L'))"
    and "hello_loop fuel running due poll_cq V 0 c = Some (Inr c')"
  shows "hc_count c' \<le> 240"
  using hello_loop_count [OF assms(2)] Hello_start_buffers [OF assms(1)] by simp

text \<open>
  C39. The flags of the key-value client admit requests that leave the buffer: for all flags \<open>main\<close>
  accepts, with more than one segment and a value that the descriptors leave no room for, the
  scattered PUT of the benchmark writes past the end of its buffer.
\<close>

theorem admitted_flags_overflow:
  assumes "kv_client_flags_ok host ratio value_size segments" and "1 < segments"
    and "65536 < 8 * nat segments + unat (of_int value_size :: u32)" and "has_buffer c"
  shows "SendPutSGL V key (of_int value_size) segments seq c = Inl Out_Of_Bounds"
proof -
  have "segments \<le> 16" using assms(1) by (simp add: kv_client_flags_ok_def kv_sizes)
  with client_sgl_overflow [OF assms(4), of "nat segments" "of_int value_size" V key seq] assms(2,3) show ?thesis by simp
qed
section \<open>Sample programs\<close>

definition sample_echo_server :: "(ptr \<Rightarrow> QpState) EchoServer" where
  "sample_echo_server = the (fst (Echo_Server_start (se_dev sample_server_env) False sample_mem (Some [(3, True)]) None 7 (\<lambda>_. QP_RESET) ledger_empty))"

theorem echo_server_serves_one_client_witness:
  "\<exists>s'. echo_iteration 5 (\<lambda>_. True) (\<lambda>_ _ n. (Inr [], n)) table_verbs sample_refusal 9 sample_echo_server = Some (Inr s') \<and>
     eo_out s' = eo_out sample_echo_server"
proof -
  have "\<exists>s'. echo_iteration 5 (\<lambda>_. True) (\<lambda>_ _ n. (Inr [], n)) table_verbs sample_refusal 9 sample_echo_server = Some (Inr s')"
    by (simp add: echo_iteration_def serve_client_def sample_refusal_def Channel_Accept_def)
  then show ?thesis using echo_server_serves_one_client [of "\<lambda>_. True"] by blast
qed

text \<open>A client on a device whose queries succeed, connected to a peer that sends the zero message.\<close>

definition sample_hello_conn :: Connection where
  "sample_hello_conn = (sample_conn DISCONNECTED)\<lparr>conn_qp := sample_qp\<lparr>qp_pd := Some \<lparr>pd_raw = 3,
     pd_device = Some \<lparr>dev_context = 11, dev_attr = None, dev_name = ''mlx5_0'', dev_numa_node = 0\<rparr>\<rparr>\<rparr>\<rparr>"

definition sample_client_env :: client_env where
  "sample_client_env =
     \<lparr>ce_dev = se_dev sample_server_env, ce_relaxed_ordering = False, ce_mem = sample_mem,
      ce_addrs = Some [\<lparr>ca_socket = 8, ca_connect = None, ca_poll = 0, ca_so_error = 0\<rparr>],
      ce_create = (\<lambda>_ _ _ _ L. (Inr sample_hello_conn, L)), ce_config = ConnectionConfig_default id,
      ce_query_port = (\<lambda>_ _. Inr (1, 3)), ce_query_gid = (\<lambda>_ _ _. Inr (replicate 16 0)), ce_padding = (0, 0, 0),
      ce_writes = replicate 128 (Moved 50), ce_reads = replicate 128 (Moved 50),
      ce_stream = Handshake_bytes 0 0 0 HandshakeMessage_zero\<rparr>"

lemma fifo_ready_post:
  assumes "fifo_ready 4096 p"
  shows "\<exists>p' n'. post_receives V conn k i p n = Inr (p', n') \<and> fifo_ready 4096 p'"
  using assms
proof (induction k arbitrary: i p n)
  case (Suc k)
  from fifo_ready_Allocate [OF Suc.prems] obtain b p1 where "Pool_Allocate p = Inr (b, p1)" "fifo_ready 4096 p1" by blast
  with Suc.IH show ?case by simp
qed simp

lemma fifo_ready_send:
  assumes "fifo_ready 4096 (stk_pool (hc_stack c))"
  shows "\<exists>c'. send_hello V c = Inr c'"
proof -
  from fifo_ready_Allocate [OF assms] obtain b p where
    b: "Pool_Allocate (stk_pool (hc_stack c)) = Inr (b, p)" "Buffer_IsValid b \<longrightarrow> buf_length b = 4096" by blast
  have "length hello_message = 13" by (simp add: hello_message_def)
  with b(2) have "Buffer_IsValid b \<Longrightarrow> \<exists>m. buf_write b 0 hello_message (hc_mem c) = Inr m" by (simp add: buf_write_def)
  moreover obtain st c1 n1 where "Conn_Send V b (WrId_Encode (conn_id_of (hc_conn c)) REQUEST_SEND 0 (of_nat (hc_count c)))
      (hc_conn c) (hc_net c) = (st, c1, n1)" using prod_cases3 by blast
  ultimately show ?thesis using b(1) by (cases "Buffer_IsValid b") (auto simp: send_hello_def Let_def)
qed

lemma sample_stack_opens:
  "\<exists>k L. open_stack (ce_dev sample_client_env) False sample_mem ledger_empty = (Some k, L) \<and> fifo_ready 4096 (stk_pool k)"
  by (simp add: open_stack_def create_cqs_def sample_client_env_def sample_server_env_def sample_verbs_def Device_Open_def PD_Create_def
      CQ_Create_def CompletionQueueConfig_default_def Pool_Create_def MR_Register_def Let_def echo_pool_config_def
      BufferPoolConfig_default_def DefaultAllocator_Allocate_def sample_mem_def fifo_ready_def)

lemma sample_exchange:
  assumes "length (gid params) = 16"
  shows "client_exchange sample_client_env \<lparr>ch_fd = 8, ch_peer_address = a\<rparr> params = Some (Some HandshakeMessage_zero)"
  by (rule client_exchange_delivers [where later = "[]"])
    (simp_all add: sample_client_env_def moves_benign_replicate Handshake_wf_def HandshakeMessage_zero_def QpConnParams_zero_def assms)

lemma sample_hello_connects:
  "\<exists>c n. Connect table_verbs QpConnParams_zero sample_hello_conn (\<lambda>_. QP_RESET) = (Status_OK, c, n)"
  by (simp add: Connect_def sample_transitions sample_hello_conn_def Let_def)

lemma sample_hello_params:
  "\<exists>params. Conn_GetLocalParams (\<lambda>_ _. Inr (1, 3)) (\<lambda>_ _ _. Inr (replicate 16 0)) sample_hello_conn = Inr (Inr params) \<and>
     length (gid params) = 16"
  by (simp add: Conn_GetLocalParams_def QP_GetLocalParams_def sample_hello_conn_def sample_conn_def sample_qp_def Device_QueryPort_def
      Device_QueryGid_def Let_def)

lemma sample_hello_starts:
  "\<exists>c L. Hello_start table_verbs sample_client_env ''host'' 7 9 (\<lambda>_. 0) (\<lambda>_. QP_RESET) ledger_empty = Some (Inr (Some c, L)) \<and>
     fifo_ready 4096 (stk_pool (hc_stack c))"
proof -
  obtain k L1 where k: "open_stack (ce_dev sample_client_env) False sample_mem ledger_empty = (Some k, L1)" "fifo_ready 4096 (stk_pool k)"
    using sample_stack_opens by blast
  obtain c1 n1 where con: "Connect table_verbs QpConnParams_zero sample_hello_conn (\<lambda>_. QP_RESET) = (Status_OK, c1, n1)"
    using sample_hello_connects by blast
  obtain p n2 where p: "post_receives table_verbs c1 16 0 (stk_pool k) n1 = Inr (p, n2)" "fifo_ready 4096 p"
    using fifo_ready_post [OF k(2), of table_verbs c1 16 0 n1] by blast
  obtain params where params: "Conn_GetLocalParams (\<lambda>_ _. Inr (1, 3)) (\<lambda>_ _ _. Inr (replicate 16 0)) sample_hello_conn = Inr (Inr params)"
    "length (gid params) = 16" using sample_hello_params by blast
  have env: "ce_relaxed_ordering sample_client_env = False" "ce_mem sample_client_env = sample_mem"
    "ce_query_port sample_client_env = (\<lambda>_ _. Inr (1, 3))" "ce_query_gid sample_client_env = (\<lambda>_ _ _. Inr (replicate 16 0))"
    "ce_addrs sample_client_env = Some [\<lparr>ca_socket = 8, ca_connect = None, ca_poll = 0, ca_so_error = 0\<rparr>]"
    "ce_create sample_client_env = (\<lambda>_ _ _ _ L. (Inr sample_hello_conn, L))"
    by (simp_all add: sample_client_env_def)
  show ?thesis
    by (simp add: Hello_start_def env k params Channel_Connect_def Let_def sample_exchange [OF params(2)] HandshakeMessage_zero_def con p)
qed

theorem hello_client_runs_dry_witness:
  "\<exists>c L c'. Hello_start table_verbs sample_client_env ''host'' 7 9 (\<lambda>_. 0) (\<lambda>_. QP_RESET) ledger_empty = Some (Inr (Some c, L)) \<and>
     hello_loop 2 (\<lambda>i. i < 1) (\<lambda>_. True) (\<lambda>_ _ n. (Inr [], n)) table_verbs 0 c = Some (Inr c') \<and> hc_count c' \<le> 240"
proof -
  obtain c L where c: "Hello_start table_verbs sample_client_env ''host'' 7 9 (\<lambda>_. 0) (\<lambda>_. QP_RESET) ledger_empty = Some (Inr (Some c, L))"
    "fifo_ready 4096 (stk_pool (hc_stack c))" using sample_hello_starts by blast
  obtain c1 where "send_hello table_verbs c = Inr c1" using fifo_ready_send [OF c(2)] by blast
  then have "\<exists>c'. hello_loop 2 (\<lambda>i. i < 1) (\<lambda>_. True) (\<lambda>_ _ n. (Inr [], n)) table_verbs 0 c = Some (Inr c')"
    by (simp add: numeral_2_eq_2 hello_round_def echo_poll_def)
  then obtain c' where "hello_loop 2 (\<lambda>i. i < 1) (\<lambda>_. True) (\<lambda>_ _ n. (Inr [], n)) table_verbs 0 c = Some (Inr c')" by blast
  with hello_client_runs_dry [OF c(1) this] c(1) show ?thesis by blast
qed

theorem admitted_flags_overflow_witness:
  "kv_client_flags_ok ''host'' (1 / 2) 65536 4 \<and> SendPutSGL table_verbs 7 65536 4 0 sample_client = Inl Out_Of_Bounds"
proof -
  have ok: "kv_client_flags_ok ''host'' (1 / 2) 65536 4" by (simp add: kv_client_flags_ok_def IsValidValueSize_def kv_sizes)
  have "65536 < 8 * nat 4 + unat (of_int 65536 :: u32)" by simp
  from admitted_flags_overflow [OF ok _ this sample_client_buffer, of table_verbs 7 0] ok show ?thesis by simp
qed

end
