(* ===== verification/Kv_Benchmark.thy ===== *)
theory Kv_Benchmark
  imports Echo_Programs
begin

text \<open>
  What the benchmark client of \<open>Kv_Client\<close> does to its own state. Its invariant \<open>cl_ok\<close> accounts for
  every buffer and is kept by each operation and by the whole benchmark over a pool that is not FIFO,
  whatever the device reports; over the FIFO pool that \<open>Connect\<close> really configures the first response
  or send completion that is recognised ends the run, so that no benchmark reports a success.
\<close>

section \<open>What the client keeps\<close>

text \<open>
  The buffers the running operation holds are \<open>X\<close>. The table of posted receives has one entry for an
  id, so that its length is the size of the \<open>unordered_map\<close>.
\<close>

definition cl_ok :: "'n KVClient \<Rightarrow> Buffer set \<Rightarrow> bool" where
  "cl_ok c X \<longleftrightarrow> bp_buffer_size (cl_pool c) = MAX_RESPONSE_SIZE \<and> distinct (map fst (cl_posted_recv c)) \<and>
     tracking_ok (cl_pool c) (map_of (cl_posted_recv c)) (map_of (cl_posted_send c)) X"

lemma cl_frame [simp]:
  "cl_ok (c\<lparr>cl_mem := m\<rparr>) X = cl_ok c X" "cl_ok (c\<lparr>cl_net := n\<rparr>) X = cl_ok c X" "cl_ok (c\<lparr>cl_conn := k\<rparr>) X = cl_ok c X"
  by (simp_all add: cl_ok_def)

lemma cl_alloc:
  assumes "cl_ok c X"
  obtains (none) "Pool_Allocate (cl_pool c) = Inr (Buffer_null, cl_pool c)" "\<not> Buffer_IsValid Buffer_null" "cl_ok c X"
  | (some) b p where "Pool_Allocate (cl_pool c) = Inr (b, p)" "Buffer_IsValid b" "unat (buf_length b) = 65552"
      "cl_ok (c\<lparr>cl_pool := p\<rparr>) (insert b X)" "b \<notin> X"
proof -
  have "tracking_ok (cl_pool c) (map_of (cl_posted_recv c)) (map_of (cl_posted_send c)) X" using assms by (simp add: cl_ok_def)
  then show ?thesis
  proof (cases rule: tracking_alloc)
    case none
    with assms that(1) show ?thesis by simp
  next
    case (some b p)
    with assms that(2) show ?thesis by (simp add: cl_ok_def MAX_RESPONSE_SIZE_def kv_sizes)
  qed
qed

lemma cl_track_send:
  "cl_ok c X \<Longrightarrow> b \<in> X \<Longrightarrow> cl_ok (c\<lparr>cl_posted_send := AList.update w b (cl_posted_send c)\<rparr>) (X - {b})"
  by (simp add: cl_ok_def AList.update_conv' tracking_track2)

lemma cl_track_recv:
  "cl_ok c X \<Longrightarrow> b \<in> X \<Longrightarrow> cl_ok (c\<lparr>cl_posted_recv := AList.update w b (cl_posted_recv c)\<rparr>) (X - {b})"
  by (simp add: cl_ok_def AList.update_conv' tracking_track distinct_update)

text \<open>A completion frees the buffer and then forgets it.\<close>

lemma cl_complete_send:
  assumes "cl_ok c {}" and "map_of (cl_posted_send c) w = Some b"
  obtains p where "free_posted b c = Inr (c\<lparr>cl_pool := p\<rparr>)"
    "cl_ok (c\<lparr>cl_pool := p, cl_posted_send := AList.delete w (cl_posted_send c)\<rparr>) {}"
proof -
  have "tracking_ok (cl_pool c) (map_of (cl_posted_recv c)) ((map_of (cl_posted_send c))(w := None)) {b}"
    using tracking_untrack2 [of "cl_pool c" "map_of (cl_posted_recv c)" "map_of (cl_posted_send c)" "{}" w b] assms
    by (simp only: cl_ok_def)
  then obtain p where "Pool_Free b (cl_pool c) = Inr p"
    "tracking_ok p (map_of (cl_posted_recv c)) ((map_of (cl_posted_send c))(w := None)) ({b} - {b})"
    "bp_buffer_size p = bp_buffer_size (cl_pool c)" by (rule tracking_free) simp
  with assms(1) that show ?thesis by (simp add: cl_ok_def free_posted_def AList.delete_conv')
qed

lemma cl_complete_recv:
  assumes "cl_ok c {}" and "map_of (cl_posted_recv c) w = Some b"
  obtains p where "free_posted b c = Inr (c\<lparr>cl_pool := p\<rparr>)"
    "cl_ok (c\<lparr>cl_pool := p, cl_posted_recv := AList.delete w (cl_posted_recv c)\<rparr>) {}"
proof -
  have "tracking_ok (cl_pool c) ((map_of (cl_posted_recv c))(w := None)) (map_of (cl_posted_send c)) {b}"
    using tracking_untrack [of "cl_pool c" "map_of (cl_posted_recv c)" "map_of (cl_posted_send c)" "{}" w b] assms
    by (simp only: cl_ok_def)
  then obtain p where "Pool_Free b (cl_pool c) = Inr p"
    "tracking_ok p ((map_of (cl_posted_recv c))(w := None)) (map_of (cl_posted_send c)) ({b} - {b})"
    "bp_buffer_size p = bp_buffer_size (cl_pool c)" by (rule tracking_free) simp
  with assms(1) that show ?thesis by (simp add: cl_ok_def free_posted_def AList.delete_conv' distinct_delete)
qed

section \<open>Its operations\<close>

lemma post_recv_ok: "cl_ok c {} \<Longrightarrow> \<exists>c'. Client_PostRecvBuffers V n c = Inr c' \<and> cl_ok c' {}"
proof (induction n arbitrary: c)
  case (Suc n)
  from Suc.prems show ?case
  proof (cases rule: cl_alloc)
    case none
    with Suc show ?thesis by (simp add: Let_def)
  next
    case (some b p)
    let ?w = "recv_wr_id (conn_id_of (cl_conn c)) b"
    have "cl_ok (c\<lparr>cl_pool := p, cl_posted_recv := AList.update ?w b (cl_posted_recv c)\<rparr>) {}"
      using cl_track_recv [OF some(4), of b ?w] by simp
    with some(1,2) Suc.IH show ?thesis by (simp add: Let_def)
  qed
qed simp

lemma post_request_ok: "cl_ok c X \<Longrightarrow> b \<in> X \<Longrightarrow> cl_ok (post_request V b n seq c) (X - {b})"
  using cl_track_send [of c X b "WrId_Encode (conn_id_of (cl_conn c)) REQUEST_SEND 0 seq"]
  by (simp add: post_request_def Let_def cl_ok_def split: prod.splits)

lemma SendGet_ok: "cl_ok c {} \<Longrightarrow> \<exists>c'. SendGet V key seq c = Inr c' \<and> cl_ok c' {}"
proof (erule cl_alloc)
  fix b p
  assume b: "Pool_Allocate (cl_pool c) = Inr (b, p)" "Buffer_IsValid b" "unat (buf_length b) = 65552"
    "cl_ok (c\<lparr>cl_pool := p\<rparr>) (insert b {})"
  let ?m = "mem_write (buf_addr b) (Request_bytes (SetGet key)) (cl_mem c)"
  have "cl_ok (post_request V b 16 seq (c\<lparr>cl_pool := p, cl_mem := ?m\<rparr>)) {}"
    using post_request_ok [of "c\<lparr>cl_pool := p, cl_mem := ?m\<rparr>" "{b}" b V 16 seq] b(4) by simp
  with b show "\<exists>c'. SendGet V key seq c = Inr c' \<and> cl_ok c' {}" by (simp add: SendGet_def Let_def buf_write_def kv_sizes)
qed (auto simp: SendGet_def Let_def)

text \<open>The two sends below need room for the value.\<close>

lemma SendPut_ok: "cl_ok c {} \<Longrightarrow> unat sz \<le> 65536 \<Longrightarrow> \<exists>c'. SendPut V key sz seq c = Inr c' \<and> cl_ok c' {}"
proof (erule cl_alloc)
  fix b p
  assume b: "Pool_Allocate (cl_pool c) = Inr (b, p)" "Buffer_IsValid b" "unat (buf_length b) = 65552"
    "cl_ok (c\<lparr>cl_pool := p\<rparr>) (insert b {})" and sz: "unat sz \<le> 65536"
  let ?m = "mem_write (buf_addr b + 16) (value_pattern key sz) (mem_write (buf_addr b) (Request_bytes (SetPut key sz 0)) (cl_mem c))"
  have "cl_ok (post_request V b (16 + ucast sz) seq (c\<lparr>cl_pool := p, cl_mem := ?m\<rparr>)) {}"
    using post_request_ok [of "c\<lparr>cl_pool := p, cl_mem := ?m\<rparr>" "{b}" b V "16 + ucast sz" seq] b(4) by simp
  with b sz show "\<exists>c'. SendPut V key sz seq c = Inr c' \<and> cl_ok c' {}" by (simp add: SendPut_def Let_def buf_write_def kv_sizes)
qed (auto simp: SendPut_def Let_def)

lemma SendPutSGL_ok:
  assumes "cl_ok c {}" and "1 \<le> n" and "16 + 8 * n + unat sz \<le> 65552"
  shows "\<exists>c'. SendPutSGL V key sz (int n) seq c = Inr c' \<and> cl_ok c' {}"
  using assms(1)
proof (cases rule: cl_alloc)
  case none
  with assms(1) show ?thesis by (simp add: SendPutSGL_def Let_def)
next
  case (some b p)
  have n32: "unat (of_nat n :: u32) = n" and n64: "unat (16 + of_nat n * 8 :: u64) = 16 + 8 * n"
    using assms(3) by (simp_all add: unat_of_nat_less unat_word_ariths unat_of_nat)
  then have nz: "(of_nat n :: u32) \<noteq> 0" using assms(2) by (metis not_one_le_zero unat_0)
  let ?m1 = "mem_write (buf_addr b) (Request_bytes (SetPut key sz (of_nat n))) (cl_mem c)"
  obtain m2 where d: "write_descriptors b (sz div of_nat n) (sint (sz mod of_nat n)) n 0 0 ?m1 = Inr m2"
    using write_descriptors_ok [of 0 n b "sz div of_nat n" "sint (sz mod of_nat n)" 0 ?m1] some(3) assms(3) by auto
  let ?c = "c\<lparr>cl_pool := p, cl_mem := mem_write (buf_addr b + of_nat (16 + 8 * n)) (value_pattern key sz) m2\<rparr>"
  have w: "buf_write b (16 + 8 * n) (value_pattern key sz) m2 = Inr (cl_mem ?c)" using some(3) assms(3) by (simp add: buf_write_def)
  have "SendPutSGL V key sz (int n) seq c = Inr (post_request V b (16 + of_nat n * 8 + ucast sz) seq ?c)"
    using some(1-3) d w nz n64
    by (simp add: SendPutSGL_def Let_def buf_write_def [of b 0] kv_sizes mult.commute [of _ 8])
  moreover have "cl_ok (post_request V b (16 + of_nat n * 8 + ucast sz) seq ?c) {}"
    using post_request_ok [of ?c "{b}" b V "16 + of_nat n * 8 + ucast sz" seq] some(4) by simp
  ultimately show ?thesis by blast
qed

lemma cl_ok_owned:
  assumes "cl_ok c {}"
  shows "distinct (map fst (cl_posted_recv c))" and "one_owner (cl_pool c) (map_of (cl_posted_recv c)) (map_of (cl_posted_send c))"
  using assms tracking_owned by (auto simp: cl_ok_def)

section \<open>The benchmark\<close>

text \<open>What a benchmark asks of its flags: a scattered request fits its buffer, descriptors included.\<close>

definition args_fit :: "bench_args \<Rightarrow> bool" where
  "args_fit A \<longleftrightarrow> unat (ba_value_size A) \<le> 65536 \<and>
     (ba_use_sgl A \<and> 1 < ba_num_segments A \<longrightarrow> 16 + 8 * nat (ba_num_segments A) + unat (ba_value_size A) \<le> 65552)"

lemma send_one_ok:
  assumes "args_fit A" and "cl_ok c {}"
  shows "\<exists>c'. send_one V A i c = Inr c' \<and> cl_ok c' {}"
proof (cases "ba_draw A i")
  case (Pair put key)
  consider "\<not> put" | "put" "ba_use_sgl A \<and> 1 < ba_num_segments A" | "put" "\<not> (ba_use_sgl A \<and> 1 < ba_num_segments A)"
    by blast
  then show ?thesis
  proof cases
    case 1
    with Pair SendGet_ok [OF assms(2)] show ?thesis by (simp add: send_one_def)
  next
    case 2
    then have "int (nat (ba_num_segments A)) = ba_num_segments A" "1 \<le> nat (ba_num_segments A)" by auto
    with 2 Pair assms SendPutSGL_ok [OF assms(2), of "nat (ba_num_segments A)" "ba_value_size A" V key "of_int i"] show ?thesis
      by (simp add: send_one_def args_fit_def)
  next
    case 3
    with Pair assms SendPut_ok [OF assms(2), of "ba_value_size A"] show ?thesis by (auto simp: send_one_def args_fit_def)
  qed
qed

lemma send_requests_ok:
  "args_fit A \<Longrightarrow> cl_ok c {} \<Longrightarrow> \<exists>b' c'. send_requests V A b c = Inr (b', c') \<and> cl_ok c' {}"
proof (induction V A b c rule: send_requests.induct)
  case (1 V A b c)
  from send_one_ok [OF "1.prems", of V "bn_sent b"] obtain c1 where c1: "send_one V A (bn_sent b) c = Inr c1" "cl_ok c1 {}" by blast
  show ?case
  proof (cases "bn_sent b < ba_num_operations A \<and> bn_sent b - bn_completed b < MAX_OUTSTANDING")
    case True
    with "1.IH" [OF True c1(1) "1.prems"(1) c1(2)] c1(1) show ?thesis by (subst send_requests.simps) simp
  next
    case False
    with "1.prems" show ?thesis by (subst send_requests.simps) auto
  qed
qed

lemma send_completions_ok: "cl_ok c {} \<Longrightarrow> \<exists>c'. send_completions wcs c = Inr c' \<and> cl_ok c' {}"
proof (induction wcs arbitrary: c)
  case (Cons wc wcs)
  show ?case
  proof (cases "map_of (cl_posted_send c) (wc_wr_id wc)")
    case (Some b)
    obtain p where "free_posted b c = Inr (c\<lparr>cl_pool := p\<rparr>)"
      "cl_ok (c\<lparr>cl_pool := p, cl_posted_send := AList.delete (wc_wr_id wc) (cl_posted_send c)\<rparr>) {}"
      by (rule cl_complete_send [OF Cons.prems Some])
    with Some Cons.IH show ?thesis by simp
  qed (use Cons in simp)
qed simp

lemma recv_completions_ok: "cl_ok c {} \<Longrightarrow> \<exists>b' c'. recv_completions wcs b c = Inr (b', c') \<and> cl_ok c' {}"
proof (induction wcs arbitrary: b c)
  case (Cons wc wcs)
  show ?case
  proof (cases "map_of (cl_posted_recv c) (wc_wr_id wc)")
    case (Some buf)
    obtain p where "free_posted buf c = Inr (c\<lparr>cl_pool := p\<rparr>)"
      "cl_ok (c\<lparr>cl_pool := p, cl_posted_recv := AList.delete (wc_wr_id wc) (cl_posted_recv c)\<rparr>) {}"
      by (rule cl_complete_recv [OF Cons.prems Some])
    with Some Cons show ?thesis by (simp add: Let_def)
  qed (use Cons in simp)
qed simp

text \<open>\<open>ibv_poll_cq\<close> reports at most as many completions as it is asked for.\<close>

definition poll_bounded :: "(ptr \<Rightarrow> int \<Rightarrow> 'n \<Rightarrow> (int + ibv_wc list) \<times> 'n) \<Rightarrow> bool" where
  "poll_bounded poll_cq \<longleftrightarrow> (\<forall>cq n wcs n'. poll_cq cq 64 n = (Inr wcs, n') \<longrightarrow> length wcs \<le> 64)"

lemma poll_into_ok:
  assumes "poll_bounded poll_cq"
  shows "\<exists>wcs n. poll_into poll_cq cq c = Inr (wcs, c\<lparr>cl_net := n\<rparr>)"
proof (cases "poll_cq (cq_raw cq) 64 (cl_net c)")
  case (Pair r n)
  then have "r = Inr wcs \<Longrightarrow> length wcs \<le> 64" for wcs using assms unfolding poll_bounded_def by blast
  then show ?thesis by (cases r) (auto simp: Pair poll_into_def intro: exI [of _ "[]"])
qed

lemma bench_round_ok:
  assumes "poll_bounded poll_cq" and "args_fit A" and "cl_ok c {}"
  shows "\<exists>b' c'. bench_round V poll_cq A b c = Inr (b', c') \<and> cl_ok c' {}"
proof -
  obtain b1 c1 where 1: "send_requests V A b c = Inr (b1, c1)" "cl_ok c1 {}" using send_requests_ok [OF assms(2,3)] by blast
  obtain wcs n where 2: "poll_into poll_cq (cl_send_cq c1) c1 = Inr (wcs, c1\<lparr>cl_net := n\<rparr>)"
    using poll_into_ok [OF assms(1)] by blast
  obtain c3 where 3: "send_completions wcs (c1\<lparr>cl_net := n\<rparr>) = Inr c3" "cl_ok c3 {}"
    using send_completions_ok [of "c1\<lparr>cl_net := n\<rparr>" wcs] 1(2) by auto
  obtain wcs' n' where 4: "poll_into poll_cq (cl_recv_cq c3) c3 = Inr (wcs', c3\<lparr>cl_net := n'\<rparr>)"
    using poll_into_ok [OF assms(1)] by blast
  obtain b2 c5 where 5: "recv_completions wcs' b1 (c3\<lparr>cl_net := n'\<rparr>) = Inr (b2, c5)" "cl_ok c5 {}"
    using recv_completions_ok [of "c3\<lparr>cl_net := n'\<rparr>" wcs' b1] 3(2) by auto
  obtain c6 where "Client_PostRecvBuffers V (32 - length (cl_posted_recv c5)) c5 = Inr c6" "cl_ok c6 {}"
    using post_recv_ok [OF 5(2)] by blast
  with 1 2 3 4 5 show ?thesis by (simp add: bench_round_def)
qed

lemma bench_loop_ok:
  assumes "poll_bounded poll_cq" and "args_fit A"
  shows "cl_ok c {} \<Longrightarrow> bench_loop fuel running V poll_cq A i b c = Some r \<Longrightarrow> \<exists>b' c'. r = Inr (b', c') \<and> cl_ok c' {}"
proof (induction fuel arbitrary: i b c)
  case (Suc fuel)
  from bench_round_ok [OF assms Suc.prems(1), of V b] obtain b1 c1 where
    "bench_round V poll_cq A b c = Inr (b1, c1)" "cl_ok c1 {}" by blast
  with Suc show ?case by (auto split: if_splits)
qed simp

text \<open>
  C11. The state of the client is well formed at all times, and so nothing goes wrong: connected over
  a pool that is not FIFO, whatever requests are drawn, whatever the device completes and whatever bytes
  arrive, posting the first receives and every benchmark run without undefined behaviour, provided its
  scattered requests fit their buffers, descriptors included (16 + 8n + size at most 65552, which the
  flags do not guarantee); and when it ends every buffer posted for receiving or for sending has one
  owner: it is not available in the pool, is posted under one id, and not both ways; no receive id is
  posted twice.
\<close>

theorem client_stays_well_formed:
  assumes "lifo_invar (cl_pool c)" and "bp_buffer_size (cl_pool c) = MAX_RESPONSE_SIZE"
    and "cl_posted_recv c = []" and "cl_posted_send c = []"
    and "\<And>cq n wcs n'. poll_cq cq 64 n = (Inr wcs, n') \<Longrightarrow> length wcs \<le> 64"
    and "ba_use_sgl A \<Longrightarrow> 1 < ba_num_segments A \<Longrightarrow> 16 + 8 * nat (ba_num_segments A) + unat (ba_value_size A) \<le> 65552"
  shows "\<exists>c1. Client_PostRecvBuffers V 64 c = Inr c1 \<and>
    (\<forall>fuel running r. RunBenchmark fuel running V poll_cq A c1 = Some r \<longrightarrow>
      (\<exists>b c'. r = Inr (b, c') \<and> distinct (map fst (cl_posted_recv c')) \<and>
        one_owner (cl_pool c') (map_of (cl_posted_recv c')) (map_of (cl_posted_send c'))))"
proof -
  have poll: "poll_bounded poll_cq" using assms(5) by (auto simp: poll_bounded_def)
  have "cl_ok c {}" using assms(1-4) tracking_empty by (simp add: cl_ok_def)
  then obtain c1 where c1: "Client_PostRecvBuffers V 64 c = Inr c1" "cl_ok c1 {}" using post_recv_ok by blast
  have "\<exists>b c'. r = Inr (b, c') \<and> cl_ok c' {}" if r: "RunBenchmark fuel running V poll_cq A c1 = Some r" for fuel running r
  proof (cases "IsValidValueSize (ba_value_size A)")
    case True
    then have fit: "args_fit A" using valid_size_bounds assms(6) by (simp add: args_fit_def)
    from r True obtain q where "bench_loop fuel running V poll_cq A 0 Bench_zero c1 = Some q"
      "r = bind_chk q (\<lambda>(b, c'). Inr (Some b, c'))" by (auto simp: RunBenchmark_def)
    with bench_loop_ok [OF poll fit c1(2)] show ?thesis by fastforce
  qed (use r c1(2) in \<open>auto simp: RunBenchmark_def\<close>)
  with c1(1) cl_ok_owned show ?thesis by (intro exI [of _ c1]) blast
qed

section \<open>The pool the client really has\<close>

text \<open>\<open>Connect\<close> leaves the policy of its pool at the default, FIFO, so no buffer can be given back.\<close>

lemma fifo_free_posted: "fifo_unfreed (cl_pool c) \<Longrightarrow> free_posted b c = Inl Out_Of_Bounds"
  by (simp add: free_posted_def fifo_unfreed_Free)

lemma fifo_post_recv: "Client_PostRecvBuffers V n c = Inr c' \<Longrightarrow> fifo_unfreed (cl_pool c) \<Longrightarrow> fifo_unfreed (cl_pool c')"
proof (induction n arbitrary: c)
  case (Suc n)
  then obtain b p where a: "Pool_Allocate (cl_pool c) = Inr (b, p)" by (cases "Pool_Allocate (cl_pool c)") auto
  from fifo_unfreed_Allocate [OF Suc.prems(2) a] have "fifo_unfreed p" .
  with Suc a show ?case by (cases "Buffer_IsValid b") (auto simp: Let_def)
qed simp

lemma post_request_pool [simp]: "cl_pool (post_request V b n seq c) = cl_pool c"
  by (simp add: post_request_def Let_def split: prod.splits)

lemma fifo_send_one: "send_one V A i c = Inr c' \<Longrightarrow> fifo_unfreed (cl_pool c) \<Longrightarrow> fifo_unfreed (cl_pool c')"
  by (auto simp: send_one_def SendGet_def SendPut_def SendPutSGL_def Let_def bind_chk_eq_Inr_conv
      split: prod.splits if_splits dest: fifo_unfreed_Allocate)

definition no_success :: "Bench \<Rightarrow> bool" where
  "no_success b \<longleftrightarrow> bn_gets_success b = 0 \<and> bn_puts_success b = 0 \<and> bn_gets_not_found b = 0"

lemma fifo_send_requests:
  "send_requests V A b c = Inr (b', c') \<Longrightarrow> fifo_unfreed (cl_pool c) \<and> no_success b \<Longrightarrow>
     fifo_unfreed (cl_pool c') \<and> no_success b'"
proof (induction V A b c rule: send_requests.induct)
  case (1 V A b c)
  show ?case
  proof (cases "bn_sent b < ba_num_operations A \<and> bn_sent b - bn_completed b < MAX_OUTSTANDING")
    case True
    with "1.prems"(1) obtain c1 where s: "send_one V A (bn_sent b) c = Inr c1" "send_requests V A (count_sent A b) c1 = Inr (b', c')"
      by (subst (asm) send_requests.simps) (auto split: sum.splits)
    have "no_success (count_sent A b)" using "1.prems"(2) by (simp add: no_success_def count_sent_def)
    with "1.IH" [OF True s] fifo_send_one [OF s(1)] "1.prems"(2) show ?thesis by blast
  next
    case False
    with "1.prems" show ?thesis by (subst (asm) send_requests.simps) auto
  qed
qed

lemma fifo_send_completions: "send_completions wcs c = Inr c' \<Longrightarrow> fifo_unfreed (cl_pool c) \<Longrightarrow> c' = c"
  by (induction wcs) (auto simp: fifo_free_posted split: option.splits)

lemma fifo_recv_completions:
  "recv_completions wcs b c = Inr (b', c') \<Longrightarrow> fifo_unfreed (cl_pool c) \<and> no_success b \<Longrightarrow> c' = c \<and> no_success b'"
  by (induction wcs arbitrary: b) (auto simp: fifo_free_posted Let_def no_success_def split: option.splits if_splits)

lemma poll_into_pool: "poll_into poll_cq cq c = Inr (wcs, c') \<Longrightarrow> cl_pool c' = cl_pool c"
  by (auto simp: poll_into_def split: prod.splits sum.splits if_splits)

lemma fifo_bench_round:
  assumes "bench_round V poll_cq A b c = Inr (b', c')" and "fifo_unfreed (cl_pool c) \<and> no_success b"
  shows "fifo_unfreed (cl_pool c') \<and> no_success b'"
proof -
  from assms(1) obtain b1 c1 wcs c2 c3 wcs' c4 c5 where r: "send_requests V A b c = Inr (b1, c1)"
    "poll_into poll_cq (cl_send_cq c1) c1 = Inr (wcs, c2)" "send_completions wcs c2 = Inr c3"
    "poll_into poll_cq (cl_recv_cq c3) c3 = Inr (wcs', c4)" "recv_completions wcs' b1 c4 = Inr (b', c5)"
    "c' = c5 \<or> Client_PostRecvBuffers V (32 - length (cl_posted_recv c5)) c5 = Inr c'"
    by (auto simp: bench_round_def bind_chk_eq_Inr_conv split: if_splits)
  have 1: "fifo_unfreed (cl_pool c1)" "no_success b1" using fifo_send_requests [OF r(1) assms(2)] by simp_all
  have 2: "fifo_unfreed (cl_pool c2)" using 1 poll_into_pool [OF r(2)] by simp
  have "c3 = c2" by (rule fifo_send_completions [OF r(3) 2])
  then have 4: "fifo_unfreed (cl_pool c4)" using 2 poll_into_pool [OF r(4)] by simp
  with fifo_recv_completions [OF r(5)] 1(2) have "c5 = c4" "no_success b'" by simp_all
  with r(6) 4 fifo_post_recv show ?thesis by blast
qed

lemma fifo_bench_loop:
  "bench_loop fuel running V poll_cq A i b c = Some (Inr (b', c')) \<Longrightarrow> fifo_unfreed (cl_pool c) \<and> no_success b \<Longrightarrow> no_success b'"
proof (induction fuel arbitrary: i b c)
  case (Suc fuel)
  show ?case
  proof (cases "running i \<and> bn_completed b < ba_num_operations A")
    case True
    with Suc.prems(1) obtain b1 c1 where r: "bench_round V poll_cq A b c = Inr (b1, c1)"
      "bench_loop fuel running V poll_cq A (Suc i) b1 c1 = Some (Inr (b', c'))" by (auto split: sum.splits)
    from Suc.IH [OF r(2) fifo_bench_round [OF r(1) Suc.prems(2)]] show ?thesis .
  next
    case False
    with Suc.prems show ?thesis by auto
  qed
qed simp

lemma client_members_pool:
  assumes "client_members E host port mem net L = (Some (channel, c), L')"
  shows "fifo_unfreed (cl_pool c)" and "bp_count (cl_pool c) = 256" and "cl_posted_recv c = []"
proof -
  from assms obtain device pd cqs pool channel' La Lb Lc where
    pool: "Pool_Create (ce_dev E) (ce_relaxed_ordering E) (ce_mem E) (Some pd) client_pool_config La = (Inr pool, Lb)"
    and rest: "(case ce_create E (Some pd) (Some (fst cqs)) (Some (snd cqs)) (ce_config E) Lc of
          (Inl st, L6) \<Rightarrow> (None, L6)
        | (Inr conn, L6) \<Rightarrow>
            (Some (channel', \<lparr>cl_device = device, cl_pd = pd, cl_send_cq = fst cqs, cl_recv_cq = snd cqs, cl_pool = pool,
               cl_conn = conn, cl_posted_recv = [], cl_posted_send = [], cl_mem = mem, cl_net = net\<rparr>), L6)) = (Some (channel, c), L')"
    unfolding client_members_def try_make_Some by blast
  from rest have "cl_pool c = pool" "cl_posted_recv c = []" by (auto split: prod.splits sum.splits)
  with Pool_Create_fields [OF pool] show "fifo_unfreed (cl_pool c)" "bp_count (cl_pool c) = 256" "cl_posted_recv c = []"
    by (simp_all add: fifo_unfreed_def client_pool_config_def BufferPoolConfig_default_def)
qed

lemma client_establish_pool:
  assumes "client_establish V E channel c = Some (Inr (Some c'))" and "fifo_unfreed (cl_pool c)"
  shows "fifo_unfreed (cl_pool c')"
proof -
  from assms(1) obtain k n where "Client_PostRecvBuffers V 64 (c\<lparr>cl_conn := k, cl_net := n\<rparr>) = Inr c'"
    by (auto simp: client_establish_def Let_def bind_chk_eq_Inr_conv split: sum.splits option.splits prod.splits if_splits)
  from fifo_post_recv [OF this] assms(2) show ?thesis by simp
qed

lemma Client_Connect_made:
  assumes "Client_Connect V E host port mem net L = Some (Inr (Some c, L'))"
  obtains channel c0 L1 where "client_members E host port mem net L = (Some (channel, c0), L1)"
    "client_establish V E channel c0 = Some (Inr (Some c))"
proof -
  obtain m L1 where m: "client_members E host port mem net L = (m, L1)" by (cases "client_members E host port mem net L")
  with assms obtain channel c0 where "m = Some (channel, c0)" by (auto simp: Client_Connect_def split: option.splits prod.splits)
  with assms m that show ?thesis by (auto simp: Client_Connect_def bind_chk_eq_Inr_conv)
qed

lemma Client_Connect_pool:
  assumes "Client_Connect V E host port mem net L = Some (Inr (Some c, L'))"
  shows "fifo_unfreed (cl_pool c)"
  using assms by (elim Client_Connect_made) (rule client_establish_pool [OF _ client_members_pool(1)])

lemma fifo_RunBenchmark:
  assumes "RunBenchmark fuel running V poll_cq A c = Some (Inr (Some b, c'))" and "fifo_unfreed (cl_pool c)"
  shows "no_success b"
proof -
  have "bench_loop fuel running V poll_cq A 0 Bench_zero c = Some (Inr (b, c'))"
    using assms(1) by (auto simp: RunBenchmark_def bind_chk_eq_Inr_conv split: if_splits)
  from fifo_bench_loop [OF this] assms(2) show ?thesis by (simp add: no_success_def Bench_zero_def)
qed

section \<open>The program\<close>

text \<open>
  \<open>main\<close> of \<open>examples/kv_client_main.cpp\<close>: the exit code, the counters that are printed and the ledger
  after the destruction of the client; \<open>draw r\<close> are the draws of a benchmark with PUT ratio \<open>r\<close>.
\<close>

record client_flags =
  fl_host :: string
  fl_port :: int
  fl_num_operations :: int
  fl_put_ratio :: real
  fl_value_size :: int
  fl_sgl :: bool
  fl_segments :: int

definition kv_client_main ::
  "nat \<Rightarrow> (nat \<Rightarrow> bool) \<Rightarrow> 'n qp_verbs \<Rightarrow> (ptr \<Rightarrow> int \<Rightarrow> 'n \<Rightarrow> (int + ibv_wc list) \<times> 'n) \<Rightarrow> client_env \<Rightarrow> (real \<Rightarrow> int \<Rightarrow> bool \<times> u64)
     \<Rightarrow> client_flags \<Rightarrow> memory \<Rightarrow> 'n \<Rightarrow> ledger \<Rightarrow> (int \<times> Bench option \<times> ledger) chk option" where
  "kv_client_main fuel running V poll_cq E draw F mem net L =
     (if \<not> kv_client_flags_ok (fl_host F) (fl_put_ratio F) (fl_value_size F) (fl_segments F) then Some (Inr (1, None, L))
      else case Client_Connect V E (fl_host F) (of_int (fl_port F)) mem net L of
        None \<Rightarrow> None
      | Some (Inl u) \<Rightarrow> Some (Inl u)
      | Some (Inr (None, L')) \<Rightarrow> Some (Inr (1, None, L'))
      | Some (Inr (Some c, L')) \<Rightarrow>
          map_option (\<lambda>r. bind_chk r (\<lambda>(b, c'). Inr (0, b, KVClient_dtor V c' L')))
            (RunBenchmark fuel running V poll_cq
              \<lparr>ba_num_operations = fl_num_operations F, ba_value_size = of_int (fl_value_size F), ba_use_sgl = fl_sgl F,
               ba_num_segments = fl_segments F, ba_draw = draw (fl_put_ratio F)\<rparr> c))"

text \<open>
  C12. The benchmark as the program runs it never succeeds: a client that \<open>Connect\<close> has set up cannot
  give a buffer back, so with any flags, whatever the server answers and however the run is cut short,
  a run of \<open>main\<close> that reaches the end of its benchmark has counted no GET and no PUT as successful and
  no key as missing, and exits with code 0.
\<close>

theorem client_program_reports_nothing:
  assumes "kv_client_main fuel running V poll_cq E draw F mem net L = Some (Inr (code, Some b, L'))"
  shows "bn_gets_success b = 0 \<and> bn_puts_success b = 0 \<and> bn_gets_not_found b = 0 \<and> code = 0"
proof -
  from assms obtain c L1 A c' where 1: "Client_Connect V E (fl_host F) (of_int (fl_port F)) mem net L = Some (Inr (Some c, L1))"
    and 2: "RunBenchmark fuel running V poll_cq A c = Some (Inr (Some b, c'))" and 3: "code = 0"
    by (auto simp: kv_client_main_def bind_chk_eq_Inr_conv split: if_splits option.splits sum.splits)
  from fifo_RunBenchmark [OF 2 Client_Connect_pool [OF 1]] 3 show ?thesis by (simp add: no_success_def)
qed

section \<open>Sample benchmarks\<close>

lemma client_lifo_pool:
  obtains pool where "lifo_invar pool" "bp_buffer_size pool = MAX_RESPONSE_SIZE"
proof -
  let ?r = "Pool_Create sample_verbs False sample_mem (Some sample_pd) (client_pool_config\<lparr>bpc_policy := LIFO\<rparr>) ledger_empty"
  define pool where "pool = projr (fst ?r)"
  have r: "fst ?r = Inr pool" "bp_base_addr pool = 4096"
    by (simp_all add: pool_def Pool_Create_def MR_Register_def Let_def sample_verbs_def sample_pd_def MAX_RESPONSE_SIZE_def
        client_pool_config_def BufferPoolConfig_default_def DefaultAllocator_Allocate_def sample_mem_def kv_sizes)
  then have p: "?r = (Inr pool, snd ?r)" by (metis prod.collapse)
  note f = Pool_Create_fields [OF p]
  have base: "bp_base_addr pool = 4096" "bp_buffer_size pool = MAX_RESPONSE_SIZE"
    using r f by (simp_all add: client_pool_config_def)
  have "lifo_invar pool"
    by (rule lifo_invar_Create [OF p]) (simp_all add: base client_pool_config_def BufferPoolConfig_default_def kv_sizes MAX_RESPONSE_SIZE_def)
  with that base(2) show ?thesis by blast
qed

lemma bench_loop_two: "\<exists>r. bench_loop 2 (\<lambda>i. i < 1) V poll_cq A 0 b c = Some r"
  by (auto simp: numeral_2_eq_2 split: sum.splits)

text \<open>One round in which the device reports a response that the client does not know.\<close>

theorem client_stays_well_formed_witness:
  "\<exists>pool c1 b c'. Client_PostRecvBuffers table_verbs 64 (sample_client\<lparr>cl_pool := pool, cl_posted_recv := []\<rparr>) = Inr c1 \<and>
     RunBenchmark 2 (\<lambda>i. i < 1) table_verbs sample_poll sample_args c1 = Some (Inr (b, c')) \<and>
     distinct (map fst (cl_posted_recv c'))"
proof -
  obtain pool where pool: "lifo_invar pool" "bp_buffer_size pool = MAX_RESPONSE_SIZE" by (rule client_lifo_pool)
  let ?c = "sample_client\<lparr>cl_pool := pool, cl_posted_recv := []\<rparr>"
  have "cl_pool ?c = pool" "cl_posted_recv ?c = []" "cl_posted_send ?c = []" by (simp_all add: sample_client_def)
  moreover have "length wcs \<le> 64" if "sample_poll cq 64 n = (Inr wcs, n')" for cq wcs and n n' :: "ptr \<Rightarrow> QpState"
    using that by (auto simp: sample_poll_def split: if_splits)
  ultimately obtain c1 where c1: "Client_PostRecvBuffers table_verbs 64 ?c = Inr c1"
    and all: "\<forall>fuel running r. RunBenchmark fuel running table_verbs sample_poll sample_args c1 = Some r \<longrightarrow>
      (\<exists>b c'. r = Inr (b, c') \<and> distinct (map fst (cl_posted_recv c')) \<and>
        one_owner (cl_pool c') (map_of (cl_posted_recv c')) (map_of (cl_posted_send c')))"
    using client_stays_well_formed [of ?c sample_poll sample_args table_verbs] pool by (auto simp: sample_args_def)
  obtain r where r: "bench_loop 2 (\<lambda>i. i < 1) table_verbs sample_poll sample_args 0 Bench_zero c1 = Some r"
    using bench_loop_two by blast
  then have "\<exists>r. RunBenchmark 2 (\<lambda>i. i < 1) table_verbs sample_poll sample_args c1 = Some r" by (simp add: RunBenchmark_def)
  with all have "\<exists>b c'. RunBenchmark 2 (\<lambda>i. i < 1) table_verbs sample_poll sample_args c1 = Some (Inr (b, c')) \<and>
      distinct (map fst (cl_posted_recv c'))" by blast
  with c1 show ?thesis by blast
qed

text \<open>The client of the sample environment connects and has sent one GET when it is stopped.\<close>

lemma fifo_ready_client:
  assumes "fifo_ready sz (cl_pool c)"
  shows "\<exists>c'. Client_PostRecvBuffers V n c = Inr c' \<and> fifo_ready sz (cl_pool c')"
  using assms
proof (induction n arbitrary: c)
  case (Suc n)
  from fifo_ready_Allocate [OF Suc.prems] obtain b p where "Pool_Allocate (cl_pool c) = Inr (b, p)" "fifo_ready sz p" by blast
  with Suc.IH show ?case by (simp add: Let_def)
qed simp

lemma sample_client_connects:
  "\<exists>c L. Client_Connect table_verbs sample_client_env ''host'' 7 (\<lambda>_. 0) (\<lambda>_::ptr. QP_RESET) ledger_empty = Some (Inr (Some c, L)) \<and>
     fifo_ready MAX_RESPONSE_SIZE (cl_pool c)"
proof -
  let ?channel = "\<lparr>ch_fd = 8, ch_peer_address = ''host'' @ '':'' @ int_to_string 7\<rparr>"
  have "\<exists>c0 L. client_members sample_client_env ''host'' 7 (\<lambda>_. 0) (\<lambda>_::ptr. QP_RESET) ledger_empty =
      (Some (?channel, c0), L) \<and> fifo_ready MAX_RESPONSE_SIZE (cl_pool c0) \<and> cl_conn c0 = sample_hello_conn \<and>
      cl_net c0 = (\<lambda>_::ptr. QP_RESET)"
    by (simp add: client_members_def try_make_def create_cqs_def sample_client_env_def sample_server_env_def sample_verbs_def
        Device_Open_def PD_Create_def CQ_Create_def CompletionQueueConfig_default_def Pool_Create_def MR_Register_def Let_def
        client_pool_config_def BufferPoolConfig_default_def DefaultAllocator_Allocate_def sample_mem_def fifo_ready_def
        Channel_Connect_def MAX_RESPONSE_SIZE_def kv_sizes)
  then obtain c0 L where c0: "client_members sample_client_env ''host'' 7 (\<lambda>_. 0) (\<lambda>_::ptr. QP_RESET) ledger_empty = (Some (?channel, c0), L)"
    "fifo_ready MAX_RESPONSE_SIZE (cl_pool c0)" "cl_conn c0 = sample_hello_conn" "cl_net c0 = (\<lambda>_::ptr. QP_RESET)" by blast
  obtain params where params: "Conn_GetLocalParams (\<lambda>_ _. Inr (1, 3)) (\<lambda>_ _ _. Inr (replicate 16 0)) sample_hello_conn = Inr (Inr params)"
    "length (gid params) = 16" using sample_hello_params by blast
  obtain k n where con: "Connect table_verbs QpConnParams_zero sample_hello_conn (\<lambda>_. QP_RESET) = (Status_OK, k, n)"
    using sample_hello_connects by blast
  obtain c where "Client_PostRecvBuffers table_verbs 64 (c0\<lparr>cl_conn := k, cl_net := n\<rparr>) = Inr c" "fifo_ready MAX_RESPONSE_SIZE (cl_pool c)"
    using fifo_ready_client [of MAX_RESPONSE_SIZE "c0\<lparr>cl_conn := k, cl_net := n\<rparr>"] c0(2) by auto
  moreover have "ce_query_port sample_client_env = (\<lambda>_ _. Inr (1, 3))" "ce_query_gid sample_client_env = (\<lambda>_ _ _. Inr (replicate 16 0))"
    by (simp_all add: sample_client_env_def)
  ultimately have "client_establish table_verbs sample_client_env ?channel c0 = Some (Inr (Some c))"
    using c0(3,4) params con by (simp add: client_establish_def sample_exchange Let_def HandshakeMessage_zero_def)
  with c0(1) \<open>fifo_ready MAX_RESPONSE_SIZE (cl_pool c)\<close> show ?thesis by (simp add: Client_Connect_def)
qed

definition sample_flags :: client_flags where
  "sample_flags = \<lparr>fl_host = ''host'', fl_port = 7, fl_num_operations = 1, fl_put_ratio = 0, fl_value_size = 4096, fl_sgl = False, fl_segments = 1\<rparr>"

theorem client_program_reports_nothing_witness:
  "\<exists>b L'. kv_client_main 2 (\<lambda>i. i < 1) table_verbs (\<lambda>_ _ n. (Inr [], n)) sample_client_env (\<lambda>_ _. (False, 7)) sample_flags
     (\<lambda>_. 0) (\<lambda>_::ptr. QP_RESET) ledger_empty = Some (Inr (0, Some b, L')) \<and> bn_gets_success b = 0 \<and> bn_sent b = 1"
proof -
  obtain c L where c: "Client_Connect table_verbs sample_client_env ''host'' 7 (\<lambda>_. 0) (\<lambda>_::ptr. QP_RESET) ledger_empty = Some (Inr (Some c, L))"
    "fifo_ready MAX_RESPONSE_SIZE (cl_pool c)" using sample_client_connects by blast
  from fifo_ready_Allocate [OF c(2)] obtain b p where b: "Pool_Allocate (cl_pool c) = Inr (b, p)"
    "fifo_ready MAX_RESPONSE_SIZE p" "Buffer_IsValid b \<longrightarrow> buf_length b = MAX_RESPONSE_SIZE" by blast
  have "\<exists>c1. SendGet table_verbs 7 0 c = Inr c1 \<and> fifo_ready MAX_RESPONSE_SIZE (cl_pool c1)"
    using b by (auto simp: SendGet_def Let_def buf_write_def kv_sizes MAX_RESPONSE_SIZE_def)
  then obtain c1 where c1: "SendGet table_verbs 7 0 c = Inr c1" "fifo_ready MAX_RESPONSE_SIZE (cl_pool c1)" by blast
  let ?b = "Bench_zero\<lparr>bn_sent := 1, bn_gets_sent := 1\<rparr>"
  from c1 have "send_requests table_verbs sample_args Bench_zero c = Inr (?b, c1)"
    by (simp add: send_requests.simps send_one_def count_sent_def sample_args_def Bench_zero_def MAX_OUTSTANDING_def)
  moreover obtain c2 where "Client_PostRecvBuffers table_verbs (32 - length (cl_posted_recv c1)) c1 = Inr c2"
    using fifo_ready_client [OF c1(2)] by blast
  ultimately have "\<exists>c'. bench_round table_verbs (\<lambda>_ _ n. (Inr [], n)) sample_args Bench_zero c = Inr (?b, c')"
    by (simp add: bench_round_def poll_into_def)
  then obtain c' where "bench_round table_verbs (\<lambda>_ _ n. (Inr [], n)) sample_args Bench_zero c = Inr (?b, c')" by blast
  then have "RunBenchmark 2 (\<lambda>i. i < 1) table_verbs (\<lambda>_ _ n. (Inr [], n)) sample_args c = Some (Inr (Some ?b, c'))"
    by (simp add: RunBenchmark_def numeral_2_eq_2 IsValidValueSize_def kv_sizes)
      (simp add: sample_args_def Bench_zero_def IsValidValueSize_def kv_sizes)
  moreover have "kv_client_flags_ok ''host'' 0 4096 1" by (simp add: kv_client_flags_ok_def IsValidValueSize_def kv_sizes)
  ultimately have run: "kv_client_main 2 (\<lambda>i. i < 1) table_verbs (\<lambda>_ _ n. (Inr [], n)) sample_client_env (\<lambda>_ _. (False, 7)) sample_flags
      (\<lambda>_. 0) (\<lambda>_::ptr. QP_RESET) ledger_empty = Some (Inr (0, Some ?b, KVClient_dtor table_verbs c' L))"
    using c(1) by (simp add: kv_client_main_def sample_flags_def sample_args_def)
  from client_program_reports_nothing [OF run] run show ?thesis by (intro exI [of _ ?b] exI) simp
qed

end
