(* ===== verification/Kv_Starvation.thy ===== *)
theory Kv_Starvation
  imports Kv_Benchmark
begin

text \<open>
  How far a benchmark of \<open>examples/kv_client.cpp\<close> gets. The client gives a send buffer back when the
  send completes, but with selective signaling only every sixteenth send completes: the other buffers
  stay tracked for ever. The lemmas count the buffers that are left, the sends and the completions;
  the order in which the pool hands buffers out plays no part.
\<close>

section \<open>What the device has seen\<close>

text \<open>
  Four counts of a device without errors: the sends it took, the signaled ones among them, and the
  completions it has reported on the send and the receive queue. A send completes only if it is
  signaled, and a response arrives only for a request that was sent.
\<close>

record 'n dev_counts =
  dc_sent :: "'n \<Rightarrow> nat"
  dc_signaled :: "'n \<Rightarrow> nat"
  dc_send_done :: "'n \<Rightarrow> nat"
  dc_recv_done :: "'n \<Rightarrow> nat"

definition reported :: "int + ibv_wc list \<Rightarrow> nat" where
  "reported out = (case out of Inl e \<Rightarrow> 0 | Inr wcs \<Rightarrow> length wcs)"

definition same_counts :: "'n dev_counts \<Rightarrow> 'n \<Rightarrow> 'n \<Rightarrow> bool" where
  "same_counts D n n' \<longleftrightarrow> dc_sent D n' = dc_sent D n \<and> dc_signaled D n' = dc_signaled D n \<and>
     dc_send_done D n' = dc_send_done D n \<and> dc_recv_done D n' = dc_recv_done D n"

definition counted_device ::
  "'n dev_counts \<Rightarrow> 'n qp_verbs \<Rightarrow> (ptr \<Rightarrow> int \<Rightarrow> 'n \<Rightarrow> (int + ibv_wc list) \<times> 'n) \<Rightarrow> ptr \<Rightarrow> ptr \<Rightarrow> bool" where
  "counted_device D V poll_cq scq rcq \<longleftrightarrow>
     (\<forall>p wr n r n'. v_post_send V p wr n = (r, n') \<longrightarrow>
        dc_sent D n' = dc_sent D n + (if r = None then 1 else 0) \<and>
        dc_signaled D n' = dc_signaled D n + (if r = None \<and> swr_signaled wr then 1 else 0) \<and>
        dc_send_done D n' = dc_send_done D n \<and> dc_recv_done D n' = dc_recv_done D n) \<and>
     (\<forall>p wr n r n'. v_post_recv V p wr n = (r, n') \<longrightarrow> same_counts D n n') \<and>
     (\<forall>k n out n'. poll_cq scq k n = (out, n') \<longrightarrow>
        dc_sent D n' = dc_sent D n \<and> dc_signaled D n' = dc_signaled D n \<and> dc_recv_done D n' = dc_recv_done D n \<and>
        dc_send_done D n' = dc_send_done D n + reported out \<and>
        (dc_send_done D n \<le> dc_signaled D n \<longrightarrow> dc_send_done D n' \<le> dc_signaled D n')) \<and>
     (\<forall>k n out n'. poll_cq rcq k n = (out, n') \<longrightarrow>
        dc_sent D n' = dc_sent D n \<and> dc_signaled D n' = dc_signaled D n \<and> dc_send_done D n' = dc_send_done D n \<and>
        dc_recv_done D n' = dc_recv_done D n + reported out \<and>
        (dc_recv_done D n \<le> dc_sent D n \<longrightarrow> dc_recv_done D n' \<le> dc_sent D n'))"

section \<open>The balance\<close>

abbreviation cl_buffers :: "'n KVClient \<Rightarrow> nat" where
  "cl_buffers c \<equiv> unat (bp_count (cl_pool c)) + length (cl_posted_recv c)"

abbreviation cl_qp :: "'n KVClient \<Rightarrow> QueuePair" where
  "cl_qp c \<equiv> conn_qp (cl_conn c)"

text \<open>
  \<open>T\<close> sends were tried. Each took a buffer, only completed ones returned it, and sixteen of them go
  into one signaled send; \<open>d\<close> send completions are still to be processed, and at least \<open>r\<close> responses
  have been reported.
\<close>

definition balance :: "'n dev_counts \<Rightarrow> ptr \<Rightarrow> ptr \<Rightarrow> nat \<Rightarrow> nat \<Rightarrow> nat \<Rightarrow> 'n KVClient \<Rightarrow> bool" where
  "balance D scq rcq d r T c \<longleftrightarrow>
     cl_buffers c + T + d \<le> 256 + dc_send_done D (cl_net c) \<and>
     16 * dc_signaled D (cl_net c) + unat (qp_unsignaled_count (cl_qp c)) \<le> T \<and>
     dc_sent D (cl_net c) \<le> T \<and> dc_send_done D (cl_net c) \<le> dc_signaled D (cl_net c) \<and>
     r \<le> dc_recv_done D (cl_net c) \<and> dc_recv_done D (cl_net c) \<le> dc_sent D (cl_net c) \<and>
     qpc_signal_interval (qp_config (cl_qp c)) = 16 \<and> cq_raw (cl_send_cq c) = scq \<and> cq_raw (cl_recv_cq c) = rcq"

lemma balance_bound: "balance D scq rcq d r T c \<Longrightarrow> r \<le> 273"
  by (auto simp: balance_def)

lemma length_AList_update: "length (AList.update k v al) \<le> Suc (length al)"
  by (induction al) auto

lemma length_AList_delete: "map_of al k \<noteq> None \<Longrightarrow> length (AList.delete k al) < length al"
proof (induction al)
  case (Cons x al)
  have "length (AList.delete k al) \<le> length al" by (simp add: AList.delete_eq)
  with Cons show ?case by (cases x) (auto simp: AList.delete_eq le_imp_less_Suc)
qed simp

lemma Pool_Allocate_valid:
  assumes "Pool_Allocate p = Inr (b, p')" and "Buffer_IsValid b"
  shows "Suc (unat (bp_count p')) = unat (bp_count p)"
  using Pool_Allocate_count [OF assms(1)] assms(2) by (cases "bp_count p = 0") (auto simp: unat_gt_0)

lemma Pool_Allocate_le: "Pool_Allocate p = Inr (b, p') \<Longrightarrow> unat (bp_count p') \<le> unat (bp_count p)"
  using Pool_Allocate_count(1) [of p b p'] by simp

lemma Pool_Free_count: "Pool_Free b p = Inr p' \<Longrightarrow> unat (bp_count p') \<le> Suc (unat (bp_count p))"
  by (auto simp: Pool_Free_def bind_chk_eq_Inr_conv Let_def unat_word_ariths ring_write_def split: if_splits)

section \<open>Sending\<close>

lemma PostSend_counts:
  assumes D: "counted_device D V poll_cq scq rcq" and s: "PostSend V buf w q n = (st, q', n')"
    and q: "qpc_signal_interval (qp_config q) = 16"
  shows "dc_sent D n' \<le> dc_sent D n + 1 \<and> dc_sent D n \<le> dc_sent D n' \<and> dc_signaled D n \<le> dc_signaled D n' \<and>
    16 * dc_signaled D n' + unat (qp_unsignaled_count q') \<le> 16 * dc_signaled D n + unat (qp_unsignaled_count q) + 1 \<and>
    dc_send_done D n' = dc_send_done D n \<and> dc_recv_done D n' = dc_recv_done D n \<and> qp_config q' = qp_config q"
proof -
  obtain sig q1 where sq: "ShouldSignal q = (sig, q1)" by (cases "ShouldSignal q")
  have u: "unat (qp_unsignaled_count q + 1) \<le> unat (qp_unsignaled_count q) + 1"
    by (simp add: unat_word_ariths)
  have sig: "qp_config q1 = qp_config q \<and> (if sig then 16 + unat (qp_unsignaled_count q1) \<le> unat (qp_unsignaled_count q) + 1
      else unat (qp_unsignaled_count q1) \<le> unat (qp_unsignaled_count q) + 1)"
    using sq u q by (auto simp: ShouldSignal_def Let_def word_le_nat_alt split: if_splits)
  have "v_post_send V p wr n = (r, n2) \<Longrightarrow> dc_sent D n2 = dc_sent D n + (if r = None then 1 else 0) \<and>
      dc_signaled D n2 = dc_signaled D n + (if r = None \<and> swr_signaled wr then 1 else 0) \<and>
      dc_send_done D n2 = dc_send_done D n \<and> dc_recv_done D n2 = dc_recv_done D n" for p wr r n2
    using D unfolding counted_device_def by blast
  note dev = this
  from s sq obtain r where r: "v_post_send V (qp_raw q1) (ibv_send_wr_zero\<lparr>swr_wr_id := w, swr_opcode := IBV_WR_SEND,
      swr_signaled := sig, swr_sg_list := [sge_of_buffer buf]\<rparr>) n = (r, n')" "q' = q1"
    by (auto simp: PostSend_def DoPostSend_def post_wr_def split: prod.splits option.splits)
  from dev [OF r(1)] sig r(2) show ?thesis by (auto split: if_splits)
qed

lemma post_request_balance:
  assumes D: "counted_device D V poll_cq scq rcq" and b: "balance D scq rcq d r T (c\<lparr>cl_pool := p0\<rparr>)"
    and p: "Suc (unat (bp_count (cl_pool c))) \<le> unat (bp_count p0)"
  shows "\<exists>T'. balance D scq rcq d r T' (post_request V buf n seq c)"
proof -
  obtain st conn' n' where s: "Conn_Send V (Buffer_Slice 0 n buf) (WrId_Encode (conn_id_of (cl_conn c)) REQUEST_SEND 0 seq)
      (cl_conn c) (cl_net c) = (st, conn', n')" using prod_cases3 by blast
  let ?c = "post_request V buf n seq c"
  have c': "cl_conn ?c = conn'" "cl_net ?c = n'" "cl_pool ?c = cl_pool c" "cl_posted_recv ?c = cl_posted_recv c"
    "cl_send_cq ?c = cl_send_cq c" "cl_recv_cq ?c = cl_recv_cq c"
    using s by (simp_all add: post_request_def)
  show ?thesis
  proof (cases "conn_state (cl_conn c) = CONNECTED")
    case False
    then have "conn' = cl_conn c" "n' = cl_net c" using s by (simp_all add: Conn_Send_def)
    then have "balance D scq rcq d r T ?c" using b p c' by (auto simp: balance_def)
    then show ?thesis ..
  next
    case True
    with s obtain q' where q: "PostSend V (Buffer_Slice 0 n buf) (WrId_Encode (conn_id_of (cl_conn c)) REQUEST_SEND 0 seq)
        (cl_qp c) (cl_net c) = (st, q', n')" "conn_qp conn' = q'"
      by (auto simp: Conn_Send_def with_qp_def split: prod.splits)
    have i: "qpc_signal_interval (qp_config (cl_qp c)) = 16" using b by (simp add: balance_def)
    from PostSend_counts [OF D q(1) i] b p c' q(2) have "balance D scq rcq d r (Suc T) ?c" by (auto simp: balance_def)
    then show ?thesis ..
  qed
qed

text \<open>Every request takes its buffer first and posts at most once.\<close>

lemma send_one_balance:
  assumes D: "counted_device D V poll_cq scq rcq" and b: "balance D scq rcq d r T c" and s: "send_one V A i c = Inr c'"
  shows "\<exists>T'. balance D scq rcq d r T' c'"
proof -
  have post: "\<exists>T'. balance D scq rcq d r T' (post_request V buf n seq (c\<lparr>cl_pool := p, cl_mem := m\<rparr>))"
    if "Pool_Allocate (cl_pool c) = Inr (buf, p)" "Buffer_IsValid buf" for buf p n seq m
    using b Pool_Allocate_valid [OF that] by (intro post_request_balance [OF D, where ?p0.0 = "cl_pool c" and T = T]) (auto simp: balance_def)
  have skip: "\<exists>T'. balance D scq rcq d r T' (c\<lparr>cl_pool := p\<rparr>)" if "Pool_Allocate (cl_pool c) = Inr (buf, p)" for buf p
    using b Pool_Allocate_le [OF that] by (intro exI [of _ T]) (auto simp: balance_def)
  from s show ?thesis
    by (auto simp: send_one_def SendGet_def SendPut_def SendPutSGL_def Let_def bind_chk_eq_Inr_conv post skip
        split: prod.splits if_splits)
qed

lemma send_requests_balance:
  "send_requests V A b c = Inr (b', c') \<Longrightarrow> counted_device D V poll_cq scq rcq \<Longrightarrow> balance D scq rcq d r T c \<Longrightarrow>
     bn_completed b' = bn_completed b \<and> (\<exists>T'. balance D scq rcq d r T' c')"
proof (induction V A b c arbitrary: T rule: send_requests.induct)
  case (1 V A b c)
  show ?case
  proof (cases "bn_sent b < ba_num_operations A \<and> bn_sent b - bn_completed b < MAX_OUTSTANDING")
    case True
    with "1.prems"(1) obtain c1 where s: "send_one V A (bn_sent b) c = Inr c1" "send_requests V A (count_sent A b) c1 = Inr (b', c')"
      by (subst (asm) send_requests.simps) (auto split: sum.splits)
    from send_one_balance [OF "1.prems"(2,3) s(1)] obtain T1 where "balance D scq rcq d r T1 c1" ..
    with "1.IH" [OF True s(1) s(2) "1.prems"(2)] show ?thesis by (simp add: count_sent_def split: if_splits)
  next
    case False
    with "1.prems" show ?thesis by (subst (asm) send_requests.simps) auto
  qed
qed

section \<open>Completions\<close>

lemma free_posted_balance:
  "free_posted buf c = Inr c' \<Longrightarrow> balance D scq rcq (Suc d) r T c \<Longrightarrow> balance D scq rcq d r T (c'\<lparr>cl_posted_send := al\<rparr>)"
  by (auto simp: free_posted_def bind_chk_eq_Inr_conv balance_def dest!: Pool_Free_count)

lemma send_completions_balance:
  "send_completions wcs c = Inr c' \<Longrightarrow> balance D scq rcq (length wcs + d) r T c \<Longrightarrow> balance D scq rcq d r T c'"
proof (induction wcs arbitrary: c)
  case (Cons wc wcs)
  show ?case
  proof (cases "map_of (cl_posted_send c) (wc_wr_id wc)")
    case None
    moreover have "balance D scq rcq (length wcs + d) r T c" using Cons.prems(2) by (auto simp: balance_def)
    ultimately show ?thesis using Cons by simp
  next
    case (Some buf)
    with Cons.prems(1) obtain c1 where c1: "free_posted buf c = Inr c1"
      "send_completions wcs (c1\<lparr>cl_posted_send := AList.delete (wc_wr_id wc) (cl_posted_send c1)\<rparr>) = Inr c'"
      by (auto simp: bind_chk_eq_Inr_conv)
    from free_posted_balance [OF c1(1)] Cons.prems(2) Cons.IH [OF c1(2)] show ?thesis by simp
  qed
qed simp

lemma recv_completions_balance:
  "recv_completions wcs b c = Inr (b', c') \<Longrightarrow> balance D scq rcq d r T c \<Longrightarrow>
     balance D scq rcq d r T c' \<and> bn_completed b' \<le> bn_completed b + int (length wcs)"
proof (induction wcs arbitrary: b c)
  case (Cons wc wcs)
  show ?case
  proof (cases "wc_status wc = IBV_WC_SUCCESS")
    case False
    with Cons show ?thesis by fastforce
  next
    case True
    show ?thesis
    proof (cases "map_of (cl_posted_recv c) (wc_wr_id wc)")
      case None
      with True Cons show ?thesis by fastforce
    next
      case (Some buf)
      have cnt: "bn_completed (count_response r b) = bn_completed b" for r by (simp add: count_response_def)
      from Some True Cons.prems(1) obtain c1 where c1: "free_posted buf c = Inr c1"
        "recv_completions wcs ((count_response (response_at buf (cl_mem c)) b)\<lparr>bn_completed := bn_completed b + 1\<rparr>)
           (c1\<lparr>cl_posted_recv := AList.delete (wc_wr_id wc) (cl_posted_recv c1)\<rparr>) = Inr (b', c')"
        by (auto simp: bind_chk_eq_Inr_conv Let_def cnt)
      from c1(1) obtain p where p: "c1 = c\<lparr>cl_pool := p\<rparr>" "unat (bp_count p) \<le> Suc (unat (bp_count (cl_pool c)))"
        by (auto simp: free_posted_def bind_chk_eq_Inr_conv dest: Pool_Free_count)
      have "length (AList.delete (wc_wr_id wc) (cl_posted_recv c)) < length (cl_posted_recv c)"
        by (rule length_AList_delete) (simp add: Some)
      with p Cons.prems(2) have "balance D scq rcq d r T (c1\<lparr>cl_posted_recv := AList.delete (wc_wr_id wc) (cl_posted_recv c1)\<rparr>)"
        by (auto simp: balance_def)
      from Cons.IH [OF c1(2) this] p(1) show ?thesis by simp
    qed
  qed
qed simp

lemma Client_PostRecv_balance:
  "Client_PostRecvBuffers V k c = Inr c' \<Longrightarrow> counted_device D V poll_cq scq rcq \<Longrightarrow> balance D scq rcq d r T c \<Longrightarrow>
     balance D scq rcq d r T c'"
proof (induction k arbitrary: c)
  case (Suc k)
  from Suc.prems(1) obtain buf p where a: "Pool_Allocate (cl_pool c) = Inr (buf, p)" by (auto simp: bind_chk_eq_Inr_conv)
  show ?case
  proof (cases "Buffer_IsValid buf")
    case False
    with Suc.prems(1) a have "Client_PostRecvBuffers V k (c\<lparr>cl_pool := p\<rparr>) = Inr c'" by (simp add: Let_def)
    moreover have "balance D scq rcq d r T (c\<lparr>cl_pool := p\<rparr>)" using Suc.prems(3) Pool_Allocate_le [OF a] by (auto simp: balance_def)
    ultimately show ?thesis using Suc.IH Suc.prems(2) by fastforce
  next
    case True
    let ?w = "recv_wr_id (conn_id_of (cl_conn c)) buf"
    obtain st n' where pr: "Conn_PostRecv V buf ?w (cl_conn c) (cl_net c) = (st, n')" by (cases "Conn_PostRecv V buf ?w (cl_conn c) (cl_net c)")
    have same: "same_counts D (cl_net c) n'"
    proof (cases "v_post_recv V (qp_raw (cl_qp c)) \<lparr>rwr_wr_id = ?w, rwr_sg_list = [sge_of_buffer buf]\<rparr> (cl_net c)")
      case (Pair r n2)
      with pr have "n' = n2 \<or> n' = cl_net c" by (auto simp: Conn_PostRecv_def PostRecv_def modify_status_def split: option.splits if_splits)
      moreover have "same_counts D (cl_net c) n2" using Suc.prems(2) Pair unfolding counted_device_def by blast
      ultimately show ?thesis by (auto simp: same_counts_def)
    qed
    let ?c = "c\<lparr>cl_pool := p, cl_posted_recv := AList.update ?w buf (cl_posted_recv c), cl_net := n'\<rparr>"
    have "Client_PostRecvBuffers V k ?c = Inr c'" using Suc.prems(1) a True pr by (simp add: Let_def)
    moreover have "balance D scq rcq d r T ?c"
      using Suc.prems(3) same Pool_Allocate_valid [OF a True] length_AList_update [of ?w buf "cl_posted_recv c"]
      by (auto simp: balance_def same_counts_def)
    ultimately show ?thesis using Suc.IH Suc.prems(2) same by (fastforce simp: same_counts_def)
  qed
qed simp

section \<open>A benchmark runs dry\<close>

lemma poll_balance:
  assumes D: "counted_device D V poll_cq scq rcq" and b: "balance D scq rcq 0 r T c"
  shows "poll_into poll_cq (cl_send_cq c) c = Inr (wcs, c') \<Longrightarrow> balance D scq rcq (length wcs) r T c'"
    and "poll_into poll_cq (cl_recv_cq c) c = Inr (wcs, c') \<Longrightarrow> balance D scq rcq 0 (r + length wcs) T c'"
proof -
  have cq: "cq_raw (cl_send_cq c) = scq" "cq_raw (cl_recv_cq c) = rcq" using b by (simp_all add: balance_def)
  show "poll_into poll_cq (cl_send_cq c) c = Inr (wcs, c') \<Longrightarrow> balance D scq rcq (length wcs) r T c'"
  proof -
    assume p: "poll_into poll_cq (cl_send_cq c) c = Inr (wcs, c')"
    obtain out n where o: "poll_cq scq 64 (cl_net c) = (out, n)" by (cases "poll_cq scq 64 (cl_net c)")
    have "dc_sent D n = dc_sent D (cl_net c) \<and> dc_signaled D n = dc_signaled D (cl_net c) \<and> dc_recv_done D n = dc_recv_done D (cl_net c) \<and>
        dc_send_done D n = dc_send_done D (cl_net c) + reported out \<and>
        (dc_send_done D (cl_net c) \<le> dc_signaled D (cl_net c) \<longrightarrow> dc_send_done D n \<le> dc_signaled D n)"
      using D o unfolding counted_device_def by blast
    with p o b cq show ?thesis by (auto simp: poll_into_def balance_def reported_def split: sum.splits if_splits)
  qed
  show "poll_into poll_cq (cl_recv_cq c) c = Inr (wcs, c') \<Longrightarrow> balance D scq rcq 0 (r + length wcs) T c'"
  proof -
    assume p: "poll_into poll_cq (cl_recv_cq c) c = Inr (wcs, c')"
    obtain out n where o: "poll_cq rcq 64 (cl_net c) = (out, n)" by (cases "poll_cq rcq 64 (cl_net c)")
    have "dc_sent D n = dc_sent D (cl_net c) \<and> dc_signaled D n = dc_signaled D (cl_net c) \<and> dc_send_done D n = dc_send_done D (cl_net c) \<and>
        dc_recv_done D n = dc_recv_done D (cl_net c) + reported out \<and>
        (dc_recv_done D (cl_net c) \<le> dc_sent D (cl_net c) \<longrightarrow> dc_recv_done D n \<le> dc_sent D n)"
      using D o unfolding counted_device_def by blast
    with p o b cq show ?thesis by (auto simp: poll_into_def balance_def reported_def split: sum.splits if_splits)
  qed
qed

definition starving :: "'n dev_counts \<Rightarrow> ptr \<Rightarrow> ptr \<Rightarrow> Bench \<Rightarrow> 'n KVClient \<Rightarrow> bool" where
  "starving D scq rcq b c \<longleftrightarrow> (\<exists>r T. balance D scq rcq 0 r T c \<and> bn_completed b \<le> int r)"

lemma bench_round_starving:
  assumes D: "counted_device D V poll_cq scq rcq" and r: "bench_round V poll_cq A b c = Inr (b', c')"
    and s: "starving D scq rcq b c"
  shows "starving D scq rcq b' c'"
proof -
  from s obtain r0 T where T: "balance D scq rcq 0 r0 T c" "bn_completed b \<le> int r0" by (auto simp: starving_def)
  from r obtain b1 c1 wcs c2 c3 wcs' c4 c5 where
    1: "send_requests V A b c = Inr (b1, c1)" and 2: "poll_into poll_cq (cl_send_cq c1) c1 = Inr (wcs, c2)"
    and 3: "send_completions wcs c2 = Inr c3" and 4: "poll_into poll_cq (cl_recv_cq c3) c3 = Inr (wcs', c4)"
    and 5: "recv_completions wcs' b1 c4 = Inr (b', c5)"
    and 6: "c' = c5 \<or> Client_PostRecvBuffers V (32 - length (cl_posted_recv c5)) c5 = Inr c'"
    by (auto simp: bench_round_def bind_chk_eq_Inr_conv split: if_splits)
  from send_requests_balance [OF 1 D T(1)] obtain T1 where
    b1: "bn_completed b1 = bn_completed b" "balance D scq rcq 0 r0 T1 c1" by blast
  from send_completions_balance [OF 3, of D scq rcq 0 r0 T1] poll_balance(1) [OF D b1(2) 2] have "balance D scq rcq 0 r0 T1 c3" by simp
  from recv_completions_balance [OF 5 poll_balance(2) [OF D this 4]] b1(1) T(2)
  have b5: "balance D scq rcq 0 (r0 + length wcs') T1 c5" "bn_completed b' \<le> int (r0 + length wcs')" by simp_all
  from 6 b5(1) Client_PostRecv_balance [OF _ D b5(1)] have "balance D scq rcq 0 (r0 + length wcs') T1 c'" by auto
  with b5(2) show ?thesis unfolding starving_def by blast
qed

lemma bench_loop_starving:
  "bench_loop fuel running V poll_cq A i b c = Some (Inr (b', c')) \<Longrightarrow> counted_device D V poll_cq scq rcq \<Longrightarrow>
     starving D scq rcq b c \<Longrightarrow> starving D scq rcq b' c' \<and> (bn_completed b' \<ge> ba_num_operations A \<or> (\<exists>j. \<not> running j))"
proof (induction fuel arbitrary: i b c)
  case (Suc fuel)
  show ?case
  proof (cases "running i \<and> bn_completed b < ba_num_operations A")
    case True
    with Suc.prems(1) obtain b1 c1 where "bench_round V poll_cq A b c = Inr (b1, c1)"
      "bench_loop fuel running V poll_cq A (Suc i) b1 c1 = Some (Inr (b', c'))" by (auto split: sum.splits)
    with Suc.IH Suc.prems(2,3) bench_round_starving show ?thesis by blast
  next
    case False
    with Suc.prems show ?thesis by auto
  qed
qed simp

text \<open>
  C13. The benchmark starves: on a device without errors that completes the signaled sends only, a
  client with a pool of 256 buffers, whatever the policy of the pool, and the default signal interval
  of 16 completes at most 273 operations, because each unsignaled send keeps its buffer for ever. A
  benchmark of more operations, as the default one of 10000, ends only when it is stopped.
\<close>

theorem benchmark_starves:
  assumes "counted_device D V poll_cq (cq_raw (cl_send_cq c)) (cq_raw (cl_recv_cq c))"
    and "dc_sent D (cl_net c) = 0 \<and> dc_signaled D (cl_net c) = 0 \<and> dc_send_done D (cl_net c) = 0 \<and> dc_recv_done D (cl_net c) = 0"
    and "qpc_signal_interval (qp_config (conn_qp (cl_conn c))) = 16" and "qp_unsignaled_count (conn_qp (cl_conn c)) = 0"
    and "unat (bp_count (cl_pool c)) + length (cl_posted_recv c) \<le> 256"
    and "RunBenchmark fuel running V poll_cq A c = Some (Inr (Some b, c'))"
  shows "bn_completed b \<le> 273 \<and> (ba_num_operations A > 273 \<longrightarrow> (\<exists>j. \<not> running j))"
proof -
  have "bench_loop fuel running V poll_cq A 0 Bench_zero c = Some (Inr (b, c'))"
    using assms(6) by (auto simp: RunBenchmark_def bind_chk_eq_Inr_conv split: if_splits)
  moreover have "starving D (cq_raw (cl_send_cq c)) (cq_raw (cl_recv_cq c)) Bench_zero c"
    using assms(2-5) by (auto simp: starving_def balance_def Bench_zero_def intro!: exI [of _ 0])
  ultimately have st: "starving D (cq_raw (cl_send_cq c)) (cq_raw (cl_recv_cq c)) b c'"
    "bn_completed b \<ge> ba_num_operations A \<or> (\<exists>j. \<not> running j)"
    using bench_loop_starving [OF _ assms(1)] by blast+
  from st(1) have "bn_completed b \<le> 273" by (auto simp: starving_def dest: balance_bound)
  with st(2) show ?thesis by auto
qed

text \<open>The client as \<open>Connect\<close> leaves it has 256 buffers, those of its posted receives included.\<close>

lemma Client_PostRecv_buffers: "Client_PostRecvBuffers V k c = Inr c' \<Longrightarrow> cl_buffers c' \<le> cl_buffers c"
proof (induction k arbitrary: c)
  case (Suc k)
  from Suc.prems obtain buf p where a: "Pool_Allocate (cl_pool c) = Inr (buf, p)" by (auto simp: bind_chk_eq_Inr_conv)
  show ?case
  proof (cases "Buffer_IsValid buf")
    case False
    with Suc.prems a Suc.IH [of "c\<lparr>cl_pool := p\<rparr>"] Pool_Allocate_le [OF a] show ?thesis by (simp add: Let_def)
  next
    case True
    let ?w = "recv_wr_id (conn_id_of (cl_conn c)) buf"
    let ?c = "c\<lparr>cl_pool := p, cl_posted_recv := AList.update ?w buf (cl_posted_recv c),
      cl_net := snd (Conn_PostRecv V buf ?w (cl_conn c) (cl_net c))\<rparr>"
    have "Client_PostRecvBuffers V k ?c = Inr c'" using Suc.prems a True by (simp add: Let_def)
    from Suc.IH [OF this] show ?thesis
      using Pool_Allocate_valid [OF a True] length_AList_update [of ?w buf "cl_posted_recv c"] by simp
  qed
qed simp

lemma Client_Connect_buffers:
  assumes "Client_Connect V E host port mem net L = Some (Inr (Some c, L'))"
  shows "cl_buffers c \<le> 256"
proof -
  from assms obtain channel c0 L1 where c0: "client_members E host port mem net L = (Some (channel, c0), L1)"
    "client_establish V E channel c0 = Some (Inr (Some c))" by (rule Client_Connect_made)
  from c0(2) obtain k n where "Client_PostRecvBuffers V 64 (c0\<lparr>cl_conn := k, cl_net := n\<rparr>) = Inr c"
    by (auto simp: client_establish_def Let_def bind_chk_eq_Inr_conv split: sum.splits option.splits prod.splits if_splits)
  from Client_PostRecv_buffers [OF this] client_members_pool(2,3) [OF c0(1)] show ?thesis by simp
qed

section \<open>A sample device\<close>

text \<open>It takes every request, counts the signaled ones and reports a response to each; no send completes.\<close>

definition counting_verbs :: "(nat \<times> nat \<times> nat) qp_verbs" where
  "counting_verbs =
     \<lparr>v_post_send = (\<lambda>p w (sent, signaled, got). (None, (sent + 1, signaled + (if swr_signaled w then 1 else 0), got))),
      v_post_recv = (\<lambda>p w n. (None, n)), v_modify_qp = (\<lambda>p a m n. (None, n))\<rparr>"

definition counting_poll :: "ptr \<Rightarrow> int \<Rightarrow> nat \<times> nat \<times> nat \<Rightarrow> (int + ibv_wc list) \<times> nat \<times> nat \<times> nat" where
  "counting_poll cq k = (\<lambda>(sent, signaled, got).
     if cq = 5 \<and> got < sent then (Inr [sample_wc 3], (sent, signaled, got + 1)) else (Inr [], (sent, signaled, got)))"

definition counts :: "(nat \<times> nat \<times> nat) dev_counts" where
  "counts = \<lparr>dc_sent = fst, dc_signaled = (\<lambda>n. fst (snd n)), dc_send_done = (\<lambda>_. 0), dc_recv_done = (\<lambda>n. snd (snd n))\<rparr>"

definition counting_client :: "(nat \<times> nat \<times> nat) KVClient" where
  "counting_client =
     \<lparr>cl_device = cl_device sample_client, cl_pd = sample_pd, cl_send_cq = sample_cq, cl_recv_cq = sample_cq\<lparr>cq_raw := 5\<rparr>,
      cl_pool = sample_client_pool,
      cl_conn = (sample_conn CONNECTED)\<lparr>conn_qp := sample_qp\<lparr>qp_config := QueuePairConfig_default\<rparr>\<rparr>,
      cl_posted_recv = [], cl_posted_send = [], cl_mem = (\<lambda>_. 0), cl_net = (0, 0, 0)\<rparr>"

lemma counting_device: "counted_device counts counting_verbs counting_poll 4 5"
  by (auto simp: counted_device_def same_counts_def counts_def counting_verbs_def counting_poll_def reported_def split: if_splits)

theorem benchmark_starves_witness:
  "\<exists>b c'. RunBenchmark 2 (\<lambda>_. True) counting_verbs counting_poll sample_args counting_client = Some (Inr (Some b, c')) \<and>
     bn_completed b = 1"
proof -
  let ?start = counting_client
  obtain b p where b: "Pool_Allocate sample_client_pool = Inr (b, p)" "Buffer_IsValid b" "unat (buf_length b) = 65552"
    using sample_client_buffer by (auto simp: has_buffer_def MAX_RESPONSE_SIZE_def kv_sizes sample_client_def)
  have ready: "fifo_ready MAX_RESPONSE_SIZE sample_client_pool" "bp_count sample_client_pool = 256"
    by (simp_all add: sample_client_pool_def Pool_Create_def MR_Register_def Let_def sample_verbs_def sample_pd_def
        MAX_RESPONSE_SIZE_def client_pool_config_def BufferPoolConfig_default_def DefaultAllocator_Allocate_def sample_mem_def
        kv_sizes fifo_ready_def)
  from fifo_ready_Allocate [OF this(1)] b(1) have p: "fifo_ready MAX_RESPONSE_SIZE p" by auto
  let ?c = "post_request counting_verbs b 16 0
    (?start\<lparr>cl_pool := p, cl_mem := mem_write (buf_addr b) (Request_bytes (SetGet 7)) (cl_mem ?start)\<rparr>)"
  have "SendGet counting_verbs 7 0 ?start = Inr ?c" using b by (simp add: SendGet_def Let_def buf_write_def kv_sizes counting_client_def)
  then have sent: "send_requests counting_verbs sample_args Bench_zero ?start = Inr (Bench_zero\<lparr>bn_sent := 1, bn_gets_sent := 1\<rparr>, ?c)"
    by (simp add: send_requests.simps send_one_def count_sent_def sample_args_def Bench_zero_def MAX_OUTSTANDING_def)
  have net: "cl_net ?c = (1, 0, 0)" "cl_posted_recv ?c = []" "cl_pool ?c = p" "cl_send_cq ?c = sample_cq" "cl_recv_cq ?c = sample_cq\<lparr>cq_raw := 5\<rparr>"
    by (simp_all add: post_request_def Let_def counting_client_def Conn_Send_def with_qp_def PostSend_def ShouldSignal_def
        DoPostSend_def post_wr_def counting_verbs_def sample_conn_def sample_qp_def QueuePairConfig_default_def split: prod.splits)
      (simp add: word_le_nat_alt)
  have "fifo_ready MAX_RESPONSE_SIZE (cl_pool (?c\<lparr>cl_net := (1, 0, 1)\<rparr>))" using net p by simp
  from fifo_ready_client [OF this] obtain c' where
    c': "Client_PostRecvBuffers counting_verbs 32 (?c\<lparr>cl_net := (1, 0, 1)\<rparr>) = Inr c'" by blast
  have "wc_status (sample_wc 3) = IBV_WC_SUCCESS" by (simp add: IBV_WC_SUCCESS_def)
  with sent net c' have round: "bench_round counting_verbs counting_poll sample_args Bench_zero ?start =
      Inr (Bench_zero\<lparr>bn_sent := 1, bn_gets_sent := 1, bn_completed := 1\<rparr>, c')"
    by (simp add: bench_round_def poll_into_def counting_poll_def sample_cq_def Bench_zero_def)
  have valid: "IsValidValueSize (ba_value_size sample_args)" by (simp add: sample_args_def IsValidValueSize_def kv_sizes)
  from round have run: "RunBenchmark 2 (\<lambda>_. True) counting_verbs counting_poll sample_args ?start =
      Some (Inr (Some (Bench_zero\<lparr>bn_sent := 1, bn_gets_sent := 1, bn_completed := 1\<rparr>), c'))"
    by (simp add: RunBenchmark_def valid numeral_2_eq_2) (simp add: sample_args_def Bench_zero_def)
  have "bn_completed (Bench_zero\<lparr>bn_sent := 1, bn_gets_sent := 1, bn_completed := 1\<rparr>) \<le> 273"
    using benchmark_starves [of counts counting_verbs counting_poll ?start, OF _ _ _ _ _ run] counting_device ready(2)
    by (simp add: counting_client_def counts_def sample_cq_def sample_qp_def QueuePairConfig_default_def sample_conn_def)
  with run show ?thesis by auto
qed

end
