(* ===== verification/Kv_Session.thy ===== *)
theory Kv_Session
  imports Echo_Programs
begin

text \<open>
  A client and a server of the key-value programs that meet: the handshake of
  \<open>KVClient::Connect\<close> with that of \<open>KVServer::AcceptConnections\<close>, each end reading what
  the other one wrote (\<open>examples/kv_client.cpp\<close> and
  \<open>examples/kv_server.cpp\<close>).
\<close>

lemma exchange_params_delivers:
  assumes "ch_fd ch \<ge> 0" and "benign (ae_writes E)" and "128 \<le> moves (ae_writes E)" and "benign (ae_reads E)" and "128 \<le> moves (ae_reads E)"
    and "ae_stream E = Handshake_bytes p1 p2 p3 reply @ later" and "Handshake_wf msg" and "Handshake_wf reply"
  shows "exchange_params E ch msg = Some (Some reply)"
proof -
  note len = assms(7) [THEN length_Handshake_bytes, unfolded sizeof_HandshakeMessage_def]
    assms(8) [THEN length_Handshake_bytes, unfolded sizeof_HandshakeMessage_def]
  from assms(1-6) show ?thesis
    by (simp add: exchange_params_def Channel_Receive_message Channel_Send_all len Handshake_of_bytes [OF assms(8)] split: prod.splits)
qed

text \<open>What a server and a client announce of themselves.\<close>

abbreviation server_hello :: "QpConnParams \<Rightarrow> u16 \<Rightarrow> HandshakeMessage" where
  "server_hello params i \<equiv> HandshakeMessage_zero\<lparr>hm_qp_params := params, hm_conn_id := i, hm_version := 1\<rparr>"

abbreviation client_hello :: "QpConnParams \<Rightarrow> HandshakeMessage" where
  "client_hello params \<equiv> HandshakeMessage_zero\<lparr>hm_qp_params := params, hm_version := 1\<rparr>"

lemma hello_wf:
  "length (gid params) = 16 \<Longrightarrow> Handshake_wf (server_hello params i)"
  "length (gid params) = 16 \<Longrightarrow> Handshake_wf (client_hello params)"
  by (simp_all add: Handshake_wf_def HandshakeMessage_zero_def)

text \<open>
  C14. Both ends connect to each other: when the server has a connection to give away, each end can read
  its parameters, each one's stream is what the other one's writes put there and the socket calls make
  progress, the server goes on to establish its connection with the parameters of the client's queue
  pair, and the client connects its own to the parameters of the server's, reporting a refused
  transition as a failed connect. The connection id the server sends along is not used by the client.
\<close>

theorem handshake_connects_both_ends:
  assumes "CreateConnection (ae_create E) (ae_config E) (sv_manager s) (sv_ledger s) = Inr (Inr i, m, L)"
    and "GetConnection i m = Some sc" and "conn_id_of sc = i"
    and "Conn_GetLocalParams (ae_query_port E) (ae_query_gid E) sc = Inr (Inr sp)" and "length (gid sp) = 16"
    and "Conn_GetLocalParams (ce_query_port C) (ce_query_gid C) (cl_conn c) = Inr (Inr cp)" and "length (gid cp) = 16"
    and "ch_fd ch \<ge> 0" and "ch_fd ch' \<ge> 0"
    and "\<forall>calls\<in>{ae_writes E, ae_reads E, ce_writes C, ce_reads C}. benign calls \<and> 128 \<le> moves calls"
    and "ae_padding E = (p1, p2, p3)" and "ce_padding C = (q1, q2, q3)"
    and "Channel_Send (ae_writes E) (Handshake_bytes p1 p2 p3 (server_hello sp i)) ch [] = Some (st1, ce_stream C)"
    and "Channel_Send (ce_writes C) (Handshake_bytes q1 q2 q3 (client_hello cp)) ch' [] = Some (st2, ae_stream E)"
  shows "accept_on V E ch s = Some (establish V i (client_hello cp) sc (s\<lparr>sv_manager := m, sv_ledger := L\<rparr>)) \<and>
    client_establish V C ch' c =
      (let (status, conn', n') = Connect V sp (cl_conn c) (cl_net c)
       in if Status_ok status
          then Some (bind_chk (Client_PostRecvBuffers V 64 (c\<lparr>cl_conn := conn', cl_net := n'\<rparr>)) (\<lambda>c'. Inr (Some c')))
          else Some (Inr None))"
proof -
  note wf = hello_wf(1) [OF assms(5), of i] hello_wf(2) [OF assms(7)]
  note len = wf [THEN length_Handshake_bytes, unfolded sizeof_HandshakeMessage_def]
  have b: "benign (ae_writes E)" "128 \<le> moves (ae_writes E)" "benign (ae_reads E)" "128 \<le> moves (ae_reads E)"
    "benign (ce_writes C)" "128 \<le> moves (ce_writes C)" "benign (ce_reads C)" "128 \<le> moves (ce_reads C)"
    using assms(10) by blast+
  from assms(13) b(1,2) assms(8) len(1) have s1: "ce_stream C = Handshake_bytes p1 p2 p3 (server_hello sp i) @ []"
    by (simp add: Channel_Send_all)
  from assms(14) b(5,6) assms(9) len(2) have s2: "ae_stream E = Handshake_bytes q1 q2 q3 (client_hello cp) @ []"
    by (simp add: Channel_Send_all)
  have "exchange_params E ch (server_hello sp i) = Some (Some (client_hello cp))"
    by (rule exchange_params_delivers [OF assms(8) b(1-4) s2 wf])
  moreover have "client_exchange C ch' cp = Some (Some (server_hello sp i))"
    by (rule client_exchange_delivers [OF assms(9) b(7,8,5,6) s1 wf(1) assms(7)])
  ultimately show ?thesis using assms(1-4,6)
    by (simp add: accept_on_def client_establish_def conn_at_def Let_def split: prod.splits)
qed

text \<open>
  The sample client meets the sample server, whose manager has one free slot; both own the same kind
  of queue pair, so both announce the same parameters.
\<close>

definition sample_meeting :: "QpConnParams \<Rightarrow> accept_env" where
  "sample_meeting params = sample_refusal\<lparr>ae_create := (\<lambda>_ _ _ _ L. (Inr sample_hello_conn, L)),
     ae_query_port := (\<lambda>_ _. Inr (1, 3)), ae_query_gid := (\<lambda>_ _ _. Inr (replicate 16 0)),
     ae_writes := replicate 128 (Moved 7), ae_reads := replicate 128 (Moved 7),
     ae_stream := Handshake_bytes 0 0 0 (client_hello params)\<rparr>"

theorem handshake_connects_both_ends_witness:
  "\<exists>params s s1. length (gid params) = 16 \<and>
     accept_on table_verbs (sample_meeting params) \<lparr>ch_fd = 8, ch_peer_address = ''''\<rparr> s =
       Some (establish table_verbs 0 (client_hello params) sample_hello_conn s1)"
proof -
  obtain params where p: "Conn_GetLocalParams (\<lambda>_ _. Inr (1, 3)) (\<lambda>_ _ _. Inr (replicate 16 0)) sample_hello_conn = Inr (Inr params)"
    "length (gid params) = 16" using sample_hello_params by blast
  note len = hello_wf [OF p(2), THEN length_Handshake_bytes, unfolded sizeof_HandshakeMessage_def]
  let ?E = "sample_meeting params"
  let ?C = "sample_client_env\<lparr>ce_stream := Handshake_bytes 0 0 0 (server_hello params 0)\<rparr>"
  let ?ch = "\<lparr>ch_fd = 8, ch_peer_address = ''''\<rparr>"
  define s where "s = (sample_server undefined undefined)\<lparr>sv_manager :=
    sample_manager\<lparr>cm_connections := [None], cm_free_conn_ids := [0], cm_active_count := 0\<rparr>\<rparr>"
  have scripts: "benign (replicate 128 (Moved n)) \<and> 128 \<le> moves (replicate 128 (Moved n))" if "0 < n" for n
    using moves_benign_replicate [OF that, of 128] by simp
  have env: "ae_query_port ?E = (\<lambda>_ _. Inr (1, 3))" "ae_query_gid ?E = (\<lambda>_ _ _. Inr (replicate 16 0))"
    "ce_query_port ?C = (\<lambda>_ _. Inr (1, 3))" "ce_query_gid ?C = (\<lambda>_ _ _. Inr (replicate 16 0))"
    "ae_writes ?E = replicate 128 (Moved 7)" "ae_reads ?E = replicate 128 (Moved 7)" "ae_padding ?E = (0, 0, 0)"
    "ce_writes ?C = replicate 128 (Moved 50)" "ce_reads ?C = replicate 128 (Moved 50)" "ce_padding ?C = (0, 0, 0)"
    "ae_stream ?E = Handshake_bytes 0 0 0 (client_hello params)" "ce_stream ?C = Handshake_bytes 0 0 0 (server_hello params 0)"
    by (simp_all add: sample_meeting_def sample_client_env_def sample_refusal_def)
  have c0: "conn_id_of sample_hello_conn = 0" "SetConnId 0 sample_hello_conn = sample_hello_conn"
    by (simp_all add: sample_hello_conn_def sample_conn_def SetConnId_def)
  have "\<exists>m L. CreateConnection (ae_create ?E) (ae_config ?E) (sv_manager s) (sv_ledger s) = Inr (Inr 0, m, L) \<and>
      GetConnection 0 m = Some sample_hello_conn"
    using c0(2) by (simp add: s_def CreateConnection_def AllocateConnId_def sample_manager_def sample_meeting_def GetConnection_def UINT16_MAX_def)
  then obtain m L where cc: "CreateConnection (ae_create ?E) (ae_config ?E) (sv_manager s) (sv_ledger s) = Inr (Inr 0, m, L)"
    "GetConnection 0 m = Some sample_hello_conn" by blast
  note both = handshake_connects_both_ends [OF cc c0(1), where C = ?C and c = "sample_client\<lparr>cl_conn := sample_hello_conn\<rparr>"
    and sp = params and cp = params and ch = ?ch and ch' = ?ch and V = table_verbs]
  have "accept_on table_verbs ?E ?ch s = Some (establish table_verbs 0 (client_hello params) sample_hello_conn (s\<lparr>sv_manager := m, sv_ledger := L\<rparr>))"
    by (rule conjunct1, rule both) (simp_all only: env, simp_all add: p scripts Channel_Send_all len)
  with p(2) show ?thesis by blast
qed

end
