(* ===== verification/Kv_Running.thy ===== *)
theory Kv_Running
  imports Kv_Session
begin

text \<open>
  The main loop of the key-value server: \<open>KVServer::Run\<close> with the statistics it prints, \<open>main\<close> of
  \<open>examples/kv_server_main.cpp\<close>, and the composition of the loop out of its parts. Reactor, dispatcher,
  timing wheel, connection manager, buffer pool and store keep their invariants together, so that a
  server over a pool that is not FIFO runs until it is stopped.
\<close>

section \<open>Statistics\<close>

definition GetUsedSlots :: "KVStore \<Rightarrow> size_t" where
  "GetUsedSlots s = kv_used_slots s"

definition GetTotalSlots :: "KVStore \<Rightarrow> size_t" where
  "GetTotalSlots s = kv_num_slots s"

definition GetUsedBytes :: "KVStore \<Rightarrow> size_t" where
  "GetUsedBytes s = kv_used_bytes s"

definition GetTotalBytes :: "KVStore \<Rightarrow> size_t" where
  "GetTotalBytes s = total_storage_size (kv_config s)"

text \<open>The numbers \<open>PrintStats\<close> prints; the load factor is the quotient of the first two.\<close>

record server_stats =
  st_used_slots :: size_t
  st_total_slots :: size_t
  st_used_kb :: size_t
  st_total_mb :: size_t
  st_requests :: u64
  st_gets :: u64
  st_puts :: u64

text \<open>The sum over \<open>conn_contexts_\<close>, whose order is immaterial.\<close>

definition ctx_total :: "(ConnectionContext \<Rightarrow> u64) \<Rightarrow> 'n KVServer \<Rightarrow> u64" where
  "ctx_total f s = sum_list (map (\<lambda>i. case sv_contexts s (of_nat i) of None \<Rightarrow> 0 | Some c \<Rightarrow> f c) [0..<65536])"

definition PrintStats :: "'n KVServer \<Rightarrow> server_stats" where
  "PrintStats s =
     \<lparr>st_used_slots = GetUsedSlots (sv_store s), st_total_slots = GetTotalSlots (sv_store s),
      st_used_kb = GetUsedBytes (sv_store s) div 1024, st_total_mb = GetTotalBytes (sv_store s) div (1024 * 1024),
      st_requests = ctx_total ctx_requests_processed s, st_gets = ctx_total ctx_gets_processed s,
      st_puts = ctx_total ctx_puts_processed s\<rparr>"

section \<open>The loop\<close>

text \<open>
  For at most \<open>fuel\<close> rounds; \<open>running i\<close> is the stop flag as round \<open>i\<close> reads it, \<open>Es i\<close> what the
  sockets answer in it. \<open>None\<close> when a socket call blocks or the fuel is out.
\<close>

primrec server_loop ::
  "nat \<Rightarrow> (nat \<Rightarrow> bool) \<Rightarrow> (real \<Rightarrow> real) \<Rightarrow> (ptr \<Rightarrow> int \<Rightarrow> 'n \<Rightarrow> (int + ibv_wc list) \<times> 'n) \<Rightarrow> 'n qp_verbs
     \<Rightarrow> (nat \<Rightarrow> accept_env) \<Rightarrow> nat \<Rightarrow> 'n KVServer \<Rightarrow> 'n KVServer chk option" where
  "server_loop 0 running rnd poll_cq V Es i s = None"
| "server_loop (Suc fuel) running rnd poll_cq V Es i s =
     (if running i
      then (case server_round rnd poll_cq V (Es i) s of
              None \<Rightarrow> None
            | Some (Inl u) \<Rightarrow> Some (Inl u)
            | Some (Inr s') \<Rightarrow> server_loop fuel running rnd poll_cq V Es (Suc i) s')
      else Some (Inr s))"

definition Server_Run ::
  "nat \<Rightarrow> (nat \<Rightarrow> bool) \<Rightarrow> (real \<Rightarrow> real) \<Rightarrow> (ptr \<Rightarrow> int \<Rightarrow> 'n \<Rightarrow> (int + ibv_wc list) \<times> 'n) \<Rightarrow> 'n qp_verbs
     \<Rightarrow> (nat \<Rightarrow> accept_env) \<Rightarrow> 'n KVServer \<Rightarrow> (server_stats \<times> 'n KVServer) chk option" where
  "Server_Run fuel running rnd poll_cq V Es s =
     map_option (\<lambda>r. bind_chk r (\<lambda>s'. Inr (PrintStats s', s'))) (server_loop fuel running rnd poll_cq V Es 0 s)"

text \<open>\<open>main\<close>: the exit code, what was printed, and the ledger after the destruction of the server.\<close>

definition kv_server_main ::
  "nat \<Rightarrow> (nat \<Rightarrow> bool) \<Rightarrow> (real \<Rightarrow> real) \<Rightarrow> (ptr \<Rightarrow> int \<Rightarrow> 'n \<Rightarrow> (int + ibv_wc list) \<times> 'n) \<Rightarrow> 'n qp_verbs
     \<Rightarrow> (nat \<Rightarrow> accept_env) \<Rightarrow> server_env \<Rightarrow> int \<Rightarrow> ptr \<Rightarrow> memory \<Rightarrow> 'n \<Rightarrow> ledger \<Rightarrow> (int \<times> server_stats option \<times> ledger) chk option" where
  "kv_server_main fuel running rnd poll_cq V Es E port this mem net L =
     (case Server_Initialize E (of_int port) this mem net L of
        Inl u \<Rightarrow> Some (Inl u)
      | Inr (None, L') \<Rightarrow> Some (Inr (1, None, L'))
      | Inr (Some s, L') \<Rightarrow>
          map_option (\<lambda>r. bind_chk r (\<lambda>(stats, s'). Inr (0, Some stats, KVServer_dtor V s'))) (Server_Run fuel running rnd poll_cq V Es s))"

section \<open>Accepting leaves the event loop alone\<close>

text \<open>The caches of the dispatcher agree with its index.\<close>

definition dispatch_ok :: "CompletionDispatcher \<Rightarrow> bool" where
  "dispatch_ok d \<longleftrightarrow> disp_inv (l2_lookup d) d"

lemma dispatch_okI: "disp_inv R d \<Longrightarrow> dispatch_ok d"
  by (simp add: dispatch_ok_def disp_inv_def)

lemma PostRecvBuffers_frame:
  "PostRecvBuffers V conn n s = Inr s' \<Longrightarrow> sv_dispatcher s' = sv_dispatcher s \<and> sv_reactor s' = sv_reactor s"
proof (induction n arbitrary: s)
  case (Suc n)
  then obtain b p where a: "Pool_Allocate (sv_pool s) = Inr (b, p)" by (cases "Pool_Allocate (sv_pool s)") auto
  show ?case
  proof (cases "Buffer_IsValid b")
    case True
    with Suc.prems a obtain t where "PostRecvBuffers V conn n t = Inr s'" "sv_dispatcher t = sv_dispatcher s" "sv_reactor t = sv_reactor s"
      by (auto simp: Let_def bind_chk_eq_Inr_conv)
    with Suc.IH show ?thesis by metis
  next
    case False
    with Suc.prems a Suc.IH [of "s\<lparr>sv_pool := p\<rparr>"] show ?thesis by (simp add: Let_def)
  qed
qed simp

lemma remove_conn_frame [simp]: "sv_dispatcher (remove_conn V i s) = sv_dispatcher s" "sv_reactor (remove_conn V i s) = sv_reactor s"
  by (simp_all add: remove_conn_def split: prod.splits)

lemma establish_frame:
  assumes "establish V conn remote c s = Inr s'"
  shows "sv_reactor s' = sv_reactor s \<and> (sv_dispatcher s' = sv_dispatcher s \<or>
    sv_dispatcher s' = RegisterConnection (conn_id_of c) (sv_self s) (Some kHandleCompletion) (sv_dispatcher s))"
proof -
  obtain st c' n' where con: "Connect V (hm_qp_params remote) c (sv_net s) = (st, c', n')"
    by (cases "Connect V (hm_qp_params remote) c (sv_net s)")
  from Connect_id [OF con] assms con show ?thesis
    by (auto simp: establish_def set_conn_def Let_def dest!: PostRecvBuffers_frame split: if_splits)
qed

text \<open>
  What the environment of an accepted connection promises: \<open>Connection::Create\<close> makes a queue pair on
  the device, so that its parameters can be read.
\<close>

definition creates_on_device :: "accept_env \<Rightarrow> bool" where
  "creates_on_device E \<longleftrightarrow> (\<forall>pd scq rcq L conn L'. ae_create E pd scq rcq (ae_config E) L = (Inr conn, L') \<longrightarrow>
     qp_raw (conn_qp conn) \<noteq> 0 \<and> (\<exists>p d. qp_pd (conn_qp conn) = Some p \<and> pd_device p = Some d))"

lemma accept_on_serves:
  assumes ok: "sv_ok s X" and d: "dispatch_ok (sv_dispatcher s)" and E: "creates_on_device E"
    and r: "accept_on V E channel s = Some r"
  shows "\<exists>s'. r = Inr s' \<and> dispatch_ok (sv_dispatcher s') \<and> sv_reactor s' = sv_reactor s"
proof -
  have inv: "mgr_inv (sv_manager s)" using ok by (simp add: sv_ok_def)
  have live: "sv_contexts s j \<noteq> None \<Longrightarrow> GetConnection j (sv_manager s) \<noteq> None" for j using ok by (auto simp: sv_ok_def)
  obtain out L0 where mk: "ae_create E (Some (cm_pd (sv_manager s))) (Some (cm_send_cq (sv_manager s)))
      (Some (cm_recv_cq (sv_manager s))) (ae_config E) (sv_ledger s) = (out, L0)" by fastforce
  from CreateConnection_outcome [OF inv, of "ae_create E" "ae_config E" "sv_ledger s"] mk consider
    (err) st L where "CreateConnection (ae_create E) (ae_config E) (sv_manager s) (sv_ledger s) = Inr (Inl st, sv_manager s, L)"
  | (new) i m1 m conn L where "CreateConnection (ae_create E) (ae_config E) (sv_manager s) (sv_ledger s) = Inr (Inr i, m, L)"
      "conn_alloc (sv_manager s) = Some (i, m1)" "unat i < length (cm_connections (sv_manager s))" "out = Inr conn"
      "m = m1\<lparr>cm_connections := (cm_connections (sv_manager s))[unat i := Some (SetConnId i conn)],
              cm_active_count := cm_active_count (sv_manager s) + 1\<rparr>"
    by (cases out) auto
  then show ?thesis
  proof cases
    case err
    with r d show ?thesis by (auto simp: accept_on_def)
  next
    case new
    let ?c = "SetConnId i conn" and ?s1 = "s\<lparr>sv_manager := m, sv_ledger := L\<rparr>"
    have ins: "mgr_inv m" "GetConnection i (sv_manager s) = None" "GetConnection i m = Some ?c"
      "\<And>j. j \<noteq> i \<Longrightarrow> GetConnection j m = GetConnection j (sv_manager s)"
      using mgr_inv_insert [OF inv new(2,3), of ?c] new(5) by (simp_all add: SetConnId_def)
    have free: "sv_contexts s i = None" using live [of i] ins(2) by blast
    have "sv_contexts s j \<noteq> None \<Longrightarrow> GetConnection j m \<noteq> None" for j using live ins(4) free by (cases "j = i") auto
    then have ok1: "sv_ok ?s1 X" using sv_ok_manager [OF ok ins(1)] by simp
    have c1: "conn_at i ?s1 = Inr ?c" using ins(3) by (simp add: conn_at_def)
    have idc: "conn_id_of ?c = i" by (simp add: SetConnId_def)
    have ne: "i \<noteq> kNoConn" using new(2) by (auto simp: conn_alloc_def kNoConn_def UINT16_MAX_def split: if_splits prod.splits)
    have "\<exists>q. Conn_GetLocalParams (ae_query_port E) (ae_query_gid E) ?c = Inr q"
      using E mk new(4) unfolding creates_on_device_def
      by (fastforce simp: Conn_GetLocalParams_def QP_GetLocalParams_def SetConnId_def Let_def)
    then obtain q where q: "Conn_GetLocalParams (ae_query_port E) (ae_query_gid E) ?c = Inr q" by blast
    have reg: "dispatch_ok (RegisterConnection i f (Some kHandleCompletion) (sv_dispatcher s))" for f
      using disp_inv_Register [OF _ ne] d unfolding dispatch_ok_def by (blast intro: dispatch_okI [unfolded dispatch_ok_def])
    have est: "\<exists>t. establish V i remote ?c ?s1 = Inr t \<and> dispatch_ok (sv_dispatcher t) \<and> sv_reactor t = sv_reactor s" for remote
    proof -
      from establish_ok [OF ok1, of i ?c V remote] ins(3) free obtain t where t: "establish V i remote ?c ?s1 = Inr t" by auto
      from establish_frame [OF t] idc reg d show ?thesis by (auto simp: t)
    qed
    from r new(1) c1 q idc d est show ?thesis
      by (fastforce simp: accept_on_def Let_def split: sum.splits option.splits)
  qed
qed

lemma AcceptConnections_serves:
  assumes ok: "sv_ok s X" and d: "dispatch_ok (sv_dispatcher s)" and E: "creates_on_device E"
    and r: "AcceptConnections V E s = Some r"
  shows "\<exists>s'. r = Inr s' \<and> sv_ok s' X \<and> dispatch_ok (sv_dispatcher s') \<and> sv_reactor s' = sv_reactor s"
proof -
  obtain res L where ch: "Channel_Accept (ae_poll E) (ae_accept E) (ae_peer E) (sv_ledger s) = (res, L)"
    by (cases "Channel_Accept (ae_poll E) (ae_accept E) (ae_peer E) (sv_ledger s)")
  have "\<exists>s'. r = Inr s' \<and> dispatch_ok (sv_dispatcher s') \<and> sv_reactor s' = sv_reactor s"
  proof (cases res)
    case (Inl st)
    with r ch d show ?thesis by (auto simp: AcceptConnections_def)
  next
    case (Inr channel)
    with r ch obtain q where q: "accept_on V E channel (s\<lparr>sv_ledger := L\<rparr>) = Some q"
      "r = bind_chk q (\<lambda>s'. Inr (s'\<lparr>sv_ledger := Channel_dtor channel (sv_ledger s')\<rparr>))"
      by (auto simp: AcceptConnections_def)
    from accept_on_serves [of "s\<lparr>sv_ledger := L\<rparr>" X E, OF _ _ E q(1)] ok d q(2) show ?thesis by auto
  qed
  with AcceptConnections_ok [OF ok] r show ?thesis by blast
qed

text \<open>
  What the event loop needs of a client that is accepted: it does not keep silent. The socket calls of
  the handshake move its 128 bytes or fail, and the device answers a query with the 16 bytes of a gid.
\<close>

definition attended :: "accept_env \<Rightarrow> bool" where
  "attended E \<longleftrightarrow> finishes 128 (ae_writes E) \<and> finishes 128 (ae_reads E) \<and>
     (\<forall>p port i g. ae_query_gid E p port i = Inr g \<longrightarrow> length g = 16)"

lemma attended_params:
  assumes "attended E" and "Conn_GetLocalParams (ae_query_port E) (ae_query_gid E) c = Inr (Inr params)"
  shows "length (gid params) = 16"
  using assms by (auto simp: attended_def Conn_GetLocalParams_def QP_GetLocalParams_def Device_QueryGid_def Let_def
      split: if_splits option.splits sum.splits)

lemma attended_exchange:
  assumes "attended E" and "length (gid params) = 16"
  shows "exchange_params E channel (server_hello params i) \<noteq> None"
proof -
  obtain p1 p2 p3 where pad: "ae_padding E = (p1, p2, p3)" by (cases "ae_padding E")
  have "finishes (length (Handshake_bytes p1 p2 p3 (server_hello params i))) (ae_writes E)" "finishes 128 (ae_reads E)"
    using assms length_Handshake_bytes [OF hello_wf(1) [OF assms(2)], of p1 p2 p3 i] by (simp_all add: attended_def sizeof_HandshakeMessage_def)
  from Channel_Send_finishes [OF this(1), of channel "[]"] Channel_Receive_finishes [OF this(2), of channel "ae_stream E"] pad
  show ?thesis by (auto simp: exchange_params_def split: option.splits prod.splits)
qed

lemma AcceptConnections_returns:
  assumes "attended E"
  shows "AcceptConnections V E s \<noteq> None"
proof -
  have "Conn_GetLocalParams (ae_query_port E) (ae_query_gid E) c = Inr (Inr params) \<Longrightarrow>
      exchange_params E channel (server_hello params i) = None \<Longrightarrow> False" for c params channel i
    using attended_exchange [OF assms attended_params [OF assms]] by blast
  then have "accept_on V E channel t \<noteq> None" for channel t
    by (auto simp: accept_on_def Let_def split: sum.splits option.splits prod.splits)
  then show ?thesis by (auto simp: AcceptConnections_def split: sum.splits prod.splits)
qed

section \<open>A round serves\<close>

text \<open>
  What \<open>ibv_poll_cq\<close> promises: no more completions than asked for, of ids that were posted, so of
  connections that the manager can number.
\<close>

definition polls_conform :: "(ptr \<Rightarrow> int \<Rightarrow> 'n \<Rightarrow> (int + ibv_wc list) \<times> 'n) \<Rightarrow> bool" where
  "polls_conform poll_cq \<longleftrightarrow> (\<forall>cq k n wcs n'. poll_cq cq k n = (Inr wcs, n') \<longrightarrow>
     int (length wcs) \<le> max 0 k \<and> list_all (\<lambda>wc. WrId_GetConnId (wc_wr_id wc) \<noteq> kNoConn) wcs)"

lemma handle_calls_serve:
  "sv_ok s {} \<Longrightarrow> \<exists>s'. handle_calls (server_rx_env poll_cq V) cs s = Inr s' \<and> sv_ok s' {}"
proof (induction cs arbitrary: s)
  case (Cons c cs)
  have "\<exists>s1. server_handle V c s = Inr s1 \<and> sv_ok s1 {}"
  proof (cases c)
    case (Call_Wc f ctx wc)
    with HandleCompletion_ok [OF Cons.prems, of V wc] show ?thesis by (auto simp: server_handle_def)
  next
    case (Call_Error f ctx i st)
    with OnError_ok [OF Cons.prems] show ?thesis by (simp add: server_handle_def)
  qed
  then obtain s1 where s1: "server_handle V c s = Inr s1" "sv_ok s1 {}" by blast
  with Cons.IH [OF s1(2)] show ?case by (simp add: server_rx_env_def)
qed simp

definition reactor_ready :: "Reactor \<Rightarrow> bool" where
  "reactor_ready r \<longleftrightarrow> batch_ok r \<and> tw_invar (rx_wheel r) \<and> rx_tasks r = [] \<and> rx_pollers r = []"

lemma poll_cqs_serve:
  assumes "polls_conform poll_cq"
  shows "sv_ok s {} \<Longrightarrow> reactor_ready r \<Longrightarrow> \<forall>d. dispatch_ok (ds d) \<Longrightarrow>
    \<exists>k r' ds' s'. poll_cqs (server_rx_env poll_cq V) es r ds s = Inr (k, r', ds', s') \<and>
      sv_ok s' {} \<and> reactor_ready r' \<and> (\<forall>d. dispatch_ok (ds' d))"
proof (induction es arbitrary: r ds s)
  case (Cons e es)
  obtain cq d where e: "e = (cq, d)" by (cases e)
  obtain out n where out: "poll_cq (cq_raw cq) (rx_batch_size r) (sv_net s) = (out, n)" by fastforce
  have ok1: "sv_ok (s\<lparr>sv_net := n\<rparr>) {}" using Cons.prems(1) by simp
  show ?case
  proof (cases "out = Inr [] \<or> (\<exists>c. out = Inl c)")
    case True
    have "0 \<le> rx_wc_buffer_size r" using Cons.prems(2) by (auto simp: reactor_ready_def batch_ok_def)
    with True Cons.IH [OF ok1 Cons.prems(2,3)] e out show ?thesis by (auto simp: server_rx_env_def)
  next
    case False
    then obtain wcs where wcs: "out = Inr wcs" "wcs \<noteq> []" by (cases out) auto
    have c: "int (length wcs) \<le> max 0 (rx_batch_size r)" "list_all (\<lambda>wc. WrId_GetConnId (wc_wr_id wc) \<noteq> kNoConn) wcs"
      using assms out wcs(1) unfolding polls_conform_def by blast+
    have fits: "\<not> int (length wcs) > rx_wc_buffer_size r" using c(1) Cons.prems(2) by (simp add: reactor_ready_def batch_ok_def)
    let ?r = "r\<lparr>rx_total_wc_count := rx_total_wc_count r + of_nat (length wcs)\<rparr>"
    have rr: "reactor_ready ?r" using Cons.prems(2) by (simp add: reactor_ready_def batch_ok_def)
    from Cons.prems(3) have "disp_inv (l2_lookup (ds d)) (ds d)" by (simp add: dispatch_ok_def)
    from DispatchBatch_refines [OF this c(2)] obtain cs d1 where d1: "DispatchBatch wcs (ds d) = Inr (cs, d1)" "dispatch_ok d1"
      by (blast intro: dispatch_okI)
    obtain s2 where s2: "handle_calls (server_rx_env poll_cq V) cs (s\<lparr>sv_net := n\<rparr>) = Inr s2" "sv_ok s2 {}"
      using handle_calls_serve [OF ok1] by blast
    have "\<forall>i. dispatch_ok ((ds(d := d1)) i)" using Cons.prems(3) d1(2) by simp
    from Cons.IH [OF s2(2) rr this] obtain k r' ds' s' where
      rest: "poll_cqs (server_rx_env poll_cq V) es ?r (ds(d := d1)) s2 = Inr (k, r', ds', s')"
        "sv_ok s' {} \<and> reactor_ready r' \<and> (\<forall>d. dispatch_ok (ds' d))" by blast
    have "rxe_poll_cq (server_rx_env poll_cq V) (cq_raw cq) (rx_batch_size r) s = (Inr wcs, s\<lparr>sv_net := n\<rparr>)"
      using out wcs(1) by (simp add: server_rx_env_def)
    then have "poll_cqs (server_rx_env poll_cq V) (e # es) r ds s = Inr (int (length wcs) + k, r', ds', s')"
      using e wcs(2) fits d1(1) s2(1) rest(1) by simp
    with rest(2) show ?thesis by blast
  qed
qed simp

lemma reactor_ready_finish: "reactor_ready r \<Longrightarrow> reactor_ready (finish_round rnd k r)"
  using batch_ok_finish [of r rnd k]
  by (auto simp: reactor_ready_def finish_round_def Let_def AdaptiveBackoff_def AdaptBatchSize_def)

lemma Poll_serves:
  assumes "polls_conform poll_cq" and "sv_ok s {}" and "reactor_ready r" and "\<forall>d. dispatch_ok (ds d)"
  shows "\<exists>k r' ds' s'. Poll rnd (server_rx_env poll_cq V) r ds s = Some (Inr (k, r', ds', s')) \<and>
    sv_ok s' {} \<and> reactor_ready r' \<and> (\<forall>d. dispatch_ok (ds' d))"
proof -
  from poll_cqs_serve [OF assms, of V "rx_cq_entries r"] obtain k r1 ds' s' where
    p: "poll_cqs (server_rx_env poll_cq V) (rx_cq_entries r) r ds s = Inr (k, r1, ds', s')"
      "sv_ok s' {}" "reactor_ready r1" "\<forall>d. dispatch_ok (ds' d)" by blast
  then have t: "rx_tasks r1 = []" "rx_pollers r1 = []" "tw_invar (rx_wheel r1)" by (simp_all add: reactor_ready_def)
  from Tick_laws [OF t(3)] obtain w where w: "TimingWheel_Tick (rx_wheel r1) = Some (tw_pend (rx_wheel r1) 0, w)" "tw_invar w"
    by blast
  have "reactor_ready (r1\<lparr>rx_tasks := [], rx_wheel := w\<rparr>)" using p(3) w(2) by (simp add: reactor_ready_def batch_ok_def)
  then show ?thesis using p t w reactor_ready_finish
    by (simp add: Poll_def ProcessTasks_def ProcessTimeouts_def)
qed

text \<open>All parts of a running server are in order.\<close>

definition server_ready :: "'n KVServer \<Rightarrow> bool" where
  "server_ready s \<longleftrightarrow> sv_ok s {} \<and> reactor_ready (sv_reactor s) \<and> dispatch_ok (sv_dispatcher s)"

lemma server_round_serves:
  assumes "polls_conform poll_cq" and "creates_on_device E" and "server_ready s" and "attended E"
  shows "\<exists>s'. server_round rnd poll_cq V E s = Some (Inr s') \<and> server_ready s'"
proof -
  from assms(3) have s: "sv_ok s {}" "reactor_ready (sv_reactor s)" "dispatch_ok (sv_dispatcher s)"
    by (simp_all add: server_ready_def)
  from AcceptConnections_returns [OF assms(4)] obtain a where a: "AcceptConnections V E s = Some a" by blast
  from AcceptConnections_serves [OF s(1,3) assms(2) a] obtain s1 where
    s1: "a = Inr s1" "sv_ok s1 {}" "dispatch_ok (sv_dispatcher s1)" "sv_reactor s1 = sv_reactor s" by blast
  from Poll_serves [OF assms(1) s1(2), of "sv_reactor s1" "\<lambda>_. sv_dispatcher s1" rnd V] s1 s(2) obtain k r ds s2 where
    p: "Poll rnd (server_rx_env poll_cq V) (sv_reactor s1) (\<lambda>_. sv_dispatcher s1) s1 = Some (Inr (k, r, ds, s2))"
      "sv_ok s2 {}" "reactor_ready r" "\<forall>d. dispatch_ok (ds d)" by auto
  have "sv_recvs (s2\<lparr>sv_reactor := r, sv_dispatcher := ds 0\<rparr>) = sv_recvs s2" by (simp add: sv_recvs_def fun_eq_iff)
  then have "sv_ok (s2\<lparr>sv_reactor := r, sv_dispatcher := ds 0\<rparr>) {}" using p(2) by (simp add: sv_ok_def sv_buffers_def)
  with p a s1(1) show ?thesis by (simp add: server_round_def server_ready_def)
qed

lemma server_loop_serves:
  assumes "polls_conform poll_cq" and "\<And>i. creates_on_device (Es i)" and "\<And>i. attended (Es i)"
  shows "server_ready s \<Longrightarrow> i \<le> n \<Longrightarrow> n < i + fuel \<Longrightarrow>
    \<exists>s'. server_loop fuel (\<lambda>i. i < n) rnd poll_cq V Es i s = Some (Inr s') \<and> server_ready s'"
proof (induction fuel arbitrary: i s)
  case (Suc fuel)
  show ?case
  proof (cases "i < n")
    case True
    from server_round_serves [OF assms(1) assms(2)[of i] Suc.prems(1) assms(3)] obtain s1 where
      "server_round rnd poll_cq V (Es i) s = Some (Inr s1)" "server_ready s1" by blast
    with True Suc.IH [of s1 "Suc i"] Suc.prems(3) show ?thesis by simp
  next
    case False
    with Suc.prems(1) show ?thesis by simp
  qed
qed simp

text \<open>
  C10. The event loop as a whole: a server whose pool is not FIFO, with its reactor, dispatcher, wheel,
  manager and store as they are made, serves until it is stopped, provided no client keeps silent
  during its handshake: each one it accepts moves the 128 bytes either way or makes a socket call fail.
  Then each round (accepting, polling, dispatching, handling, ticking) returns without undefined
  behaviour, whatever requests, errors and connections arrive, and after any number of rounds the
  printed statistics name the number of keys the store really holds, which its slots are enough for.
\<close>

theorem server_runs_until_stopped:
  assumes "kv_inv (sv_store s0)" and "mgr_inv (sv_manager s0)" and "lifo_invar (sv_pool s0)"
    and "bp_buffer_size (sv_pool s0) = MAX_REQUEST_SIZE"
    and "sv_contexts s0 = Map.empty" and "sv_posted_recv s0 = Map.empty" and "sv_posted_send s0 = Map.empty"
    and "sv_dispatcher s0 = SetErrorHandler this (Some kOnError) Dispatcher_new"
    and "Reactor_Create alloc entries (ReactorConfig_default\<lparr>rc_batch_mode := THROUGHPUT\<rparr>) L = (Inr r, L')"
    and "sv_reactor s0 = RegisterCQ rcq 0 (RegisterCQ scq 0 r)"
    and "polls_conform poll_cq" and "\<And>i. creates_on_device (Es i)" and "\<And>i. attended (Es i)"
  shows "\<exists>stats s. Server_Run (Suc n) (\<lambda>i. i < n) rnd poll_cq V Es s0 = Some (Inr (stats, s)) \<and>
    unat (st_used_slots stats) = card (dom (kv_abs (sv_store s))) \<and> st_used_slots stats \<le> st_total_slots stats"
proof -
  have "sv_ok s0 {}" using assms(1-7) by (simp add: sv_ok_def sv_buffers_def sv_recvs_empty tracking_empty)
  moreover have "batch_config_ok (ReactorConfig_default\<lparr>rc_batch_mode := THROUGHPUT\<rparr>)"
    by (simp add: batch_config_ok_def ReactorConfig_default_def initial_batch_size_def)
  from batch_ok_Create [OF assms(9) this] have "batch_ok r" .
  then have "reactor_ready (sv_reactor s0)" using assms(9) tw_invar_new
    by (auto simp: reactor_ready_def assms(10) RegisterCQ_def batch_ok_def Reactor_Create_def Let_def split: if_splits)
  moreover have "disp_inv (\<lambda>_. None) (sv_dispatcher s0)"
    using disp_inv_new by (simp add: assms(8) SetErrorHandler_def disp_inv_def l2_lookup_def fun_eq_iff)
  ultimately have "server_ready s0" by (auto simp: server_ready_def intro: dispatch_okI)
  then obtain s where s: "server_loop (Suc n) (\<lambda>i. i < n) rnd poll_cq V Es 0 s0 = Some (Inr s)" "server_ready s"
    using server_loop_serves [where poll_cq = poll_cq and Es = Es and V = V and i = 0 and n = n and fuel = "Suc n", OF assms(11-13)]
    by (metis add_0 lessI zero_le)
  have inv: "kv_inv (sv_store s)" using s(2) by (simp add: server_ready_def sv_ok_def)
  then have "unat (kv_used_slots (sv_store s)) = card (dom (kv_abs (sv_store s)))"
    "kv_used_slots (sv_store s) \<le> kv_num_slots (sv_store s)"
    by (auto simp: kv_inv_def card_dom_kv_abs word_le_nat_alt)
  with s(1) show ?thesis by (simp add: Server_Run_def PrintStats_def GetUsedSlots_def GetTotalSlots_def)
qed

section \<open>A sample run\<close>

text \<open>
  The sample server with a free slot in its manager, at which the client of \<open>sample_meeting\<close> arrives in
  the first round; all later callers are refused.
\<close>

definition sample_free_server :: "KVStore \<Rightarrow> LocalBufferPool \<Rightarrow> (ptr \<Rightarrow> QpState) KVServer" where
  "sample_free_server store pool = (sample_server store pool)\<lparr>sv_net := (\<lambda>_. QP_RESET),
     sv_manager := sample_manager\<lparr>cm_connections := [None], cm_free_conn_ids := [0], cm_active_count := 0\<rparr>,
     sv_dispatcher := SetErrorHandler 9 (Some kOnError) Dispatcher_new,
     sv_reactor := RegisterCQ sample_cq 0 (RegisterCQ sample_cq 0 (sample_reactor (ReactorConfig_default\<lparr>rc_batch_mode := THROUGHPUT\<rparr>)))\<rparr>"

lemma sample_free_manager:
  "mgr_inv (sample_manager\<lparr>cm_connections := [None], cm_free_conn_ids := [0], cm_active_count := 0\<rparr>)"
  "mgr_inv (sample_manager\<lparr>cm_connections := [Some sample_hello_conn], cm_free_conn_ids := [], cm_active_count := 1\<rparr>)"
proof -
  let ?m = "sample_manager\<lparr>cm_connections := [None], cm_free_conn_ids := [0], cm_active_count := 0\<rparr>"
  let ?m1 = "sample_manager\<lparr>cm_connections := [Some sample_hello_conn], cm_free_conn_ids := [], cm_active_count := 1\<rparr>"
  have "GetConnection i ?m = None" for i by (auto simp: GetConnection_def nth_Cons')
  moreover have "conn_live ?m = {}" by (auto simp: conn_live_def nth_Cons' split: if_splits)
  ultimately show "mgr_inv ?m"
    by (simp add: mgr_inv_def conn_ids_ok_def conn_avail_def conn_univ_def) (auto simp: sample_manager_def)
  have "conn_live ?m1 = {0}" by (auto simp: conn_live_def)
  moreover have "GetConnection i ?m1 = Some c \<Longrightarrow> conn_id_of c = i" for i c
    by (cases "i = 0") (auto simp: GetConnection_def sample_hello_conn_def sample_conn_def unat_eq_0 Suc_le_eq unat_gt_0
        word_gt_0 split: if_splits)
  ultimately show "mgr_inv ?m1"
    by (simp add: mgr_inv_def conn_ids_ok_def conn_avail_def) (simp add: sample_manager_def lessThan_Suc)
qed

definition sample_callers :: "QpConnParams \<Rightarrow> nat \<Rightarrow> accept_env" where
  "sample_callers params i = (if i = 0 then sample_meeting params
     else sample_refusal\<lparr>ae_writes := replicate 128 (Moved 7), ae_reads := replicate 128 (Moved 7)\<rparr>)"

lemma sample_callers_ok: "creates_on_device (sample_callers params i)" "attended (sample_callers params i)"
proof -
  have f: "finishes 128 (replicate 128 (Moved 7))" using moves_benign_replicate [of 7 128] by (intro finishes_moves) simp_all
  show "creates_on_device (sample_callers params i)"
    by (auto simp: creates_on_device_def sample_callers_def sample_meeting_def sample_refusal_def sample_hello_conn_def sample_conn_def sample_qp_def)
  show "attended (sample_callers params i)"
    using f by (simp add: attended_def sample_callers_def sample_meeting_def sample_refusal_def)
qed

text \<open>The device reports a completion of connection 3 whenever it is asked.\<close>

definition sample_device_poll :: "ptr \<Rightarrow> int \<Rightarrow> 'n \<Rightarrow> (int + ibv_wc list) \<times> 'n" where
  "sample_device_poll cq k n = (Inr (if 1 \<le> k then [sample_wc 3] else []), n)"

lemma sample_free_server_ok:
  obtains store pool where "sv_ok (sample_free_server store pool) {}"
proof -
  obtain store pool where ok: "sv_ok (sample_server store pool) {}" by (rule sample_server_ok)
  have "sv_ok (sample_free_server store pool) {}"
    using ok sample_free_manager(1)
    by (simp add: sv_ok_def sv_buffers_def sample_free_server_def sample_server_def sv_recvs_empty)
  then show ?thesis by (rule that)
qed

text \<open>The caller of the first round is connected and gets a context.\<close>

lemma sample_caller_connects:
  assumes "sv_ok (sample_free_server store pool) {}"
    and p: "Conn_GetLocalParams (\<lambda>_ _. Inr (1, 3)) (\<lambda>_ _ _. Inr (replicate 16 0)) sample_hello_conn = Inr (Inr params)"
    and len: "length (gid params) = 16"
  shows "\<exists>s1. AcceptConnections table_verbs (sample_callers params 0) (sample_free_server store pool) = Some (Inr s1) \<and>
    sv_contexts s1 0 \<noteq> None"
proof -
  let ?E = "sample_meeting params" and ?ch = "\<lparr>ch_fd = 8, ch_peer_address = ''''\<rparr>"
  let ?s = "(sample_free_server store pool)\<lparr>sv_ledger := acquire (R_Fd 8) (sv_ledger (sample_free_server store pool))\<rparr>"
  let ?s1 = "?s\<lparr>sv_manager := sample_manager\<lparr>cm_connections := [Some sample_hello_conn], cm_free_conn_ids := [], cm_active_count := 1\<rparr>,
      sv_ledger := acquire (R_Fd 8) (sv_ledger (sample_free_server store pool))\<rparr>"
  have c0: "conn_id_of sample_hello_conn = 0" "SetConnId 0 sample_hello_conn = sample_hello_conn"
    by (simp_all add: sample_hello_conn_def sample_conn_def SetConnId_def)
  have E: "ae_query_port ?E = (\<lambda>_ _. Inr (1, 3))" "ae_query_gid ?E = (\<lambda>_ _ _. Inr (replicate 16 0))"
    "ae_writes ?E = replicate 128 (Moved 7)" "ae_reads ?E = replicate 128 (Moved 7)"
    "ae_stream ?E = Handshake_bytes 0 0 0 (client_hello params) @ []" "ae_poll ?E = Inr 1" "ae_accept ?E = Inr 8" "ae_peer ?E = None"
    by (simp_all add: sample_meeting_def sample_refusal_def)
  have cc: "CreateConnection (ae_create ?E) (ae_config ?E) (sv_manager ?s) (sv_ledger ?s) = Inr (Inr 0, sv_manager ?s1, sv_ledger ?s)"
    using c0(2) by (simp add: sample_free_server_def sample_server_def CreateConnection_def AllocateConnId_def sample_manager_def
        sample_meeting_def UINT16_MAX_def)
  have g: "GetConnection 0 (sv_manager ?s1) = Some sample_hello_conn" by (simp add: GetConnection_def)
  have scripts: "benign (replicate 128 (Moved 7))" "128 \<le> moves (replicate 128 (Moved 7))"
    using moves_benign_replicate [of 7 128] by simp_all
  have ex: "exchange_params ?E ?ch (server_hello params 0) = Some (Some (client_hello params))"
    by (rule exchange_params_delivers [OF _ _ _ _ _ E(5) hello_wf(1) [OF len] hello_wf(2) [OF len]]) (simp_all add: E scripts)
  have con: "Status_ok (fst (Connect table_verbs params sample_hello_conn (\<lambda>_. QP_RESET)))"
    by (simp add: Connect_def sample_hello_conn_def sample_conn_def TransitionToInit_def TransitionToRTR_def TransitionToRTS_def
        modify_status_def table_verbs_def ibv_qp_attr_zero_def Let_def)
  have "sv_contexts ?s = Map.empty" by (simp add: sample_free_server_def sample_server_def)
  with sv_ok_manager [of "sample_free_server store pool" "{}"] assms(1) sample_free_manager(2) have "sv_ok ?s1 {}" by simp
  from establish_ok [OF this g, of table_verbs "client_hello params"] con obtain s2 where
    s2: "establish table_verbs 0 (client_hello params) sample_hello_conn ?s1 = Inr s2" "sv_contexts s2 0 \<noteq> None"
    by (auto simp: sample_free_server_def sample_server_def)
  have "accept_on table_verbs ?E ?ch ?s = Some (Inr s2)"
    using s2(1) p ex g c0(1) unfolding accept_on_def cc by (simp add: conn_at_def E(1,2) Let_def)
  with s2(2) show ?thesis by (auto simp: AcceptConnections_def Channel_Accept_def sample_callers_def E(6-8))
qed

theorem server_runs_until_stopped_witness:
  "\<exists>params store pool stats s s1. Server_Run (Suc 5) (\<lambda>i. i < 5) id sample_device_poll table_verbs (sample_callers params)
       (sample_free_server store pool) = Some (Inr (stats, s)) \<and> st_used_slots stats \<le> st_total_slots stats \<and>
     AcceptConnections table_verbs (sample_callers params 0) (sample_free_server store pool) = Some (Inr s1) \<and> sv_contexts s1 0 \<noteq> None"
proof -
  obtain store pool where ok: "sv_ok (sample_free_server store pool) {}" by (rule sample_free_server_ok)
  obtain params where par: "Conn_GetLocalParams (\<lambda>_ _. Inr (1, 3)) (\<lambda>_ _ _. Inr (replicate 16 0)) sample_hello_conn = Inr (Inr params)"
    "length (gid params) = 16" using sample_hello_params by blast
  let ?s = "sample_free_server store pool"
  have f: "kv_inv (sv_store ?s)" "mgr_inv (sv_manager ?s)" "lifo_invar (sv_pool ?s)" "bp_buffer_size (sv_pool ?s) = MAX_REQUEST_SIZE"
    using ok by (simp_all add: sv_ok_def sv_buffers_def tracking_ok_def)
  have g: "sv_contexts ?s = Map.empty" "sv_posted_recv ?s = Map.empty" "sv_posted_send ?s = Map.empty"
    by (simp_all add: sample_server_def sample_free_server_def)
  obtain L' where r: "Reactor_Create (\<lambda>_ _. 4096) sample_entries (ReactorConfig_default\<lparr>rc_batch_mode := THROUGHPUT\<rparr>) ledger_empty =
      (Inr (sample_reactor (ReactorConfig_default\<lparr>rc_batch_mode := THROUGHPUT\<rparr>)), L')" using sample_reactor_created by blast
  have p: "polls_conform (sample_device_poll :: ptr \<Rightarrow> int \<Rightarrow> (ptr \<Rightarrow> QpState) \<Rightarrow> _)"
    by (auto simp: polls_conform_def sample_device_poll_def kNoConn_def split: if_splits)
  have d: "sv_dispatcher ?s = SetErrorHandler 9 (Some kOnError) Dispatcher_new"
    "sv_reactor ?s = RegisterCQ sample_cq 0 (RegisterCQ sample_cq 0 (sample_reactor (ReactorConfig_default\<lparr>rc_batch_mode := THROUGHPUT\<rparr>)))"
    by (simp_all add: sample_free_server_def)
  from server_runs_until_stopped [where Es = "sample_callers params", OF f g d(1) r d(2) p sample_callers_ok, of 5 id table_verbs]
    sample_caller_connects [OF ok par]
  show ?thesis by blast
qed

end
