(* ===== verification/Logging.thy ===== *)
theory Logging
  imports Status
begin

text \<open>
  \<open>include/rdma/common/logging.h\<close>: the levels, the static logger with its level, the four entry points,
  the line they write and the macros. The logger is a state with the level and the text written to
  \<open>stderr\<close> so far; the time stamp and the text \<open>vfprintf\<close> makes of the format and its arguments are
  parameters of a call.
\<close>

section \<open>Log levels\<close>

datatype LogLevel = kDebug | kInfo | kWarn | kError

fun LogLevel_code :: "LogLevel \<Rightarrow> nat" where
  "LogLevel_code kDebug = 0"
| "LogLevel_code kInfo = 1"
| "LogLevel_code kWarn = 2"
| "LogLevel_code kError = 3"

lemma LogLevel_code_inject: "LogLevel_code a = LogLevel_code b \<longleftrightarrow> a = b"
  by (cases a; cases b) simp_all

text \<open>The comparison \<open>level_ <= LogLevel::kDebug\<close> of two enumerators compares their values.\<close>

instantiation LogLevel :: linorder
begin

definition less_eq_LogLevel :: "LogLevel \<Rightarrow> LogLevel \<Rightarrow> bool" where
  "less_eq_LogLevel a b \<longleftrightarrow> LogLevel_code a \<le> LogLevel_code b"

definition less_LogLevel :: "LogLevel \<Rightarrow> LogLevel \<Rightarrow> bool" where
  "less_LogLevel a b \<longleftrightarrow> LogLevel_code a < LogLevel_code b"

instance
  by standard (auto simp: less_eq_LogLevel_def less_LogLevel_def LogLevel_code_inject)

end

section \<open>The logger\<close>

record Logger =
  log_level :: LogLevel
  log_stderr :: string

definition Logger_initial :: Logger where
  "Logger_initial = \<lparr>log_level = kInfo, log_stderr = ''''\<rparr>"

definition Logger_SetLevel :: "LogLevel \<Rightarrow> Logger \<Rightarrow> Logger" where
  "Logger_SetLevel level s = s\<lparr>log_level := level\<rparr>"

definition Logger_GetLevel :: "Logger \<Rightarrow> LogLevel" where
  "Logger_GetLevel s = log_level s"

text \<open>What a call brings along: the formatted time, the place of the call and the formatted message.\<close>

record log_call =
  lc_time :: string
  lc_file :: string
  lc_line :: int
  lc_message :: string

definition log_line :: "string \<Rightarrow> log_call \<Rightarrow> string" where
  "log_line level c =
     ''['' @ lc_time c @ ''] ['' @ level @ ''] '' @ lc_file c @ '':'' @ int_to_string (lc_line c) @ '': '' @ lc_message c @ [CHR 0x0A]"

definition Logger_Log :: "string \<Rightarrow> log_call \<Rightarrow> Logger \<Rightarrow> Logger" where
  "Logger_Log level c s = s\<lparr>log_stderr := log_stderr s @ log_line level c\<rparr>"

text \<open>\<open>enabled\<close> says whether \<open>RDMA_ENABLE_LOGGING\<close> is defined; \<open>Error\<close> has no level test.\<close>

definition Logger_Debug :: "bool \<Rightarrow> log_call \<Rightarrow> Logger \<Rightarrow> Logger" where
  "Logger_Debug enabled c s = (if enabled \<and> log_level s \<le> kDebug then Logger_Log ''DEBUG'' c s else s)"

definition Logger_Info :: "bool \<Rightarrow> log_call \<Rightarrow> Logger \<Rightarrow> Logger" where
  "Logger_Info enabled c s = (if enabled \<and> log_level s \<le> kInfo then Logger_Log ''INFO'' c s else s)"

definition Logger_Warn :: "bool \<Rightarrow> log_call \<Rightarrow> Logger \<Rightarrow> Logger" where
  "Logger_Warn enabled c s = (if enabled \<and> log_level s \<le> kWarn then Logger_Log ''WARN'' c s else s)"

definition Logger_Error :: "log_call \<Rightarrow> Logger \<Rightarrow> Logger" where
  "Logger_Error c s = Logger_Log ''ERROR'' c s"

text \<open>The macros expand to nothing when logging is compiled out, except the one for errors.\<close>

fun RDMA_LOG :: "bool \<Rightarrow> LogLevel \<Rightarrow> log_call \<Rightarrow> Logger \<Rightarrow> Logger" where
  "RDMA_LOG enabled kDebug c s = (if enabled then Logger_Debug enabled c s else s)"
| "RDMA_LOG enabled kInfo c s = (if enabled then Logger_Info enabled c s else s)"
| "RDMA_LOG enabled kWarn c s = (if enabled then Logger_Warn enabled c s else s)"
| "RDMA_LOG enabled kError c s = Logger_Error c s"

section \<open>What is in the log\<close>

datatype log_op = Set_Level LogLevel | Write LogLevel log_call

primrec log_step :: "bool \<Rightarrow> log_op \<Rightarrow> Logger \<Rightarrow> Logger" where
  "log_step enabled (Set_Level l) s = Logger_SetLevel l s"
| "log_step enabled (Write l c) s = RDMA_LOG enabled l c s"

primrec level_name :: "LogLevel \<Rightarrow> string" where
  "level_name kDebug = ''DEBUG''"
| "level_name kInfo = ''INFO''"
| "level_name kWarn = ''WARN''"
| "level_name kError = ''ERROR''"

text \<open>The lines a history of calls should leave, read off the levels in force.\<close>

primrec log_spec :: "bool \<Rightarrow> LogLevel \<Rightarrow> log_op list \<Rightarrow> string" where
  "log_spec enabled level [] = ''''"
| "log_spec enabled level (x # xs) =
     (case x of
        Set_Level l \<Rightarrow> log_spec enabled l xs
      | Write l c \<Rightarrow> (if l = kError \<or> enabled \<and> level \<le> l then log_line (level_name l) c else '''') @ log_spec enabled level xs)"

lemma LogLevel_error_top: "level \<le> kError"
  by (cases level) (simp_all add: less_eq_LogLevel_def)

lemma RDMA_LOG_effect:
  "RDMA_LOG enabled l c s =
     s\<lparr>log_stderr := log_stderr s @ (if l = kError \<or> enabled \<and> log_level s \<le> l then log_line (level_name l) c else '''')\<rparr>"
  by (cases l) (simp_all add: Logger_Debug_def Logger_Info_def Logger_Warn_def Logger_Error_def Logger_Log_def LogLevel_error_top)

text \<open>
  The log holds exactly the lines of the calls whose level was in force when they were made, in the
  order of the calls, and every error, whether logging is compiled in or not.
\<close>

lemma log_history: "log_stderr (fold (log_step enabled) ops s) = log_stderr s @ log_spec enabled (log_level s) ops"
proof (induction ops arbitrary: s)
  case (Cons x ops)
  then show ?case by (cases x) (simp_all add: RDMA_LOG_effect Logger_SetLevel_def)
qed simp

end
