(* ===== verification/Program_Mains.thy ===== *)
theory Program_Mains
  imports Kv_Running Kv_Session Logging
begin

text \<open>
  The command lines and the reports of the example programs: the port argument of \<open>server.cpp\<close> and
  \<open>client.cpp\<close> with their \<open>main\<close> from the arguments to the exit code, the figures \<open>RunBenchmark\<close> prints
  at its end (\<open>kv_client.cpp\<close>), and the two quotients in floating point that the library offers,
  \<open>AlignmentRatio\<close> (\<open>memory/buffer.h\<close>) and \<open>GetLoadFactor\<close> (\<open>kv_store.h\<close>). The rounding of an
  operation is a parameter \<open>rnd\<close>.
\<close>

section \<open>The port argument\<close>

text \<open>\<open>std::atoi\<close>: white space, a sign and digits; what follows is ignored, and a value no \<open>int\<close> holds is undefined.\<close>

definition is_space :: "char \<Rightarrow> bool" where
  "is_space ch \<longleftrightarrow> of_char ch = (32 :: nat) \<or> 9 \<le> (of_char ch :: nat) \<and> (of_char ch :: nat) \<le> 13"

definition is_digit :: "char \<Rightarrow> bool" where
  "is_digit ch \<longleftrightarrow> 48 \<le> (of_char ch :: nat) \<and> (of_char ch :: nat) \<le> 57"

fun digits_value :: "nat \<Rightarrow> string \<Rightarrow> nat" where
  "digits_value acc [] = acc"
| "digits_value acc (ch # cs) = (if is_digit ch then digits_value (10 * acc + (of_char ch - 48)) cs else acc)"

definition std_atoi :: "string \<Rightarrow> int chk" where
  "std_atoi s =
     (let t = dropWhile is_space s;
          v = (case t of [] \<Rightarrow> 0
               | ch # cs \<Rightarrow> if ch = CHR ''-'' then - int (digits_value 0 cs)
                           else if ch = CHR ''+'' then int (digits_value 0 cs) else int (digits_value 0 t))
      in if - (2 ^ 31) \<le> v \<and> v < 2 ^ 31 then Inr v else Inl Signed_Overflow)"

text \<open>\<open>argv\<close> without its null terminator; \<open>None\<close> when the usage is printed and \<open>main\<close> returns 1.\<close>

definition server_port_arg :: "string list \<Rightarrow> u16 chk" where
  "server_port_arg argv = (if 1 < length argv then bind_chk (std_atoi (argv ! 1)) (\<lambda>i. Inr (of_int i)) else Inr 12345)"

definition hello_args :: "string list \<Rightarrow> (string \<times> u16) option chk" where
  "hello_args argv =
     (if length argv < 2 then Inr None
      else if 2 < length argv then bind_chk (std_atoi (argv ! 2)) (\<lambda>i. Inr (Some (argv ! 1, of_int i)))
      else Inr (Some (argv ! 1, 12345)))"

declare nat_to_string.simps [simp del]

lemma digits_value_append:
  "list_all is_digit xs \<Longrightarrow> digits_value acc (xs @ ys) = digits_value (digits_value acc xs) ys"
  by (induction xs arbitrary: acc) auto

lemma of_char_digit:
  "d < 10 \<Longrightarrow> of_char (char_of (48 + d) :: char) = 48 + d" "d < 10 \<Longrightarrow> is_digit (char_of (48 + d))" for d :: nat
  by (simp_all add: of_char_of is_digit_def)

lemma nat_to_string_digits: "list_all is_digit (nat_to_string n)"
proof (induction n rule: nat_to_string.induct)
  case (1 n)
  have "n mod 10 < 10" by simp
  with 1 show ?case by (simp add: nat_to_string.simps [of n] of_char_digit)
qed

lemma digits_value_nat_to_string: "digits_value 0 (nat_to_string n) = n"
proof (induction n rule: nat_to_string.induct)
  case (1 n)
  have "n mod 10 < 10" by simp
  note digit = of_char_digit [OF this]
  show ?case
  proof (cases "n < 10")
    case True
    then show ?thesis by (simp add: nat_to_string.simps [of n] of_char_digit)
  next
    case False
    then have "digits_value 0 (nat_to_string n) = digits_value 0 (nat_to_string (n div 10) @ [char_of (48 + n mod 10)])"
      by (simp add: nat_to_string.simps [of n])
    also have "\<dots> = 10 * (n div 10) + n mod 10"
      by (simp add: digits_value_append nat_to_string_digits "1.IH" [OF False] digit)
    finally show ?thesis by simp
  qed
qed

lemma nat_to_string_head: "\<exists>ch cs. nat_to_string n = ch # cs \<and> is_digit ch"
proof -
  have "nat_to_string n \<noteq> []" by (subst nat_to_string.simps) simp
  with nat_to_string_digits [of n] show ?thesis by (cases "nat_to_string n") auto
qed

lemma std_atoi_printed:
  assumes "- (2 ^ 31) \<le> i" and "i < 2 ^ 31"
  shows "std_atoi (int_to_string i) = Inr i"
proof -
  obtain ch cs where d: "nat_to_string (nat \<bar>i\<bar>) = ch # cs" "is_digit ch" using nat_to_string_head by blast
  from d(2) have ch: "\<not> is_space ch" "ch \<noteq> CHR ''-''" "ch \<noteq> CHR ''+''" by (auto simp: is_digit_def is_space_def)
  have v: "digits_value 0 (ch # cs) = nat \<bar>i\<bar>" using digits_value_nat_to_string [of "nat \<bar>i\<bar>"] d(1) by simp
  show ?thesis
  proof (cases "i < 0")
    case True
    then have "int_to_string i = CHR ''-'' # ch # cs" using d(1) by (simp add: int_to_string_def)
    moreover have "\<not> is_space CHR ''-''" by (simp add: is_space_def)
    ultimately show ?thesis using True assms v by (simp add: std_atoi_def)
  next
    case False
    then have "int_to_string i = ch # cs" using d(1) by (simp add: int_to_string_def)
    then show ?thesis using False assms v ch by (simp add: std_atoi_def)
  qed
qed

text \<open>
  A port printed in decimal is the port the programs use, and the default one when none is given;
  but nothing checks the range, so that every printed integer is accepted and reduced modulo 65536,
  silently another port.
\<close>

theorem port_argument_roundtrip:
  assumes "- (2 ^ 31) \<le> i" and "i < 2 ^ 31"
  shows "server_port_arg [prog, int_to_string i] = Inr (of_int i) \<and>
    hello_args [prog, host, int_to_string i] = Inr (Some (host, of_int i)) \<and>
    server_port_arg [prog] = Inr 12345 \<and> hello_args [prog, host] = Inr (Some (host, 12345)) \<and> hello_args [prog] = Inr None"
  using std_atoi_printed [OF assms] by (simp add: server_port_arg_def hello_args_def)

theorem port_argument_roundtrip_witness:
  "server_port_arg [''server'', int_to_string 65548] = Inr 12"
  using port_argument_roundtrip [of 65548 "''server''" "''host''"] by simp

section \<open>The stop flag\<close>

definition SignalHandler :: "int \<Rightarrow> bool \<Rightarrow> bool" where
  "SignalHandler sig g_running = False"

text \<open>What round \<open>i\<close> of a loop reads when \<open>sigs j\<close> are the signals delivered before its \<open>j\<close>-th reading.\<close>

definition stop_flag :: "(nat \<Rightarrow> int list) \<Rightarrow> nat \<Rightarrow> bool" where
  "stop_flag sigs i = fold SignalHandler (concat (map sigs [0..<Suc i])) True"

lemma stop_flag_iff: "stop_flag sigs i \<longleftrightarrow> (\<forall>j\<le>i. sigs j = [])"
proof -
  have f: "fold SignalHandler xs b \<longleftrightarrow> b \<and> xs = []" for xs b by (induction xs arbitrary: b) (auto simp: SignalHandler_def)
  have "concat (map sigs [0..<Suc i]) = [] \<longleftrightarrow> (\<forall>j\<le>i. sigs j = [])" by (fastforce simp: less_Suc_eq_le)
  then show ?thesis unfolding stop_flag_def f by blast
qed

text \<open>
  The key-value server stops at the first signal: with the flag its handlers leave, the loop ends when
  and only when a signal has come, and never takes another round after one.
\<close>

lemma server_stops_at_signal:
  assumes "server_loop fuel (stop_flag sigs) rnd poll_cq V Es i s = Some (Inr s')"
  shows "\<exists>j. sigs j \<noteq> [] \<and> j < i + fuel"
  using assms
proof (induction fuel arbitrary: i s)
  case (Suc fuel)
  show ?case
  proof (cases "stop_flag sigs i")
    case True
    with Suc.prems obtain s1 where "server_loop fuel (stop_flag sigs) rnd poll_cq V Es (Suc i) s1 = Some (Inr s')"
      by (auto split: option.splits sum.splits)
    from Suc.IH [OF this] show ?thesis by auto
  next
    case False
    then obtain j where "j \<le> i" "sigs j \<noteq> []" by (auto simp: stop_flag_iff)
    then show ?thesis by (intro exI [of _ j]) simp
  qed
qed simp

section \<open>The example programs from their arguments to their exit codes\<close>

text \<open>
  The outer loop of \<open>server.cpp\<close> for at most \<open>fuel\<close> clients: \<open>running i\<close> is the stop flag before
  client \<open>i\<close>, \<open>inner i\<close> what the loop over its messages reads, \<open>Es i\<close> what its sockets answer and
  \<open>ptrs i\<close> the address of its connection.
\<close>

primrec echo_loop ::
  "nat \<Rightarrow> nat \<Rightarrow> (nat \<Rightarrow> bool) \<Rightarrow> (nat \<Rightarrow> nat \<Rightarrow> bool) \<Rightarrow> (ptr \<Rightarrow> int \<Rightarrow> 'n \<Rightarrow> (int + ibv_wc list) \<times> 'n) \<Rightarrow> 'n qp_verbs
     \<Rightarrow> (nat \<Rightarrow> accept_env) \<Rightarrow> (nat \<Rightarrow> ptr) \<Rightarrow> nat \<Rightarrow> 'n EchoServer \<Rightarrow> 'n EchoServer chk option" where
  "echo_loop 0 rounds running inner poll_cq V Es ptrs i s = None"
| "echo_loop (Suc fuel) rounds running inner poll_cq V Es ptrs i s =
     (if running i
      then (case echo_iteration rounds (inner i) poll_cq V (Es i) (ptrs i) s of
              None \<Rightarrow> None
            | Some (Inl u) \<Rightarrow> Some (Inl u)
            | Some (Inr s') \<Rightarrow> echo_loop fuel rounds running inner poll_cq V Es ptrs (Suc i) s')
      else Some (Inr s))"

text \<open>The exit code, what the handlers printed and the ledger after the destruction of the locals.\<close>

definition Echo_main ::
  "nat \<Rightarrow> nat \<Rightarrow> (nat \<Rightarrow> bool) \<Rightarrow> (nat \<Rightarrow> nat \<Rightarrow> bool) \<Rightarrow> (ptr \<Rightarrow> int \<Rightarrow> 'n \<Rightarrow> (int + ibv_wc list) \<times> 'n) \<Rightarrow> 'n qp_verbs
     \<Rightarrow> (nat \<Rightarrow> accept_env) \<Rightarrow> (nat \<Rightarrow> ptr) \<Rightarrow> dev_verbs \<Rightarrow> bool \<Rightarrow> mem_env \<Rightarrow> (int \<times> bool) list option \<Rightarrow> int option \<Rightarrow> string list
     \<Rightarrow> 'n \<Rightarrow> ledger \<Rightarrow> (int \<times> echo_out list \<times> ledger) chk option" where
  "Echo_main fuel rounds running inner poll_cq V Es ptrs D ro M addrs listen_err argv net L =
     (case server_port_arg argv of
        Inl u \<Rightarrow> Some (Inl u)
      | Inr port \<Rightarrow>
          (case Echo_Server_start D ro M addrs listen_err port net L of
             (None, L1) \<Rightarrow> Some (Inr (1, [], L1))
           | (Some s, L1) \<Rightarrow>
               map_option (\<lambda>r. bind_chk r (\<lambda>s'. Inr (0, eo_out s', close_stack (eo_stack s') (Server_dtor (eo_listener s') (eo_ledger s')))))
                 (echo_loop fuel rounds running inner poll_cq V Es ptrs 0 s)))"

text \<open>The handlers of \<open>client.cpp\<close>; they print what those of \<open>server.cpp\<close> print.\<close>

definition Hello_OnCompletion :: "ibv_wc \<Rightarrow> echo_out list" where
  "Hello_OnCompletion wc =
     (if wc_status wc \<noteq> IBV_WC_SUCCESS then [Out_Wc_Error (wc_status wc)]
      else case WrId_GetOpcode (wc_wr_id wc) of
        Some RECV \<Rightarrow> [Out_Received (wc_byte_len wc)]
      | Some REQUEST_SEND \<Rightarrow> [Out_Send_Completed]
      | Some RESPONSE_SEND \<Rightarrow> [Out_Send_Completed]
      | _ \<Rightarrow> [])"

definition Hello_OnError :: "u16 \<Rightarrow> nat \<Rightarrow> echo_out list" where
  "Hello_OnError conn_id status = [Out_Conn_Error conn_id status]"

lemma hello_handlers:
  "echo_call call = (case call of Call_Wc f ctx wc \<Rightarrow> Hello_OnCompletion wc | Call_Error f ctx i st \<Rightarrow> Hello_OnError i st)"
  by (simp add: echo_call_def Hello_OnCompletion_def Echo_OnCompletion_def Hello_OnError_def Echo_OnError_def split: disp_call.splits)

definition Hello_main ::
  "nat \<Rightarrow> (nat \<Rightarrow> bool) \<Rightarrow> (nat \<Rightarrow> bool) \<Rightarrow> (ptr \<Rightarrow> int \<Rightarrow> 'n \<Rightarrow> (int + ibv_wc list) \<times> 'n) \<Rightarrow> 'n qp_verbs \<Rightarrow> client_env \<Rightarrow> ptr
     \<Rightarrow> string list \<Rightarrow> memory \<Rightarrow> 'n \<Rightarrow> ledger \<Rightarrow> (int \<times> echo_out list \<times> ledger) chk option" where
  "Hello_main fuel running due poll_cq V E conn_ptr argv mem net L =
     (case hello_args argv of
        Inl u \<Rightarrow> Some (Inl u)
      | Inr None \<Rightarrow> Some (Inr (1, [], L))
      | Inr (Some (host, port)) \<Rightarrow>
          (case Hello_start V E host port conn_ptr mem net L of
             None \<Rightarrow> None
           | Some (Inl u) \<Rightarrow> Some (Inl u)
           | Some (Inr (None, L1)) \<Rightarrow> Some (Inr (1, [], L1))
           | Some (Inr (Some c, L1)) \<Rightarrow>
               map_option (\<lambda>r. bind_chk r (\<lambda>c'. Inr (0, hc_out c',
                   close_stack (hc_stack c') (Channel_dtor (hc_channel c') (snd (Connection_dtor V (hc_conn c') (hc_net c') L1))))))
                 (hello_loop fuel running due poll_cq V 0 c)))"

section \<open>Quotients in floating point\<close>

datatype fp = Finite real | Plus_Inf | Minus_Inf | Not_A_Number

text \<open>A division whose divisor, when it is zero, is the positive zero; in range, so that only the rounding is lost.\<close>

definition fp_div :: "(real \<Rightarrow> real) \<Rightarrow> real \<Rightarrow> real \<Rightarrow> fp" where
  "fp_div rnd x y =
     (if y \<noteq> 0 then Finite (rnd (x / y)) else if x > 0 then Plus_Inf else if x < 0 then Minus_Inf else Not_A_Number)"

definition AlignmentRatio :: "(real \<Rightarrow> real) \<Rightarrow> AlignmentReport \<Rightarrow> fp" where
  "AlignmentRatio rnd r =
     (if total_sge r > 0 then fp_div rnd (rnd (real (page_aligned_count r))) (rnd (real (total_sge r))) else Finite 1)"

definition GetLoadFactor :: "(real \<Rightarrow> real) \<Rightarrow> KVStore \<Rightarrow> fp" where
  "GetLoadFactor rnd s =
     (if kv_num_slots s > 0
      then fp_div rnd (rnd (real (unat (kv_used_slots s)))) (rnd (real (unat (kv_num_slots s)))) else Finite 0)"

text \<open>A rounding that is monotone and exact on 0 and 1, as every IEEE rounding is.\<close>

definition sane_rounding :: "(real \<Rightarrow> real) \<Rightarrow> bool" where
  "sane_rounding rnd \<longleftrightarrow> mono rnd \<and> rnd 0 = 0 \<and> rnd 1 = 1"

lemma sane_rounding_fixed_point: "sane_rounding (\<lambda>x. real_of_int \<lfloor>x * 2 ^ 23\<rfloor> / 2 ^ 23)"
  by (auto simp: sane_rounding_def mono_def intro!: divide_right_mono floor_mono)

lemma fp_div_ratio:
  assumes "sane_rounding rnd" and "a \<le> b" and "0 < b"
  shows "\<exists>q. fp_div rnd (rnd (real a)) (rnd (real b)) = Finite q \<and> 0 \<le> q \<and> q \<le> 1"
proof -
  have m: "x \<le> y \<Longrightarrow> rnd x \<le> rnd y" for x y using assms(1) by (simp add: sane_rounding_def mono_def)
  have z: "rnd 0 = 0" "rnd 1 = 1" using assms(1) by (simp_all add: sane_rounding_def)
  have b: "1 \<le> rnd (real b)" using m [of 1 "real b"] assms(3) z by simp
  have a: "0 \<le> rnd (real a)" "rnd (real a) \<le> rnd (real b)" using m [of 0 "real a"] m [of "real a" "real b"] assms(2) z by simp_all
  then have "0 \<le> rnd (real a) / rnd (real b)" "rnd (real a) / rnd (real b) \<le> 1" using b by simp_all
  then have "0 \<le> rnd (rnd (real a) / rnd (real b))" "rnd (rnd (real a) / rnd (real b)) \<le> 1" using m [of 0] m [of _ 1] z by metis+
  with b show ?thesis by (simp add: fp_div_def)
qed

text \<open>Whatever the vector, the ratio the checker reports lies between 0 and 1.\<close>

lemma AlignmentRatio_unit: "sane_rounding rnd \<Longrightarrow> \<exists>q. AlignmentRatio rnd (Alignment_Check iov) = Finite q \<and> 0 \<le> q \<and> q \<le> 1"
  using Alignment_Check_accounts [of iov] fp_div_ratio [of rnd "page_aligned_count (Alignment_Check iov)" "total_sge (Alignment_Check iov)"]
  by (auto simp: AlignmentRatio_def)

section \<open>The figures of a benchmark\<close>

record bench_report =
  rp_seconds :: real
  rp_ops_per_sec :: fp
  rp_bandwidth_mbps :: fp
  rp_avg_latency_us :: fp

text \<open>
  \<open>duration\<close> is the measured time in microseconds. The product of the number of operations and the size
  of a value is one of a signed and an unsigned integer of 32 bits: it is taken in \<open>uint32_t\<close>.
\<close>

definition benchmark_report :: "(real \<Rightarrow> real) \<Rightarrow> int \<Rightarrow> u32 \<Rightarrow> Bench \<Rightarrow> bench_report" where
  "benchmark_report rnd duration value_size b =
     (let seconds = rnd (rnd (real_of_int duration) / 1000000);
          completed = real_of_int (bn_completed b)
      in \<lparr>rp_seconds = seconds, rp_ops_per_sec = fp_div rnd completed seconds,
          rp_bandwidth_mbps = fp_div rnd (rnd (real_of_int (uint (of_int (bn_completed b) * value_size)) * 8)) (rnd (seconds * 1000000)),
          rp_avg_latency_us = fp_div rnd (rnd (real_of_int duration)) completed\<rparr>)"

text \<open>
  The bandwidth forgets every full 4 GiB of transferred values: 65536 operations on values of 64 KiB
  are reported as no bandwidth at all. A run with no completed operation has no latency.
\<close>

lemma benchmark_bandwidth_wraps:
  "bn_completed b' * uint v mod 2 ^ 32 = bn_completed b * uint v mod 2 ^ 32 \<Longrightarrow>
     rp_bandwidth_mbps (benchmark_report rnd d v b') = rp_bandwidth_mbps (benchmark_report rnd d v b)"
  "bn_completed b = 65536 \<Longrightarrow> rnd 0 = 0 \<Longrightarrow> rnd (rnd (rnd (real_of_int d) / 1000000) * 1000000) \<noteq> 0 \<Longrightarrow>
     rp_bandwidth_mbps (benchmark_report rnd d 65536 b) = Finite 0"
  "bn_completed b = 0 \<Longrightarrow> \<exists>x. rp_avg_latency_us (benchmark_report rnd d v b) = x \<and> (\<forall>q. x \<noteq> Finite q)"
proof -
  have u: "uint (of_int (bn_completed b) * v) = bn_completed b * uint v mod 2 ^ 32" for b :: Bench and v :: u32
    by (simp add: uint_word_ariths unsigned_of_int take_bit_eq_mod mod_mult_left_eq)
  show "bn_completed b' * uint v mod 2 ^ 32 = bn_completed b * uint v mod 2 ^ 32 \<Longrightarrow>
     rp_bandwidth_mbps (benchmark_report rnd d v b') = rp_bandwidth_mbps (benchmark_report rnd d v b)"
    by (simp add: benchmark_report_def Let_def u)
  show "bn_completed b = 65536 \<Longrightarrow> rnd 0 = 0 \<Longrightarrow> rnd (rnd (rnd (real_of_int d) / 1000000) * 1000000) \<noteq> 0 \<Longrightarrow>
     rp_bandwidth_mbps (benchmark_report rnd d 65536 b) = Finite 0"
    by (simp add: benchmark_report_def Let_def u fp_div_def)
  show "bn_completed b = 0 \<Longrightarrow> \<exists>x. rp_avg_latency_us (benchmark_report rnd d v b) = x \<and> (\<forall>q. x \<noteq> Finite q)"
    by (simp add: benchmark_report_def Let_def fp_div_def)
qed

end
