(* ===== verification/Connection_Ledger.thy ===== *)
theory Connection_Ledger
  imports Connection_Manager
begin

text \<open>
  The queue pairs a connection manager (\<open>transport/connection_manager.cpp\<close>) owns through its table of
  connections, and the ledger of handles across everything it does.
\<close>

section \<open>Connections and the ledger\<close>

lemma Connection_dtor_ledger: "snd (Connection_dtor V c n L) = QP_dtor (conn_qp c) L"
  by (simp add: Connection_dtor_def Disconnect_def Let_def split_beta)

lemma Connect_qp: "Connect V rp c n = (st, c', n') \<Longrightarrow> conn_qp c' = conn_qp c"
  by (auto simp: Connect_def Let_def split: if_splits prod.splits)

lemma conn_step_raw: "conn_step V x y \<Longrightarrow> qp_raw (conn_qp (fst y)) = qp_raw (conn_qp (fst x))"
  by (induction rule: conn_step.induct)
    (auto simp: Disconnect_def Conn_Send_def Conn_SendInline_def Conn_Write_def Conn_WriteWithImm_def Conn_Read_def with_qp_def Let_def
      PostSend_def DoPostSend_def PostSendInline_def PostWrite_def PostWriteWithImm_def PostRead_def post_wr_def
      dest!: Connect_qp ShouldSignal_frame split: if_splits prod.splits option.splits)

lemma Connection_Create_creates:
  assumes "qp_fresh cq"
  shows "creates (\<lambda>c. QP_owns (conn_qp c)) L (Connection_Create cq rnd now0 now pd scq rcq config L)"
  using assms
  by (auto simp: Connection_Create_def QP_Create_def qp_fresh_def QP_owns_def ledger_insert_eq split: sum.splits option.splits) blast+

section \<open>What the table owns\<close>

primrec table_qps :: "Connection option list \<Rightarrow> res list" where
  "table_qps [] = []"
| "table_qps (x # xs) = (case x of None \<Rightarrow> [] | Some c \<Rightarrow> QP_owns (conn_qp c)) @ table_qps xs"

lemma table_qps_append: "table_qps (xs @ ys) = table_qps xs @ table_qps ys"
  by (induction xs) simp_all

lemma table_qps_replicate [simp]: "table_qps (replicate k None) = []"
  by (induction k) simp_all

lemma table_qps_update:
  "i < length cs \<Longrightarrow> table_qps (cs[i := x]) =
     table_qps (take i cs) @ (case x of None \<Rightarrow> [] | Some c \<Rightarrow> QP_owns (conn_qp c)) @ table_qps (drop (Suc i) cs)"
  by (simp add: upd_conv_take_nth_drop table_qps_append)

lemma table_qps_at:
  "i < length cs \<Longrightarrow> table_qps cs =
     table_qps (take i cs) @ (case cs ! i of None \<Rightarrow> [] | Some c \<Rightarrow> QP_owns (conn_qp c)) @ table_qps (drop (Suc i) cs)"
  using table_qps_update [of i cs "cs ! i"] by simp

text \<open>The ledger is the one before the manager with the queue pairs of its connections, each of them once.\<close>

definition mgr_holds :: "ledger \<Rightarrow> ConnectionManager \<Rightarrow> ledger \<Rightarrow> bool" where
  "mgr_holds L0 m L \<longleftrightarrow>
     distinct (table_qps (cm_connections m)) \<and> set (table_qps (cm_connections m)) \<inter> lg_live L0 = {} \<and>
     L = L0\<lparr>lg_live := lg_live L0 \<union> set (table_qps (cm_connections m))\<rparr>"

lemma destroy_all_ledger:
  "distinct (table_qps cs) \<Longrightarrow> set (table_qps cs) \<subseteq> lg_live L \<Longrightarrow>
     snd (destroy_all V cs n L) = L\<lparr>lg_live := lg_live L - set (table_qps cs)\<rparr>"
proof (induction V cs n L rule: destroy_all.induct)
  case (3 V c cs n L)
  have L1: "QP_dtor (conn_qp c) L = L\<lparr>lg_live := lg_live L - set (QP_owns (conn_qp c))\<rparr>"
    using 3(2,3) by (intro qp_raii.dtor_gives_back) (auto simp: QP_owns_def)
  have "set (table_qps cs) \<subseteq> lg_live (QP_dtor (conn_qp c) L)" using 3(2,3) by (auto simp: L1)
  moreover obtain n1 M where d: "Connection_dtor V c n L = (n1, M)" by fastforce
  moreover have "M = QP_dtor (conn_qp c) L" using Connection_dtor_ledger [of V c n L] d by simp
  ultimately show ?case using 3(1) [OF refl d [symmetric]] 3(2) L1 by (simp add: Diff_eq Int_assoc Compl_Un)
qed simp_all

text \<open>The destructor gives back what the manager holds.\<close>

lemma Manager_dtor_holds: "mgr_holds L0 m L \<Longrightarrow> snd (Manager_dtor V m n L) = L0"
proof -
  assume h: "mgr_holds L0 m L"
  then have "distinct (table_qps (cm_connections m))" "set (table_qps (cm_connections m)) \<subseteq> lg_live L"
    by (auto simp: mgr_holds_def)
  then have "snd (Manager_dtor V m n L) = L\<lparr>lg_live := lg_live L - set (table_qps (cm_connections m))\<rparr>"
    unfolding Manager_dtor_def by (rule destroy_all_ledger)
  moreover have "lg_live L0 \<union> set (table_qps (cm_connections m)) - set (table_qps (cm_connections m)) = lg_live L0"
    using h by (auto simp: mgr_holds_def)
  ultimately show ?thesis using h by (simp add: mgr_holds_def)
qed

lemma Manager_Create_holds: "Manager_Create pd scq rcq config = Inr m \<Longrightarrow> mgr_holds L m L"
  by (auto simp: Manager_Create_def mgr_holds_def split: option.splits)

lemma use_holds:
  assumes "mgr_holds L0 m L" and "GetConnection i m = Some c" and "qp_raw (conn_qp c') = qp_raw (conn_qp c)"
  shows "mgr_holds L0 (m\<lparr>cm_connections := (cm_connections m)[unat i := Some c']\<rparr>) L"
proof -
  have i: "unat i < length (cm_connections m)" "cm_connections m ! unat i = Some c"
    using assms(2) by (auto simp: GetConnection_def split: if_splits)
  have "table_qps ((cm_connections m)[unat i := Some c']) = table_qps (cm_connections m)"
    using table_qps_update [OF i(1)] table_qps_at [OF i(1)] i(2) assms(3) by (simp add: QP_owns_def)
  with assms(1) show ?thesis by (simp add: mgr_holds_def)
qed

lemma RemoveConnection_holds:
  assumes "mgr_holds L0 m L" and "RemoveConnection V i m n L = (m', n', L')"
  shows "mgr_holds L0 m' L'"
proof (cases "GetConnection i m")
  case None
  with assms show ?thesis by (auto simp: RemoveConnection_def GetConnection_def split: if_splits)
next
  case (Some c)
  then have i: "unat i < length (cm_connections m)" "cm_connections m ! unat i = Some c"
    by (auto simp: GetConnection_def split: if_splits)
  note split = table_qps_at [OF i(1)] i(2)
  have L': "L' = QP_dtor (conn_qp c) L" and m': "cm_connections m' = (cm_connections m)[unat i := None]"
    using assms(2) i Connection_dtor_ledger [of V c n L] by (auto simp: RemoveConnection_def FreeConnId_def Let_def split: prod.splits)
  have "QP_dtor (conn_qp c) L = L\<lparr>lg_live := lg_live L - set (QP_owns (conn_qp c))\<rparr>"
    using assms(1) split by (intro qp_raii.dtor_gives_back) (auto simp: mgr_holds_def)
  then show ?thesis using assms(1) split table_qps_update [OF i(1), of None]
    by (auto simp: mgr_holds_def L' m' intro!: ledger.equality)
qed

lemma CreateConnection_holds:
  assumes "mgr_inv m" and "mgr_holds L0 m L" and "qp_fresh cq"
    and "CreateConnection (Connection_Create cq rnd now0 now) config m L = Inr (r, m', L')"
  shows "mgr_holds L0 m' L'"
proof -
  obtain r1 L1 where mk: "Connection_Create cq rnd now0 now (Some (cm_pd m)) (Some (cm_send_cq m)) (Some (cm_recv_cq m)) config L = (r1, L1)"
    by fastforce
  have cr: "creates (\<lambda>c. QP_owns (conn_qp c)) L (r1, L1)" using Connection_Create_creates [OF assms(3)] mk by metis
  from CreateConnection_outcome [OF assms(1), of "Connection_Create cq rnd now0 now" config L] assms(4) mk consider
    (same) "m' = m" "L' = L" | (err) st where "m' = m" "r1 = Inl st" "L' = L1"
  | (new) i m1 conn where "r1 = Inr conn" "conn_alloc m = Some (i, m1)" "unat i < length (cm_connections m)" "L' = L1"
      "cm_connections m' = (cm_connections m)[unat i := Some (SetConnId i conn)]"
    by (cases r1) auto
  then show ?thesis
  proof cases
    case same
    with assms(2) show ?thesis by simp
  next
    case err
    with assms(2) cr show ?thesis by simp
  next
    case new
    have "cm_connections m ! unat i = None"
      using mgr_inv_insert [OF assms(1) new(2,3), of "SetConnId i conn"] new(3) by (auto simp: GetConnection_def SetConnId_def)
    with new(1) cr assms(2) table_qps_update [OF new(3), of "Some (SetConnId i conn)"] table_qps_at [OF new(3)]
    show ?thesis by (auto simp: mgr_holds_def new(4,5) SetConnId_def Un_ac)
  qed
qed

section \<open>Every run\<close>

definition mgr_owns_ledger :: "ledger \<Rightarrow> ConnectionManager \<times> 'n \<times> ledger \<Rightarrow> bool" where
  "mgr_owns_ledger L0 x \<longleftrightarrow> mgr_inv (fst x) \<and> mgr_holds L0 (fst x) (snd (snd x))"

lemma mgr_step_holds:
  assumes "qp_fresh cq" and "mgr_step (Connection_Create cq rnd now0 now) V x y" and "mgr_owns_ledger L0 x"
  shows "mgr_owns_ledger L0 y"
proof -
  have inv: "mgr_inv (fst x)" "mgr_inv (fst y)" "mgr_holds L0 (fst x) (snd (snd x))"
    using assms(3) mgr_step_inv [OF assms(2)] by (simp_all add: mgr_owns_ledger_def)
  from assms(2) have "mgr_holds L0 (fst y) (snd (snd y))"
  proof (cases rule: mgr_step.cases)
    case (create config m L r m' L' n)
    with CreateConnection_holds [OF _ _ assms(1) create(3)] inv show ?thesis by simp
  next
    case (remove i m n L m' n' L')
    with RemoveConnection_holds [OF _ remove(3)] inv show ?thesis by simp
  next
    case (use i m c n c' n' L)
    with use_holds [OF _ use(3)] conn_step_raw [OF use(4)] inv show ?thesis by simp
  qed
  with inv show ?thesis by (simp add: mgr_owns_ledger_def)
qed

interpretation manager_ledger: kept_invariant "mgr_step (Connection_Create cq rnd now0 now) V"
  "\<lambda>x. qp_fresh cq \<and> mgr_owns_ledger L0 x" for cq rnd now0 now V L0
  by unfold_locales (auto intro: mgr_step_holds)

text \<open>
  Whatever a connection manager does between its creation and its destruction, and whatever calls fail
  meanwhile, its destructor leaves the ledger as it was before the first connection.
\<close>

lemma manager_gives_everything_back:
  assumes "qp_fresh cq" and "Manager_Create pd scq rcq config = Inr m0"
    and "(mgr_step (Connection_Create cq rnd now0 now) V)\<^sup>*\<^sup>* (m0, n0, L0) (m, n, L)"
  shows "snd (Manager_dtor V m n L) = L0"
proof -
  have "mgr_owns_ledger L0 (m0, n0, L0)"
    using mgr_inv_Create [OF assms(2)] Manager_Create_holds [OF assms(2)] by (simp add: mgr_owns_ledger_def)
  with assms(1) have "mgr_owns_ledger L0 (m, n, L)" using manager_ledger.run_keeps [OF assms(3)] by blast
  then show ?thesis by (auto simp: mgr_owns_ledger_def intro: Manager_dtor_holds)
qed

end
