(* ===== verification/Program_Ledger.thy ===== *)
theory Program_Ledger
  imports Program_Mains Connection_Ledger
begin

text \<open>
  The handles of the example programs (\<open>examples/server.cpp\<close> and \<open>examples/client.cpp\<close>) from the start
  to the exit: the lemmas follow the ledger through the opening of the stack, the handshake, the
  connections and the loops, and every path to an exit code through the destructors of the locals.
\<close>

section \<open>Descriptors\<close>

definition fds :: "ledger \<Rightarrow> int set" where
  "fds L = {fd. R_Fd fd \<in> lg_live L}"

lemma fds_creates:
  assumes "creates owns L (r, L')" and "\<And>x fd. R_Fd fd \<notin> set (owns x)"
  shows "fds L' = fds L"
  using assms by (auto simp: creates_def fds_def split: sum.splits)

lemma fds_give_back: "(\<And>fd. r \<noteq> R_Fd fd) \<Longrightarrow> fds (give_back r L) = fds L"
  by (auto simp: fds_def give_back_def)

lemma no_fd_owned: "R_Fd fd \<notin> set (Device_owns d)" "R_Fd fd \<notin> set (PD_owns p)" "R_Fd fd \<notin> set (CQ_owns q)"
  by (auto simp: Device_owns_def PD_owns_def CQ_owns_def)

section \<open>The stack of the echo programs\<close>

lemma CQ_pair_ledger:
  assumes "verbs_fresh D"
  shows "case create_cqs D device depth L of
      (Inl st, L') \<Rightarrow> L' = L | (Inr (s, r), L') \<Rightarrow> CQ_dtor s (CQ_dtor r L') = L"
    and "fds (snd (create_cqs D device depth L)) = fds L"
proof -
  let ?config = "CompletionQueueConfig_default\<lparr>cqc_cq_depth := depth\<rparr>"
  obtain s L1 where s: "CQ_Create D (Some device) ?config L = (s, L1)" by fastforce
  obtain r L2 where r: "CQ_Create D (Some device) ?config L1 = (r, L2)" by fastforce
  note c = CQ_Create_creates [OF assms, of L "Some device" ?config, unfolded s] CQ_Create_creates [OF assms, of L1 "Some device" ?config, unfolded r]
  note d = c [THEN cq_raii.creates_dtor]
  show "case create_cqs D device depth L of
      (Inl st, L') \<Rightarrow> L' = L | (Inr (s, r), L') \<Rightarrow> CQ_dtor s (CQ_dtor r L') = L"
    using d s r by (cases s; cases r) (simp_all add: create_cqs_def)
  show "fds (snd (create_cqs D device depth L)) = fds L"
    using fds_creates [OF c(1) no_fd_owned(3)] fds_creates [OF c(2) no_fd_owned(3)] s r
    by (cases s; cases r) (simp_all add: create_cqs_def CQ_dtor_def fds_give_back)
qed

text \<open>Two pools, and two stacks, that hold the same handles.\<close>

definition same_pool :: "LocalBufferPool \<Rightarrow> LocalBufferPool \<Rightarrow> bool" where
  "same_pool p q \<longleftrightarrow> bp_mr q = bp_mr p \<and> bp_hugepage q = bp_hugepage p \<and> bp_base_addr q = bp_base_addr p \<and>
     bp_ring_ptr q = bp_ring_ptr p"

definition same_stack :: "rdma_stack \<Rightarrow> rdma_stack \<Rightarrow> bool" where
  "same_stack k k' \<longleftrightarrow> stk_device k' = stk_device k \<and> stk_pd k' = stk_pd k \<and> stk_send_cq k' = stk_send_cq k \<and>
     stk_recv_cq k' = stk_recv_cq k \<and> same_pool (stk_pool k) (stk_pool k')"

lemma open_stack_ledger:
  assumes "verbs_fresh D" and "mem_fresh M" and "open_stack D ro M L = (r, L1)"
  shows "(case r of None \<Rightarrow> L1 = L | Some k \<Rightarrow> \<forall>k'. same_stack k k' \<longrightarrow> close_stack k' L1 = L) \<and> fds L1 = fds L"
proof -
  obtain dv La where a: "Device_Open D None L = (dv, La)" by fastforce
  have ca: "creates Device_owns L (dv, La)" using Device_Open_creates(1) [OF assms(1), of L None] a by simp
  note a' = device_raii.creates_dtor [OF ca] fds_creates [OF ca no_fd_owned(1)]
  show ?thesis
  proof (cases dv)
    case (Inl st)
    with a a' assms(3) show ?thesis by (auto simp: open_stack_def)
  next
    case dv: (Inr device)
    obtain p Lb where b: "PD_Create D (Some device) La = (p, Lb)" by fastforce
    have cb: "creates PD_owns La (p, Lb)" using PD_Create_creates [OF assms(1), of La "Some device"] b by simp
    note b' = pd_raii.creates_dtor [OF cb] fds_creates [OF cb no_fd_owned(2)]
    show ?thesis
    proof (cases p)
      case (Inl st)
      with a a' dv b b' assms(3) show ?thesis by (auto simp: open_stack_def)
    next
      case p: (Inr pd)
      obtain q Lc where c: "create_cqs D device 4096 Lb = (q, Lc)" by fastforce
      note c' = CQ_pair_ledger [OF assms(1), where device = device and depth = 4096 and L = Lb, unfolded c]
      show ?thesis
      proof (cases q)
        case (Inl st)
        with a a' dv b b' p c c' assms(3) show ?thesis by (auto simp: open_stack_def)
      next
        case q: (Inr pair)
        obtain scq rcq where pair: "pair = (scq, rcq)" by fastforce
        obtain o' Ld where d: "Pool_Create D ro M (Some pd) echo_pool_config Lc = (o', Ld)" by fastforce
        note d' = Pool_Create_releases [OF assms(1,2), where ro = ro and pd = "Some pd" and config = echo_pool_config and L = Lc, unfolded d]
        show ?thesis
          using a a' dv b b' p c c' q pair d d' assms(3)
          by (cases o') (auto simp: open_stack_def close_stack_def same_stack_def same_pool_def fds_def)
      qed
    qed
  qed
qed

section \<open>Connections and channels\<close>

lemma QP_dtor_raw: "qp_raw q' = qp_raw q \<Longrightarrow> QP_dtor q' L = QP_dtor q L"
  by (simp add: QP_dtor_def)

lemma Connection_Create_ledger:
  assumes "qp_fresh cq" and "Connection_Create cq rnd now0 now pd scq rcq config L = (r, L1)"
  shows "case r of Inl st \<Rightarrow> L1 = L | Inr c \<Rightarrow> \<forall>q. qp_raw q = qp_raw (conn_qp c) \<longrightarrow> QP_dtor q L1 = L"
proof (cases r)
  case (Inl st)
  with connection_never_leaks [OF assms(2,1)] show ?thesis by simp
next
  case (Inr c)
  with connection_never_leaks [OF assms(2,1)] have "QP_dtor (conn_qp c) L1 = L" by (simp add: Connection_dtor_ledger)
  with Inr show ?thesis by (auto simp: QP_dtor_def split: if_splits)
qed

lemma Channel_Accept_ledger:
  assumes "\<And>fd. accept_ret = Inr fd \<Longrightarrow> 0 \<le> fd \<and> fd \<notin> fds L"
  shows "case Channel_Accept poll_ret accept_ret peer L of (Inl st, L') \<Rightarrow> L' = L | (Inr ch, L') \<Rightarrow> Channel_dtor ch L' = L"
proof (cases poll_ret)
  case (Inr n)
  then show ?thesis using assms
    by (cases accept_ret) (simp_all add: Channel_Accept_def Channel_dtor_def Channel_Close_def fds_def)
qed (simp add: Channel_Accept_def)

lemma Channel_Connect_ledger:
  assumes "\<And>as a. addrs = Some as \<Longrightarrow> a \<in> set as \<Longrightarrow> ca_socket a \<notin> fds L" and "Channel_Connect addrs host port L = (r, L')"
  shows "case r of Inl st \<Rightarrow> L' = L | Inr ch \<Rightarrow> Channel_dtor ch L' = L"
proof (cases addrs)
  case None
  with assms(2) show ?thesis by (auto simp: Channel_Connect_def)
next
  case (Some as)
  then have "\<forall>a\<in>set as. R_Fd (ca_socket a) \<notin> lg_live L" using assms(1) by (auto simp: fds_def)
  from handshake_no_descriptor_leak [OF this, of "[]" host port None] assms(2) Some show ?thesis by (auto split: sum.splits)
qed

lemma Pool_Allocate_same: "Pool_Allocate p = Inr (b, p') \<Longrightarrow> same_pool p p'"
  by (auto simp: Pool_Allocate_def same_pool_def bind_chk_eq_Inr_conv Let_def split: if_splits)

lemma same_pool_trans: "same_pool p q \<Longrightarrow> same_pool q r \<Longrightarrow> same_pool p r"
  by (simp add: same_pool_def)

lemma post_receives_pool: "post_receives V conn k i p n = Inr (p', n') \<Longrightarrow> same_pool p p'"
proof (induction k arbitrary: i p n)
  case (Suc k)
  from Suc.prems obtain b p1 n1 where "Pool_Allocate p = Inr (b, p1)" "post_receives V conn k (Suc i) p1 n1 = Inr (p', n')"
    by (auto simp: bind_chk_eq_Inr_conv Let_def split: if_splits prod.splits)
  with Suc.IH show ?case by (blast intro: same_pool_trans Pool_Allocate_same)
qed (simp add: same_pool_def)

section \<open>The echo server\<close>

text \<open>A server state with the same handles, at the same ledger.\<close>

definition same_handles :: "'n EchoServer \<Rightarrow> 'n EchoServer \<Rightarrow> bool" where
  "same_handles s s' \<longleftrightarrow> same_stack (eo_stack s) (eo_stack s') \<and> eo_listener s' = eo_listener s"

lemma same_handles_simps [simp]: "same_handles s s" "same_handles s (t\<lparr>eo_ledger := L\<rparr>) = same_handles s t"
  "same_handles s (t\<lparr>eo_net := n\<rparr>) = same_handles s t"
  by (simp_all add: same_handles_def same_stack_def same_pool_def)

lemma same_handles_trans: "same_handles s t \<Longrightarrow> same_handles t u \<Longrightarrow> same_handles s u"
  by (simp add: same_handles_def same_stack_def same_pool_def)

lemma message_loop_handles:
  "message_loop fuel running poll_cq conn i s = Some (Inr s') \<Longrightarrow> same_handles s s' \<and> eo_ledger s' = eo_ledger s"
proof (induction fuel arbitrary: i s)
  case (Suc fuel)
  from Suc.prems show ?case
  proof (cases "running i \<and> conn_state conn = CONNECTED")
    case True
    with Suc.prems obtain d n out where
      "message_loop fuel running poll_cq conn (Suc i) (s\<lparr>eo_dispatcher := d, eo_net := n, eo_out := out\<rparr>) = Some (Inr s')"
      by (auto split: sum.splits)
    from Suc.IH [OF this] show ?thesis by (simp add: same_handles_def)
  qed auto
qed simp

lemma drop_conn_ledger [simp]:
  "eo_ledger (drop_conn V c s) = snd (Connection_dtor V c (eo_net s) (eo_ledger s))"
  "same_handles t (drop_conn V c s) = same_handles t s"
  by (simp_all add: drop_conn_def same_handles_def split: prod.splits)

lemma serve_client_ledger:
  assumes "qp_fresh cq" and "ae_create E = Connection_Create cq rnd now0 now"
    and "serve_client fuel running poll_cq V E conn_ptr channel s = Some (Inr s')"
  shows "same_handles s s' \<and> eo_ledger s' = eo_ledger s"
proof -
  obtain r L where mk: "Connection_Create cq rnd now0 now (Some (stk_pd (eo_stack s))) (Some (stk_send_cq (eo_stack s)))
      (Some (stk_recv_cq (eo_stack s))) (ae_config E) (eo_ledger s) = (r, L)" by fastforce
  note led = Connection_Create_ledger [OF assms(1) mk]
  show ?thesis
  proof (cases r)
    case (Inl st)
    with mk assms(2,3) led show ?thesis by (simp add: serve_client_def same_handles_def same_stack_def same_pool_def)
  next
    case (Inr conn)
    with led have gone: "QP_dtor q L = eo_ledger s" if "qp_raw q = qp_raw (conn_qp conn)" for q
      using that by simp
    have served: "same_handles s t \<and> eo_ledger t = eo_ledger s"
      if run: "serve_connected fuel running poll_cq V conn_ptr c u = Some (Inr t)" and u: "same_handles s u" "eo_ledger u = L"
        and c: "conn_qp c = conn_qp conn" for c t u
    proof -
      from run obtain p n t' where p: "post_receives V c 16 0 (stk_pool (eo_stack u)) (eo_net u) = Inr (p, n)"
        and loop: "message_loop fuel running poll_cq c 0 (u\<lparr>eo_dispatcher := RegisterConnection (conn_id_of c) conn_ptr (Some kEcho_OnCompletion) (eo_dispatcher u),
            eo_stack := (eo_stack u)\<lparr>stk_pool := p\<rparr>, eo_net := n\<rparr>) = Some (Inr t')" and t: "t = drop_conn V c t'"
        by (auto simp: serve_connected_def Let_def bind_chk_eq_Inr_conv split: sum.splits)
      from message_loop_handles [OF loop] post_receives_pool [OF p] u
      have "same_handles s t'" "eo_ledger t' = L" by (auto simp: same_handles_def same_stack_def same_pool_def)
      with t gone c show ?thesis by (simp add: Connection_dtor_ledger)
    qed
    from assms(2,3) mk Inr show ?thesis
      by (auto simp: serve_client_def Let_def gone Connect_qp Connection_dtor_ledger dest!: served Connect_qp
          split: sum.splits option.splits prod.splits if_splits)
  qed
qed

lemma echo_iteration_ledger:
  assumes "qp_fresh cq" and "ae_create E = Connection_Create cq rnd now0 now"
    and "\<And>fd. ae_accept E = Inr fd \<Longrightarrow> 0 \<le> fd \<and> fd \<notin> fds (eo_ledger s)"
    and "echo_iteration fuel running poll_cq V E conn_ptr s = Some (Inr s')"
  shows "same_handles s s' \<and> eo_ledger s' = eo_ledger s"
proof -
  obtain r L where acc: "Channel_Accept (ae_poll E) (ae_accept E) (ae_peer E) (eo_ledger s) = (r, L)" by fastforce
  have "case Channel_Accept (ae_poll E) (ae_accept E) (ae_peer E) (eo_ledger s) of
      (Inl st, L') \<Rightarrow> L' = eo_ledger s | (Inr ch, L') \<Rightarrow> Channel_dtor ch L' = eo_ledger s"
    using assms(3) by (rule Channel_Accept_ledger)
  with acc have led: "case r of Inl st \<Rightarrow> L = eo_ledger s | Inr ch \<Rightarrow> Channel_dtor ch L = eo_ledger s" by simp
  show ?thesis
  proof (cases r)
    case (Inl st)
    with led acc assms(4) show ?thesis by (auto simp: echo_iteration_def)
  next
    case (Inr ch)
    with acc assms(4) obtain t where t: "serve_client fuel running poll_cq V E conn_ptr ch (s\<lparr>eo_ledger := L\<rparr>) = Some (Inr t)"
      "s' = t\<lparr>eo_ledger := Channel_dtor ch (eo_ledger t)\<rparr>"
      by (auto simp: echo_iteration_def bind_chk_eq_Inr_conv)
    from serve_client_ledger [OF assms(1,2) t(1)] t(2) led Inr show ?thesis by (simp add: same_handles_def)
  qed
qed

lemma echo_loop_ledger:
  assumes "qp_fresh cq" and "\<And>i. ae_create (Es i) = Connection_Create cq rnd now0 now"
    and "\<And>i fd. ae_accept (Es i) = Inr fd \<Longrightarrow> 0 \<le> fd \<and> fd \<notin> fds (eo_ledger s)"
    and "echo_loop fuel rounds running inner poll_cq V Es ptrs i s = Some (Inr s')"
  shows "same_handles s s' \<and> eo_ledger s' = eo_ledger s"
  using assms(3,4)
proof (induction fuel arbitrary: i s)
  case (Suc fuel)
  show ?case
  proof (cases "running i")
    case True
    with Suc.prems(2) obtain s1 where s1: "echo_iteration rounds (inner i) poll_cq V (Es i) (ptrs i) s = Some (Inr s1)"
      "echo_loop fuel rounds running inner poll_cq V Es ptrs (Suc i) s1 = Some (Inr s')"
      by (auto split: option.splits sum.splits)
    from echo_iteration_ledger [OF assms(1,2) Suc.prems(1) s1(1)] have one: "same_handles s s1" "eo_ledger s1 = eo_ledger s" by auto
    from Suc.IH [OF _ s1(2)] Suc.prems(1) one show ?thesis by (auto intro: same_handles_trans)
  qed (use Suc.prems(2) in auto)
qed simp

section \<open>The client\<close>

lemma Conn_Send_raw: "Conn_Send V buf w c n = (st, c', n') \<Longrightarrow> qp_raw (conn_qp c') = qp_raw (conn_qp c)"
  by (auto simp: Conn_Send_def with_qp_def PostSend_def DoPostSend_def post_wr_def Let_def dest!: ShouldSignal_frame split: if_splits prod.splits option.splits)

definition same_client :: "'n HelloClient \<Rightarrow> 'n HelloClient \<Rightarrow> bool" where
  "same_client c c' \<longleftrightarrow> same_stack (hc_stack c) (hc_stack c') \<and> hc_channel c' = hc_channel c \<and>
     qp_raw (conn_qp (hc_conn c')) = qp_raw (conn_qp (hc_conn c))"

lemma send_hello_same:
  assumes "send_hello V c = Inr c'"
  shows "same_client c c'"
proof -
  from assms obtain buf p where p: "Pool_Allocate (stk_pool (hc_stack c)) = Inr (buf, p)"
    by (auto simp: send_hello_def bind_chk_eq_Inr_conv)
  note same = Pool_Allocate_same [OF p]
  show ?thesis
  proof (cases "Buffer_IsValid buf")
    case True
    obtain st k n where k: "Conn_Send V buf (WrId_Encode (conn_id_of (hc_conn c)) REQUEST_SEND 0 (of_nat (hc_count c)))
      (hc_conn c) (hc_net c) = (st, k, n)" by (metis prod_cases3)
    from assms p True k same Conn_Send_raw [OF k] show ?thesis
      by (auto simp: send_hello_def bind_chk_eq_Inr_conv Let_def same_client_def same_stack_def)
  next
    case False
    with assms p same show ?thesis by (auto simp: send_hello_def bind_chk_eq_Inr_conv same_client_def same_stack_def)
  qed
qed

lemma hello_loop_same:
  "hello_loop fuel running due poll_cq V i c = Some (Inr c') \<Longrightarrow> same_client c c'"
proof (induction fuel arbitrary: i c)
  case (Suc fuel)
  show ?case
  proof (cases "running i \<and> conn_state (hc_conn c) = CONNECTED")
    case True
    with Suc.prems obtain c1 where c1: "hello_round poll_cq V (due i) c = Inr c1" "hello_loop fuel running due poll_cq V (Suc i) c1 = Some (Inr c')"
      by (auto split: sum.splits)
    from c1(1) obtain c0 where "(if due i then send_hello V c else Inr c) = Inr c0" "same_client c0 c1"
      by (auto simp: hello_round_def bind_chk_eq_Inr_conv same_client_def same_stack_def same_pool_def)
    then have "same_client c c1" using send_hello_same [of V c c0]
      by (auto simp: same_client_def same_stack_def same_pool_def split: if_splits)
    with Suc.IH [OF c1(2)] show ?thesis by (auto simp: same_client_def same_stack_def same_pool_def)
  qed (use Suc.prems in \<open>auto simp: same_client_def same_stack_def same_pool_def\<close>)
qed simp

lemma Hello_start_ledger:
  assumes "verbs_fresh (ce_dev E)" and "mem_fresh (ce_mem E)" and "qp_fresh cq" and "ce_create E = Connection_Create cq rnd now0 now"
    and "\<And>as a. ce_addrs E = Some as \<Longrightarrow> a \<in> set as \<Longrightarrow> ca_socket a \<notin> fds L"
    and "Hello_start V E host port conn_ptr mem net L = Some (Inr (r, L'))"
  shows "case r of None \<Rightarrow> L' = L
    | Some c \<Rightarrow> \<forall>c'. same_client c c' \<longrightarrow>
        close_stack (hc_stack c') (Channel_dtor (hc_channel c') (QP_dtor (conn_qp (hc_conn c')) L')) = L"
proof -
  obtain k L1 where k: "open_stack (ce_dev E) (ce_relaxed_ordering E) (ce_mem E) L = (k, L1)" by fastforce
  note k' = open_stack_ledger [OF assms(1,2) k]
  show ?thesis
  proof (cases k)
    case None
    with k k' assms(6) show ?thesis by (auto simp: Hello_start_def)
  next
    case (Some stack)
    obtain ch L2 where ch: "Channel_Connect (ce_addrs E) host port L1 = (ch, L2)" by fastforce
    have ch': "case ch of Inl st \<Rightarrow> L2 = L1 | Inr c \<Rightarrow> Channel_dtor c L2 = L1"
      using assms(5) k' by (intro Channel_Connect_ledger [OF _ ch]) simp
    show ?thesis
    proof (cases ch)
      case (Inl st)
      with assms(6) k Some ch ch' k' show ?thesis by (auto simp: Hello_start_def same_stack_def same_pool_def)
    next
      case (Inr channel)
      obtain conn L3 where conn: "Connection_Create cq rnd now0 now (Some (stk_pd stack)) (Some (stk_send_cq stack)) (Some (stk_recv_cq stack))
          (ce_config E) L2 = (conn, L3)" by fastforce
      note conn' = Connection_Create_ledger [OF assms(3) conn]
      have shut: "same_stack stack s \<Longrightarrow> close_stack s (Channel_dtor channel L2) = L" for s using k' Some ch' Inr by simp
      show ?thesis
      proof (cases conn)
        case (Inl st)
        with assms(4,6) k Some ch Inr conn conn' shut show ?thesis by (auto simp: Hello_start_def same_stack_def same_pool_def)
      next
        case made: (Inr c0)
        from conn' made have gone: "QP_dtor q L3 = L2" if "qp_raw q = qp_raw (conn_qp c0)" for q using that by simp
        have same: "same_stack stack stack" by (simp add: same_stack_def same_pool_def)
        have "(\<exists>q. qp_raw q = qp_raw (conn_qp c0) \<and> r = None \<and> L' = close_stack stack (Channel_dtor channel (QP_dtor q L3))) \<or>
          (\<exists>c p. r = Some c \<and> L' = L3 \<and> hc_stack c = stack\<lparr>stk_pool := p\<rparr> \<and> same_pool (stk_pool stack) p \<and>
             hc_channel c = channel \<and> conn_qp (hc_conn c) = conn_qp c0)"
          using assms(6)
          by (simp add: Hello_start_def k Some ch Inr assms(4) conn made Let_def Connection_dtor_ledger)
            (auto simp: bind_chk_eq_Inr_conv dest!: Connect_qp dest: post_receives_pool
              split: sum.splits option.splits prod.splits if_splits)
        then show ?thesis
        proof (elim disjE exE conjE)
          fix q assume "qp_raw q = qp_raw (conn_qp c0)" "r = None" "L' = close_stack stack (Channel_dtor channel (QP_dtor q L3))"
          then show ?thesis by (simp add: gone shut [OF same])
        next
          fix c p assume c: "r = Some c" "L' = L3" "hc_stack c = stack\<lparr>stk_pool := p\<rparr>" "same_pool (stk_pool stack) p"
            "hc_channel c = channel" "conn_qp (hc_conn c) = conn_qp c0"
          have "close_stack (hc_stack c') (Channel_dtor (hc_channel c') (QP_dtor (conn_qp (hc_conn c')) L')) = L"
            if "same_client c c'" for c'
          proof -
            from that c have "same_stack stack (hc_stack c')" by (auto simp: same_client_def same_stack_def same_pool_def)
            from shut [OF this] that c show ?thesis by (simp add: same_client_def gone)
          qed
          with c(1) show ?thesis by simp
        qed
      qed
    qed
  qed
qed

section \<open>No program leaks\<close>

text \<open>The descriptors of the candidates of a listener.\<close>

definition listen_fds :: "(int \<times> bool) list option \<Rightarrow> int set" where
  "listen_fds addrs = (case addrs of None \<Rightarrow> {} | Some as \<Rightarrow> fst ` set as)"

lemma Server_Create_ledger:
  assumes "listen_fds addrs \<inter> fds L = {}" and "Server_Create addrs listen_err port L = (r, L')"
  shows "case r of Inl st \<Rightarrow> L' = L | Inr t \<Rightarrow> Server_dtor t L' = L \<and> fds L' \<subseteq> fds L \<union> listen_fds addrs"
proof (cases addrs)
  case None
  with assms(2) show ?thesis by (auto simp: Server_Create_def CreateListenSocket_def)
next
  case (Some bs)
  then have f: "\<forall>a\<in>set bs. R_Fd (fst a) \<notin> lg_live L" using assms(1) by (auto simp: listen_fds_def fds_def)
  have in_bs: "bind_loop as M = (fd, M') \<Longrightarrow> 0 \<le> fd \<Longrightarrow> fd \<in> fst ` set as" for as M fd M'
  proof (induction as arbitrary: M)
    case (Cons a as)
    then show ?case by (cases a) (auto simp: Let_def simp del: give_back_live split: if_splits dest!: Cons.IH)
  qed simp
  obtain fd L1 where b: "bind_loop bs L = (fd, L1)" by fastforce
  from handshake_no_descriptor_leak [of "[]" L bs "[]" port listen_err, OF _ f] assms(2) Some
  have "case r of Inl st \<Rightarrow> L' = L | Inr t \<Rightarrow> Server_dtor t L' = L" by (auto split: sum.splits)
  moreover have "fds L' \<subseteq> fds L \<union> listen_fds addrs" if "r = Inr t" for t
    using that assms(2) Some b bind_loop_ledger [OF f b] in_bs [OF b]
    by (force simp: Server_Create_def CreateListenSocket_def listen_fds_def fds_def Let_def split: if_splits option.splits)
  ultimately show ?thesis by (auto split: sum.splits)
qed

text \<open>The handles, the memory and the queue pairs that are handed out are not in use.\<close>

definition conforming ::
  "dev_verbs \<Rightarrow> mem_env \<Rightarrow> (ledger \<Rightarrow> ptr \<Rightarrow> ptr \<Rightarrow> ptr \<Rightarrow> QueuePairConfig \<Rightarrow> int + ptr \<times> u32) \<Rightarrow> bool" where
  "conforming D M cq \<longleftrightarrow> verbs_fresh D \<and> mem_fresh M \<and> qp_fresh cq"

text \<open>
  C15. The example programs leak nothing: on every path to an exit code, whatever calls fail and
  whenever they are stopped, all handles, all memory and all descriptors the server or the client has
  obtained are given back, once.
\<close>

theorem echo_programs_leak_nothing:
  assumes "conforming D M cq"
    and "\<And>i. ae_create (Es i) = Connection_Create cq rnd now0 now"
    and "listen_fds addrs \<inter> fds L = {}"
    and "\<And>i fd. ae_accept (Es i) = Inr fd \<Longrightarrow> 0 \<le> fd \<and> fd \<notin> fds L \<union> listen_fds addrs"
    and "ce_dev E = D" and "ce_mem E = M" and "ce_create E = Connection_Create cq rnd now0 now"
    and "\<And>as a. ce_addrs E = Some as \<Longrightarrow> a \<in> set as \<Longrightarrow> ca_socket a \<notin> fds L"
  shows "(Echo_main fuel rounds running inner poll_cq V Es ptrs D ro M addrs listen_err argv net L = Some (Inr (code, out, L')) \<longrightarrow> L' = L) \<and>
    (Hello_main fuel running due poll_cq V E conn_ptr argv mem net L = Some (Inr (code, out, L')) \<longrightarrow> L' = L)"
proof -
  from assms(1) have c: "verbs_fresh D" "mem_fresh M" "qp_fresh cq" by (simp_all add: conforming_def)
  have "L' = L" if run: "Hello_main fuel running due poll_cq V E conn_ptr argv mem net L = Some (Inr (code, out, L'))"
  proof (cases "hello_args argv")
    case (Inr a)
    show ?thesis
    proof (cases a)
      case (Some hp)
      obtain host port where "hp = (host, port)" by fastforce
      with run Inr Some obtain r L1 where st: "Hello_start V E host port conn_ptr mem net L = Some (Inr (r, L1))"
        and rest: "(case r of None \<Rightarrow> Some (Inr (1, [], L1))
          | Some c \<Rightarrow> map_option (\<lambda>r. bind_chk r (\<lambda>c'. Inr (0, hc_out c',
                   close_stack (hc_stack c') (Channel_dtor (hc_channel c') (snd (Connection_dtor V (hc_conn c') (hc_net c') L1))))))
                 (hello_loop fuel running due poll_cq V 0 c)) = Some (Inr (code, out, L'))"
        by (auto simp: Hello_main_def split: option.splits sum.splits prod.splits)
      have led: "case r of None \<Rightarrow> L1 = L
        | Some c \<Rightarrow> \<forall>c'. same_client c c' \<longrightarrow>
            close_stack (hc_stack c') (Channel_dtor (hc_channel c') (QP_dtor (conn_qp (hc_conn c')) L1)) = L"
        by (rule Hello_start_ledger [OF _ _ c(3) assms(7) _ st]) (use c assms(5,6,8) in auto)
      with rest show ?thesis
        by (auto simp: bind_chk_eq_Inr_conv Connection_dtor_ledger dest: hello_loop_same split: option.splits)
    qed (use run Inr in \<open>auto simp: Hello_main_def\<close>)
  qed (use run in \<open>auto simp: Hello_main_def\<close>)
  moreover have "L' = L"
    if run: "Echo_main fuel rounds running inner poll_cq V Es ptrs D ro M addrs listen_err argv net L = Some (Inr (code, out, L'))"
  proof -
    from run obtain port where port: "server_port_arg argv = Inr port" by (auto simp: Echo_main_def split: sum.splits)
    obtain k L1 where k: "open_stack D ro M L = (k, L1)" by fastforce
    note k' = open_stack_ledger [OF c(1,2) k]
    show ?thesis
    proof (cases k)
      case None
      with k k' run port show ?thesis by (auto simp: Echo_main_def Echo_Server_start_def)
    next
      case (Some stack)
      have shut: "same_stack stack s \<Longrightarrow> close_stack s L1 = L" for s using k' Some by simp
      obtain t L2 where t: "Server_Create addrs listen_err port L1 = (t, L2)" by fastforce
      have t': "case t of Inl st \<Rightarrow> L2 = L1 | Inr v \<Rightarrow> Server_dtor v L2 = L1 \<and> fds L2 \<subseteq> fds L1 \<union> listen_fds addrs"
        using assms(3) k' by (intro Server_Create_ledger [OF _ t]) simp
      show ?thesis
      proof (cases t)
        case (Inl st)
        with k Some t t' shut run port show ?thesis
          by (auto simp: Echo_main_def Echo_Server_start_def same_stack_def same_pool_def)
      next
        case (Inr v)
        let ?s = "\<lparr>eo_stack = stack, eo_dispatcher = SetErrorHandler nullptr (Some kEcho_OnError) Dispatcher_new,
            eo_listener = v, eo_net = net, eo_out = [], eo_ledger = L2\<rparr>"
        from run k Some t Inr port obtain s' where s': "echo_loop fuel rounds running inner poll_cq V Es ptrs 0 ?s = Some (Inr s')"
          "L' = close_stack (eo_stack s') (Server_dtor (eo_listener s') (eo_ledger s'))"
          by (auto simp: Echo_main_def Echo_Server_start_def bind_chk_eq_Inr_conv)
        have fresh: "0 \<le> fd \<and> fd \<notin> fds (eo_ledger ?s)" if "ae_accept (Es i) = Inr fd" for i fd
          using assms(4) [OF that] t' Inr k' by auto
        from echo_loop_ledger [OF c(3) assms(2) fresh s'(1)] have "same_handles ?s s'" "eo_ledger s' = L2" by auto
        with s'(2) t' Inr shut show ?thesis by (simp add: same_handles_def)
      qed
    qed
  qed
  ultimately show ?thesis by blast
qed

text \<open>
  The sample server accepts one client, whose connection is given up because the port of the device
  cannot be queried, and is then stopped.
\<close>

definition sample_guest :: accept_env where
  "sample_guest = sample_refusal\<lparr>ae_create := Connection_Create sample_create_qp id 0 0\<rparr>"

lemma sample_conforming: "conforming (se_dev sample_server_env) sample_mem sample_create_qp"
  using sample_verbs_fresh(2) sample_mem_fresh sample_create_qp_fresh by (simp add: conforming_def sample_server_env_def)

theorem echo_programs_leak_nothing_witness:
  "\<exists>out. Echo_main 2 1 (\<lambda>i. i < 1) (\<lambda>_ _. False) (\<lambda>_ _ n. (Inr [], n)) table_verbs (\<lambda>_. sample_guest) (\<lambda>_. 9)
     (se_dev sample_server_env) False sample_mem (Some [(3, True)]) None [''server''] (\<lambda>_. QP_RESET) ledger_empty =
     Some (Inr (0, out, ledger_empty))"
proof -
  have two: "echo_loop 2 = (echo_loop (Suc (Suc 0)) :: _ \<Rightarrow> _ \<Rightarrow> _ \<Rightarrow> _ \<Rightarrow> _ \<Rightarrow> _ \<Rightarrow> _ \<Rightarrow> _ \<Rightarrow> (ptr \<Rightarrow> QpState) EchoServer \<Rightarrow> _)"
    by (simp only: numeral_2_eq_2)
  have "\<exists>out L'. Echo_main 2 1 (\<lambda>i. i < 1) (\<lambda>_ _. False) (\<lambda>_ _ n. (Inr [], n)) table_verbs (\<lambda>_. sample_guest) (\<lambda>_. 9)
     (se_dev sample_server_env) False sample_mem (Some [(3, True)]) None [''server''] (\<lambda>_. QP_RESET) ledger_empty =
     Some (Inr (0, out, L'))"
    by (simp add: Echo_main_def server_port_arg_def Echo_Server_start_def open_stack_def sample_server_env_def sample_verbs_def
        Device_Open_def PD_Create_def create_cqs_def CQ_Create_def CompletionQueueConfig_default_def Pool_Create_def MR_Register_def Let_def
        echo_pool_config_def BufferPoolConfig_default_def DefaultAllocator_Allocate_def sample_mem_def
        Server_Create_def CreateListenSocket_def two echo_iteration_def sample_guest_def sample_refusal_def Channel_Accept_def
        serve_client_def Connection_Create_def QP_Create_def sample_create_qp_def Conn_GetLocalParams_def
        ConnectionConfig_default_def QueuePairConfig_default_def QP_GetLocalParams_def Device_QueryPort_def)
  then obtain out L' where run: "Echo_main 2 1 (\<lambda>i. i < 1) (\<lambda>_ _. False) (\<lambda>_ _ n. (Inr [], n)) table_verbs (\<lambda>_. sample_guest) (\<lambda>_. 9)
     (se_dev sample_server_env) False sample_mem (Some [(3, True)]) None [''server''] (\<lambda>_. QP_RESET) ledger_empty =
     Some (Inr (0, out, L'))" by blast
  let ?E = "sample_client_env\<lparr>ce_create := Connection_Create sample_create_qp id 0 0\<rparr>"
  have "L' = ledger_empty"
    by (rule echo_programs_leak_nothing [OF sample_conforming, where E = ?E and rnd = id and ?now0.0 = 0 and now = 0, THEN conjunct1,
        THEN mp, OF _ _ _ _ _ _ _ run])
      (auto simp: sample_guest_def sample_refusal_def sample_client_env_def listen_fds_def fds_def)
  with run show ?thesis by blast
qed

end
